(* ===== verification/Prelude.thy ===== *)
theory Prelude
  imports Main "HOL-Library.Word" "HOL-Library.Monad_Syntax" "HOL-Library.Sublist"
begin

text \<open>
  What every component shares: the names of the C integer types, GLib's \<open>GError\<close> with the
  "returns NULL and sets the error" convention, the outcome type of code that can leave the
  defined behaviour of C, and C strings with their terminator.
\<close>

named_theorems outcome_simps \<open>evaluation of the outcome monad and of the return convention\<close>
named_theorems json_simps \<open>member access on documents, under the documented laws of JSON-GLib\<close>

section \<open>Integers\<close>

type_synonym gint64 = "64 word"
type_synonym guint64 = "64 word"
type_synonym gsize = "64 word"
type_synonym gssize = "64 word"
type_synonym guint = "32 word"
type_synonym byte = "8 word"

section \<open>GError and the return convention\<close>

text \<open>
  The enumerators of \<open>GIOErrorEnum\<close> that the program names, and the rest by number.
\<close>

datatype gio_error =
    G_IO_ERROR_FAILED
  | G_IO_ERROR_NOT_FOUND
  | G_IO_ERROR_EXISTS
  | G_IO_ERROR_IS_DIRECTORY
  | G_IO_ERROR_INVALID_ARGUMENT
  | G_IO_ERROR_PERMISSION_DENIED
  | G_IO_ERROR_NOT_INITIALIZED
  | G_IO_ERROR_ALREADY_MOUNTED
  | G_IO_ERROR_CANCELLED
  | G_IO_ERROR_TIMED_OUT
  | G_IO_ERROR_HOST_UNREACHABLE
  | G_IO_ERROR_NUMBER nat

text \<open>A \<open>GError\<close>: of the domain \<open>G_IO_ERROR\<close>, or of another domain.\<close>

datatype gerror =
    Io_error gio_error string
  | Foreign_error string int string

text \<open>
  A function that takes a \<open>GError **\<close> returns its value, or NULL (FALSE, -1) with the error
  set (\<open>Fail (Some e)\<close>) or, where the code does not set it, with the error left NULL
  (\<open>Fail None\<close>).
\<close>

datatype 'a ret = Ok 'a | Fail "gerror option"

definition g_error_matches :: "gerror option \<Rightarrow> gio_error \<Rightarrow> bool" where
  "g_error_matches e code \<longleftrightarrow> (case e of Some (Io_error c _) \<Rightarrow> c = code | _ \<Rightarrow> False)"

lemma g_error_matches_simps [simp]:
  "g_error_matches None code \<longleftrightarrow> False"
  "g_error_matches (Some (Io_error c m)) code \<longleftrightarrow> c = code"
  "g_error_matches (Some (Foreign_error d n m)) code \<longleftrightarrow> False"
  by (simp_all add: g_error_matches_def)

fun is_ok :: "'a ret \<Rightarrow> bool" where
  "is_ok (Ok _) = True"
| "is_ok (Fail _) = False"

section \<open>Outcomes\<close>

text \<open>
  An operation of the C code is a function into \<open>'a option\<close>: \<open>Some\<close> of the value and the new
  state where the operation returns, \<open>None\<close> where it does not return in a defined state (a
  NULL or dangling pointer is used, memory is accessed out of bounds, or a wait never ends).
  The do-notation of \<open>HOL-Library.Monad_Syntax\<close> sequences operations.
\<close>

abbreviation (input) stuck :: "'a option" where
  "stuck \<equiv> None"

lemma bind_eq_Some_pair:
  "(do { (x, s) \<leftarrow> m; f x s }) = Some r \<longleftrightarrow> (\<exists>x s. m = Some (x, s) \<and> f x s = Some r)"
  by (cases m) auto

lemma bind_eq_Some_triple:
  "(do { (x, s, t) \<leftarrow> m; f x s t }) = Some r \<longleftrightarrow>
     (\<exists>x s t. m = Some (x, s, t) \<and> f x s t = Some r)"
  by (cases m) auto

lemmas outcome_elims = bind_eq_Some_pair bind_eq_Some_triple

section \<open>C strings\<close>

text \<open>
  \<open>s[i]\<close> of a NUL-terminated string: the terminator may be read, nothing beyond it.
\<close>

definition c_at :: "string \<Rightarrow> nat \<Rightarrow> char option" where
  "c_at s i = (if i < length s then Some (s ! i) else if i = length s then Some (CHR 0x00) else None)"

lemma c_at_append: "c_at (xs @ ys) (length xs) = Some (case ys of [] \<Rightarrow> CHR 0x00 | y # _ \<Rightarrow> y)"
  by (cases ys) (simp_all add: c_at_def nth_append)

text \<open>The part of a string before a separator.\<close>

lemma takeWhile_no_sep: "c \<notin> set l \<Longrightarrow> takeWhile (\<lambda>x. x \<noteq> c) l = l"
  by (simp add: takeWhile_eq_all_conv) blast

lemma takeWhile_sep: "c \<notin> set l \<Longrightarrow> takeWhile (\<lambda>x. x \<noteq> c) (l @ c # r) = l"
  by (induction l) auto

text \<open>\<open>printf\<close>'s \<open>%u\<close>: the decimal digits of a number.\<close>

fun decimal :: "nat \<Rightarrow> string" where
  "decimal n =
     (if n < 10 then [char_of (48 + n)] else decimal (n div 10) @ [char_of (48 + n mod 10)])"

declare decimal.simps [simp del]

lemma decimal_nonempty: "decimal n \<noteq> []"
  by (subst decimal.simps) simp

lemma byte_mod: "word_of_nat (unat b mod 256) = (b :: byte)"
proof -
  have "unat b < 2 ^ LENGTH(8)"
    by (rule unsigned_less)
  then show ?thesis
    by simp
qed

end
