(* ===== verification/Json_Glib.thy ===== *)
theory Json_Glib
  imports Prelude
begin

text \<open>
  JSON documents and what the C client uses of JSON-GLib and of GLib's base64 functions. The
  libraries are not part of the repository: their functions are the fields of a record that
  every definition using them takes as an argument, and their documented behaviour is stated by
  the predicates \<open>json_access_ok\<close>, \<open>json_text_ok\<close> and \<open>base64_ok\<close>, which appear as hypotheses
  of the properties that rely on it.
\<close>

section \<open>Documents\<close>

text \<open>
  A \<open>JsonNode\<close>. Integers are \<open>gint64\<close>, as JSON-GLib stores them; a number that is no such
  integer is kept as its text. The members of an object are in order, one per name.
\<close>

datatype json =
    JNull
  | JBool bool
  | JInt gint64
  | JNumber string
  | JString string
  | JArray "json list"
  | JObject "(string \<times> json) list"

text \<open>A pointer to a node, to an object or to an array: \<open>None\<close> is NULL.\<close>

type_synonym json_ptr = "json option"

section \<open>The library as a parameter\<close>

record json_lib =
  json_generator_to_data :: "json \<Rightarrow> string"
  json_parser_load_from_data :: "string \<Rightarrow> json_ptr ret"
  json_node_get_object :: "json_ptr \<Rightarrow> json_ptr"
  json_object_has_member :: "json_ptr \<Rightarrow> string \<Rightarrow> bool"
  json_object_get_object_member :: "json_ptr \<Rightarrow> string \<Rightarrow> json_ptr"
  json_object_get_array_member :: "json_ptr \<Rightarrow> string \<Rightarrow> json_ptr"
  json_object_get_string_member :: "json_ptr \<Rightarrow> string \<Rightarrow> string option"
  json_object_get_int_member :: "json_ptr \<Rightarrow> string \<Rightarrow> gint64"
  json_object_get_boolean_member :: "json_ptr \<Rightarrow> string \<Rightarrow> bool"
  json_array_get_length :: "json_ptr \<Rightarrow> nat"
  json_array_get_object_element :: "json_ptr \<Rightarrow> nat \<Rightarrow> json_ptr"
  g_base64_encode :: "byte list \<Rightarrow> string"
  g_base64_decode :: "string option \<Rightarrow> byte list"
  json_text :: "json \<Rightarrow> bool" \<comment> \<open>the documents the generator can write: valid UTF-8 text\<close>

text \<open>
  Access to a member that is there and has the type asked for; the null node has no string.
\<close>

definition json_access_ok :: "json_lib \<Rightarrow> bool" where
  "json_access_ok J \<longleftrightarrow>
     (\<forall>ms. json_node_get_object J (Some (JObject ms)) = Some (JObject ms)) \<and>
     (\<forall>ms k. json_object_has_member J (Some (JObject ms)) k = (map_of ms k \<noteq> None)) \<and>
     (\<forall>ms k os. map_of ms k = Some (JObject os) \<longrightarrow>
        json_object_get_object_member J (Some (JObject ms)) k = Some (JObject os)) \<and>
     (\<forall>ms k xs. map_of ms k = Some (JArray xs) \<longrightarrow>
        json_object_get_array_member J (Some (JObject ms)) k = Some (JArray xs)) \<and>
     (\<forall>ms k s. map_of ms k = Some (JString s) \<longrightarrow>
        json_object_get_string_member J (Some (JObject ms)) k = Some s) \<and>
     (\<forall>ms k. map_of ms k = Some JNull \<longrightarrow>
        json_object_get_string_member J (Some (JObject ms)) k = None) \<and>
     (\<forall>ms k i. map_of ms k = Some (JInt i) \<longrightarrow>
        json_object_get_int_member J (Some (JObject ms)) k = i) \<and>
     (\<forall>ms k b. map_of ms k = Some (JBool b) \<longrightarrow>
        json_object_get_boolean_member J (Some (JObject ms)) k = b) \<and>
     (\<forall>xs. json_array_get_length J (Some (JArray xs)) = length xs) \<and>
     (\<forall>xs i os. i < length xs \<longrightarrow> xs ! i = JObject os \<longrightarrow>
        json_array_get_object_element J (Some (JArray xs)) i = Some (JObject os))"

text \<open>
  The text of a document: one line without control characters (the generator is not set to
  pretty-print, and strings are escaped), which the parser reads back as the same document.
\<close>

definition json_text_ok :: "json_lib \<Rightarrow> bool" where
  "json_text_ok J \<longleftrightarrow>
     (\<forall>j. json_text J j \<longrightarrow>
        CHR 0x0A \<notin> set (json_generator_to_data J j) \<and>
        CHR 0x0D \<notin> set (json_generator_to_data J j) \<and>
        json_parser_load_from_data J (json_generator_to_data J j) = Ok (Some j))"

definition base64_ok :: "json_lib \<Rightarrow> bool" where
  "base64_ok J \<longleftrightarrow> (\<forall>bs. g_base64_decode J (Some (g_base64_encode J bs)) = bs)"

section \<open>The laws as rewrite rules\<close>

lemma json_access [json_simps]:
  assumes "json_access_ok J"
  shows "json_node_get_object J (Some (JObject ms)) = Some (JObject ms)"
    and "json_object_has_member J (Some (JObject ms)) k \<longleftrightarrow> map_of ms k \<noteq> None"
    and "map_of ms k = Some (JObject os) \<Longrightarrow>
           json_object_get_object_member J (Some (JObject ms)) k = Some (JObject os)"
    and "map_of ms k = Some (JArray xs) \<Longrightarrow>
           json_object_get_array_member J (Some (JObject ms)) k = Some (JArray xs)"
    and "map_of ms k = Some (JString s) \<Longrightarrow>
           json_object_get_string_member J (Some (JObject ms)) k = Some s"
    and "map_of ms k = Some JNull \<Longrightarrow>
           json_object_get_string_member J (Some (JObject ms)) k = None"
    and "map_of ms k = Some (JInt i) \<Longrightarrow>
           json_object_get_int_member J (Some (JObject ms)) k = i"
    and "map_of ms k = Some (JBool b) \<Longrightarrow>
           json_object_get_boolean_member J (Some (JObject ms)) k = b"
    and "json_array_get_length J (Some (JArray xs)) = length xs"
    and "n < length xs \<Longrightarrow> xs ! n = JObject os \<Longrightarrow>
           json_array_get_object_element J (Some (JArray xs)) n = Some (JObject os)"
  using assms unfolding json_access_ok_def by simp_all

lemma json_text_line:
  "json_text_ok J \<Longrightarrow> json_text J j \<Longrightarrow> CHR 0x0A \<notin> set (json_generator_to_data J j)"
  by (simp add: json_text_ok_def)

lemma json_text_roundtrip:
  "json_text_ok J \<Longrightarrow> json_text J j \<Longrightarrow>
     json_parser_load_from_data J (json_generator_to_data J j) = Ok (Some j)"
  by (simp add: json_text_ok_def)

lemma base64_roundtrip [json_simps]:
  "base64_ok J \<Longrightarrow> g_base64_decode J (Some (g_base64_encode J bs)) = bs"
  by (simp add: base64_ok_def)

end
