(* ===== verification/Proton_Rpc.thy ===== *)
theory Proton_Rpc
  imports Json_Glib
begin

text \<open>
  The JSON-RPC client of \<open>src/backend/proton-rpc.c\<close>: the connection state, one request/response
  exchange with its error mapping and its reconnection after a cancelled read, and the public
  functions built on it. The socket layer (GIO) is a parameter; the contract the client needs of
  it is the locale \<open>rpc_transport\<close>, inside which the pairing of replies with requests is proved.
\<close>

section \<open>Types\<close>

type_synonym conn_id = nat
type_synonym cancellable = "nat option" \<comment> \<open>a \<open>GCancellable *\<close>; NULL is \<open>None\<close>\<close>

text \<open>
  \<open>struct _ProtonRpc\<close>. \<open>writer\<close> is not owned: it points to the output stream inside a
  connection object, and is valid only while that connection is the one held in \<open>conn\<close>.
\<close>

record proton_rpc =
  rpc_conn :: "conn_id option"
  rpc_reader :: "conn_id option"
  rpc_writer :: conn_id
  rpc_lock :: bool
  rpc_next_id :: guint64
  rpc_socket_path :: string

record proton_entry =
  pe_name :: "string option"
  pe_is_dir :: bool
  pe_size :: gint64
  pe_mtime :: gint64
  pe_link_id :: "string option"
  pe_revision_id :: "string option"
  pe_has_thumbnail :: bool

record proton_event =
  ev_type :: "string option"
  ev_link_id :: "string option"
  ev_path :: "string option"

text \<open>
  What the client uses of GIO's sockets, over the state \<open>'w\<close> of the world outside the process:
  connecting to a Unix socket, writing all of a buffer, reading a line (\<open>Fail None\<close> at the end
  of the stream; \<open>stuck\<close> where the read blocks for ever), dropping the last reference to a
  connection.
\<close>

record 'w socket_ops =
  g_socket_client_connect :: "string \<Rightarrow> 'w \<Rightarrow> conn_id ret \<times> 'w"
  g_output_stream_write_all :: "conn_id \<Rightarrow> string \<Rightarrow> 'w \<Rightarrow> unit ret \<times> 'w"
  g_data_input_stream_read_line :: "conn_id \<Rightarrow> cancellable \<Rightarrow> 'w \<Rightarrow> (string ret \<times> 'w) option"
  g_io_stream_unref :: "conn_id \<Rightarrow> 'w \<Rightarrow> 'w"

section \<open>One exchange\<close>

definition build_request :: "guint64 \<Rightarrow> string \<Rightarrow> json option \<Rightarrow> json" where
  "build_request req_id method params =
     JObject ([(''id'', JInt req_id), (''method'', JString method)] @
              (case params of None \<Rightarrow> [] | Some p \<Rightarrow> [(''params'', p)]))"

text \<open>The output stream is reached through \<open>rpc->writer\<close>.\<close>

definition writer_stream :: "proton_rpc \<Rightarrow> conn_id option" where
  "writer_stream rpc = (if rpc_conn rpc = Some (rpc_writer rpc) then Some (rpc_writer rpc) else stuck)"

definition send_request ::
  "'w socket_ops \<Rightarrow> json_lib \<Rightarrow> proton_rpc \<Rightarrow> json \<Rightarrow> 'w \<Rightarrow> (unit ret \<times> 'w) option" where
  "send_request S J rpc req w = do {
     let line = json_generator_to_data J req;
     out \<leftarrow> writer_stream rpc;
     case g_output_stream_write_all S out line w of
       (Fail e, w) \<Rightarrow> Some (Fail e, w)
     | (Ok _, w) \<Rightarrow> Some (g_output_stream_write_all S out [CHR 0x0A] w)
   }"

fun gio_code :: "gint64 \<Rightarrow> gio_error" where
  "gio_code code =
     (if code = -32001 then G_IO_ERROR_NOT_FOUND
      else if code = -32002 then G_IO_ERROR_PERMISSION_DENIED
      else if code = -32003 then G_IO_ERROR_NOT_INITIALIZED
      else if code = -32005 then G_IO_ERROR_HOST_UNREACHABLE
      else if code = -32006 then G_IO_ERROR_EXISTS
      else G_IO_ERROR_FAILED)"

text \<open>
  The part of \<open>recv_response\<close> after the line was read. \<open>g_set_error_literal\<close> creates no error
  from a NULL message, and \<open>json_object_ref\<close> of NULL is NULL.
\<close>

definition decode_response :: "json_lib \<Rightarrow> string \<Rightarrow> json ret" where
  "decode_response J line =
     (case json_parser_load_from_data J line of
        Fail e \<Rightarrow> Fail e
      | Ok root \<Rightarrow>
          (let obj = json_node_get_object J root in
           if json_object_has_member J obj ''error'' then
             (let err = json_object_get_object_member J obj ''error'';
                  code = json_object_get_int_member J err ''code'';
                  msg = json_object_get_string_member J err ''message''
              in Fail (map_option (Io_error (gio_code code)) msg))
           else (case obj of None \<Rightarrow> Fail None | Some o1 \<Rightarrow> Ok o1)))"

definition recv_response ::
  "'w socket_ops \<Rightarrow> json_lib \<Rightarrow> proton_rpc \<Rightarrow> guint64 \<Rightarrow> cancellable \<Rightarrow> 'w \<Rightarrow> (json ret \<times> 'w) option" where
  "recv_response S J rpc expected_id cancellable w = do {
     reader \<leftarrow> rpc_reader rpc;
     (line, w) \<leftarrow> g_data_input_stream_read_line S reader cancellable w;
     Some (case line of Fail e \<Rightarrow> Fail e | Ok l \<Rightarrow> decode_response J l, w)
   }"

definition reconnect ::
  "'w socket_ops \<Rightarrow> proton_rpc \<Rightarrow> 'w \<Rightarrow> unit ret \<times> proton_rpc \<times> 'w" where
  "reconnect S rpc w =
     (let w = (case rpc_conn rpc of None \<Rightarrow> w | Some c \<Rightarrow> g_io_stream_unref S c w);
          rpc = rpc\<lparr>rpc_reader := None, rpc_conn := None\<rparr>
      in case g_socket_client_connect S (rpc_socket_path rpc) w of
           (Fail e, w) \<Rightarrow> (Fail e, rpc, w)
         | (Ok c, w) \<Rightarrow>
             (Ok (), rpc\<lparr>rpc_conn := Some c, rpc_writer := c, rpc_reader := Some c\<rparr>, w))"

text \<open>A mutex that is already held by the caller is never obtained.\<close>

definition g_mutex_lock :: "proton_rpc \<Rightarrow> proton_rpc option" where
  "g_mutex_lock rpc = (if rpc_lock rpc then stuck else Some (rpc\<lparr>rpc_lock := True\<rparr>))"

definition g_mutex_unlock :: "proton_rpc \<Rightarrow> proton_rpc" where
  "g_mutex_unlock rpc = rpc\<lparr>rpc_lock := False\<rparr>"

text \<open>
  After a cancelled read a failed reconnection is only logged, through \<open>reconnect_err->message\<close>.
\<close>

definition call ::
  "'w socket_ops \<Rightarrow> json_lib \<Rightarrow> proton_rpc \<Rightarrow> string \<Rightarrow> json option \<Rightarrow> cancellable \<Rightarrow> 'w
   \<Rightarrow> (json ret \<times> proton_rpc \<times> 'w) option" where
  "call S J rpc method params cancellable w = do {
     rpc \<leftarrow> g_mutex_lock rpc;
     let req_id = rpc_next_id rpc;
     let rpc = rpc\<lparr>rpc_next_id := req_id + 1\<rparr>;
     (sent, w) \<leftarrow> send_request S J rpc (build_request req_id method params) w;
     case sent of
       Fail e \<Rightarrow> Some (Fail e, g_mutex_unlock rpc, w)
     | Ok _ \<Rightarrow> do {
         (resp, w) \<leftarrow> recv_response S J rpc req_id cancellable w;
         case resp of
           Ok obj \<Rightarrow> Some (Ok obj, g_mutex_unlock rpc, w)
         | Fail local_err \<Rightarrow>
             if g_error_matches local_err G_IO_ERROR_CANCELLED then
               (case reconnect S rpc w of
                  (Fail None, rpc, w) \<Rightarrow> stuck
                | (_, rpc, w) \<Rightarrow> Some (Fail local_err, g_mutex_unlock rpc, w))
             else Some (Fail local_err, g_mutex_unlock rpc, w)
       }
   }"

section \<open>The public functions\<close>

definition proton_rpc_new ::
  "'w socket_ops \<Rightarrow> string \<Rightarrow> 'w \<Rightarrow> proton_rpc ret \<times> 'w" where
  "proton_rpc_new S socket_path w =
     (case g_socket_client_connect S socket_path w of
        (Fail e, w) \<Rightarrow> (Fail e, w)
      | (Ok c, w) \<Rightarrow>
          (Ok \<lparr>rpc_conn = Some c, rpc_reader = Some c, rpc_writer = c, rpc_lock = False,
               rpc_next_id = 1, rpc_socket_path = socket_path\<rparr>, w))"

definition proton_rpc_free :: "'w socket_ops \<Rightarrow> proton_rpc option \<Rightarrow> 'w \<Rightarrow> 'w" where
  "proton_rpc_free S rpc w =
     (case rpc of
        None \<Rightarrow> w
      | Some r \<Rightarrow> (case rpc_conn r of None \<Rightarrow> w | Some c \<Rightarrow> g_io_stream_unref S c w))"

definition proton_rpc_auth ::
  "'w socket_ops \<Rightarrow> json_lib \<Rightarrow> proton_rpc \<Rightarrow> string \<Rightarrow> string \<Rightarrow> 'w
   \<Rightarrow> ((string option \<times> string option \<times> byte list) ret \<times> proton_rpc \<times> 'w) option" where
  "proton_rpc_auth S J rpc username password w = do {
     let b = JObject [(''username'', JString username), (''password'', JString password)];
     (resp, rpc, w) \<leftarrow> call S J rpc ''Auth'' (Some b) None w;
     Some (case resp of
             Fail e \<Rightarrow> Fail e
           | Ok obj \<Rightarrow>
               (let result = json_object_get_object_member J (Some obj) ''result''
                in Ok (json_object_get_string_member J result ''uid'',
                       json_object_get_string_member J result ''refresh_token'',
                       g_base64_decode J (json_object_get_string_member J result ''salted_passphrase''))),
           rpc, w)
   }"

definition proton_rpc_resume_session ::
  "'w socket_ops \<Rightarrow> json_lib \<Rightarrow> proton_rpc \<Rightarrow> string \<Rightarrow> string \<Rightarrow> byte list \<Rightarrow> 'w
   \<Rightarrow> ((string option \<times> string option) ret \<times> proton_rpc \<times> 'w) option" where
  "proton_rpc_resume_session S J rpc uid refresh_token salted_passphrase w = do {
     let sp_b64 = g_base64_encode J salted_passphrase;
     let b = JObject [(''uid'', JString uid), (''refresh_token'', JString refresh_token),
                      (''salted_passphrase'', JString sp_b64)];
     (resp, rpc, w) \<leftarrow> call S J rpc ''ResumeSession'' (Some b) None w;
     Some (case resp of
             Fail e \<Rightarrow> Fail e
           | Ok obj \<Rightarrow>
               (let result = json_object_get_object_member J (Some obj) ''result''
                in Ok (json_object_get_string_member J result ''uid'',
                       json_object_get_string_member J result ''refresh_token'')),
           rpc, w)
   }"

text \<open>The fields of one entry, as \<open>proton_rpc_list_dir\<close> and \<open>proton_rpc_stat\<close> both read them.\<close>

definition entry_of_object :: "json_lib \<Rightarrow> json_ptr \<Rightarrow> proton_entry" where
  "entry_of_object J e =
     \<lparr>pe_name = json_object_get_string_member J e ''name'',
      pe_is_dir = json_object_get_boolean_member J e ''is_dir'',
      pe_size = json_object_get_int_member J e ''size'',
      pe_mtime = json_object_get_int_member J e ''mtime'',
      pe_link_id = (if json_object_has_member J e ''link_id''
                    then json_object_get_string_member J e ''link_id'' else None),
      pe_revision_id = (if json_object_has_member J e ''revision_id''
                        then json_object_get_string_member J e ''revision_id'' else None),
      pe_has_thumbnail = (if json_object_has_member J e ''has_thumbnail''
                          then json_object_get_boolean_member J e ''has_thumbnail'' else False)\<rparr>"

definition proton_rpc_list_dir ::
  "'w socket_ops \<Rightarrow> json_lib \<Rightarrow> proton_rpc \<Rightarrow> string \<Rightarrow> cancellable \<Rightarrow> 'w
   \<Rightarrow> (proton_entry list ret \<times> proton_rpc \<times> 'w) option" where
  "proton_rpc_list_dir S J rpc path cancellable w = do {
     let b = JObject [(''path'', JString path)];
     (resp, rpc, w) \<leftarrow> call S J rpc ''ListDir'' (Some b) cancellable w;
     Some (case resp of
             Fail e \<Rightarrow> Fail e
           | Ok obj \<Rightarrow>
               (let result = json_object_get_object_member J (Some obj) ''result'';
                    arr = json_object_get_array_member J result ''entries'';
                    n = json_array_get_length J arr
                in Ok (map (\<lambda>i. entry_of_object J (json_array_get_object_element J arr i)) [0..<n])),
           rpc, w)
   }"

definition proton_rpc_stat ::
  "'w socket_ops \<Rightarrow> json_lib \<Rightarrow> proton_rpc \<Rightarrow> string \<Rightarrow> cancellable \<Rightarrow> 'w
   \<Rightarrow> (proton_entry ret \<times> proton_rpc \<times> 'w) option" where
  "proton_rpc_stat S J rpc path cancellable w = do {
     let b = JObject [(''path'', JString path)];
     (resp, rpc, w) \<leftarrow> call S J rpc ''Stat'' (Some b) cancellable w;
     Some (case resp of
             Fail e \<Rightarrow> Fail e
           | Ok obj \<Rightarrow> Ok (entry_of_object J (json_object_get_object_member J (Some obj) ''result'')),
           rpc, w)
   }"

definition proton_rpc_make_directory ::
  "'w socket_ops \<Rightarrow> json_lib \<Rightarrow> proton_rpc \<Rightarrow> string \<Rightarrow> cancellable \<Rightarrow> 'w
   \<Rightarrow> (unit ret \<times> proton_rpc \<times> 'w) option" where
  "proton_rpc_make_directory S J rpc path cancellable w = do {
     let b = JObject [(''path'', JString path)];
     (resp, rpc, w) \<leftarrow> call S J rpc ''Mkdir'' (Some b) cancellable w;
     Some (case resp of Fail e \<Rightarrow> Fail e | Ok _ \<Rightarrow> Ok (), rpc, w)
   }"

text \<open>
  \<open>memcpy (buf, data, n)\<close>: both regions must hold \<open>n\<close> bytes.
\<close>

definition memcpy :: "byte list \<Rightarrow> byte list \<Rightarrow> nat \<Rightarrow> byte list option" where
  "memcpy buf data n =
     (if n \<le> length buf \<and> n \<le> length data then Some (take n data @ drop n buf) else stuck)"

text \<open>
  The number of bytes, the caller's buffer and the flag \<open>*eof\<close> after the call; on failure
  (return value -1) buffer and flag are untouched.
\<close>

definition proton_rpc_read_file ::
  "'w socket_ops \<Rightarrow> json_lib \<Rightarrow> proton_rpc \<Rightarrow> string \<Rightarrow> gint64 \<Rightarrow> gint64 \<Rightarrow> byte list \<Rightarrow> cancellable \<Rightarrow> 'w
   \<Rightarrow> ((gssize \<times> byte list \<times> bool) ret \<times> proton_rpc \<times> 'w) option" where
  "proton_rpc_read_file S J rpc path offset len buf cancellable w = do {
     let b = JObject [(''path'', JString path), (''offset'', JInt offset), (''length'', JInt len)];
     (resp, rpc, w) \<leftarrow> call S J rpc ''ReadFile'' (Some b) cancellable w;
     case resp of
       Fail e \<Rightarrow> Some (Fail e, rpc, w)
     | Ok obj \<Rightarrow> do {
         let result = json_object_get_object_member J (Some obj) ''result'';
         let eof = json_object_get_boolean_member J result ''eof'';
         let b64 = json_object_get_string_member J result ''data'';
         let bytes = g_base64_decode J b64;
         let dlen = (of_nat (length bytes) :: gsize);
         let n = min dlen len;
         buf \<leftarrow> memcpy buf bytes (unat n);
         Some (Ok (n, buf, eof), rpc, w)
       }
   }"

text \<open>NULL without an error where the helper has no thumbnail.\<close>

definition proton_rpc_fetch_thumbnail ::
  "'w socket_ops \<Rightarrow> json_lib \<Rightarrow> proton_rpc \<Rightarrow> string \<Rightarrow> string \<Rightarrow> cancellable \<Rightarrow> 'w
   \<Rightarrow> (string ret \<times> proton_rpc \<times> 'w) option" where
  "proton_rpc_fetch_thumbnail S J rpc link_id revision_id cancellable w = do {
     let b = JObject [(''link_id'', JString link_id), (''revision_id'', JString revision_id)];
     (resp, rpc, w) \<leftarrow> call S J rpc ''FetchThumbnail'' (Some b) cancellable w;
     Some (case resp of
             Fail e \<Rightarrow> Fail e
           | Ok obj \<Rightarrow>
               (let result = json_object_get_object_member J (Some obj) ''result''
                in case json_object_get_string_member J result ''path'' of
                     None \<Rightarrow> Fail None
                   | Some path \<Rightarrow> (if path = [] then Fail None else Ok path)),
           rpc, w)
   }"

definition event_of_object :: "json_lib \<Rightarrow> json_ptr \<Rightarrow> proton_event" where
  "event_of_object J ev =
     \<lparr>ev_type = json_object_get_string_member J ev ''type'',
      ev_link_id = json_object_get_string_member J ev ''link_id'',
      ev_path = (if json_object_has_member J ev ''path''
                 then json_object_get_string_member J ev ''path'' else None)\<rparr>"

definition proton_rpc_get_events ::
  "'w socket_ops \<Rightarrow> json_lib \<Rightarrow> proton_rpc \<Rightarrow> 'w
   \<Rightarrow> (proton_event list ret \<times> proton_rpc \<times> 'w) option" where
  "proton_rpc_get_events S J rpc w = do {
     (resp, rpc, w) \<leftarrow> call S J rpc ''GetEvents'' None None w;
     Some (case resp of
             Fail e \<Rightarrow> Fail e
           | Ok obj \<Rightarrow>
               (let result = json_object_get_object_member J (Some obj) ''result'';
                    arr = (if result \<noteq> None then json_object_get_array_member J result ''events'' else None);
                    n = (if arr \<noteq> None then json_array_get_length J arr else 0)
                in Ok (map (\<lambda>i. event_of_object J (json_array_get_object_element J arr i)) [0..<n])),
           rpc, w)
   }"

section \<open>Runs of a client\<close>

text \<open>
  The states a client goes through: after \<open>proton_rpc_new\<close>, any sequence of exchanges, with
  steps of the environment (\<open>env\<close>: the helper, other clients, cancellations) in between. Every
  exchange that the run contains returned.
\<close>

inductive rpc_run ::
  "'w socket_ops \<Rightarrow> json_lib \<Rightarrow> ('w \<Rightarrow> 'w \<Rightarrow> bool) \<Rightarrow> proton_rpc \<Rightarrow> 'w \<Rightarrow> bool"
  for S J env where
  run_new: "proton_rpc_new S socket_path w = (Ok rpc, w') \<Longrightarrow> rpc_run S J env rpc w'"
| run_call: "rpc_run S J env rpc w \<Longrightarrow>
     json_text J (build_request (rpc_next_id rpc) method params) \<Longrightarrow>
     call S J rpc method params cancellable w = Some (r, rpc', w') \<Longrightarrow> rpc_run S J env rpc' w'"
| run_env: "rpc_run S J env rpc w \<Longrightarrow> env w w' \<Longrightarrow> rpc_run S J env rpc w'"

section \<open>Helper lemmas on one exchange\<close>

lemma writer_stream_simps [simp]:
  "rpc_conn rpc = Some (rpc_writer rpc) \<Longrightarrow> writer_stream rpc = Some (rpc_writer rpc)"
  "rpc_conn rpc = None \<Longrightarrow> writer_stream rpc = stuck"
  by (simp_all add: writer_stream_def)

lemma writer_stream_Some: "writer_stream rpc = Some c \<longleftrightarrow> rpc_conn rpc = Some c \<and> rpc_writer rpc = c"
  by (auto simp: writer_stream_def)

text \<open>No error that the helper reports is the code of a cancelled call.\<close>

lemma gio_code_not_cancelled: "gio_code code \<noteq> G_IO_ERROR_CANCELLED"
  by simp

lemma send_request_Some:
  "send_request S J rpc req w = Some (r, w') \<longleftrightarrow>
     (\<exists>c. rpc_conn rpc = Some c \<and> rpc_writer rpc = c \<and>
        ((\<exists>e. g_output_stream_write_all S c (json_generator_to_data J req) w = (Fail e, w') \<and> r = Fail e) \<or>
         (\<exists>u w1. g_output_stream_write_all S c (json_generator_to_data J req) w = (Ok u, w1) \<and>
                g_output_stream_write_all S c [CHR 0x0A] w1 = (r, w'))))"
  by (auto simp: send_request_def writer_stream_Some bind_eq_Some_conv Let_def
           split: prod.splits ret.splits)

lemma reconnect_frame:
  "reconnect S rpc w = (r, rpc', w') \<Longrightarrow>
     rpc_lock rpc' = rpc_lock rpc \<and> rpc_next_id rpc' = rpc_next_id rpc \<and>
     rpc_socket_path rpc' = rpc_socket_path rpc"
  by (auto simp: reconnect_def Let_def split: prod.splits ret.splits option.splits)

lemma reconnect_Ok:
  "reconnect S rpc w = (Ok u, rpc', w') \<Longrightarrow>
     \<exists>c w0. g_socket_client_connect S (rpc_socket_path rpc) w0 = (Ok c, w') \<and>
         rpc_conn rpc' = Some c \<and> rpc_reader rpc' = Some c \<and> rpc_writer rpc' = c"
  by (auto simp: reconnect_def Let_def split: prod.splits ret.splits option.splits)

lemma reconnect_Fail:
  "reconnect S rpc w = (Fail e, rpc', w') \<Longrightarrow>
     rpc_conn rpc' = None \<and> rpc_reader rpc' = None \<and> rpc_writer rpc' = rpc_writer rpc \<and>
     (\<exists>w0. g_socket_client_connect S (rpc_socket_path rpc) w0 = (Fail e, w'))"
  by (auto simp: reconnect_def Let_def split: prod.splits ret.splits option.splits)

section \<open>A call in two steps\<close>

text \<open>
  \<open>call\<close> up to the written request, and from the wait for the reply to the release of the mutex.
\<close>

definition call_send ::
  "'w socket_ops \<Rightarrow> json_lib \<Rightarrow> proton_rpc \<Rightarrow> string \<Rightarrow> json option \<Rightarrow> 'w
   \<Rightarrow> (unit ret \<times> guint64 \<times> proton_rpc \<times> 'w) option" where
  "call_send S J rpc method params w = do {
     rpc \<leftarrow> g_mutex_lock rpc;
     let req_id = rpc_next_id rpc;
     let rpc = rpc\<lparr>rpc_next_id := req_id + 1\<rparr>;
     (sent, w) \<leftarrow> send_request S J rpc (build_request req_id method params) w;
     Some (sent, req_id, rpc, w)
   }"

definition call_recv ::
  "'w socket_ops \<Rightarrow> json_lib \<Rightarrow> proton_rpc \<Rightarrow> guint64 \<Rightarrow> cancellable \<Rightarrow> 'w
   \<Rightarrow> (json ret \<times> proton_rpc \<times> 'w) option" where
  "call_recv S J rpc req_id cancellable w = do {
     (resp, w) \<leftarrow> recv_response S J rpc req_id cancellable w;
     case resp of
       Ok obj \<Rightarrow> Some (Ok obj, g_mutex_unlock rpc, w)
     | Fail local_err \<Rightarrow>
         if g_error_matches local_err G_IO_ERROR_CANCELLED then
           (case reconnect S rpc w of
              (Fail None, rpc, w) \<Rightarrow> stuck
            | (_, rpc, w) \<Rightarrow> Some (Fail local_err, g_mutex_unlock rpc, w))
         else Some (Fail local_err, g_mutex_unlock rpc, w)
   }"

lemma call_is_send_recv:
  "call S J rpc method params k w = do {
     (sent, req_id, rpc, w) \<leftarrow> call_send S J rpc method params w;
     case sent of
       Fail e \<Rightarrow> Some (Fail e, g_mutex_unlock rpc, w)
     | Ok _ \<Rightarrow> call_recv S J rpc req_id k w
   }"
proof (cases "g_mutex_lock rpc")
  case (Some a)
  let ?a = "a\<lparr>rpc_next_id := rpc_next_id a + 1\<rparr>"
  show ?thesis
  proof (cases "send_request S J ?a (build_request (rpc_next_id a) method params) w")
    case sent: (Some x)
    then show ?thesis
      using Some
      by (cases x; cases "fst x") (simp_all add: call_def call_send_def call_recv_def Let_def)
  qed (simp add: call_def call_send_def Let_def Some)
qed (simp add: call_def call_send_def)

lemma call_send_Some:
  "call_send S J rpc m p w = Some (r, i, rpc', w') \<longleftrightarrow>
     \<not> rpc_lock rpc \<and> i = rpc_next_id rpc \<and> rpc' = rpc\<lparr>rpc_lock := True, rpc_next_id := rpc_next_id rpc + 1\<rparr> \<and>
     send_request S J rpc (build_request i m p) w = Some (r, w')"
proof -
  have "send_request S J (rpc\<lparr>rpc_lock := True, rpc_next_id := rpc_next_id rpc + 1\<rparr>) req w = send_request S J rpc req w" for req
    by (simp add: send_request_def writer_stream_def)
  then show ?thesis
    by (auto simp: call_send_def g_mutex_lock_def Let_def bind_eq_Some_conv)
qed

text \<open>What a completed wait for a reply went through.\<close>

lemma call_recv_cases [consumes 1, case_names read cancelled]:
  assumes "call_recv S J rpc i k w = Some (r, rpc', w')"
  obtains
    (read) c line where "rpc_reader rpc = Some c" "g_data_input_stream_read_line S c k w = Some (line, w')"
      "r = (case line of Fail e \<Rightarrow> Fail e | Ok l \<Rightarrow> decode_response J l)" "rpc' = g_mutex_unlock rpc"
      "\<forall>e. line = Fail e \<longrightarrow> \<not> g_error_matches e G_IO_ERROR_CANCELLED"
  | (cancelled) e w1 rc rpc2 where "r = Fail e" "reconnect S rpc w1 = (rc, rpc2, w')" "rc \<noteq> Fail None"
      "rpc' = g_mutex_unlock rpc2"
proof -
  from assms obtain c line w1 where rd: "rpc_reader rpc = Some c"
    "g_data_input_stream_read_line S c k w = Some (line, w1)"
    by (auto simp: call_recv_def recv_response_def bind_eq_Some_conv)
  define resp where "resp = (case line of Fail e \<Rightarrow> Fail e | Ok l \<Rightarrow> decode_response J l)"
  from assms rd have rest: "(case resp of
       Ok obj \<Rightarrow> Some (Ok obj, g_mutex_unlock rpc, w1)
     | Fail e \<Rightarrow>
         if g_error_matches e G_IO_ERROR_CANCELLED then
           (case reconnect S rpc w1 of (Fail None, rpc, w) \<Rightarrow> stuck
            | (_, rpc, w) \<Rightarrow> Some (Fail e, g_mutex_unlock rpc, w))
         else Some (Fail e, g_mutex_unlock rpc, w1)) = Some (r, rpc', w')"
    by (simp add: call_recv_def recv_response_def resp_def cong: ret.case_cong if_cong)
  show thesis
  proof (cases "\<exists>e. resp = Fail e \<and> g_error_matches e G_IO_ERROR_CANCELLED")
    case True
    then obtain e where e: "resp = Fail e" "g_error_matches e G_IO_ERROR_CANCELLED"
      by blast
    obtain rc rpc2 w2 where "reconnect S rpc w1 = (rc, rpc2, w2)"
      by (cases "reconnect S rpc w1")
    with rest e cancelled show thesis
      by (auto split: ret.splits option.splits)
  next
    case False
    with rest have "r = resp" "w' = w1" "rpc' = g_mutex_unlock rpc"
      by (auto split: ret.splits if_splits)
    with rd False read show thesis
      by (fastforce simp: resp_def)
  qed
qed

text \<open>Whatever happens, the mutex is free afterwards and the request id was used once.\<close>

lemma call_recv_frame:
  assumes "call_recv S J rpc i k w = Some (r, rpc', w')"
  shows "\<not> rpc_lock rpc' \<and> rpc_next_id rpc' = rpc_next_id rpc \<and> rpc_socket_path rpc' = rpc_socket_path rpc"
  using assms by (cases rule: call_recv_cases) (auto simp: g_mutex_unlock_def dest!: reconnect_frame)

lemma call_cases [consumes 1, case_names unsent sent]:
  assumes "call S J rpc m p k w = Some (r, rpc', w')"
  obtains
    (unsent) e i rpc1 where "call_send S J rpc m p w = Some (Fail e, i, rpc1, w')" "r = Fail e"
      "rpc' = g_mutex_unlock rpc1"
  | (sent) u i rpc1 w1 where "call_send S J rpc m p w = Some (Ok u, i, rpc1, w1)"
      "call_recv S J rpc1 i k w1 = Some (r, rpc', w')"
proof -
  from assms obtain x i rpc1 w1 where "call_send S J rpc m p w = Some (x, i, rpc1, w1)"
    by (auto simp: call_is_send_recv bind_eq_Some_conv)
  with assms unsent sent show thesis
    by (cases x) (simp_all add: call_is_send_recv)
qed

lemma call_frame:
  assumes "call S J rpc m p k w = Some (r, rpc', w')"
  shows "\<not> rpc_lock rpc' \<and> rpc_next_id rpc' = rpc_next_id rpc + 1 \<and>
         rpc_socket_path rpc' = rpc_socket_path rpc"
  using assms by (cases rule: call_cases) (auto simp: call_send_Some g_mutex_unlock_def dest!: call_recv_frame)

lemma call_lock: "call S J rpc method params k w = Some (r, rpc', w') \<Longrightarrow> \<not> rpc_lock rpc"
  by (auto simp: call_def g_mutex_lock_def split: if_splits)

text \<open>Without a connection the output stream is dangling.\<close>

lemma call_without_conn: "rpc_conn rpc = None \<Longrightarrow> call S J rpc method params k w = stuck"
  by (simp add: call_def g_mutex_lock_def Let_def send_request_def writer_stream_def)

section \<open>The contract of the transport\<close>

text \<open>
  What the client needs of the connection between it and the helper. \<open>settled w c\<close>: no line can
  be read from \<open>c\<close> unless another request is written first. \<open>awaiting w c l\<close>: the request line \<open>l\<close>
  was written to the settled connection \<open>c\<close> and its reply has not been read. \<open>answers l r\<close>: the
  helper may answer the line \<open>l\<close> with the line \<open>r\<close>. \<open>env\<close>: what may happen between two calls.
\<close>

locale rpc_transport =
  fixes S :: "'w socket_ops"
    and settled :: "'w \<Rightarrow> conn_id \<Rightarrow> bool"
    and awaiting :: "'w \<Rightarrow> conn_id \<Rightarrow> string \<Rightarrow> bool"
    and answers :: "string \<Rightarrow> string \<Rightarrow> bool"
    and env :: "'w \<Rightarrow> 'w \<Rightarrow> bool"
  assumes connect_settled: "g_socket_client_connect S p w = (Ok c, w') \<Longrightarrow> settled w' c"
    and line_unsent: "settled w c \<Longrightarrow> CHR 0x0A \<notin> set l \<Longrightarrow>
          g_output_stream_write_all S c l w = (Fail e, w') \<Longrightarrow> settled w' c"
    and newline_unsent: "settled w c \<Longrightarrow> CHR 0x0A \<notin> set l \<Longrightarrow>
          g_output_stream_write_all S c l w = (Ok u, w1) \<Longrightarrow>
          g_output_stream_write_all S c [CHR 0x0A] w1 = (Fail e, w') \<Longrightarrow> settled w' c"
    and line_sent: "settled w c \<Longrightarrow> CHR 0x0A \<notin> set l \<Longrightarrow>
          g_output_stream_write_all S c l w = (Ok u, w1) \<Longrightarrow>
          g_output_stream_write_all S c [CHR 0x0A] w1 = (Ok u', w') \<Longrightarrow> awaiting w' c l"
    and line_read: "awaiting w c l \<Longrightarrow>
          g_data_input_stream_read_line S c k w = Some (Ok r, w') \<Longrightarrow> answers l r \<and> settled w' c"
    and line_unread: "awaiting w c l \<Longrightarrow>
          g_data_input_stream_read_line S c k w = Some (Fail e, w') \<Longrightarrow>
          \<not> g_error_matches e G_IO_ERROR_CANCELLED \<Longrightarrow> settled w' c"
    and env_settled: "settled w c \<Longrightarrow> env w w' \<Longrightarrow> settled w' c"
begin

text \<open>
  The client's side of the contract: the mutex is free, and reader and writer belong to the
  connection held, on which nothing is outstanding.
\<close>

definition client_ok :: "proton_rpc \<Rightarrow> 'w \<Rightarrow> bool" where
  "client_ok rpc w \<longleftrightarrow> \<not> rpc_lock rpc \<and>
     (\<forall>c. rpc_conn rpc = Some c \<longrightarrow>
        rpc_reader rpc = Some c \<and> rpc_writer rpc = c \<and> settled w c)"

lemma new_client_ok: "proton_rpc_new S p w = (Ok rpc, w') \<Longrightarrow> client_ok rpc w'"
  by (auto simp: proton_rpc_new_def client_ok_def intro: connect_settled
           split: prod.splits ret.splits)

lemma env_client_ok: "client_ok rpc w \<Longrightarrow> env w w' \<Longrightarrow> client_ok rpc w'"
  by (auto simp: client_ok_def intro: env_settled)

lemma client_okD:
  assumes "client_ok rpc w" "send_request S J rpc req w = Some (r, w')"
  obtains c where "rpc_conn rpc = Some c" "rpc_reader rpc = Some c" "rpc_writer rpc = c" "settled w c"
proof -
  from assms(2) obtain c where "rpc_conn rpc = Some c" "rpc_writer rpc = c"
    unfolding send_request_Some by blast
  moreover from this assms(1) have "rpc_reader rpc = Some c" "settled w c"
    unfolding client_ok_def by blast+
  ultimately show thesis
    by (intro that)
qed

lemma send_settled:
  assumes "settled w c" and line: "CHR 0x0A \<notin> set (json_generator_to_data J req)"
    and "rpc_writer rpc = c" and "send_request S J rpc req w = Some (Fail e, w')"
  shows "settled w' c"
proof -
  from assms(3,4) consider
      "g_output_stream_write_all S c (json_generator_to_data J req) w = (Fail e, w')"
    | u w1 where "g_output_stream_write_all S c (json_generator_to_data J req) w = (Ok u, w1)"
        "g_output_stream_write_all S c [CHR 0x0A] w1 = (Fail e, w')"
    unfolding send_request_Some by auto
  then show ?thesis
    by cases (blast intro: line_unsent [OF assms(1) line] newline_unsent [OF assms(1) line])+
qed

lemma send_awaiting:
  assumes "settled w c" and line: "CHR 0x0A \<notin> set (json_generator_to_data J req)"
    and "rpc_writer rpc = c" and "send_request S J rpc req w = Some (Ok u, w')"
  shows "awaiting w' c (json_generator_to_data J req)"
proof -
  from assms(3,4) obtain u' w1 where
    "g_output_stream_write_all S c (json_generator_to_data J req) w = (Ok u', w1)"
    "g_output_stream_write_all S c [CHR 0x0A] w1 = (Ok u, w')"
    unfolding send_request_Some by auto
  then show ?thesis
    by (rule line_sent [OF assms(1) line])
qed

lemma client_okI:
  "\<not> rpc_lock rpc \<Longrightarrow> rpc_conn rpc = Some c \<Longrightarrow> rpc_reader rpc = Some c \<Longrightarrow> rpc_writer rpc = c \<Longrightarrow>
     settled w c \<Longrightarrow> client_ok rpc w"
  by (simp add: client_ok_def)

text \<open>The client while it waits for a reply over the connection \<open>c\<close>.\<close>

definition held :: "proton_rpc \<Rightarrow> conn_id \<Rightarrow> bool" where
  "held rpc c \<longleftrightarrow> rpc_lock rpc \<and> rpc_conn rpc = Some c \<and> rpc_reader rpc = Some c \<and> rpc_writer rpc = c"

lemma held_unlock: "held rpc c \<Longrightarrow> settled w c \<Longrightarrow> client_ok (g_mutex_unlock rpc) w"
  by (rule client_okI [where c = c]) (simp_all add: held_def g_mutex_unlock_def)

lemma call_send_ok:
  assumes "client_ok rpc w"
    and "CHR 0x0A \<notin> set (json_generator_to_data J (build_request (rpc_next_id rpc) m p))"
    and "call_send S J rpc m p w = Some (r, i, rpc', w')"
  shows "\<exists>c. held rpc' c \<and>
    (case r of
       Ok u \<Rightarrow> awaiting w' c (json_generator_to_data J (build_request i m p))
     | Fail e \<Rightarrow> settled w' c)"
proof -
  from assms(3) have s: "i = rpc_next_id rpc" "rpc' = rpc\<lparr>rpc_lock := True, rpc_next_id := rpc_next_id rpc + 1\<rparr>"
    "send_request S J rpc (build_request i m p) w = Some (r, w')"
    by (auto simp: call_send_Some)
  from client_okD [OF assms(1) s(3)] obtain c where c: "rpc_conn rpc = Some c" "rpc_reader rpc = Some c"
    "rpc_writer rpc = c" "settled w c" .
  have "held rpc' c"
    by (simp add: held_def s(2) c)
  then show ?thesis
    using s(3) send_awaiting [OF c(4) _ c(3)] send_settled [OF c(4) _ c(3)] assms(2)
    by (cases r) (auto simp: s(1))
qed

lemma call_recv_ok:
  assumes "held rpc c" "awaiting w c l" "call_recv S J rpc i k w = Some (r, rpc', w')"
  shows "client_ok rpc' w' \<and> (\<forall>obj. r = Ok obj \<longrightarrow> (\<exists>a. answers l a \<and> decode_response J a = Ok obj))"
  using assms(3)
proof (cases rule: call_recv_cases)
  case (read y line)
  then have "g_data_input_stream_read_line S c k w = Some (line, w')"
    using assms(1) by (simp add: held_def)
  then have "settled w' c \<and> (\<forall>a. line = Ok a \<longrightarrow> answers l a)"
    using line_read [OF assms(2)] line_unread [OF assms(2)] read(5) by (cases line) blast+
  with held_unlock [OF assms(1)] show ?thesis
    by (cases line) (auto simp: read(3,4))
next
  case (cancelled e w1 rc rpc2)
  have "client_ok rpc' w'"
  proof (cases rc)
    case (Ok u)
    from reconnect_Ok [OF cancelled(2) [unfolded Ok]] obtain y w0 where
      "g_socket_client_connect S (rpc_socket_path rpc) w0 = (Ok y, w')"
      "rpc_conn rpc2 = Some y" "rpc_reader rpc2 = Some y" "rpc_writer rpc2 = y"
      by auto
    then show ?thesis
      unfolding cancelled(4) g_mutex_unlock_def
      by (intro client_okI [where c = y]) (simp_all add: connect_settled)
  next
    case (Fail e')
    from reconnect_Fail [OF cancelled(2) [unfolded Fail]] show ?thesis
      by (simp add: cancelled(4) client_ok_def g_mutex_unlock_def)
  qed
  with cancelled(1) show ?thesis
    by simp
qed

text \<open>
  A call keeps the client in order, and the reply it decodes is an answer to its own request.
\<close>

lemma call_ok:
  assumes "client_ok rpc w"
    and "CHR 0x0A \<notin> set (json_generator_to_data J (build_request (rpc_next_id rpc) m p))"
    and "call S J rpc m p k w = Some (r, rpc', w')"
  shows "client_ok rpc' w' \<and> (\<forall>obj. r = Ok obj \<longrightarrow>
    (\<exists>a. answers (json_generator_to_data J (build_request (rpc_next_id rpc) m p)) a \<and> decode_response J a = Ok obj))"
  using assms(3)
proof (cases rule: call_cases)
  case (unsent e i rpc1)
  with call_send_ok [OF assms(1,2) unsent(1)] held_unlock show ?thesis
    by auto
next
  case (sent u i rpc1 w1)
  then have "i = rpc_next_id rpc"
    by (simp add: call_send_Some)
  with call_send_ok [OF assms(1,2) sent(1)] call_recv_ok [OF _ _ sent(2)] show ?thesis
    by auto
qed

lemma run_client_ok:
  assumes "json_text_ok J" and "rpc_run S J env rpc w"
  shows "client_ok rpc w"
  using assms(2)
proof (induction rule: rpc_run.induct)
  case (run_new socket_path w rpc w')
  then show ?case by (rule new_client_ok)
next
  case (run_call rpc w mth params cancellable r rpc' w')
  from assms(1) run_call.hyps(2) have "CHR 0x0A \<notin> set (json_generator_to_data J
      (build_request (rpc_next_id rpc) mth params))"
    by (rule json_text_line)
  with call_ok [OF run_call.IH] run_call.hyps(3) show ?case
    by blast
next
  case (run_env rpc w w')
  then show ?case by (blast intro: env_client_ok)
qed

end

end
