(* ===== verification/Helper_Server.thy ===== *)
theory Helper_Server
  imports Json_Glib
begin

text \<open>
  The other end of the socket: the request/response types of \<open>src/helper/rpc/types.go\<close> and the
  server of \<open>src/helper/rpc/server.go\<close>, which reads request lines from a connection, dispatches
  each to the registered handler and writes one response line per well-formed request. The
  handlers and their state \<open>'h\<close> are parameters here. Go's \<open>encoding/json\<close> works on the same
  documents as the C side; its text functions are the fields of \<open>go_json\<close>.
\<close>

section \<open>Types\<close>

type_synonym uint64 = "64 word"

record request =
  req_ID :: uint64
  req_Method :: string
  req_Params :: "json option" \<comment> \<open>\<open>json.RawMessage\<close>; absent is \<open>None\<close>\<close>

record rpc_error =
  re_Code :: gint64
  re_Message :: string
  re_Details :: "json option"

record response =
  resp_ID :: uint64
  resp_Result :: "json option" \<comment> \<open>a nil interface is \<open>None\<close>\<close>
  resp_Error :: "rpc_error option"

text \<open>An error returned by a handler: a \<open>*RPCError\<close>, or another error by its text.\<close>

datatype go_error = Rpc_err rpc_error | Plain_err string

definition ErrInternal :: gint64 where "ErrInternal = -32603"
definition ErrInvalidArg :: gint64 where "ErrInvalidArg = -32602"
definition ErrNotFound :: gint64 where "ErrNotFound = -32001"
definition ErrAuthFailed :: gint64 where "ErrAuthFailed = -32002"
definition ErrNotAuthed :: gint64 where "ErrNotAuthed = -32003"
definition ErrHVRequired :: gint64 where "ErrHVRequired = -32004"
definition ErrOffline :: gint64 where "ErrOffline = -32005"
definition ErrAlreadyExists :: gint64 where "ErrAlreadyExists = -32006"

lemmas Err_defs = ErrInternal_def ErrInvalidArg_def ErrNotFound_def ErrAuthFailed_def
  ErrNotAuthed_def ErrHVRequired_def ErrOffline_def ErrAlreadyExists_def

record go_json =
  json_Unmarshal :: "string \<Rightarrow> json option"
  json_Marshal :: "json \<Rightarrow> string"
  base64_StdEncoding :: "byte list \<Rightarrow> string"

section \<open>Decoding a request and encoding a response\<close>

text \<open>
  A member of an object by its name; of several the last one counts. Go's decoder gives a field of a struct the
  last member whose name is the field's but for the case of (ASCII) letters; an absent member
  and \<open>null\<close> leave the zero value.
\<close>

definition json_field :: "(string \<times> json) list \<Rightarrow> string \<Rightarrow> json option" where
  "json_field ms k = map_of (rev ms) k"

definition fold_char :: "char \<Rightarrow> char" where
  "fold_char c = (if 65 \<le> (of_char c :: nat) \<and> (of_char c :: nat) \<le> 90 then char_of (of_char c + 32 :: nat) else c)"

lemma fold_char_simps [simp]:
  "fold_char CHR ''a'' = CHR ''a''"
  "fold_char CHR ''b'' = CHR ''b''"
  "fold_char CHR ''c'' = CHR ''c''"
  "fold_char CHR ''d'' = CHR ''d''"
  "fold_char CHR ''e'' = CHR ''e''"
  "fold_char CHR ''f'' = CHR ''f''"
  "fold_char CHR ''g'' = CHR ''g''"
  "fold_char CHR ''h'' = CHR ''h''"
  "fold_char CHR ''i'' = CHR ''i''"
  "fold_char CHR ''j'' = CHR ''j''"
  "fold_char CHR ''k'' = CHR ''k''"
  "fold_char CHR ''l'' = CHR ''l''"
  "fold_char CHR ''m'' = CHR ''m''"
  "fold_char CHR ''n'' = CHR ''n''"
  "fold_char CHR ''o'' = CHR ''o''"
  "fold_char CHR ''p'' = CHR ''p''"
  "fold_char CHR ''q'' = CHR ''q''"
  "fold_char CHR ''r'' = CHR ''r''"
  "fold_char CHR ''s'' = CHR ''s''"
  "fold_char CHR ''t'' = CHR ''t''"
  "fold_char CHR ''u'' = CHR ''u''"
  "fold_char CHR ''v'' = CHR ''v''"
  "fold_char CHR ''w'' = CHR ''w''"
  "fold_char CHR ''x'' = CHR ''x''"
  "fold_char CHR ''y'' = CHR ''y''"
  "fold_char CHR ''z'' = CHR ''z''"
  "fold_char CHR ''_'' = CHR ''_''"
  "fold_char CHR ''R'' = CHR ''r''"
  "fold_char CHR ''T'' = CHR ''t''"
  by code_simp+

definition go_field :: "(string \<times> json) list \<Rightarrow> string \<Rightarrow> json option" where
  "go_field ms k = json_field (map (\<lambda>(n, j). (map fold_char n, j)) ms) (map fold_char k)"

lemmas field_defs = go_field_def json_field_def

text \<open>A JSON integer of the model has 64 bits and a sign, so an id from \<open>2^63\<close> is not expressible.\<close>

fun uint64_field :: "json option \<Rightarrow> uint64 option" where
  "uint64_field None = Some 0"
| "uint64_field (Some JNull) = Some 0"
| "uint64_field (Some (JInt i)) = (if 0 \<le> sint i then Some i else None)"
| "uint64_field (Some _) = None"

fun string_field :: "json option \<Rightarrow> string option" where
  "string_field None = Some []"
| "string_field (Some JNull) = Some []"
| "string_field (Some (JString s)) = Some s"
| "string_field (Some _) = None"

fun unmarshal_Request :: "json \<Rightarrow> request option" where
  "unmarshal_Request (JObject ms) = do {
     i \<leftarrow> uint64_field (go_field ms ''id'');
     m \<leftarrow> string_field (go_field ms ''method'');
     Some \<lparr>req_ID = i, req_Method = m, req_Params = go_field ms ''params''\<rparr>
   }"
| "unmarshal_Request JNull = Some \<lparr>req_ID = 0, req_Method = [], req_Params = None\<rparr>"
| "unmarshal_Request _ = None"

definition marshal_RPCError :: "rpc_error \<Rightarrow> json" where
  "marshal_RPCError e =
     JObject ([(''code'', JInt (re_Code e)), (''message'', JString (re_Message e))] @
              (case re_Details e of None \<Rightarrow> [] | Some d \<Rightarrow> [(''details'', d)]))"

definition marshal_Response :: "response \<Rightarrow> json" where
  "marshal_Response r =
     JObject ([(''id'', JInt (resp_ID r))] @
              (case resp_Result r of None \<Rightarrow> [] | Some x \<Rightarrow> [(''result'', x)]) @
              (case resp_Error r of None \<Rightarrow> [] | Some e \<Rightarrow> [(''error'', marshal_RPCError e)]))"

section \<open>The server\<close>

type_synonym 'h handler = "json option \<Rightarrow> 'h \<Rightarrow> (go_error + json option) \<times> 'h"
type_synonym 'h handlers = "string \<rightharpoonup> 'h handler"

definition NewServer :: "'h handlers" where
  "NewServer = Map.empty"

definition Register :: "'h handlers \<Rightarrow> string \<Rightarrow> 'h handler \<Rightarrow> 'h handlers" where
  "Register s method h = s(method \<mapsto> h)"

definition dispatch :: "'h handlers \<Rightarrow> request \<Rightarrow> 'h \<Rightarrow> response \<times> 'h" where
  "dispatch s req st =
     (case s (req_Method req) of
        None \<Rightarrow>
          (\<lparr>resp_ID = req_ID req, resp_Result = None,
            resp_Error = Some \<lparr>re_Code = ErrInternal,
                               re_Message = ''unknown method: '' @ req_Method req,
                               re_Details = None\<rparr>\<rparr>, st)
      | Some h \<Rightarrow>
          (case h (req_Params req) st of
             (Inl (Rpc_err e), st) \<Rightarrow>
               (\<lparr>resp_ID = req_ID req, resp_Result = None, resp_Error = Some e\<rparr>, st)
           | (Inl (Plain_err msg), st) \<Rightarrow>
               (\<lparr>resp_ID = req_ID req, resp_Result = None,
                 resp_Error = Some \<lparr>re_Code = ErrInternal, re_Message = msg,
                                    re_Details = None\<rparr>\<rparr>, st)
           | (Inr result, st) \<Rightarrow>
               (\<lparr>resp_ID = req_ID req, resp_Result = result, resp_Error = None\<rparr>, st)))"

text \<open>
  \<open>bufio.Scanner\<close> with its default split function: lines end at a newline, a final carriage
  return is dropped, and a line that does not fit the buffer of 64 KiB ends the scan.
\<close>

datatype scan = Scan_token string string | Scan_more | Scan_too_long

definition max_token_size :: nat where
  "max_token_size = 65536"

definition scan_line :: "string \<Rightarrow> scan" where
  "scan_line inb =
     (let line = takeWhile (\<lambda>c. c \<noteq> CHR 0x0A) inb in
      if length line \<ge> max_token_size then Scan_too_long
      else if length line < length inb then Scan_token line (drop (length line + 1) inb)
      else Scan_more)"

definition drop_cr :: "string \<Rightarrow> string" where
  "drop_cr line = (if line \<noteq> [] \<and> last line = CHR 0x0D then butlast line else line)"

text \<open>One request line: the response lines written for it (none for a malformed request).\<close>

definition serve_line :: "go_json \<Rightarrow> 'h handlers \<Rightarrow> string \<Rightarrow> 'h \<Rightarrow> string list \<times> 'h" where
  "serve_line G s line st =
     (case Option.bind (json_Unmarshal G (drop_cr line)) unmarshal_Request of
        None \<Rightarrow> ([], st)
      | Some req \<Rightarrow>
          (case dispatch s req st of (resp, st) \<Rightarrow> ([json_Marshal G (marshal_Response resp)], st)))"

text \<open>
  \<open>handleConn\<close> on the bytes received so far: the response lines, the bytes not yet consumed,
  whether the connection stays open, and the handlers' state. Requests are answered one at a
  time, in the order of their lines.
\<close>

function handleConn ::
  "go_json \<Rightarrow> 'h handlers \<Rightarrow> string \<Rightarrow> 'h \<Rightarrow> string list \<times> string \<times> bool \<times> 'h" where
  "handleConn G s inb st =
     (case scan_line inb of
        Scan_more \<Rightarrow> ([], inb, True, st)
      | Scan_too_long \<Rightarrow> ([], [], False, st)
      | Scan_token line rest \<Rightarrow>
          (case serve_line G s line st of (out, st) \<Rightarrow>
             (case handleConn G s rest st of (outs, rest, alive, st) \<Rightarrow> (out @ outs, rest, alive, st))))"
  by pat_completeness auto
termination
  by (relation "measure (\<lambda>(G, s, inb, st). length inb)") (auto simp: scan_line_def Let_def split: if_splits)

declare handleConn.simps [simp del]

section \<open>Lemmas\<close>

lemma scan_line_append:
  "CHR 0x0A \<notin> set l \<Longrightarrow> length l < max_token_size \<Longrightarrow> scan_line (l @ CHR 0x0A # rest) = Scan_token l rest"
  by (simp add: scan_line_def Let_def takeWhile_sep)

lemma scan_line_more:
  "CHR 0x0A \<notin> set l \<Longrightarrow> length l < max_token_size \<Longrightarrow> scan_line l = Scan_more"
  by (simp add: scan_line_def Let_def takeWhile_no_sep)

lemma scan_line_long:
  assumes "CHR 0x0A \<notin> set l" "max_token_size \<le> length l"
  shows "scan_line (l @ rest) = Scan_too_long"
proof -
  have "length l \<le> length (takeWhile (\<lambda>c. c \<noteq> CHR 0x0A) (l @ rest))"
    using assms(1) by (auto simp: takeWhile_append)
  with assms(2) show ?thesis
    by (simp add: scan_line_def Let_def)
qed

lemma drop_cr_id: "CHR 0x0D \<notin> set l \<Longrightarrow> drop_cr l = l"
  by (auto simp: drop_cr_def dest: last_in_set)

lemma dispatch_ID [simp]: "resp_ID (fst (dispatch s req st)) = req_ID req"
  by (auto simp: dispatch_def split: option.splits prod.splits sum.splits go_error.splits)

lemma marshal_Response_id: "\<exists>ms. marshal_Response r = JObject ms \<and> map_of ms ''id'' = Some (JInt (resp_ID r))"
  by (simp add: marshal_Response_def)

lemma serve_line_length: "length (fst (serve_line G s l st)) \<le> 1"
  by (auto simp: serve_line_def split: option.splits prod.splits)

text \<open>One line at a time.\<close>

lemma handleConn_partial:
  "CHR 0x0A \<notin> set l \<Longrightarrow>
     handleConn G s l st = (if length l < max_token_size then ([], l, True, st) else ([], [], False, st))"
  using scan_line_long [of l "[]"]
  by (subst handleConn.simps) (auto simp: scan_line_more)

lemma handleConn_line:
  assumes "CHR 0x0A \<notin> set l" "length l < max_token_size"
  shows "handleConn G s (l @ [CHR 0x0A]) st =
    (case serve_line G s l st of (out, st') \<Rightarrow> (out, [], True, st'))"
  using assms
  by (subst handleConn.simps)
     (simp add: scan_line_append handleConn_partial max_token_size_def split: prod.splits)

end
