(* ===== verification/Sample_Libs.thy ===== *)
theory Sample_Libs
  imports Helper_Server
begin

text \<open>
  Concrete libraries for the witnesses: a line format for documents with a printer and a parser,
  member access as lookup, and a byte/character codec in the place of base64. The laws that the
  properties assume of the libraries are proved for them, so the hypotheses can hold together.
\<close>

section \<open>Strings and integers as text\<close>

definition esc :: "char \<Rightarrow> string" where
  "esc c = (if c = CHR 0x0A then [CHR 0x5C, CHR ''n'']
            else if c = CHR 0x0D then [CHR 0x5C, CHR ''r'']
            else if c = CHR 0x22 then [CHR 0x5C, CHR 0x22]
            else if c = CHR 0x5C then [CHR 0x5C, CHR 0x5C]
            else [c])"

definition enc_str :: "string \<Rightarrow> string" where
  "enc_str s = concat (map esc s) @ [CHR 0x22]"

fun dec_str :: "string \<Rightarrow> (string \<times> string) option" where
  "dec_str [] = None"
| "dec_str (c # r) =
     (if c = CHR 0x22 then Some ([], r)
      else if c = CHR 0x5C then
        (case r of
           [] \<Rightarrow> None
         | d # r' \<Rightarrow>
             map_option (apfst ((#) (if d = CHR ''n'' then CHR 0x0A
                                     else if d = CHR ''r'' then CHR 0x0D else d))) (dec_str r'))
      else map_option (apfst ((#) c)) (dec_str r))"

lemma dec_enc_str: "dec_str (enc_str s @ r) = Some (s, r)"
  by (induction s) (auto simp: enc_str_def esc_def)

lemma enc_str_chars: "CHR 0x0A \<notin> set (enc_str s)" "CHR 0x0D \<notin> set (enc_str s)"
  by (auto simp: enc_str_def esc_def)

definition enc_word :: "64 word \<Rightarrow> string" where
  "enc_word w = map (\<lambda>n. if bit w n then CHR ''1'' else CHR ''0'') [0..<64]"

definition dec_word :: "string \<Rightarrow> 64 word" where
  "dec_word s = horner_sum of_bool 2 (map (\<lambda>c. c = CHR ''1'') s)"

lemma dec_enc_word: "dec_word (enc_word w) = w"
proof -
  have "map (\<lambda>c. c = CHR ''1'') (enc_word w) = map (bit w) [0..<64]"
    by (simp add: enc_word_def)
  then have "dec_word (enc_word w) = take_bit 64 w"
    by (simp add: dec_word_def horner_sum_bit_eq_take_bit)
  then show ?thesis
    by (simp add: take_bit_word_eq_self)
qed

lemma length_enc_word [simp]: "length (enc_word w) = 64"
  by (simp add: enc_word_def)

lemma enc_word_chars: "CHR 0x0A \<notin> set (enc_word w)" "CHR 0x0D \<notin> set (enc_word w)"
  by (auto simp: enc_word_def)

section \<open>Documents as text\<close>

fun enc :: "json \<Rightarrow> string" where
  "enc JNull = ''n''"
| "enc (JBool b) = (if b then ''t'' else ''f'')"
| "enc (JInt i) = CHR ''i'' # enc_word i"
| "enc (JNumber s) = CHR ''d'' # enc_str s"
| "enc (JString s) = CHR 0x22 # enc_str s"
| "enc (JArray xs) = CHR ''['' # concat (map enc xs) @ '']''"
| "enc (JObject ms) = CHR ''{'' # concat (map (\<lambda>m. CHR 0x22 # enc_str (fst m) @ enc (snd m)) ms) @ ''}''"

fun dec :: "nat \<Rightarrow> string \<Rightarrow> (json \<times> string) option"
  and dec_list :: "nat \<Rightarrow> string \<Rightarrow> (json list \<times> string) option"
  and dec_mems :: "nat \<Rightarrow> string \<Rightarrow> ((string \<times> json) list \<times> string) option" where
  "dec 0 s = None"
| "dec (Suc n) [] = None"
| "dec (Suc n) (c # r) =
     (if c = CHR ''n'' then Some (JNull, r)
      else if c = CHR ''t'' then Some (JBool True, r)
      else if c = CHR ''f'' then Some (JBool False, r)
      else if c = CHR ''i'' then Some (JInt (dec_word (take 64 r)), drop 64 r)
      else if c = CHR ''d'' then map_option (apfst JNumber) (dec_str r)
      else if c = CHR 0x22 then map_option (apfst JString) (dec_str r)
      else if c = CHR ''['' then map_option (apfst JArray) (dec_list n r)
      else if c = CHR ''{'' then map_option (apfst JObject) (dec_mems n r)
      else None)"
| "dec_list 0 s = None"
| "dec_list (Suc n) [] = None"
| "dec_list (Suc n) (c # r) =
     (if c = CHR '']'' then Some ([], r)
      else do { (x, r) \<leftarrow> dec n (c # r); (xs, r) \<leftarrow> dec_list n r; Some (x # xs, r) })"
| "dec_mems 0 s = None"
| "dec_mems (Suc n) [] = None"
| "dec_mems (Suc n) (c # r) =
     (if c = CHR ''}'' then Some ([], r)
      else do { (k, r) \<leftarrow> dec_str r; (v, r) \<leftarrow> dec n r; (ms, r) \<leftarrow> dec_mems n r; Some ((k, v) # ms, r) })"

lemma enc_nonempty: "enc j \<noteq> [] \<and> hd (enc j) \<noteq> CHR '']''"
  by (cases j) auto

lemma enc_length: "1 \<le> length (enc j)"
  by (cases j) auto

text \<open>Lists and members, given the round trip of their elements.\<close>

lemma dec_list_enc:
  assumes "\<And>x n r. x \<in> set xs \<Longrightarrow> length (enc x) \<le> n \<Longrightarrow> dec n (enc x @ r) = Some (x, r)"
    and "length (concat (map enc xs)) < n"
  shows "dec_list n (concat (map enc xs) @ CHR '']'' # r) = Some (xs, r)"
  using assms
proof (induction xs arbitrary: n)
  case Nil
  then show ?case by (cases n) auto
next
  case (Cons x xs)
  from Cons.prems(2) obtain m where n: "n = Suc m" by (cases n) auto
  obtain c cs where c: "enc x = c # cs" "c \<noteq> CHR '']''"
    using enc_nonempty [of x] by (cases "enc x") auto
  have "dec m (enc x @ concat (map enc xs) @ CHR '']'' # r) = Some (x, concat (map enc xs) @ CHR '']'' # r)"
    using Cons.prems n by simp
  moreover have "dec_list m (concat (map enc xs) @ CHR '']'' # r) = Some (xs, r)"
    using Cons.prems n enc_length [of x] by (intro Cons.IH) auto
  ultimately show ?case
    using c by (simp add: n)
qed

lemma dec_mems_enc:
  assumes "\<And>m n r. m \<in> set ms \<Longrightarrow> length (enc (snd m)) \<le> n \<Longrightarrow> dec n (enc (snd m) @ r) = Some (snd m, r)"
    and "length (concat (map (\<lambda>m. CHR 0x22 # enc_str (fst m) @ enc (snd m)) ms)) < n"
  shows "dec_mems n (concat (map (\<lambda>m. CHR 0x22 # enc_str (fst m) @ enc (snd m)) ms) @ CHR ''}'' # r) = Some (ms, r)"
  using assms
proof (induction ms arbitrary: n)
  case Nil
  then show ?case by (cases n) auto
next
  case (Cons m ms)
  let ?rest = "concat (map (\<lambda>m. CHR 0x22 # enc_str (fst m) @ enc (snd m)) ms) @ CHR ''}'' # r"
  from Cons.prems(2) obtain n' where n: "n = Suc n'" by (cases n) auto
  have "dec n' (enc (snd m) @ ?rest) = Some (snd m, ?rest)"
    using Cons.prems n by simp
  moreover have "dec_mems n' ?rest = Some (ms, r)"
    using Cons.prems n by (intro Cons.IH) auto
  ultimately show ?case
    by (simp add: n dec_enc_str)
qed

lemma dec_enc: "length (enc j) \<le> n \<Longrightarrow> dec n (enc j @ r) = Some (j, r)"
proof (induction j arbitrary: n r rule: enc.induct)
  case (2 b)
  then obtain m where "n = Suc m" by (cases b; cases n) simp_all
  then show ?case by simp
next
  case (6 xs)
  then obtain m where "n = Suc m" by (cases n) simp_all
  with 6 show ?case by (simp add: dec_list_enc)
next
  case (7 ms)
  then obtain m where n: "n = Suc m" by (cases n) simp_all
  have "dec_mems m (concat (map (\<lambda>m. CHR 0x22 # enc_str (fst m) @ enc (snd m)) ms) @ CHR ''}'' # r) = Some (ms, r)"
    using 7 n by (intro dec_mems_enc) simp_all
  with n show ?case by simp
next
  case 1
  then obtain m where "n = Suc m" by (cases n) simp_all
  then show ?case by simp
next
  case (3 i)
  then obtain m where "n = Suc m" by (cases n) simp_all
  then show ?case by (simp add: dec_enc_word)
next
  case (4 s)
  then obtain m where "n = Suc m" by (cases n) simp_all
  then show ?case by (simp add: dec_enc_str)
next
  case (5 s)
  then obtain m where "n = Suc m" by (cases n) simp_all
  then show ?case by (simp add: dec_enc_str)
qed

lemma enc_chars: "CHR 0x0A \<notin> set (enc j) \<and> CHR 0x0D \<notin> set (enc j)"
  by (induction j rule: enc.induct) (auto simp: enc_str_chars enc_word_chars)

section \<open>The sample libraries\<close>

definition parse_line :: "string \<Rightarrow> json option" where
  "parse_line s = (case dec (length s) s of Some (j, []) \<Rightarrow> Some j | _ \<Rightarrow> None)"

lemma parse_line_enc: "parse_line (enc j) = Some j"
  using dec_enc [of j "length (enc j)" "[]"] by (simp add: parse_line_def)

fun member :: "json_ptr \<Rightarrow> string \<Rightarrow> json option" where
  "member (Some (JObject ms)) k = map_of ms k"
| "member _ k = None"

definition sample_json :: json_lib where
  "sample_json =
     \<lparr>json_generator_to_data = enc,
      json_parser_load_from_data =
        (\<lambda>s. case parse_line s of None \<Rightarrow> Fail (Some (Foreign_error ''json-parser-error-quark'' 0 ''parse error''))
                                | Some j \<Rightarrow> Ok (Some j)),
      json_node_get_object = (\<lambda>p. case p of Some (JObject ms) \<Rightarrow> p | _ \<Rightarrow> None),
      json_object_has_member = (\<lambda>p k. member p k \<noteq> None),
      json_object_get_object_member =
        (\<lambda>p k. case member p k of Some (JObject ms) \<Rightarrow> Some (JObject ms) | _ \<Rightarrow> None),
      json_object_get_array_member =
        (\<lambda>p k. case member p k of Some (JArray xs) \<Rightarrow> Some (JArray xs) | _ \<Rightarrow> None),
      json_object_get_string_member =
        (\<lambda>p k. case member p k of Some (JString s) \<Rightarrow> Some s | _ \<Rightarrow> None),
      json_object_get_int_member = (\<lambda>p k. case member p k of Some (JInt i) \<Rightarrow> i | _ \<Rightarrow> 0),
      json_object_get_boolean_member = (\<lambda>p k. member p k = Some (JBool True)),
      json_array_get_length = (\<lambda>p. case p of Some (JArray xs) \<Rightarrow> length xs | _ \<Rightarrow> 0),
      json_array_get_object_element =
        (\<lambda>p i. case p of Some (JArray xs) \<Rightarrow>
            (if i < length xs then (case xs ! i of JObject ms \<Rightarrow> Some (JObject ms) | _ \<Rightarrow> None) else None)
          | _ \<Rightarrow> None),
      g_base64_encode = map (\<lambda>b. char_of (unat b)),
      g_base64_decode = (\<lambda>s. case s of None \<Rightarrow> [] | Some s \<Rightarrow> map (\<lambda>c. word_of_nat (of_char c)) s),
      json_text = (\<lambda>_. True)\<rparr>"

definition sample_go :: go_json where
  "sample_go = \<lparr>json_Unmarshal = parse_line, json_Marshal = enc,
                base64_StdEncoding = map (\<lambda>b. char_of (unat b))\<rparr>"

lemma sample_access_ok: "json_access_ok sample_json"
  by (simp add: json_access_ok_def sample_json_def)

lemma sample_text_ok: "json_text_ok sample_json"
  by (simp add: json_text_ok_def sample_json_def enc_chars parse_line_enc)

lemma sample_base64_ok: "base64_ok sample_json"
  by (simp add: base64_ok_def sample_json_def comp_def byte_mod)

end
