(* ===== verification/Rpc_Link.thy ===== *)
theory Rpc_Link
  imports Proton_Rpc Sample_Libs
begin

text \<open>
  The two programs connected: Unix stream sockets whose other end is the server of
  \<open>Helper_Server\<close>. This is the instance of the client's socket parameter in which the client's
  contract \<open>rpc_transport\<close> is discharged, and in which a call of the client is compared with a
  direct call of the helper's dispatcher.
\<close>

section \<open>Sockets\<close>

text \<open>
  One connection: the request bytes the helper has not consumed, the response lines the client
  has not read (each response is written as one line), and whether the helper's end is open.
\<close>

record conn_state =
  cs_inbuf :: string
  cs_outbuf :: "string list"
  cs_open :: bool

record 'h net =
  net_listening :: "string \<Rightarrow> bool"
  net_next :: conn_id
  net_conns :: "conn_id \<Rightarrow> conn_state"
  net_helper :: 'h
  net_cancelled :: "nat \<Rightarrow> bool"

definition fresh_conn :: conn_state where
  "fresh_conn = \<lparr>cs_inbuf = [], cs_outbuf = [], cs_open = True\<rparr>"

definition set_conn :: "conn_id \<Rightarrow> conn_state \<Rightarrow> 'h net \<Rightarrow> 'h net" where
  "set_conn c cs w = w\<lparr>net_conns := (net_conns w)(c := cs)\<rparr>"

definition net_connect :: "string \<Rightarrow> 'h net \<Rightarrow> conn_id ret \<times> 'h net" where
  "net_connect path w =
     (if net_listening w path
      then (Ok (net_next w), set_conn (net_next w) fresh_conn (w\<lparr>net_next := net_next w + 1\<rparr>))
      else (Fail (Some (Io_error (G_IO_ERROR_NUMBER 39) ''Could not connect'')), w))"

definition net_write ::
  "go_json \<Rightarrow> 'h handlers \<Rightarrow> conn_id \<Rightarrow> string \<Rightarrow> 'h net \<Rightarrow> unit ret \<times> 'h net" where
  "net_write G s c bytes w =
     (let cs = net_conns w c in
      if cs_open cs
      then (case handleConn G s (cs_inbuf cs @ bytes) (net_helper w) of
              (outs, rest, alive, st) \<Rightarrow>
                (Ok (), set_conn c \<lparr>cs_inbuf = rest, cs_outbuf = cs_outbuf cs @ outs, cs_open = alive\<rparr>
                                 (w\<lparr>net_helper := st\<rparr>)))
      else (Fail (Some (Io_error (G_IO_ERROR_NUMBER 44) ''Broken pipe'')), w))"

text \<open>
  A read returns at once where the cancellable is cancelled or a line is there, reports the end
  of the stream without an error, and blocks for ever on an open connection without an answer.
\<close>

definition net_read :: "conn_id \<Rightarrow> cancellable \<Rightarrow> 'h net \<Rightarrow> (string ret \<times> 'h net) option" where
  "net_read c k w =
     (if (case k of None \<Rightarrow> False | Some i \<Rightarrow> net_cancelled w i)
      then Some (Fail (Some (Io_error G_IO_ERROR_CANCELLED ''Operation was cancelled'')), w)
      else (case cs_outbuf (net_conns w c) of
              l # ls \<Rightarrow> Some (Ok l, set_conn c ((net_conns w c)\<lparr>cs_outbuf := ls\<rparr>) w)
            | [] \<Rightarrow> (if cs_open (net_conns w c) then stuck else Some (Fail None, w))))"

definition net_close :: "conn_id \<Rightarrow> 'h net \<Rightarrow> 'h net" where
  "net_close c w = set_conn c \<lparr>cs_inbuf = [], cs_outbuf = [], cs_open = False\<rparr> w"

definition net_ops :: "go_json \<Rightarrow> 'h handlers \<Rightarrow> 'h net socket_ops" where
  "net_ops G s = \<lparr>g_socket_client_connect = net_connect,
                  g_output_stream_write_all = net_write G s,
                  g_data_input_stream_read_line = net_read,
                  g_io_stream_unref = net_close\<rparr>"

lemma net_ops_sel [simp]:
  "g_socket_client_connect (net_ops G s) = net_connect"
  "g_output_stream_write_all (net_ops G s) = net_write G s"
  "g_data_input_stream_read_line (net_ops G s) = net_read"
  "g_io_stream_unref (net_ops G s) = net_close"
  by (simp_all add: net_ops_def)

lemma set_conn_sel [simp]:
  "net_conns (set_conn c cs w) = (net_conns w)(c := cs)"
  "net_listening (set_conn c cs w) = net_listening w"
  "net_next (set_conn c cs w) = net_next w"
  "net_helper (set_conn c cs w) = net_helper w"
  "net_cancelled (set_conn c cs w) = net_cancelled w"
  by (simp_all add: set_conn_def)

lemma set_conn_twice [simp]: "set_conn c cs (set_conn c cs' w) = set_conn c cs w"
  by (simp add: set_conn_def)

text \<open>
  What happens between two calls of one client: cancellables are triggered or reset, the
  helper's state moves on, other connections come and go, the helper starts or stops listening,
  and it may close its end of any connection.
\<close>

definition net_env :: "'h net \<Rightarrow> 'h net \<Rightarrow> bool" where
  "net_env w w' \<longleftrightarrow>
     (\<forall>c. cs_inbuf (net_conns w' c) = cs_inbuf (net_conns w c) \<and>
          cs_outbuf (net_conns w' c) = cs_outbuf (net_conns w c) \<and>
          (cs_open (net_conns w' c) \<longrightarrow> cs_open (net_conns w c)))"

section \<open>The client's contract holds\<close>

definition net_settled :: "'h net \<Rightarrow> conn_id \<Rightarrow> bool" where
  "net_settled w c \<longleftrightarrow>
     cs_outbuf (net_conns w c) = [] \<and> (cs_open (net_conns w c) \<longrightarrow> cs_inbuf (net_conns w c) = [])"

definition net_answers :: "go_json \<Rightarrow> 'h handlers \<Rightarrow> string \<Rightarrow> string \<Rightarrow> bool" where
  "net_answers G s l r \<longleftrightarrow> (\<exists>st. fst (serve_line G s l st) = [r])"

definition net_awaiting :: "go_json \<Rightarrow> 'h handlers \<Rightarrow> 'h net \<Rightarrow> conn_id \<Rightarrow> string \<Rightarrow> bool" where
  "net_awaiting G s w c l \<longleftrightarrow>
     (cs_open (net_conns w c) \<longrightarrow> cs_inbuf (net_conns w c) = []) \<and>
     (cs_outbuf (net_conns w c) = [] \<or>
      (\<exists>r. cs_outbuf (net_conns w c) = [r] \<and> net_answers G s l r))"

lemma net_connect_settled: "net_connect p w = (Ok c, w') \<Longrightarrow> net_settled w' c"
  by (auto simp: net_connect_def net_settled_def fresh_conn_def split: if_splits)

lemma net_write_Fail: "net_write G s c b w = (Fail e, w') \<Longrightarrow> w' = w \<and> \<not> cs_open (net_conns w c)"
  by (auto simp: net_write_def Let_def split: if_splits prod.splits)

text \<open>Writing a request line to a settled connection, its newline apart.\<close>

lemma net_write_line:
  assumes "net_settled w c" "CHR 0x0A \<notin> set l" "net_write G s c l w = (Ok u, w')"
  shows "w' = set_conn c \<lparr>cs_inbuf = (if length l < max_token_size then l else []), cs_outbuf = [],
                          cs_open = (length l < max_token_size)\<rparr> w"
  using assms
  by (auto simp: net_settled_def net_write_def Let_def handleConn_partial set_conn_def split: if_splits)

lemma net_write_newline:
  assumes "net_settled w c" "CHR 0x0A \<notin> set l"
    and "net_write G s c l w = (Ok u, w1)" "net_write G s c [CHR 0x0A] w1 = (Ok u', w')"
  shows "length l < max_token_size"
    and "w' = (case serve_line G s l (net_helper w) of (outs, st) \<Rightarrow>
           set_conn c \<lparr>cs_inbuf = [], cs_outbuf = outs, cs_open = True\<rparr> (w\<lparr>net_helper := st\<rparr>))"
proof -
  note w1 = net_write_line [OF assms(1-3)]
  from assms(4) show len: "length l < max_token_size"
    by (auto simp: w1 net_write_def Let_def split: if_splits)
  from assms(4) assms(2) len
  show "w' = (case serve_line G s l (net_helper w) of (outs, st) \<Rightarrow>
           set_conn c \<lparr>cs_inbuf = [], cs_outbuf = outs, cs_open = True\<rparr> (w\<lparr>net_helper := st\<rparr>))"
    by (auto simp: w1 net_write_def Let_def handleConn_line set_conn_def split: prod.splits)
qed

interpretation lk: rpc_transport "net_ops G s" net_settled "net_awaiting G s" "net_answers G s" net_env
  for G s
proof (unfold_locales, goal_cases)
  case (1 p w c w')
  then show ?case by (simp add: net_connect_settled)
next
  case (2 w c l e w')
  then show ?case by (auto dest: net_write_Fail)
next
  case (3 w c l u w1 e w')
  then have "w1 = set_conn c \<lparr>cs_inbuf = (if length l < max_token_size then l else []),
      cs_outbuf = [], cs_open = (length l < max_token_size)\<rparr> w"
    by (intro net_write_line) simp_all
  with 3 show ?case
    by (auto simp: net_settled_def dest: net_write_Fail split: if_splits)
next
  case (4 w c l u w1 u' w')
  then have "w' = (case serve_line G s l (net_helper w) of (outs, st) \<Rightarrow>
           set_conn c \<lparr>cs_inbuf = [], cs_outbuf = outs, cs_open = True\<rparr> (w\<lparr>net_helper := st\<rparr>))"
    by (intro net_write_newline) simp_all
  moreover obtain outs st where "serve_line G s l (net_helper w) = (outs, st)"
    by (cases "serve_line G s l (net_helper w)")
  moreover from this have "outs = [] \<or> (\<exists>r. outs = [r])"
    using serve_line_length [of G s l "net_helper w"] by (cases outs) auto
  ultimately show ?case
    by (auto simp: net_awaiting_def net_answers_def) (metis fst_conv)
next
  case (5 w c l k r w')
  then show ?case
    by (auto simp: net_awaiting_def net_settled_def net_read_def split: if_splits list.splits option.splits)
next
  case (6 w c l k e w')
  then show ?case
    by (auto simp: net_awaiting_def net_settled_def net_read_def split: if_splits list.splits option.splits)
next
  case (7 w c w')
  then show ?case
    by (auto simp: net_settled_def net_env_def)
qed

section \<open>Agreement on the wire\<close>

text \<open>
  The two JSON libraries read each other's text, and the helper's responses to such requests are
  documents that can be written as text.
\<close>

definition wire_ok :: "json_lib \<Rightarrow> go_json \<Rightarrow> 'h handlers \<Rightarrow> bool" where
  "wire_ok J G s \<longleftrightarrow>
     (\<forall>j. json_text J j \<longrightarrow> json_Unmarshal G (json_generator_to_data J j) = Some j) \<and>
     (\<forall>j. json_text J j \<longrightarrow> json_parser_load_from_data J (json_Marshal G j) = Ok (Some j)) \<and>
     (\<forall>j req st. json_text J j \<longrightarrow> unmarshal_Request j = Some req \<longrightarrow>
        json_text J (marshal_Response (fst (dispatch s req st))))"

lemma wire_okD:
  assumes "wire_ok J G s" "json_text J j"
  shows "json_Unmarshal G (json_generator_to_data J j) = Some j"
    and "json_parser_load_from_data J (json_Marshal G j) = Ok (Some j)"
    and "unmarshal_Request j = Some req \<Longrightarrow> json_text J (marshal_Response (fst (dispatch s req st)))"
  using assms by (simp_all add: wire_ok_def)

lemma unmarshal_build_request:
  "unmarshal_Request (build_request i m p) =
     (if 0 \<le> sint i then Some \<lparr>req_ID = i, req_Method = m, req_Params = p\<rparr> else None)"
  by (cases p) (simp_all add: build_request_def field_defs)

lemma serve_line_request:
  assumes "wire_ok J G s" "json_text_ok J" "json_text J (build_request i m p)"
  shows "serve_line G s (json_generator_to_data J (build_request i m p)) st =
    (if 0 \<le> sint i
     then (case dispatch s \<lparr>req_ID = i, req_Method = m, req_Params = p\<rparr> st of (resp, st) \<Rightarrow>
             ([json_Marshal G (marshal_Response resp)], st))
     else ([], st))"
proof -
  have "CHR 0x0D \<notin> set (json_generator_to_data J (build_request i m p))"
    using assms(2,3) by (simp add: json_text_ok_def)
  then show ?thesis
    by (simp add: serve_line_def drop_cr_id wire_okD(1) [OF assms(1,3)] unmarshal_build_request)
qed

text \<open>What the client makes of a response of the helper.\<close>

definition response_ret :: "response \<Rightarrow> json ret" where
  "response_ret r =
     (case resp_Error r of
        Some e \<Rightarrow> Fail (Some (Io_error (gio_code (re_Code e)) (re_Message e)))
      | None \<Rightarrow> Ok (marshal_Response r))"

lemma decode_marshal_response:
  assumes J: "json_access_ok J" and "json_parser_load_from_data J l = Ok (Some (marshal_Response r))"
  shows "decode_response J l = response_ret r"
proof (cases "resp_Error r")
  case None
  with assms show ?thesis
    by (cases "resp_Result r")
       (simp_all add: decode_response_def response_ret_def marshal_Response_def json_access [OF J])
next
  case (Some e)
  define ms where "ms = [(''id'', JInt (resp_ID r))] @
     (case resp_Result r of None \<Rightarrow> [] | Some x \<Rightarrow> [(''result'', x)]) @ [(''error'', marshal_RPCError e)]"
  have r: "marshal_Response r = JObject ms"
    by (simp add: ms_def marshal_Response_def Some)
  have err: "map_of ms ''error'' = Some (marshal_RPCError e)"
    by (cases "resp_Result r") (simp_all add: ms_def)
  show ?thesis
    using assms(2) Some err
    by (cases "re_Details e")
       (simp_all add: decode_response_def response_ret_def r marshal_RPCError_def json_access [OF J])
qed


section \<open>A call is a dispatch\<close>

lemma sample_wire_ok: "wire_ok sample_json sample_go s"
  by (simp add: wire_ok_def sample_json_def sample_go_def parse_line_enc)

text \<open>
  A client connected to the helper over \<open>c\<close> with nothing outstanding, and a request that one
  line can carry (a negative id, reached after 2^63 calls, would not be read as one by the helper).
\<close>

definition connected :: "proton_rpc \<Rightarrow> conn_id \<Rightarrow> 'h net \<Rightarrow> bool" where
  "connected rpc c w \<longleftrightarrow> \<not> rpc_lock rpc \<and> rpc_conn rpc = Some c \<and> rpc_reader rpc = Some c \<and>
     rpc_writer rpc = c \<and> net_conns w c = fresh_conn"

definition sendable :: "json_lib \<Rightarrow> guint64 \<Rightarrow> string \<Rightarrow> json option \<Rightarrow> bool" where
  "sendable J i m p \<longleftrightarrow> json_text J (build_request i m p) \<and> 0 \<le> sint i \<and>
     length (json_generator_to_data J (build_request i m p)) < max_token_size"

definition is_cancelled :: "cancellable \<Rightarrow> 'h net \<Rightarrow> bool" where
  "is_cancelled k w = (case k of None \<Rightarrow> False | Some i \<Rightarrow> net_cancelled w i)"

lemma set_conn_same: "net_conns w c = cs \<Longrightarrow> set_conn c cs w = w"
  by (cases w) (auto simp: set_conn_def)

lemma send_request_net:
  assumes "wire_ok J G s" "json_text_ok J" "connected rpc c w" "sendable J i m p"
  shows "send_request (net_ops G s) J rpc (build_request i m p) w =
    (case dispatch s \<lparr>req_ID = i, req_Method = m, req_Params = p\<rparr> (net_helper w) of (resp, st) \<Rightarrow>
       Some (Ok (), set_conn c \<lparr>cs_inbuf = [], cs_outbuf = [json_Marshal G (marshal_Response resp)],
                               cs_open = True\<rparr> (w\<lparr>net_helper := st\<rparr>)))"
proof -
  let ?l = "json_generator_to_data J (build_request i m p)"
  have l: "CHR 0x0A \<notin> set ?l" "length ?l < max_token_size"
    using assms(2,4) by (simp_all add: sendable_def json_text_line)
  have c: "rpc_conn rpc = Some c" "rpc_writer rpc = c" "net_conns w c = fresh_conn"
    using assms(3) by (simp_all add: connected_def)
  have doc: "json_text J (build_request i m p)" "0 \<le> sint i"
    using assms(4) by (simp_all add: sendable_def)
  have "net_write G s c ?l w = (Ok (), set_conn c \<lparr>cs_inbuf = ?l, cs_outbuf = [], cs_open = True\<rparr> w)"
    using l by (simp add: net_write_def c fresh_conn_def handleConn_partial set_conn_def)
  moreover have "net_write G s c [CHR 0x0A] (set_conn c \<lparr>cs_inbuf = ?l, cs_outbuf = [], cs_open = True\<rparr> w) =
    (case serve_line G s ?l (net_helper w) of (outs, st) \<Rightarrow>
      (Ok (), set_conn c \<lparr>cs_inbuf = [], cs_outbuf = outs, cs_open = True\<rparr> (w\<lparr>net_helper := st\<rparr>)))"
    using l by (simp add: net_write_def handleConn_line set_conn_def split: prod.splits)
  ultimately show ?thesis
    using c doc
    by (simp add: send_request_def serve_line_request [OF assms(1,2)] split: prod.splits)
qed

lemma call_net:
  assumes "json_access_ok J" "json_text_ok J" "wire_ok J G s"
    and "connected rpc c w" "\<not> is_cancelled k w" "sendable J (rpc_next_id rpc) m p"
  shows "call (net_ops G s) J rpc m p k w =
    (case dispatch s \<lparr>req_ID = rpc_next_id rpc, req_Method = m, req_Params = p\<rparr> (net_helper w) of
       (resp, st) \<Rightarrow>
         Some (response_ret resp, rpc\<lparr>rpc_next_id := rpc_next_id rpc + 1\<rparr>, w\<lparr>net_helper := st\<rparr>))"
proof -
  let ?i = "rpc_next_id rpc"
  let ?rpc = "rpc\<lparr>rpc_lock := True, rpc_next_id := ?i + 1\<rparr>"
  obtain resp st where d:
    "dispatch s \<lparr>req_ID = ?i, req_Method = m, req_Params = p\<rparr> (net_helper w) = (resp, st)"
    by (cases "dispatch s \<lparr>req_ID = ?i, req_Method = m, req_Params = p\<rparr> (net_helper w)")
  have conn: "\<not> rpc_lock rpc" "rpc_reader rpc = Some c" "net_conns w c = fresh_conn"
    using assms(4) by (simp_all add: connected_def)
  have doc: "json_text J (build_request ?i m p)" "0 \<le> sint ?i"
    using assms(6) by (simp_all add: sendable_def)
  let ?w = "set_conn c \<lparr>cs_inbuf = [], cs_outbuf = [json_Marshal G (marshal_Response resp)],
                        cs_open = True\<rparr> (w\<lparr>net_helper := st\<rparr>)"
  have "send_request (net_ops G s) J ?rpc (build_request ?i m p) w =
        send_request (net_ops G s) J rpc (build_request ?i m p) w"
    by (simp add: send_request_def writer_stream_def)
  then have sent: "send_request (net_ops G s) J ?rpc (build_request ?i m p) w = Some (Ok (), ?w)"
    by (simp add: send_request_net [OF assms(3,2,4,6)] d)
  have w: "set_conn c \<lparr>cs_inbuf = [], cs_outbuf = [], cs_open = True\<rparr> (w\<lparr>net_helper := st\<rparr>) =
           w\<lparr>net_helper := st\<rparr>"
    using conn(3) by (intro set_conn_same) (simp add: fresh_conn_def)
  have "json_text J (marshal_Response resp)"
    using wire_okD(3) [OF assms(3) doc(1), of _ "net_helper w"] doc(2)
    by (simp add: unmarshal_build_request d)
  then have "decode_response J (json_Marshal G (marshal_Response resp)) = response_ret resp"
    by (intro decode_marshal_response [OF assms(1)] wire_okD(2) [OF assms(3)])
  then have rcv: "recv_response (net_ops G s) J ?rpc ?i k ?w = Some (response_ret resp, w\<lparr>net_helper := st\<rparr>)"
    using assms(5) conn(2) by (cases k) (simp_all add: recv_response_def net_read_def is_cancelled_def w)
  have unlock: "g_mutex_unlock ?rpc = rpc\<lparr>rpc_next_id := ?i + 1\<rparr>"
    using conn(1) by (cases rpc) (simp add: g_mutex_unlock_def)
  show ?thesis
    using sent rcv conn(1) gio_code_not_cancelled
    by (simp add: call_def g_mutex_lock_def Let_def d unlock response_ret_def
             split: option.splits del: gio_code.simps cong: ret.case_cong if_cong)
qed

text \<open>
  A cancelled read: the helper has executed the request, its response is given up with the
  connection, and the client reconnects.
\<close>

lemma call_net_cancelled:
  assumes "json_text_ok J" "wire_ok J G s"
    and "connected rpc c w" "net_cancelled w i" "sendable J (rpc_next_id rpc) m p"
  defines "st \<equiv> snd (dispatch s \<lparr>req_ID = rpc_next_id rpc, req_Method = m, req_Params = p\<rparr> (net_helper w))"
  defines "w1 \<equiv> net_close c (w\<lparr>net_helper := st\<rparr>)"
  defines "rpc1 \<equiv> rpc\<lparr>rpc_next_id := rpc_next_id rpc + 1\<rparr>"
  shows "call (net_ops G s) J rpc m p (Some i) w =
    Some (Fail (Some (Io_error G_IO_ERROR_CANCELLED ''Operation was cancelled'')),
      (if net_listening w (rpc_socket_path rpc)
       then (rpc1\<lparr>rpc_conn := Some (net_next w), rpc_reader := Some (net_next w), rpc_writer := net_next w\<rparr>,
             set_conn (net_next w) fresh_conn (w1\<lparr>net_next := net_next w + 1\<rparr>))
       else (rpc1\<lparr>rpc_conn := None, rpc_reader := None\<rparr>, w1)))"
proof -
  let ?i = "rpc_next_id rpc"
  let ?rpc = "rpc\<lparr>rpc_lock := True, rpc_next_id := ?i + 1\<rparr>"
  obtain resp where d:
    "dispatch s \<lparr>req_ID = ?i, req_Method = m, req_Params = p\<rparr> (net_helper w) = (resp, st)"
    by (cases "dispatch s \<lparr>req_ID = ?i, req_Method = m, req_Params = p\<rparr> (net_helper w)") (simp add: st_def)
  have conn: "\<not> rpc_lock rpc" "rpc_reader rpc = Some c" "rpc_conn rpc = Some c"
    using assms(3) by (simp_all add: connected_def)
  let ?w = "set_conn c \<lparr>cs_inbuf = [], cs_outbuf = [json_Marshal G (marshal_Response resp)],
                        cs_open = True\<rparr> (w\<lparr>net_helper := st\<rparr>)"
  have "send_request (net_ops G s) J ?rpc (build_request ?i m p) w =
        send_request (net_ops G s) J rpc (build_request ?i m p) w"
    by (simp add: send_request_def writer_stream_def)
  then have sent: "send_request (net_ops G s) J ?rpc (build_request ?i m p) w = Some (Ok (), ?w)"
    by (simp add: send_request_net [OF assms(2,1,3,5)] d)
  have rcv: "recv_response (net_ops G s) J ?rpc ?i (Some i) ?w =
      Some (Fail (Some (Io_error G_IO_ERROR_CANCELLED ''Operation was cancelled'')), ?w)"
    using assms(4) conn(2) by (simp add: recv_response_def net_read_def)
  have close: "net_close c ?w = w1"
    by (simp add: net_close_def w1_def)
  have unlock: "\<And>a b d. g_mutex_unlock (?rpc\<lparr>rpc_reader := a, rpc_conn := b, rpc_writer := d\<rparr>) =
      rpc1\<lparr>rpc_conn := b, rpc_reader := a, rpc_writer := d\<rparr>"
    "\<And>a b. g_mutex_unlock (?rpc\<lparr>rpc_reader := a, rpc_conn := b\<rparr>) = rpc1\<lparr>rpc_conn := b, rpc_reader := a\<rparr>"
    using conn(1) by (cases rpc, simp add: g_mutex_unlock_def rpc1_def)+
  have w1: "net_listening w1 = net_listening w" "net_next w1 = net_next w"
    by (simp_all add: w1_def net_close_def)
  have up: "net_listening w (rpc_socket_path rpc) \<Longrightarrow>
      reconnect (net_ops G s) ?rpc ?w =
        (Ok (), ?rpc\<lparr>rpc_reader := Some (net_next w), rpc_conn := Some (net_next w), rpc_writer := net_next w\<rparr>,
         set_conn (net_next w) fresh_conn (w1\<lparr>net_next := net_next w + 1\<rparr>))"
    using conn(3) by (simp add: reconnect_def Let_def close net_connect_def w1)
  have down: "\<not> net_listening w (rpc_socket_path rpc) \<Longrightarrow>
      reconnect (net_ops G s) ?rpc ?w =
        (Fail (Some (Io_error (G_IO_ERROR_NUMBER 39) ''Could not connect'')),
         ?rpc\<lparr>rpc_reader := None, rpc_conn := None\<rparr>, w1)"
    using conn(3) by (simp add: reconnect_def Let_def close net_connect_def w1)
  show ?thesis
  proof (cases "net_listening w (rpc_socket_path rpc)")
    case True
    then show ?thesis
      unfolding call_def g_mutex_lock_def Let_def using conn(1)
      by (simp add: sent rcv up unlock)
  next
    case False
    then show ?thesis
      unfolding call_def g_mutex_lock_def Let_def using conn(1)
      by (simp add: sent rcv down unlock)
  qed
qed

text \<open>A line that answers a request and decodes to a result is the helper's response to it.\<close>

lemma answer_is_response:
  assumes "json_access_ok J" "json_text_ok J" "wire_ok J G s"
    and "json_text J (build_request i m p)"
    and "net_answers G s (json_generator_to_data J (build_request i m p)) l" "decode_response J l = Ok obj"
  shows "(\<exists>st. obj = marshal_Response (fst (dispatch s \<lparr>req_ID = i, req_Method = m, req_Params = p\<rparr> st))) \<and>
         json_object_get_int_member J (Some obj) ''id'' = i"
proof -
  let ?req = "build_request i m p"
  obtain st where l: "fst (serve_line G s (json_generator_to_data J ?req) st) = [l]"
    using assms(5) by (auto simp: net_answers_def)
  then have id: "0 \<le> sint i"
    by (auto simp: serve_line_request [OF assms(3,2,4)] split: if_splits)
  define resp where "resp = fst (dispatch s \<lparr>req_ID = i, req_Method = m, req_Params = p\<rparr> st)"
  from l id have "l = json_Marshal G (marshal_Response resp)"
    by (simp add: serve_line_request [OF assms(3,2,4)] resp_def split: prod.splits)
  moreover have "json_text J (marshal_Response resp)"
    using wire_okD(3) [OF assms(3,4)] id by (simp add: unmarshal_build_request resp_def)
  ultimately have "response_ret resp = Ok obj"
    using assms(6) decode_marshal_response [OF assms(1) wire_okD(2) [OF assms(3)]] by simp
  then have obj: "obj = marshal_Response resp"
    by (simp add: response_ret_def split: option.splits)
  obtain ms where "marshal_Response resp = JObject ms" "map_of ms ''id'' = Some (JInt (resp_ID resp))"
    using marshal_Response_id by blast
  then have "json_object_get_int_member J (Some obj) ''id'' = i"
    by (simp add: obj json_access(7) [OF assms(1)] resp_def)
  with obj show ?thesis
    by (auto simp: resp_def)
qed

section \<open>A helper for the witnesses\<close>

text \<open>A helper that counts the requests it serves and fails those for a missing path.\<close>

definition counting :: "nat handler" where
  "counting params n =
     (if params = Some (JObject [(''path'', JString ''/missing'')])
      then (Inl (Rpc_err \<lparr>re_Code = ErrNotFound, re_Message = ''not found'', re_Details = None\<rparr>), n + 1)
      else (Inr (Some (JInt (of_nat n))), n + 1))"

definition sample_handlers :: "nat handlers" where
  "sample_handlers = Register NewServer ''Stat'' counting"

definition sample_ops :: "nat net socket_ops" where
  "sample_ops = net_ops sample_go sample_handlers"

definition sample_rpc :: proton_rpc where
  "sample_rpc = \<lparr>rpc_conn = Some 5, rpc_reader = Some 5, rpc_writer = 5, rpc_lock = False,
                 rpc_next_id = 1, rpc_socket_path = ''/s''\<rparr>"

definition closed_conn :: conn_state where
  "closed_conn = \<lparr>cs_inbuf = [], cs_outbuf = [], cs_open = False\<rparr>"

definition sample_net :: "bool \<Rightarrow> nat net" where
  "sample_net up = \<lparr>net_listening = (\<lambda>_. up), net_next = 6, net_conns = (\<lambda>_. closed_conn)(5 := fresh_conn),
                    net_helper = 0, net_cancelled = (\<lambda>i. i = 0)\<rparr>"

abbreviation (input) stat_root :: "json option" where
  "stat_root \<equiv> Some (JObject [(''path'', JString ''/'')])"

lemma sample_connected: "connected sample_rpc 5 (sample_net up)"
  by (simp add: connected_def sample_rpc_def sample_net_def)

lemma sample_sendable: "sendable sample_json 1 ''Stat'' stat_root" "sendable sample_json 2 ''Stat'' stat_root"
  by (simp_all add: sendable_def sample_json_def build_request_def max_token_size_def enc_str_def esc_def)

lemma sample_new:
  "proton_rpc_new sample_ops ''/s''
     (\<lparr>net_listening = (\<lambda>_. True), net_next = 5, net_conns = (\<lambda>_. closed_conn), net_helper = 0,
       net_cancelled = (\<lambda>i. i = 0)\<rparr>) = (Ok sample_rpc, sample_net True)"
  by (simp add: proton_rpc_new_def sample_ops_def net_connect_def sample_rpc_def sample_net_def set_conn_def)

lemma sample_run: "rpc_run sample_ops sample_json net_env sample_rpc (sample_net True)"
  by (rule rpc_run.run_new [OF sample_new])

section \<open>Properties\<close>

text \<open>
  C8. A remote call is a local one: for a connected client that is not cancelled, \<open>call\<close> returns
  exactly what the helper's \<open>dispatch\<close> returns for the request (its result, or its error with the
  code translated), uses one request id, and leaves the connection empty again; nothing else
  changes but the helper's own state.
\<close>

theorem call_is_dispatch:
  assumes "json_access_ok J" "json_text_ok J" "wire_ok J G s"
    and "connected rpc c w" "\<not> is_cancelled k w" "sendable J (rpc_next_id rpc) m p"
  shows "call (net_ops G s) J rpc m p k w =
    (case dispatch s \<lparr>req_ID = rpc_next_id rpc, req_Method = m, req_Params = p\<rparr> (net_helper w) of
       (resp, st) \<Rightarrow>
         Some (response_ret resp, rpc\<lparr>rpc_next_id := rpc_next_id rpc + 1\<rparr>, w\<lparr>net_helper := st\<rparr>))"
  by (rule call_net [OF assms])

theorem call_is_dispatch_witness:
  "call sample_ops sample_json sample_rpc ''Stat'' stat_root None (sample_net True) =
     Some (Ok (JObject [(''id'', JInt 1), (''result'', JInt 0)]), sample_rpc\<lparr>rpc_next_id := 2\<rparr>,
           (sample_net True)\<lparr>net_helper := 1\<rparr>)"
proof -
  have "\<not> is_cancelled None (sample_net True)"
    by (simp add: is_cancelled_def)
  note h = call_is_dispatch [OF sample_access_ok sample_text_ok sample_wire_ok sample_connected this,
      where m = "''Stat''" and p = stat_root and s = sample_handlers]
  show ?thesis
    using h sample_sendable
    by (simp add: sample_ops_def dispatch_def sample_handlers_def Register_def counting_def
        response_ret_def marshal_Response_def sample_rpc_def sample_net_def)
qed

text \<open>
  C9. No reply is mistaken for another: in every state a client can reach (any calls before, any
  of them cancelled or failed, any moves of the helper in between), a call that returns a result
  returns the helper's response to this very request, with this request's id. The client never
  compares the ids; that it reconnects after a cancelled read is what makes this true.
\<close>

theorem reply_is_own:
  assumes "json_access_ok J" "json_text_ok J" "wire_ok J G s"
    and "rpc_run (net_ops G s) J net_env rpc w"
    and "json_text J (build_request (rpc_next_id rpc) m p)"
    and "call (net_ops G s) J rpc m p k w = Some (Ok obj, rpc', w')"
  shows "(\<exists>st. obj = marshal_Response (fst (dispatch s
             \<lparr>req_ID = rpc_next_id rpc, req_Method = m, req_Params = p\<rparr> st))) \<and>
         json_object_get_int_member J (Some obj) ''id'' = rpc_next_id rpc"
proof -
  obtain l where "net_answers G s (json_generator_to_data J (build_request (rpc_next_id rpc) m p)) l"
    "decode_response J l = Ok obj"
    using lk.call_ok [OF lk.run_client_ok [OF assms(2,4)] json_text_line [OF assms(2,5)] assms(6)] by blast
  from answer_is_response [OF assms(1-3,5) this] show ?thesis .
qed

text \<open>The sample client after its first call was cancelled.\<close>

definition sample_rpc2 :: proton_rpc where
  "sample_rpc2 = sample_rpc\<lparr>rpc_next_id := 2, rpc_conn := Some 6, rpc_reader := Some 6, rpc_writer := 6\<rparr>"

definition sample_net2 :: "nat net" where
  "sample_net2 = set_conn 6 fresh_conn (net_close 5 ((sample_net True)\<lparr>net_helper := 1\<rparr>)\<lparr>net_next := 7\<rparr>)"

lemma sample_cancelled_call:
  "call sample_ops sample_json sample_rpc ''Stat'' stat_root (Some 0) (sample_net True) =
     Some (Fail (Some (Io_error G_IO_ERROR_CANCELLED ''Operation was cancelled'')), sample_rpc2, sample_net2)"
proof -
  have "net_cancelled (sample_net True) 0" "net_listening (sample_net True) (rpc_socket_path sample_rpc)"
       "rpc_next_id sample_rpc = 1"
    by (simp_all add: sample_net_def sample_rpc_def)
  then show ?thesis
    using call_net_cancelled [OF sample_text_ok sample_wire_ok sample_connected,
        where i = 0 and m = "''Stat''" and p = stat_root and s = sample_handlers]
      sample_sendable
    by (simp add: sample_ops_def dispatch_def sample_handlers_def Register_def counting_def
        sample_rpc2_def sample_net2_def) (simp add: sample_rpc_def sample_net_def)
qed

lemma sample_run2: "rpc_run sample_ops sample_json net_env sample_rpc2 sample_net2"
  by (rule rpc_run.run_call [OF sample_run _ sample_cancelled_call]) (simp add: sample_json_def)

lemma sample_connected2: "connected sample_rpc2 6 sample_net2"
  by (simp add: connected_def sample_rpc2_def sample_net2_def sample_rpc_def)

lemma sample_call2:
  "call sample_ops sample_json sample_rpc2 ''Stat'' stat_root None sample_net2 =
     Some (Ok (JObject [(''id'', JInt 2), (''result'', JInt 1)]), sample_rpc2\<lparr>rpc_next_id := 3\<rparr>,
           sample_net2\<lparr>net_helper := 2\<rparr>)"
proof -
  have "\<not> is_cancelled None sample_net2"
    by (simp add: is_cancelled_def)
  note h = call_net [OF sample_access_ok sample_text_ok sample_wire_ok sample_connected2 this,
      where m = "''Stat''" and p = stat_root and s = sample_handlers]
  show ?thesis
    using h sample_sendable
    by (simp add: sample_ops_def dispatch_def sample_handlers_def Register_def counting_def
        response_ret_def marshal_Response_def sample_rpc2_def sample_net2_def net_close_def set_conn_def)
qed

theorem reply_is_own_witness:
  "rpc_run sample_ops sample_json net_env sample_rpc2 sample_net2 \<and>
   (\<exists>obj rpc' w'. call sample_ops sample_json sample_rpc2 ''Stat'' stat_root None sample_net2 = Some (Ok obj, rpc', w') \<and>
      json_object_get_int_member sample_json (Some obj) ''id'' = 2)"
proof -
  have "json_text sample_json (build_request (rpc_next_id sample_rpc2) ''Stat'' stat_root)"
    by (simp add: sample_json_def)
  from reply_is_own [OF sample_access_ok sample_text_ok sample_wire_ok
      sample_run2 [unfolded sample_ops_def] this sample_call2 [unfolded sample_ops_def]]
  have "json_object_get_int_member sample_json (Some (JObject [(''id'', JInt 2), (''result'', JInt 1)])) ''id'' = 2"
    by (simp add: sample_rpc2_def)
  then show ?thesis
    using sample_run2 sample_call2 by blast
qed

text \<open>
  C34. Cancelling a call costs the client its connection but not its service: the call fails with
  the error CANCELLED; the request was written and is served like any other (handlers that give up
  when their connection closes are not modelled); and where the helper still listens the client is connected again, on a fresh connection with nothing outstanding,
  so that its next call is served as in C1.
\<close>

theorem cancel_recovers:
  assumes "json_text_ok J" "wire_ok J G s"
    and "connected rpc c w" "net_cancelled w i" "sendable J (rpc_next_id rpc) m p"
    and "net_listening w (rpc_socket_path rpc)"
  shows "\<exists>e rpc' w'. call (net_ops G s) J rpc m p (Some i) w = Some (Fail (Some e), rpc', w') \<and>
     g_error_matches (Some e) G_IO_ERROR_CANCELLED \<and>
     connected rpc' (net_next w) w' \<and> rpc_next_id rpc' = rpc_next_id rpc + 1 \<and>
     net_helper w' = snd (dispatch s \<lparr>req_ID = rpc_next_id rpc, req_Method = m, req_Params = p\<rparr> (net_helper w))"
proof -
  have "\<not> rpc_lock rpc"
    using assms(3) by (simp add: connected_def)
  then show ?thesis
    using call_net_cancelled [OF assms(1-5)] assms(6)
    by (simp add: connected_def net_close_def)
qed

theorem cancel_recovers_witness:
  "\<exists>e rpc' w'. call sample_ops sample_json sample_rpc ''Stat'' stat_root (Some 0) (sample_net True) =
       Some (Fail (Some e), rpc', w') \<and> connected rpc' 6 w' \<and> net_helper w' = 1"
proof -
  have c: "net_cancelled (sample_net True) 0" "net_listening (sample_net True) (rpc_socket_path sample_rpc)"
    and sel: "rpc_next_id sample_rpc = 1" "net_next (sample_net True) = 6" "net_helper (sample_net True) = 0"
    by (simp_all add: sample_net_def sample_rpc_def)
  have "sendable sample_json (rpc_next_id sample_rpc) ''Stat'' stat_root"
    by (simp add: sel sample_sendable)
  from cancel_recovers [OF sample_text_ok sample_wire_ok sample_connected c(1) this c(2), of sample_handlers]
  obtain e rpc' w' where
    "call sample_ops sample_json sample_rpc ''Stat'' stat_root (Some 0) (sample_net True) =
       Some (Fail (Some e), rpc', w')"
    "connected rpc' 6 w'"
    "net_helper w' = snd (dispatch sample_handlers \<lparr>req_ID = 1, req_Method = ''Stat'', req_Params = stat_root\<rparr> 0)"
    unfolding sample_ops_def sel by blast
  then show ?thesis
    by (simp add: dispatch_def sample_handlers_def Register_def counting_def)
qed

text \<open>
  C35. Where the reconnection after a cancelled call fails, the client is lost for good: the
  connection object is released while \<open>rpc->writer\<close> still points into it, and every later call
  writes through that stream, so none of them returns in a defined state, whatever the world
  then looks like (the helper listening again included).
\<close>

theorem failed_reconnect_strands:
  assumes "json_text_ok J" "wire_ok J G s"
    and "connected rpc c w" "net_cancelled w i" "sendable J (rpc_next_id rpc) m p"
    and "\<not> net_listening w (rpc_socket_path rpc)"
  shows "\<exists>e rpc' w'. call (net_ops G s) J rpc m p (Some i) w = Some (Fail (Some e), rpc', w') \<and>
     rpc_conn rpc' = None \<and> rpc_writer rpc' = c \<and> \<not> rpc_lock rpc' \<and>
     (\<forall>m' p' k' w''. call (net_ops G s) J rpc' m' p' k' w'' = stuck)"
proof -
  have "\<not> rpc_lock rpc" "rpc_writer rpc = c"
    using assms(3) by (simp_all add: connected_def)
  then show ?thesis
    using call_net_cancelled [OF assms(1-5)] assms(6)
    by (simp add: call_without_conn)
qed

theorem failed_reconnect_strands_witness:
  "\<exists>e rpc' w'. call sample_ops sample_json sample_rpc ''Stat'' stat_root (Some 0) (sample_net False) =
       Some (Fail (Some e), rpc', w') \<and>
     call sample_ops sample_json rpc' ''Stat'' stat_root None (sample_net True) = stuck"
proof -
  have "net_cancelled (sample_net False) 0" "\<not> net_listening (sample_net False) (rpc_socket_path sample_rpc)"
    and i: "rpc_next_id sample_rpc = 1"
    by (simp_all add: sample_net_def sample_rpc_def)
  then show ?thesis
    using failed_reconnect_strands [OF sample_text_ok sample_wire_ok sample_connected,
        where i = 0 and m = "''Stat''" and p = stat_root and s = sample_handlers]
      sample_sendable
    unfolding sample_ops_def i by blast
qed

end
