(* ===== verification/Helper_Types.thy ===== *)
theory Helper_Types
  imports Rpc_Link
begin

text \<open>
  The result types of \<open>src/helper/rpc/types.go\<close> that the C client reads, as Go's
  \<open>encoding/json\<close> writes them (struct tags, \<open>omitempty\<close>, a nil slice as null, bytes in base64),
  and what the public functions of \<open>proton-rpc.c\<close> make of them over the link.
\<close>

section \<open>Wire types\<close>

record entry =
  en_Name :: string
  en_IsDir :: bool
  en_Size :: gint64
  en_MTime :: gint64
  en_LinkID :: string
  en_RevisionID :: string
  en_HasThumbnail :: bool

record event =
  evt_Type :: string
  evt_LinkID :: string
  evt_Path :: string

record read_result =
  rr_Data :: "byte list option" \<comment> \<open>a nil slice is \<open>None\<close>\<close>
  rr_EOF :: bool

record auth_result =
  ar_UID :: string
  ar_RefreshToken :: string
  ar_SaltedPassphrase :: "byte list option"

definition omit_empty :: "string \<Rightarrow> string \<Rightarrow> (string \<times> json) list" where
  "omit_empty k v = (if v = [] then [] else [(k, JString v)])"

definition marshal_Entry :: "entry \<Rightarrow> json" where
  "marshal_Entry e =
     JObject ([(''name'', JString (en_Name e)), (''is_dir'', JBool (en_IsDir e)),
               (''size'', JInt (en_Size e)), (''mtime'', JInt (en_MTime e)),
               (''link_id'', JString (en_LinkID e))] @
              omit_empty ''revision_id'' (en_RevisionID e) @
              (if en_HasThumbnail e then [(''has_thumbnail'', JBool True)] else []))"

definition marshal_ListDirResult :: "entry list \<Rightarrow> json" where
  "marshal_ListDirResult entries = JObject [(''entries'', JArray (map marshal_Entry entries))]"

definition marshal_Event :: "event \<Rightarrow> json" where
  "marshal_Event e =
     JObject ([(''type'', JString (evt_Type e)), (''link_id'', JString (evt_LinkID e))] @
              omit_empty ''path'' (evt_Path e))"

definition marshal_GetEventsResult :: "event list \<Rightarrow> json" where
  "marshal_GetEventsResult events = JObject [(''events'', JArray (map marshal_Event events))]"

definition marshal_bytes :: "go_json \<Rightarrow> byte list option \<Rightarrow> json" where
  "marshal_bytes G b = (case b of None \<Rightarrow> JNull | Some bs \<Rightarrow> JString (base64_StdEncoding G bs))"

text \<open>A slice of strings, which may be nil.\<close>

definition marshal_strings :: "string list option \<Rightarrow> json" where
  "marshal_strings ss = (case ss of None \<Rightarrow> JNull | Some ss \<Rightarrow> JArray (map JString ss))"

definition marshal_ReadResult :: "go_json \<Rightarrow> read_result \<Rightarrow> json" where
  "marshal_ReadResult G r =
     JObject [(''data'', marshal_bytes G (rr_Data r)), (''eof'', JBool (rr_EOF r))]"

definition marshal_AuthResult :: "go_json \<Rightarrow> auth_result \<Rightarrow> json" where
  "marshal_AuthResult G a =
     JObject [(''uid'', JString (ar_UID a)), (''refresh_token'', JString (ar_RefreshToken a)),
              (''salted_passphrase'', marshal_bytes G (ar_SaltedPassphrase a))]"

definition marshal_FetchThumbnailResult :: "string \<Rightarrow> json" where
  "marshal_FetchThumbnailResult path = JObject [(''path'', JString path)]"

section \<open>Calls that the helper serves\<close>

text \<open>The libraries agree, and the request \<open>(m, p)\<close> can be sent over the connection \<open>c\<close>.\<close>

definition link_ready ::
  "json_lib \<Rightarrow> go_json \<Rightarrow> 'h handlers \<Rightarrow> proton_rpc \<Rightarrow> conn_id \<Rightarrow> cancellable \<Rightarrow> 'h net \<Rightarrow> string \<Rightarrow> json option \<Rightarrow> bool" where
  "link_ready J G s rpc c k w m p \<longleftrightarrow>
     json_access_ok J \<and> json_text_ok J \<and> wire_ok J G s \<and> connected rpc c w \<and> \<not> is_cancelled k w \<and>
     sendable J (rpc_next_id rpc) m p"

text \<open>The handler of \<open>m\<close> answers \<open>p\<close> with \<open>r\<close>.\<close>

definition served :: "'h handlers \<Rightarrow> string \<Rightarrow> json option \<Rightarrow> 'h \<Rightarrow> go_error + json option \<Rightarrow> 'h \<Rightarrow> bool" where
  "served s m p st r st' \<longleftrightarrow> (\<exists>h. s m = Some h \<and> h p st = (r, st'))"

definition after_call :: "proton_rpc \<Rightarrow> proton_rpc" where
  "after_call rpc = rpc\<lparr>rpc_next_id := rpc_next_id rpc + 1\<rparr>"

lemma link_ready_access: "link_ready J G s rpc c k w m p \<Longrightarrow> json_access_ok J"
  by (simp add: link_ready_def)

lemma after_call_connected: "connected (after_call rpc) c (w\<lparr>net_helper := st\<rparr>) = connected rpc c w"
  by (simp add: connected_def after_call_def)

definition ok_response :: "uint64 \<Rightarrow> json option \<Rightarrow> json" where
  "ok_response i x = marshal_Response \<lparr>resp_ID = i, resp_Result = x, resp_Error = None\<rparr>"

lemma call_served:
  assumes "link_ready J G s rpc c k w m p" "served s m p (net_helper w) (Inr x) st"
  shows "call (net_ops G s) J rpc m p k w =
    Some (Ok (ok_response (rpc_next_id rpc) x), after_call rpc, w\<lparr>net_helper := st\<rparr>)"
  using assms
  by (auto simp: link_ready_def served_def call_net dispatch_def response_ret_def ok_response_def after_call_def)

lemma call_refused:
  assumes "link_ready J G s rpc c k w m p" "served s m p (net_helper w) (Inl e) st"
  shows "call (net_ops G s) J rpc m p k w =
    Some (Fail (Some (case e of Rpc_err e \<Rightarrow> Io_error (gio_code (re_Code e)) (re_Message e)
                              | Plain_err msg \<Rightarrow> Io_error G_IO_ERROR_FAILED msg)),
          after_call rpc, w\<lparr>net_helper := st\<rparr>)"
  using assms
  by (cases e) (auto simp: link_ready_def served_def call_net dispatch_def response_ret_def
      after_call_def ErrInternal_def)

lemma ok_response_result:
  assumes "json_access_ok J"
  shows "json_object_get_object_member J (Some (ok_response i (Some (JObject ms)))) ''result'' = Some (JObject ms)"
  by (simp add: ok_response_def marshal_Response_def json_access [OF assms])

section \<open>What the client receives\<close>

definition entry_received :: "entry \<Rightarrow> proton_entry" where
  "entry_received e =
     \<lparr>pe_name = Some (en_Name e), pe_is_dir = en_IsDir e, pe_size = en_Size e, pe_mtime = en_MTime e,
      pe_link_id = Some (en_LinkID e),
      pe_revision_id = (if en_RevisionID e = [] then None else Some (en_RevisionID e)),
      pe_has_thumbnail = en_HasThumbnail e\<rparr>"

definition event_received :: "event \<Rightarrow> proton_event" where
  "event_received e =
     \<lparr>ev_type = Some (evt_Type e), ev_link_id = Some (evt_LinkID e),
      ev_path = (if evt_Path e = [] then None else Some (evt_Path e))\<rparr>"

lemma entry_of_marshal:
  assumes "json_access_ok J"
  shows "entry_of_object J (Some (marshal_Entry e)) = entry_received e"
  by (cases "en_RevisionID e = []"; cases "en_HasThumbnail e")
     (simp_all add: entry_of_object_def marshal_Entry_def entry_received_def omit_empty_def json_access [OF assms])

lemma event_of_marshal:
  assumes "json_access_ok J"
  shows "event_of_object J (Some (marshal_Event e)) = event_received e"
  by (cases "evt_Path e = []")
     (simp_all add: event_of_object_def marshal_Event_def event_received_def omit_empty_def json_access [OF assms])

text \<open>An array of objects, read element by element.\<close>

lemma array_elements:
  assumes "json_access_ok J" "\<And>x. \<exists>ms. f x = JObject ms"
  shows "map (\<lambda>i. g (json_array_get_object_element J (Some (JArray (map f xs))) i)) [0..<length xs] =
         map (\<lambda>x. g (Some (f x))) xs"
proof (rule nth_equalityI)
  fix i
  assume "i < length (map (\<lambda>i. g (json_array_get_object_element J (Some (JArray (map f xs))) i)) [0..<length xs])"
  then have i: "i < length xs" by simp
  moreover obtain ms where "f (xs ! i) = JObject ms"
    using assms(2) by blast
  ultimately show "map (\<lambda>i. g (json_array_get_object_element J (Some (JArray (map f xs))) i)) [0..<length xs] ! i =
      map (\<lambda>x. g (Some (f x))) xs ! i"
    by (simp add: json_access(10) [OF assms(1), where os = ms])
qed simp

lemma list_dir_served:
  assumes "link_ready J G s rpc c k w ''ListDir'' (Some (JObject [(''path'', JString path)]))"
    and "served s ''ListDir'' (Some (JObject [(''path'', JString path)])) (net_helper w)
           (Inr (Some (marshal_ListDirResult entries))) st"
  shows "proton_rpc_list_dir (net_ops G s) J rpc path k w =
    Some (Ok (map entry_received entries), after_call rpc, w\<lparr>net_helper := st\<rparr>)"
proof -
  note J = link_ready_access [OF assms(1)]
  have el: "\<exists>ms. marshal_Entry e = JObject ms" for e
    by (simp add: marshal_Entry_def)
  show ?thesis
    using array_elements [OF J el, where g = "entry_of_object J" and xs = entries]
    by (simp add: proton_rpc_list_dir_def call_served [OF assms] marshal_ListDirResult_def
        ok_response_result [OF J] json_access [OF J] entry_of_marshal [OF J])
qed

lemma stat_served:
  assumes "link_ready J G s rpc c k w ''Stat'' (Some (JObject [(''path'', JString path)]))"
    and "served s ''Stat'' (Some (JObject [(''path'', JString path)])) (net_helper w)
           (Inr (Some (marshal_Entry e))) st"
  shows "proton_rpc_stat (net_ops G s) J rpc path k w =
    Some (Ok (entry_received e), after_call rpc, w\<lparr>net_helper := st\<rparr>)"
proof -
  note J = link_ready_access [OF assms(1)]
  obtain ms where ms: "marshal_Entry e = JObject ms"
    by (simp add: marshal_Entry_def)
  then show ?thesis
    using entry_of_marshal [OF J, of e]
    by (simp add: proton_rpc_stat_def call_served [OF assms] ok_response_result [OF J])
qed

lemma get_events_served:
  assumes "link_ready J G s rpc c None w ''GetEvents'' None"
    and "served s ''GetEvents'' None (net_helper w) (Inr (Some (marshal_GetEventsResult events))) st"
  shows "proton_rpc_get_events (net_ops G s) J rpc w =
    Some (Ok (map event_received events), after_call rpc, w\<lparr>net_helper := st\<rparr>)"
proof -
  note J = link_ready_access [OF assms(1)]
  have el: "\<exists>ms. marshal_Event e = JObject ms" for e
    by (simp add: marshal_Event_def)
  show ?thesis
    using array_elements [OF J el, where g = "event_of_object J" and xs = events]
    by (simp add: proton_rpc_get_events_def call_served [OF assms] marshal_GetEventsResult_def
        ok_response_result [OF J] json_access [OF J] event_of_marshal [OF J])
qed

section \<open>Reading file content\<close>

text \<open>
  Go's base64 text is read by GLib's decoder; a NULL text, which GLib's decoder refuses with a
  critical warning, decodes to nothing (\<open>dlen\<close> keeps its initial value 0).
\<close>

definition base64_wire_ok :: "json_lib \<Rightarrow> go_json \<Rightarrow> bool" where
  "base64_wire_ok J G \<longleftrightarrow> (\<forall>bs. g_base64_decode J (Some (base64_StdEncoding G bs)) = bs)"

definition null_decodes_empty :: "json_lib \<Rightarrow> bool" where
  "null_decodes_empty J \<longleftrightarrow> g_base64_decode J None = []"

definition go_bytes :: "byte list option \<Rightarrow> byte list" where
  "go_bytes b = (case b of None \<Rightarrow> [] | Some bs \<Rightarrow> bs)"

definition read_params :: "string \<Rightarrow> gint64 \<Rightarrow> gint64 \<Rightarrow> json option" where
  "read_params path offset len =
     Some (JObject [(''path'', JString path), (''offset'', JInt offset), (''length'', JInt len)])"

lemma marshal_bytes_member:
  assumes "json_access_ok J" "base64_wire_ok J G" "null_decodes_empty J"
    and "map_of ms k = Some (marshal_bytes G b)"
  shows "g_base64_decode J (json_object_get_string_member J (Some (JObject ms)) k) = go_bytes b"
  using assms(2-4)
  by (cases b) (simp_all add: marshal_bytes_def go_bytes_def base64_wire_ok_def null_decodes_empty_def
      json_access [OF assms(1)])

lemma unat_min: "unat (min a b) = min (unat a) (unat (b :: 'a::len word))"
  by (simp add: min_def word_le_nat_alt)

lemma read_served:
  assumes "link_ready J G s rpc c k w ''ReadFile'' (read_params path offset len)"
    and "served s ''ReadFile'' (read_params path offset len) (net_helper w) (Inr (Some (marshal_ReadResult G r))) st"
    and "base64_wire_ok J G" "null_decodes_empty J"
    and "length buf = unat len" "length (go_bytes (rr_Data r)) < 2 ^ 64"
  shows "proton_rpc_read_file (net_ops G s) J rpc path offset len buf k w =
    Some (Ok (of_nat (min (length (go_bytes (rr_Data r))) (unat len)),
              take (unat len) (go_bytes (rr_Data r)) @ drop (length (go_bytes (rr_Data r))) buf,
              rr_EOF r),
          after_call rpc, w\<lparr>net_helper := st\<rparr>)"
proof -
  note J = link_ready_access [OF assms(1)]
  let ?bs = "go_bytes (rr_Data r)"
  let ?ms = "[(''data'', marshal_bytes G (rr_Data r)), (''eof'', JBool (rr_EOF r))]"
  have bs: "g_base64_decode J (json_object_get_string_member J (Some (JObject ?ms)) ''data'') = ?bs"
    by (rule marshal_bytes_member [OF J assms(3,4)]) simp
  have "unat (of_nat (length ?bs) :: gsize) = length ?bs"
    using assms(6) by (simp add: unat_of_nat)
  then have n: "unat (min (of_nat (length ?bs)) len) = min (length ?bs) (unat len)"
    by (simp add: unat_min)
  then have n': "min (of_nat (length ?bs)) len = of_nat (min (length ?bs) (unat len))"
    by (simp only: n [symmetric]) simp
  have "memcpy buf ?bs (min (length ?bs) (unat len)) =
      Some (take (unat len) ?bs @ drop (length ?bs) buf)"
    using assms(5) by (auto simp: memcpy_def min_def)
  moreover have "unat (of_nat (min (length ?bs) (unat len)) :: gsize) = min (length ?bs) (unat len)"
    by (metis n n')
  moreover note call_served [OF assms(1,2), unfolded read_params_def]
  ultimately show ?thesis
    by (simp add: proton_rpc_read_file_def Let_def marshal_ReadResult_def ok_response_result [OF J] bs
        json_access [OF J] n' del: of_nat_min min.bounded_iff)
qed

section \<open>Samples for the witnesses\<close>

definition answering :: "go_error + json option \<Rightarrow> nat handler" where
  "answering r = (\<lambda>p n. (r, n + 1))"

definition only :: "string \<Rightarrow> go_error + json option \<Rightarrow> nat handlers" where
  "only m r = Register NewServer m (answering r)"

lemma only_served: "served (only m r) m p (net_helper (sample_net True)) r 1"
  by (simp add: served_def only_def Register_def answering_def sample_net_def)

lemma sample_link_ready:
  assumes "0 \<le> sint (rpc_next_id sample_rpc) \<Longrightarrow> sendable sample_json (rpc_next_id sample_rpc) m p"
  shows "link_ready sample_json sample_go s sample_rpc 5 None (sample_net True) m p"
proof -
  have "0 \<le> sint (rpc_next_id sample_rpc)"
    by (simp add: sample_rpc_def)
  then show ?thesis
    using assms
    by (simp add: link_ready_def sample_access_ok sample_text_ok sample_wire_ok sample_connected is_cancelled_def)
qed

lemmas sendable_sample =
  sendable_def sample_json_def build_request_def max_token_size_def enc_str_def esc_def sample_rpc_def

lemma sample_base64_wire_ok: "base64_wire_ok sample_json sample_go"
  by (simp add: base64_wire_ok_def sample_json_def sample_go_def comp_def byte_mod)

lemma sample_null_decodes_empty: "null_decodes_empty sample_json"
  by (simp add: null_decodes_empty_def sample_json_def)

section \<open>Properties\<close>

text \<open>
  C38. The helper's error codes reach the caller as GIO errors: a request that a handler refuses
  fails with the handler's message and with the GIO code that stands for the helper's code (each
  of the five translated codes has its own, every other code and every error without a code is
  FAILED), and the connection stays usable.
\<close>

theorem helper_errors_translated:
  assumes "link_ready J G s rpc c k w m p" "served s m p (net_helper w) (Inl e) st"
  shows "\<exists>code msg. call (net_ops G s) J rpc m p k w =
      Some (Fail (Some (Io_error code msg)), after_call rpc, w\<lparr>net_helper := st\<rparr>) \<and>
    connected (after_call rpc) c (w\<lparr>net_helper := st\<rparr>) \<and>
    (case e of
       Plain_err text \<Rightarrow> code = G_IO_ERROR_FAILED \<and> msg = text
     | Rpc_err r \<Rightarrow> msg = re_Message r \<and>
         (code = G_IO_ERROR_NOT_FOUND \<longleftrightarrow> re_Code r = ErrNotFound) \<and>
         (code = G_IO_ERROR_PERMISSION_DENIED \<longleftrightarrow> re_Code r = ErrAuthFailed) \<and>
         (code = G_IO_ERROR_NOT_INITIALIZED \<longleftrightarrow> re_Code r = ErrNotAuthed) \<and>
         (code = G_IO_ERROR_HOST_UNREACHABLE \<longleftrightarrow> re_Code r = ErrOffline) \<and>
         (code = G_IO_ERROR_EXISTS \<longleftrightarrow> re_Code r = ErrAlreadyExists) \<and>
         (code = G_IO_ERROR_FAILED \<longleftrightarrow>
            re_Code r \<notin> {ErrNotFound, ErrAuthFailed, ErrNotAuthed, ErrOffline, ErrAlreadyExists}))"
proof -
  have "connected rpc c w"
    using assms(1) by (simp add: link_ready_def)
  then show ?thesis
    unfolding call_refused [OF assms]
    by (cases e) (auto simp: after_call_connected Err_defs)
qed

theorem helper_errors_translated_witness:
  "\<exists>msg. call (net_ops sample_go (only ''Mkdir'' (Inl (Rpc_err \<lparr>re_Code = ErrAlreadyExists, re_Message = ''x'', re_Details = None\<rparr>))))
     sample_json sample_rpc ''Mkdir'' stat_root None (sample_net True) =
     Some (Fail (Some (Io_error G_IO_ERROR_EXISTS msg)), after_call sample_rpc, (sample_net True)\<lparr>net_helper := 1\<rparr>)"
proof -
  have "link_ready sample_json sample_go s sample_rpc 5 None (sample_net True) ''Mkdir'' stat_root" for s :: "nat handlers"
    by (rule sample_link_ready) (simp add: sendable_sample)
  from helper_errors_translated [OF this only_served,
      of "Rpc_err \<lparr>re_Code = ErrAlreadyExists, re_Message = ''x'', re_Details = None\<rparr>"]
  show ?thesis
    by auto
qed

definition sample_entries :: "entry list" where
  "sample_entries =
     [\<lparr>en_Name = ''a'', en_IsDir = True, en_Size = 0, en_MTime = 7, en_LinkID = ''1'', en_RevisionID = [], en_HasThumbnail = False\<rparr>,
      \<lparr>en_Name = ''b'', en_IsDir = False, en_Size = 9, en_MTime = 8, en_LinkID = ''2'', en_RevisionID = ''r'', en_HasThumbnail = True\<rparr>]"

lemma sample_list_ready:
  "link_ready sample_json sample_go s sample_rpc 5 None (sample_net True) ''ListDir''
     (Some (JObject [(''path'', JString ''/'')]))"
  by (rule sample_link_ready) (simp add: sendable_sample)

text \<open>
  A read delivers the helper's bytes: \<open>proton_rpc_read_file\<close> returns the number of bytes the
  helper sent, but no more than the caller asked for, puts exactly these at the start of the
  caller's buffer, leaves the rest of the buffer alone and passes the flag \<open>eof\<close> on. A nil slice
  (JSON null) counts as no bytes.
\<close>

theorem read_file_over_link:
  assumes "link_ready J G s rpc c k w ''ReadFile'' (read_params path offset len)"
    and "served s ''ReadFile'' (read_params path offset len) (net_helper w) (Inr (Some (marshal_ReadResult G r))) st"
    and "base64_wire_ok J G" "null_decodes_empty J"
    and "length buf = unat len" "length (go_bytes (rr_Data r)) < 2 ^ 64"
  shows "proton_rpc_read_file (net_ops G s) J rpc path offset len buf k w =
    Some (Ok (of_nat (min (length (go_bytes (rr_Data r))) (unat len)),
              take (unat len) (go_bytes (rr_Data r)) @ drop (length (go_bytes (rr_Data r))) buf,
              rr_EOF r),
          after_call rpc, w\<lparr>net_helper := st\<rparr>)"
  by (rule read_served [OF assms])

theorem read_file_over_link_witness:
  "\<exists>rpc' w'. proton_rpc_read_file
      (net_ops sample_go (only ''ReadFile'' (Inr (Some (marshal_ReadResult sample_go \<lparr>rr_Data = Some [1, 2], rr_EOF = True\<rparr>)))))
      sample_json sample_rpc ''/f'' 0 3 [9, 9, 9] None (sample_net True) =
    Some (Ok (2, [1, 2, 9], True), rpc', w')"
proof -
  have "link_ready sample_json sample_go s sample_rpc 5 None (sample_net True) ''ReadFile'' (read_params ''/f'' 0 3)"
    for s :: "nat handlers"
    by (rule sample_link_ready) (simp add: sendable_sample read_params_def enc_word_def)
  from read_file_over_link [OF this only_served sample_base64_wire_ok sample_null_decodes_empty,
      where buf = "[9, 9, 9]" and r = "\<lparr>rr_Data = Some [1, 2], rr_EOF = True\<rparr>"]
  show ?thesis
    by (simp add: go_bytes_def)
qed

text \<open>
  C16. The caller's buffer is never overrun: whatever the helper replies (any data, valid or not),
  if the exchange returns then \<open>proton_rpc_read_file\<close> returns, the copy stays inside a buffer of
  \<open>len\<close> bytes and inside the decoded data, and the bytes after the count returned are unchanged.
\<close>

theorem read_file_in_bounds:
  assumes "call S J rpc ''ReadFile'' (read_params path offset len) k w = Some (r, rpc', w')"
    and "length buf = unat len"
  shows "\<exists>res. proton_rpc_read_file S J rpc path offset len buf k w = Some (res, rpc', w') \<and>
    (\<forall>n buf' eof. res = Ok (n, buf', eof) \<longrightarrow>
       unat n \<le> unat len \<and> length buf' = length buf \<and> drop (unat n) buf' = drop (unat n) buf)"
proof (cases r)
  case (Fail e)
  with assms(1) show ?thesis
    by (simp add: proton_rpc_read_file_def read_params_def)
next
  case (Ok obj)
  define bs where "bs = g_base64_decode J (json_object_get_string_member J
      (json_object_get_object_member J (Some obj) ''result'') ''data'')"
  define n :: gsize where "n = min (of_nat (length bs)) len"
  have "unat n \<le> length bs" "unat n \<le> unat len"
    unfolding n_def by (simp_all add: unat_min unat_of_nat min.coboundedI1)
  with assms(2) have "memcpy buf bs (unat n) = Some (take (unat n) bs @ drop (unat n) buf)"
    by (simp add: memcpy_def)
  with assms \<open>unat n \<le> length bs\<close> \<open>unat n \<le> unat len\<close> show ?thesis
    by (simp add: proton_rpc_read_file_def read_params_def Ok Let_def bs_def [symmetric] n_def [symmetric])
qed

theorem read_file_in_bounds_witness:
  "\<exists>res rpc' w'. proton_rpc_read_file
      (net_ops sample_go (only ''ReadFile'' (Inr (Some (marshal_ReadResult sample_go \<lparr>rr_Data = Some [1, 2, 3, 4], rr_EOF = True\<rparr>)))))
      sample_json sample_rpc ''/f'' 0 2 [9, 9] None (sample_net True) = Some (res, rpc', w') \<and>
    (\<forall>n buf' eof. res = Ok (n, buf', eof) \<longrightarrow> unat n \<le> 2 \<and> length buf' = 2)"
proof -
  have "link_ready sample_json sample_go s sample_rpc 5 None (sample_net True) ''ReadFile'' (read_params ''/f'' 0 2)"
    for s :: "nat handlers"
    by (rule sample_link_ready) (simp add: sendable_sample read_params_def enc_word_def)
  from read_file_in_bounds [OF call_served [OF this only_served], where buf = "[9, 9]"]
  show ?thesis
    by fastforce
qed

end
