(* ===== verification/Link_Failures.thy ===== *)
theory Link_Failures
  imports Helper_Types
begin

text \<open>
  How the client's structure fares under every sequence of calls, and what becomes of a client
  whose connection the helper has closed: the states \<open>cut\<close>, how a request too long for the
  helper's scanner leads there, and that nothing leads out again.
\<close>

section \<open>The structure of the client\<close>

definition rpc_wf :: "proton_rpc \<Rightarrow> bool" where
  "rpc_wf rpc \<longleftrightarrow> \<not> rpc_lock rpc \<and> rpc_reader rpc = rpc_conn rpc \<and>
     (\<forall>c. rpc_conn rpc = Some c \<longrightarrow> rpc_writer rpc = c)"

lemma call_recv_wf:
  assumes "call_recv S J rpc i k w = Some (r, rpc', w')" "rpc_reader rpc = rpc_conn rpc"
    and "\<forall>c. rpc_conn rpc = Some c \<longrightarrow> rpc_writer rpc = c"
  shows "rpc_wf rpc'"
  using assms(1)
proof (cases rule: call_recv_cases)
  case (read c line)
  with assms(2,3) show ?thesis
    by (simp add: rpc_wf_def g_mutex_unlock_def)
next
  case (cancelled e w1 rc rpc2)
  show ?thesis
  proof (cases rc)
    case (Ok u)
    from reconnect_Ok [OF cancelled(2) [unfolded Ok]] show ?thesis
      by (auto simp: cancelled(4) rpc_wf_def g_mutex_unlock_def)
  next
    case (Fail e')
    from reconnect_Fail [OF cancelled(2) [unfolded Fail]] show ?thesis
      by (simp add: cancelled(4) rpc_wf_def g_mutex_unlock_def)
  qed
qed

lemma call_wf:
  assumes "call S J rpc m p k w = Some (r, rpc', w')" "rpc_wf rpc"
  shows "rpc_wf rpc'"
  using assms(1)
proof (cases rule: call_cases)
  case (unsent e i rpc1)
  with assms(2) show ?thesis
    by (simp add: call_send_Some rpc_wf_def g_mutex_unlock_def)
next
  case (sent u i rpc1 w1)
  with assms(2) show ?thesis
    by (intro call_recv_wf [OF sent(2)]) (simp_all add: call_send_Some rpc_wf_def)
qed

section \<open>A connection that the helper has closed\<close>

definition cut :: "proton_rpc \<Rightarrow> conn_id \<Rightarrow> 'h net \<Rightarrow> bool" where
  "cut rpc c w \<longleftrightarrow> \<not> rpc_lock rpc \<and> rpc_conn rpc = Some c \<and> rpc_writer rpc = c \<and>
     \<not> cs_open (net_conns w c)"

lemma cut_call:
  assumes "cut rpc c w"
  shows "call (net_ops G s) J rpc m p k w =
    Some (Fail (Some (Io_error (G_IO_ERROR_NUMBER 44) ''Broken pipe'')), after_call rpc, w)"
  using assms
  by (cases rpc) (simp add: cut_def call_def g_mutex_lock_def Let_def send_request_def writer_stream_def
      net_write_def g_mutex_unlock_def after_call_def)

lemma cut_after: "cut rpc c w \<Longrightarrow> cut (after_call rpc) c w"
  by (simp add: cut_def after_call_def)

lemma cut_env: "cut rpc c w \<Longrightarrow> net_env w w' \<Longrightarrow> cut rpc c w'"
  by (auto simp: cut_def net_env_def)

text \<open>A request line that exceeds the buffer of the helper's scanner.\<close>

lemma oversized_call:
  assumes "json_text_ok J" "connected rpc c w"
    and "json_text J (build_request (rpc_next_id rpc) m p)"
    and "max_token_size \<le> length (json_generator_to_data J (build_request (rpc_next_id rpc) m p))"
  shows "call (net_ops G s) J rpc m p k w =
    Some (Fail (Some (Io_error (G_IO_ERROR_NUMBER 44) ''Broken pipe'')), after_call rpc, net_close c w)"
proof -
  let ?l = "json_generator_to_data J (build_request (rpc_next_id rpc) m p)"
  have l: "CHR 0x0A \<notin> set ?l"
    using assms(1,3) by (rule json_text_line)
  have "net_write G s c ?l w = (Ok (), net_close c w)"
    using l assms(2,4)
    by (simp add: net_write_def connected_def fresh_conn_def handleConn_partial net_close_def set_conn_def)
  moreover have "net_write G s c [CHR 0x0A] (net_close c w) =
      (Fail (Some (Io_error (G_IO_ERROR_NUMBER 44) ''Broken pipe'')), net_close c w)"
    by (simp add: net_write_def net_close_def)
  moreover obtain i path where "rpc = \<lparr>rpc_conn = Some c, rpc_reader = Some c, rpc_writer = c,
      rpc_lock = False, rpc_next_id = i, rpc_socket_path = path\<rparr>"
    using assms(2) by (cases rpc) (simp add: connected_def)
  ultimately show ?thesis
    by (simp add: call_def g_mutex_lock_def Let_def send_request_def writer_stream_def
        g_mutex_unlock_def after_call_def)
qed

section \<open>Properties\<close>

text \<open>
  The client structure stays sound in every run, over any transport and with any mixture of
  successful, failed and cancelled calls: the mutex is free between calls, reader and connection
  are set or cleared together, and the writer belongs to the connection whenever there is one.
\<close>

theorem client_stays_wellformed:
  assumes "rpc_run S J env rpc w"
  shows "\<not> rpc_lock rpc \<and> rpc_reader rpc = rpc_conn rpc \<and>
    (\<forall>c. rpc_conn rpc = Some c \<longrightarrow> rpc_writer rpc = c)"
proof -
  have "rpc_wf rpc"
    using assms
  proof (induction rule: rpc_run.induct)
    case (run_new socket_path w rpc w')
    then show ?case
      by (auto simp: proton_rpc_new_def rpc_wf_def split: prod.splits ret.splits)
  next
    case (run_call rpc w mth params cancellable r rpc' w')
    then show ?case
      by (blast intro: call_wf)
  qed
  then show ?thesis
    by (simp add: rpc_wf_def)
qed

theorem client_stays_wellformed_witness:
  "rpc_conn sample_rpc2 = Some 6 \<and> \<not> rpc_lock sample_rpc2 \<and> rpc_reader sample_rpc2 = rpc_conn sample_rpc2"
  using client_stays_wellformed [OF sample_run2] by (simp add: sample_rpc2_def)

text \<open>
  A request whose line reaches 64 KiB (a path of that size is enough) is never executed and
  costs the client its connection: the helper's scanner gives up and closes, and the call fails.
\<close>

theorem oversized_request_cuts:
  assumes "json_text_ok J" "connected rpc c w"
    and "json_text J (build_request (rpc_next_id rpc) m p)"
    and "65536 \<le> length (json_generator_to_data J (build_request (rpc_next_id rpc) m p))"
  shows "\<exists>e rpc' w'. call (net_ops G s) J rpc m p k w = Some (Fail (Some e), rpc', w') \<and>
    cut rpc' c w' \<and> net_helper w' = net_helper w"
  using assms(2) oversized_call [OF assms(1-3)] assms(4)
  by (simp add: max_token_size_def cut_def connected_def after_call_def net_close_def)

lemma length_enc_str: "length s \<le> length (enc_str s)"
proof -
  have "length s \<le> length (concat (map esc s))"
    by (induction s) (auto simp: esc_def)
  then show ?thesis
    by (simp add: enc_str_def)
qed

definition long_path :: "json option" where
  "long_path = Some (JObject [(''path'', JString (replicate 65536 CHR ''a''))])"

theorem oversized_request_cuts_witness:
  "\<exists>e rpc' w'. call sample_ops sample_json sample_rpc ''Stat'' long_path None (sample_net True) =
      Some (Fail (Some e), rpc', w') \<and> cut rpc' 5 w' \<and> net_helper w' = 0"
proof -
  have "65536 \<le> length (enc_str (replicate 65536 CHR ''a''))"
    using length_enc_str [of "replicate 65536 CHR ''a''"] by (simp only: length_replicate)
  then have "65536 \<le> length (json_generator_to_data sample_json
      (build_request (rpc_next_id sample_rpc) ''Stat'' long_path))"
    by (simp add: sample_json_def build_request_def long_path_def)
  moreover have "json_text sample_json (build_request (rpc_next_id sample_rpc) ''Stat'' long_path)"
    by (simp add: sample_json_def)
  moreover note sample_connected [where up = True]
  ultimately
  obtain e rpc' w' where "call sample_ops sample_json sample_rpc ''Stat'' long_path None (sample_net True) =
      Some (Fail (Some e), rpc', w')" "cut rpc' 5 w'" "net_helper w' = net_helper (sample_net True)"
    unfolding sample_ops_def using oversized_request_cuts [OF sample_text_ok] by blast
  then show ?thesis
    by (simp add: sample_net_def)
qed

text \<open>
  A connection closed by the helper is never replaced: the client reconnects only after a
  cancelled read, so from then on every call fails, cancelled or not, and also when the helper
  (or a new one) has long been listening again on the same path.
\<close>

theorem cut_is_final:
  assumes "cut rpc c w" "net_env w w1"
  shows "\<exists>e rpc'. call (net_ops G s) J rpc m p k w1 = Some (Fail (Some e), rpc', w1) \<and>
    \<not> g_error_matches (Some e) G_IO_ERROR_CANCELLED \<and> cut rpc' c w1"
proof -
  have "cut rpc c w1"
    using assms by (rule cut_env)
  then show ?thesis
    using cut_call [of rpc c w1] cut_after by fastforce
qed

theorem cut_is_final_witness:
  "\<exists>e rpc'. call sample_ops sample_json sample_rpc ''Stat'' stat_root None
      (set_conn 5 closed_conn (sample_net True)) = Some (Fail (Some e), rpc', set_conn 5 closed_conn (sample_net True))"
proof -
  have "cut sample_rpc 5 (set_conn 5 closed_conn (sample_net False))"
    by (simp add: cut_def sample_rpc_def closed_conn_def)
  moreover have "net_env (set_conn 5 closed_conn (sample_net False)) (set_conn 5 closed_conn (sample_net True))"
    by (simp add: net_env_def sample_net_def)
  ultimately show ?thesis
    unfolding sample_ops_def
    using cut_is_final [where G = sample_go and s = sample_handlers] by blast
qed

end
