(* ===== verification/Rpc_Threads.thy ===== *)
theory Rpc_Threads
  imports Link_Failures
begin

text \<open>
  The client of \<open>proton-rpc.c\<close> used by several threads at once: the job threads of the daemon and
  the poll timer of the main loop share one \<open>ProtonRpc\<close>. \<open>call\<close> is cut into its steps (take the
  mutex and write the request; wait for the reply and reconnect if cancelled, then release the
  mutex), the steps of all threads and of the environment interleave freely, and the pairing of
  replies with requests is proved for every interleaving.
\<close>

section \<open>Threads\<close>

datatype thread = Idle | Waiting string "json option" cancellable | Receiving guint64 string "json option" cancellable

text \<open>A finished call: its request id, method, parameters and what it returned.\<close>

record 'w threads =
  th_rpc :: proton_rpc
  th_world :: 'w
  th_state :: "nat \<Rightarrow> thread"
  th_done :: "(guint64 \<times> string \<times> json option \<times> json ret) list"

definition set_thread :: "nat \<Rightarrow> thread \<Rightarrow> 'w threads \<Rightarrow> 'w threads" where
  "set_thread t x c = c\<lparr>th_state := (th_state c)(t := x)\<rparr>"

inductive thread_step ::
  "'w socket_ops \<Rightarrow> json_lib \<Rightarrow> ('w \<Rightarrow> 'w \<Rightarrow> bool) \<Rightarrow> 'w threads \<Rightarrow> 'w threads \<Rightarrow> bool" for S J env where
  begin_call: "th_state c t = Idle \<Longrightarrow> thread_step S J env c (set_thread t (Waiting m p k) c)"
| sent: "th_state c t = Waiting m p k \<Longrightarrow> json_text J (build_request (rpc_next_id (th_rpc c)) m p) \<Longrightarrow>
     call_send S J (th_rpc c) m p (th_world c) = Some (Ok u, i, rpc, w) \<Longrightarrow>
     thread_step S J env c (set_thread t (Receiving i m p k) (c\<lparr>th_rpc := rpc, th_world := w\<rparr>))"
| not_sent: "th_state c t = Waiting m p k \<Longrightarrow> json_text J (build_request (rpc_next_id (th_rpc c)) m p) \<Longrightarrow>
     call_send S J (th_rpc c) m p (th_world c) = Some (Fail e, i, rpc, w) \<Longrightarrow>
     thread_step S J env c (set_thread t Idle
       (c\<lparr>th_rpc := g_mutex_unlock rpc, th_world := w, th_done := th_done c @ [(i, m, p, Fail e)]\<rparr>))"
| received: "th_state c t = Receiving i m p k \<Longrightarrow>
     call_recv S J (th_rpc c) i k (th_world c) = Some (r, rpc, w) \<Longrightarrow>
     thread_step S J env c (set_thread t Idle
       (c\<lparr>th_rpc := rpc, th_world := w, th_done := th_done c @ [(i, m, p, r)]\<rparr>))"
| outside: "env (th_world c) w \<Longrightarrow> thread_step S J env c (c\<lparr>th_world := w\<rparr>)"

inductive_cases thread_stepE: "thread_step S J env c c'"

inductive thread_run ::
  "'w socket_ops \<Rightarrow> json_lib \<Rightarrow> ('w \<Rightarrow> 'w \<Rightarrow> bool) \<Rightarrow> 'w threads \<Rightarrow> bool" for S J env where
  fresh: "proton_rpc_new S socket_path w = (Ok rpc, w') \<Longrightarrow>
     thread_run S J env \<lparr>th_rpc = rpc, th_world = w', th_state = (\<lambda>_. Idle), th_done = []\<rparr>"
| step: "thread_run S J env c \<Longrightarrow> thread_step S J env c c' \<Longrightarrow> thread_run S J env c'"

lemma set_thread_sel [simp]:
  "th_rpc (set_thread t x c) = th_rpc c" "th_world (set_thread t x c) = th_world c"
  "th_done (set_thread t x c) = th_done c" "th_state (set_thread t x c) = (th_state c)(t := x)"
  by (simp_all add: set_thread_def)

section \<open>The contract of the transport, with an environment\<close>

text \<open>Between a request and its reply the environment does not disturb the exchange.\<close>

locale rpc_transport_env = rpc_transport S settled awaiting answers env
  for S :: "'w socket_ops"
    and settled :: "'w \<Rightarrow> conn_id \<Rightarrow> bool"
    and awaiting :: "'w \<Rightarrow> conn_id \<Rightarrow> string \<Rightarrow> bool"
    and answers :: "string \<Rightarrow> string \<Rightarrow> bool"
    and env :: "'w \<Rightarrow> 'w \<Rightarrow> bool" +
  assumes env_awaiting: "awaiting w c l \<Longrightarrow> env w w' \<Longrightarrow> awaiting w' c l"
begin

text \<open>
  Either the mutex is free, no thread waits for a reply and the client is in order, or exactly
  one thread holds it, whose request is the one outstanding on the connection.
\<close>

definition holds :: "json_lib \<Rightarrow> nat \<Rightarrow> 'w threads \<Rightarrow> bool" where
  "holds J t c \<longleftrightarrow>
     (\<forall>t'. t' \<noteq> t \<longrightarrow> (\<forall>i m p k. th_state c t' \<noteq> Receiving i m p k)) \<and>
     (\<exists>i m p k x. th_state c t = Receiving i m p k \<and> held (th_rpc c) x \<and>
        awaiting (th_world c) x (json_generator_to_data J (build_request i m p)))"

definition at_rest :: "'w threads \<Rightarrow> bool" where
  "at_rest c \<longleftrightarrow> client_ok (th_rpc c) (th_world c) \<and> (\<forall>t i m p k. th_state c t \<noteq> Receiving i m p k)"

definition own_replies :: "json_lib \<Rightarrow> 'w threads \<Rightarrow> bool" where
  "own_replies J c \<longleftrightarrow>
     (\<forall>(i, m, p, r)\<in>set (th_done c). \<forall>obj. r = Ok obj \<longrightarrow>
        (\<exists>l. answers (json_generator_to_data J (build_request i m p)) l \<and> decode_response J l = Ok obj))"

definition threads_ok :: "json_lib \<Rightarrow> 'w threads \<Rightarrow> bool" where
  "threads_ok J c \<longleftrightarrow> own_replies J c \<and> (at_rest c \<or> (\<exists>t. holds J t c))"

lemma holds_lock: "holds J t c \<Longrightarrow> rpc_lock (th_rpc c)"
  by (auto simp: holds_def held_def)

lemma at_rest_free: "at_rest c \<Longrightarrow> \<not> rpc_lock (th_rpc c)"
  by (simp add: at_rest_def client_ok_def)

lemma lock_iff_waiting:
  assumes "threads_ok J c"
  shows "rpc_lock (th_rpc c) \<longleftrightarrow> (\<exists>t i m p k. th_state c t = Receiving i m p k)"
proof (cases "at_rest c")
  case True
  with at_rest_free show ?thesis
    by (auto simp: at_rest_def)
next
  case False
  with assms obtain t where "holds J t c"
    by (auto simp: threads_ok_def)
  with holds_lock show ?thesis
    unfolding holds_def by blast
qed

lemma one_waits:
  assumes "threads_ok J c" "th_state c t = Receiving i m p k" "th_state c t' = Receiving i' m' p' k'"
  shows "t = t'"
  using assms unfolding threads_ok_def at_rest_def holds_def by metis

lemma begin_ok:
  assumes "threads_ok J c" "th_state c t = Idle"
  shows "threads_ok J (set_thread t (Waiting m p k) c)"
proof -
  have "at_rest c \<Longrightarrow> at_rest (set_thread t (Waiting m p k) c)"
    by (simp add: at_rest_def)
  moreover have "holds J t' c \<Longrightarrow> holds J t' (set_thread t (Waiting m p k) c)" for t'
    using assms(2) by (auto simp: holds_def)
  ultimately show ?thesis
    using assms(1) by (auto simp: threads_ok_def own_replies_def)
qed

lemma send_at_rest:
  assumes "threads_ok J c" "call_send S J (th_rpc c) m p (th_world c) = Some (r, i, rpc, w)"
  shows "at_rest c" "client_ok (th_rpc c) (th_world c)"
proof -
  from assms(2) have "\<not> rpc_lock (th_rpc c)"
    by (simp add: call_send_Some)
  with assms(1) show "at_rest c"
    using holds_lock by (auto simp: threads_ok_def)
  then show "client_ok (th_rpc c) (th_world c)"
    by (simp add: at_rest_def)
qed

lemma sent_ok:
  assumes "threads_ok J c" "json_text_ok J" "json_text J (build_request (rpc_next_id (th_rpc c)) m p)"
    and s: "call_send S J (th_rpc c) m p (th_world c) = Some (Ok u, i, rpc, w)"
  shows "threads_ok J (set_thread t (Receiving i m p k) (c\<lparr>th_rpc := rpc, th_world := w\<rparr>))"
proof -
  note rest = send_at_rest [OF assms(1) s]
  from call_send_ok [OF rest(2) json_text_line [OF assms(2,3)] s] rest(1)
  have "holds J t (set_thread t (Receiving i m p k) (c\<lparr>th_rpc := rpc, th_world := w\<rparr>))"
    by (auto simp: holds_def at_rest_def)
  with assms(1) show ?thesis
    by (auto simp: threads_ok_def own_replies_def)
qed

lemma unsent_ok:
  assumes "threads_ok J c" "json_text_ok J" "json_text J (build_request (rpc_next_id (th_rpc c)) m p)"
    and s: "call_send S J (th_rpc c) m p (th_world c) = Some (Fail e, i, rpc, w)"
  shows "threads_ok J (set_thread t Idle
    (c\<lparr>th_rpc := g_mutex_unlock rpc, th_world := w, th_done := th_done c @ [(i, m, p, Fail e)]\<rparr>))"
proof -
  note rest = send_at_rest [OF assms(1) s]
  from call_send_ok [OF rest(2) json_text_line [OF assms(2,3)] s] held_unlock
  have "client_ok (g_mutex_unlock rpc) w"
    by auto
  with rest(1) have "at_rest (set_thread t Idle
      (c\<lparr>th_rpc := g_mutex_unlock rpc, th_world := w, th_done := th_done c @ [(i, m, p, Fail e)]\<rparr>))"
    by (simp add: at_rest_def)
  with assms(1) show ?thesis
    by (auto simp: threads_ok_def own_replies_def)
qed

lemma received_ok:
  assumes "threads_ok J c" "th_state c t = Receiving i m p k"
    and "call_recv S J (th_rpc c) i k (th_world c) = Some (r, rpc, w)"
  shows "threads_ok J (set_thread t Idle (c\<lparr>th_rpc := rpc, th_world := w, th_done := th_done c @ [(i, m, p, r)]\<rparr>))"
proof -
  let ?c = "set_thread t Idle (c\<lparr>th_rpc := rpc, th_world := w, th_done := th_done c @ [(i, m, p, r)]\<rparr>)"
  from assms(1,2) obtain t' where "holds J t' c"
    by (auto simp: threads_ok_def at_rest_def)
  moreover from this assms(2) have "t' = t"
    unfolding holds_def by metis
  ultimately obtain x where h: "\<And>t' i m p k. t' \<noteq> t \<Longrightarrow> th_state c t' \<noteq> Receiving i m p k"
    "held (th_rpc c) x" "awaiting (th_world c) x (json_generator_to_data J (build_request i m p))"
    using assms(2) unfolding holds_def by auto
  note r = call_recv_ok [OF h(2,3) assms(3)]
  with h(1) have "at_rest ?c"
    by (auto simp: at_rest_def)
  with r assms(1) show ?thesis
    by (auto simp: threads_ok_def own_replies_def)
qed

lemma outside_ok:
  assumes "threads_ok J c" "env (th_world c) w"
  shows "threads_ok J (c\<lparr>th_world := w\<rparr>)"
proof -
  have "at_rest c \<Longrightarrow> at_rest (c\<lparr>th_world := w\<rparr>)"
    using env_client_ok [OF _ assms(2)] by (simp add: at_rest_def)
  moreover have "holds J t c \<Longrightarrow> holds J t (c\<lparr>th_world := w\<rparr>)" for t
    using env_awaiting [OF _ assms(2)] by (fastforce simp: holds_def)
  ultimately show ?thesis
    using assms(1) by (auto simp: threads_ok_def own_replies_def)
qed

lemma thread_run_ok:
  assumes "json_text_ok J" "thread_run S J env c"
  shows "threads_ok J c"
  using assms(2)
proof (induction rule: thread_run.induct)
  case (fresh socket_path w rpc w')
  then have "client_ok rpc w'"
    by (rule new_client_ok)
  then show ?case
    by (simp add: threads_ok_def own_replies_def at_rest_def)
next
  case (step c c')
  from step.hyps(2) step.IH show ?case
    by (cases rule: thread_step.cases)
       (simp_all add: begin_ok sent_ok [OF _ assms(1)] unsent_ok [OF _ assms(1)] received_ok outside_ok)
qed

end

lemma net_env_awaiting: "net_awaiting G s w c l \<Longrightarrow> net_env w w' \<Longrightarrow> net_awaiting G s w' c l"
  by (auto simp: net_awaiting_def net_env_def)

interpretation lt: rpc_transport_env "net_ops G s" net_settled "net_awaiting G s" "net_answers G s" net_env
  for G s
  by unfold_locales (rule net_env_awaiting)

lemma threads_own_replies:
  assumes "json_access_ok J" "json_text_ok J" "wire_ok J G s"
    and "lt.own_replies G s J c" "\<forall>(i, m, p, r)\<in>set (th_done c). json_text J (build_request i m p)"
    and "(i, m, p, Ok obj) \<in> set (th_done c)"
  shows "(\<exists>st. obj = marshal_Response (fst (dispatch s \<lparr>req_ID = i, req_Method = m, req_Params = p\<rparr> st))) \<and>
         json_object_get_int_member J (Some obj) ''id'' = i"
proof -
  obtain l where "net_answers G s (json_generator_to_data J (build_request i m p)) l" "decode_response J l = Ok obj"
    using assms(4,6) by (fastforce simp: lt.own_replies_def)
  moreover have "json_text J (build_request i m p)"
    using assms(5,6) by fastforce
  ultimately show ?thesis
    using answer_is_response [OF assms(1-3)] by blast
qed

text \<open>Only requests that have a text are sent.\<close>

lemma thread_run_text:
  assumes "thread_run S J env c"
  shows "(\<forall>(i, m, p, r)\<in>set (th_done c). json_text J (build_request i m p)) \<and>
    (\<forall>t i m p k. th_state c t = Receiving i m p k \<longrightarrow> json_text J (build_request i m p))"
  using assms
proof (induction rule: thread_run.induct)
  case (step c c')
  from step.hyps(2) show ?case
  proof (cases rule: thread_step.cases)
    case (received t i m p k r rpc w)
    then have "json_text J (build_request i m p)"
      using step.IH by blast
    moreover have "\<forall>(i, m, p, r)\<in>set (th_done c). json_text J (build_request i m p)"
      using step.IH by simp
    ultimately have "\<forall>(i, m, p, r)\<in>set (th_done c'). json_text J (build_request i m p)"
      using received(1) by simp
    moreover have "\<forall>t i m p k. th_state c' t = Receiving i m p k \<longrightarrow> json_text J (build_request i m p)"
      using received(1) step.IH by auto
    ultimately show ?thesis
      by blast
  qed (use step.IH in \<open>auto simp: call_send_Some\<close>)
qed simp

section \<open>Properties\<close>

text \<open>
  C10. Threads cannot mix up their replies: with any number of threads calling through one client,
  in every interleaving of their steps with each other and with the environment (cancellations
  during the wait included), at most one thread waits for a reply, namely while the mutex is held,
  and every call that returned a result returned the helper's response to its own request, with
  its own id.
\<close>

theorem threads_get_own_replies:
  assumes "json_access_ok J" "json_text_ok J" "wire_ok J G s"
    and "thread_run (net_ops G s) J net_env c"
  shows "(rpc_lock (th_rpc c) \<longleftrightarrow> (\<exists>t i m p k. th_state c t = Receiving i m p k)) \<and>
    (\<forall>t t' i m p k i' m' p' k'. th_state c t = Receiving i m p k \<and> th_state c t' = Receiving i' m' p' k' \<longrightarrow> t = t') \<and>
    (\<forall>i m p obj. (i, m, p, Ok obj) \<in> set (th_done c) \<longrightarrow>
       (\<exists>st. obj = marshal_Response (fst (dispatch s \<lparr>req_ID = i, req_Method = m, req_Params = p\<rparr> st))) \<and>
       json_object_get_int_member J (Some obj) ''id'' = i)"
proof -
  have ok: "lt.threads_ok G s J c"
    by (rule lt.thread_run_ok [OF assms(2,4)])
  have "lt.own_replies G s J c"
    using ok by (simp add: lt.threads_ok_def)
  note own = threads_own_replies [OF assms(1-3) this conjunct1 [OF thread_run_text [OF assms(4)]]]
  show ?thesis
    using lt.lock_iff_waiting [OF ok] lt.one_waits [OF ok] own by blast
qed

text \<open>Two threads; the second starts its call while the first waits for its reply.\<close>

definition two_calls :: "nat net threads" where
  "two_calls =
     \<lparr>th_rpc = sample_rpc\<lparr>rpc_next_id := 2\<rparr>, th_world = (sample_net True)\<lparr>net_helper := 1\<rparr>,
      th_state = (\<lambda>_. Idle)(1 := Waiting ''Stat'' stat_root None),
      th_done = [(1, ''Stat'', stat_root, Ok (JObject [(''id'', JInt 1), (''result'', JInt 0)]))]\<rparr>"

lemma two_calls_run: "thread_run sample_ops sample_json net_env two_calls"
proof -
  let ?c0 = "\<lparr>th_rpc = sample_rpc, th_world = sample_net True, th_state = (\<lambda>_. Idle), th_done = []\<rparr> :: nat net threads"
  let ?c1 = "set_thread 0 (Waiting ''Stat'' stat_root None) ?c0"
  let ?rpc = "sample_rpc\<lparr>rpc_lock := True, rpc_next_id := 2\<rparr>"
  let ?obj = "JObject [(''id'', JInt 1), (''result'', JInt 0)]"
  let ?w = "set_conn 5 \<lparr>cs_inbuf = [], cs_outbuf = [enc ?obj], cs_open = True\<rparr> ((sample_net True)\<lparr>net_helper := 1\<rparr>)"
  let ?c2 = "set_thread 0 (Receiving 1 ''Stat'' stat_root None) (?c1\<lparr>th_rpc := ?rpc, th_world := ?w\<rparr>)"
  let ?c3 = "set_thread 1 (Waiting ''Stat'' stat_root None) ?c2"
  have id: "rpc_next_id sample_rpc = 1" "\<not> rpc_lock sample_rpc"
    by (simp_all add: sample_rpc_def)
  have docs: "json_text sample_json j" for j
    by (simp add: sample_json_def)
  have c0: "thread_run sample_ops sample_json net_env ?c0"
    by (rule thread_run.fresh [OF sample_new])
  then have c1: "thread_run sample_ops sample_json net_env ?c1"
    by (rule thread_run.step) (rule thread_step.begin_call, simp)
  have "send_request sample_ops sample_json sample_rpc (build_request 1 ''Stat'' stat_root) (sample_net True) = Some (Ok (), ?w)"
    using send_request_net [OF sample_wire_ok sample_text_ok sample_connected sample_sendable(1), of sample_handlers]
    by (simp add: sample_ops_def dispatch_def sample_handlers_def Register_def counting_def marshal_Response_def
        sample_net_def sample_go_def)
  then have "call_send sample_ops sample_json sample_rpc ''Stat'' stat_root (sample_net True) = Some (Ok (), 1, ?rpc, ?w)"
    by (simp add: call_send_Some id)
  then have c2: "thread_run sample_ops sample_json net_env ?c2"
    by (intro thread_run.step [OF c1] thread_step.sent) (simp_all add: docs)
  then have c3: "thread_run sample_ops sample_json net_env ?c3"
    by (rule thread_run.step) (rule thread_step.begin_call, simp)
  have "json_parser_load_from_data sample_json (enc ?obj) = Ok (Some ?obj)"
    by (simp add: sample_json_def parse_line_enc del: enc.simps)
  then have dec: "decode_response sample_json (enc ?obj) = Ok ?obj"
    by (simp add: decode_response_def json_access [OF sample_access_ok] del: enc.simps)
  have reader: "rpc_reader sample_rpc = Some 5" and unlock: "g_mutex_unlock ?rpc = sample_rpc\<lparr>rpc_next_id := 2\<rparr>"
    by (simp_all add: sample_rpc_def g_mutex_unlock_def)
  have "set_conn 5 \<lparr>cs_inbuf = [], cs_outbuf = [], cs_open = True\<rparr> ((sample_net True)\<lparr>net_helper := 1\<rparr>) =
      (sample_net True)\<lparr>net_helper := 1\<rparr>"
    by (rule set_conn_same) (simp add: sample_net_def fresh_conn_def)
  then have "call_recv sample_ops sample_json ?rpc 1 None ?w =
      Some (Ok ?obj, sample_rpc\<lparr>rpc_next_id := 2\<rparr>, (sample_net True)\<lparr>net_helper := 1\<rparr>)"
    using reader unlock
    by (simp add: call_recv_def recv_response_def sample_ops_def net_read_def dec del: enc.simps)
  then have "thread_step sample_ops sample_json net_env ?c3
      (set_thread 0 Idle (?c3\<lparr>th_rpc := sample_rpc\<lparr>rpc_next_id := 2\<rparr>, th_world := (sample_net True)\<lparr>net_helper := 1\<rparr>,
        th_done := th_done ?c3 @ [(1, ''Stat'', stat_root, Ok ?obj)]\<rparr>))"
    by (intro thread_step.received) simp_all
  moreover have "set_thread 0 Idle (?c3\<lparr>th_rpc := sample_rpc\<lparr>rpc_next_id := 2\<rparr>, th_world := (sample_net True)\<lparr>net_helper := 1\<rparr>,
        th_done := th_done ?c3 @ [(1, ''Stat'', stat_root, Ok ?obj)]\<rparr>) = two_calls"
    by (auto simp: set_thread_def two_calls_def)
  ultimately show ?thesis
    using thread_run.step [OF c3] by simp
qed

theorem threads_get_own_replies_witness:
  "thread_run sample_ops sample_json net_env two_calls \<and> \<not> rpc_lock (th_rpc two_calls) \<and>
   json_object_get_int_member sample_json (Some (JObject [(''id'', JInt 1), (''result'', JInt 0)])) ''id'' = 1"
proof -
  have "(1, ''Stat'', stat_root, Ok (JObject [(''id'', JInt 1), (''result'', JInt 0)])) \<in> set (th_done two_calls)"
    by (simp add: two_calls_def)
  moreover have "\<not> (\<exists>t i m p k. th_state two_calls t = Receiving i m p k)"
    by (simp add: two_calls_def)
  ultimately show ?thesis
    using threads_get_own_replies [OF sample_access_ok sample_text_ok sample_wire_ok two_calls_run [unfolded sample_ops_def]]
      two_calls_run by blast
qed

end
