(* ===== verification/Monitors.thy ===== *)
theory Monitors
  imports Link_Failures
begin

text \<open>
  The change notification of \<open>src/backend/gvfsbackendproton.c\<close>: the table of monitors with its weak
  references, the matching of event paths, the poll callback, and the creation and finalisation
  of the backend object. Shown: paths match exactly for the watched file or folder and whatever
  lies below it, weak references never dangle, events reach every live watcher and nobody else,
  and nothing of the backend survives its finalisation.
\<close>

section \<open>Objects and the main loop\<close>

type_synonym monitor_id = nat \<comment> \<open>a \<open>GVfsMonitor\<close> object\<close>
type_synonym entry_addr = nat \<comment> \<open>an allocated \<open>ProtonMonitorEntry\<close>\<close>

record monitor_entry =
  me_path :: string
  me_monitor :: "monitor_id option"

text \<open>
  The part of the heap the backend shares with GLib: reference counts (0: finalised, or not yet
  created), the allocated entries, the registered weak pointers (object and the entry whose field
  is to be zeroed), and the timeout sources of the main loop.
\<close>

record gheap =
  gh_refs :: "monitor_id \<Rightarrow> nat"
  gh_next_monitor :: monitor_id
  gh_entries :: "entry_addr \<Rightarrow> monitor_entry option"
  gh_next_entry :: entry_addr
  gh_weak :: "(monitor_id \<times> entry_addr) list"
  gh_sources :: "guint list"

datatype file_monitor_event =
    G_FILE_MONITOR_EVENT_CHANGED
  | G_FILE_MONITOR_EVENT_DELETED
  | G_FILE_MONITOR_EVENT_CREATED

text \<open>One call of \<open>g_vfs_monitor_emit_event\<close>.\<close>

type_synonym emission = "monitor_id \<times> file_monitor_event \<times> string"

record backend =
  be_rpc :: "proton_rpc option"
  be_monitors :: "entry_addr list"
  be_poll_id :: guint

text \<open>GObject references and weak pointers; an object without references may not be touched.\<close>

definition g_object_ref :: "monitor_id \<Rightarrow> gheap \<Rightarrow> gheap option" where
  "g_object_ref m h =
     (if gh_refs h m = 0 then stuck else Some (h\<lparr>gh_refs := (gh_refs h)(m := gh_refs h m + 1)\<rparr>))"

definition g_object_add_weak_pointer :: "monitor_id \<Rightarrow> entry_addr \<Rightarrow> gheap \<Rightarrow> gheap option" where
  "g_object_add_weak_pointer m a h =
     (if gh_refs h m = 0 then stuck else Some (h\<lparr>gh_weak := (m, a) # gh_weak h\<rparr>))"

definition g_object_remove_weak_pointer :: "monitor_id \<Rightarrow> entry_addr \<Rightarrow> gheap \<Rightarrow> gheap option" where
  "g_object_remove_weak_pointer m a h =
     (if gh_refs h m = 0 then stuck else Some (h\<lparr>gh_weak := remove1 (m, a) (gh_weak h)\<rparr>))"

text \<open>Zeroing a registered pointer writes into the entry, which must still be allocated.\<close>

definition zero_weak :: "entry_addr \<Rightarrow> gheap \<Rightarrow> gheap option" where
  "zero_weak a h = do {
     e \<leftarrow> gh_entries h a;
     Some (h\<lparr>gh_entries := (gh_entries h)(a \<mapsto> e\<lparr>me_monitor := None\<rparr>)\<rparr>)
   }"

fun zero_all :: "entry_addr list \<Rightarrow> gheap \<Rightarrow> gheap option" where
  "zero_all [] h = Some h"
| "zero_all (a # as) h = do { h \<leftarrow> zero_weak a h; zero_all as h }"

definition weak_slots :: "monitor_id \<Rightarrow> gheap \<Rightarrow> entry_addr list" where
  "weak_slots m h = map snd (filter (\<lambda>(m', a). m' = m) (gh_weak h))"

definition g_object_unref :: "monitor_id \<Rightarrow> gheap \<Rightarrow> gheap option" where
  "g_object_unref m h =
     (if gh_refs h m = 0 then stuck
      else if gh_refs h m = 1 then do {
        h1 \<leftarrow> zero_all (weak_slots m h) h;
        Some (h1\<lparr>gh_refs := (gh_refs h1)(m := 0),
                 gh_weak := filter (\<lambda>(m', a). m' \<noteq> m) (gh_weak h1)\<rparr>)
      }
      else Some (h\<lparr>gh_refs := (gh_refs h)(m := gh_refs h m - 1)\<rparr>))"

definition g_vfs_monitor_new :: "gheap \<Rightarrow> monitor_id \<times> gheap" where
  "g_vfs_monitor_new h =
     (gh_next_monitor h,
      h\<lparr>gh_refs := (gh_refs h)(gh_next_monitor h := 1), gh_next_monitor := gh_next_monitor h + 1\<rparr>)"

definition g_source_remove :: "guint \<Rightarrow> gheap \<Rightarrow> gheap" where
  "g_source_remove i h = h\<lparr>gh_sources := removeAll i (gh_sources h)\<rparr>"

section \<open>The monitor table\<close>

definition proton_monitor_entry_free :: "entry_addr \<Rightarrow> gheap \<Rightarrow> gheap option" where
  "proton_monitor_entry_free a h = do {
     entry \<leftarrow> gh_entries h a;
     h \<leftarrow> (case me_monitor entry of None \<Rightarrow> Some h | Some m \<Rightarrow> g_object_remove_weak_pointer m a h);
     Some (h\<lparr>gh_entries := (gh_entries h)(a := None)\<rparr>)
   }"

text \<open>
  The condition \<open>match\<close>: \<open>entry->path[plen - 1]\<close> is read only where the entry's path is a proper
  prefix, and lies before the string if that path is empty.
\<close>

definition path_matches :: "string \<Rightarrow> string \<Rightarrow> bool option" where
  "path_matches entry_path file_path =
     (let plen = length entry_path in
      if entry_path = file_path then Some True
      else if prefix entry_path file_path then do {
        c \<leftarrow> (if plen = 0 then stuck else c_at entry_path (plen - 1));
        if c = CHR ''/'' then Some True
        else do { d \<leftarrow> c_at file_path plen; Some (d = CHR ''/'') }
      }
      else Some False)"

definition g_vfs_monitor_emit_event ::
  "gheap \<Rightarrow> monitor_id \<Rightarrow> file_monitor_event \<Rightarrow> string \<Rightarrow> emission option" where
  "g_vfs_monitor_emit_event h m ev path = (if gh_refs h m = 0 then stuck else Some (m, ev, path))"

fun emit_on_monitors ::
  "gheap \<Rightarrow> entry_addr list \<Rightarrow> file_monitor_event \<Rightarrow> string option \<Rightarrow> emission list option" where
  "emit_on_monitors h [] event_type file_path = Some []"
| "emit_on_monitors h (a # as) event_type file_path = do {
     entry \<leftarrow> gh_entries h a;
     out \<leftarrow> (case me_monitor entry of
               None \<Rightarrow> Some []
             | Some m \<Rightarrow>
                 (case file_path of
                    None \<Rightarrow> do {
                      e \<leftarrow> g_vfs_monitor_emit_event h m G_FILE_MONITOR_EVENT_CHANGED (me_path entry);
                      Some [e] }
                  | Some f \<Rightarrow> do {
                      match \<leftarrow> path_matches (me_path entry) f;
                      if match then do { e \<leftarrow> g_vfs_monitor_emit_event h m event_type f; Some [e] }
                      else Some [] }));
     outs \<leftarrow> emit_on_monitors h as event_type file_path;
     Some (out @ outs)
   }"

text \<open>\<open>strcmp\<close> on a NULL type is undefined.\<close>

definition event_kind :: "string option \<Rightarrow> file_monitor_event option" where
  "event_kind type = do {
     t \<leftarrow> type;
     Some (if t = ''deleted'' then G_FILE_MONITOR_EVENT_DELETED
           else if t = ''created'' then G_FILE_MONITOR_EVENT_CREATED
           else G_FILE_MONITOR_EVENT_CHANGED)
   }"

fun dispatch_events :: "gheap \<Rightarrow> entry_addr list \<Rightarrow> proton_event list \<Rightarrow> emission list option" where
  "dispatch_events h monitors [] = Some []"
| "dispatch_events h monitors (ev # evs) = do {
     gev \<leftarrow> event_kind (ev_type ev);
     out \<leftarrow> emit_on_monitors h monitors gev (ev_path ev);
     outs \<leftarrow> dispatch_events h monitors evs;
     Some (out @ outs)
   }"

text \<open>The first component of the result is the return value, \<open>G_SOURCE_CONTINUE\<close> being TRUE.\<close>

definition poll_events_cb ::
  "'w socket_ops \<Rightarrow> json_lib \<Rightarrow> gheap \<Rightarrow> backend \<Rightarrow> 'w \<Rightarrow> (bool \<times> emission list \<times> backend \<times> 'w) option" where
  "poll_events_cb S J h self w = do {
     rpc \<leftarrow> be_rpc self;
     (events, rpc, w) \<leftarrow> proton_rpc_get_events S J rpc w;
     let self = self\<lparr>be_rpc := Some rpc\<rparr>;
     case events of
       Fail _ \<Rightarrow> Some (True, [], self, w)
     | Ok evs \<Rightarrow> do {
         outs \<leftarrow> dispatch_events h (be_monitors self) evs;
         Some (True, outs, self, w)
       }
   }"

text \<open>
  \<open>g_vfs_job_create_monitor_set_monitor\<close> belongs to GVfs: the argument \<open>set_monitor\<close>, which has to
  keep a reference of its own (\<open>keeps_reference\<close>). The job succeeds in every case.
\<close>

definition register_monitor ::
  "(monitor_id \<Rightarrow> gheap \<Rightarrow> gheap option) \<Rightarrow> backend \<Rightarrow> string \<Rightarrow> gheap \<Rightarrow> (backend \<times> gheap) option" where
  "register_monitor set_monitor self filename h = do {
     let (monitor, h) = g_vfs_monitor_new h;
     h \<leftarrow> set_monitor monitor h;
     let entry = gh_next_entry h;
     let h = h\<lparr>gh_next_entry := entry + 1,
               gh_entries := (gh_entries h)(entry \<mapsto> \<lparr>me_path = filename, me_monitor = Some monitor\<rparr>)\<rparr>;
     h \<leftarrow> g_object_add_weak_pointer monitor entry h;
     let self = self\<lparr>be_monitors := be_monitors self @ [entry]\<rparr>;
     h \<leftarrow> g_object_unref monitor h;
     Some (self, h)
   }"

definition do_create_dir_monitor ::
  "(monitor_id \<Rightarrow> gheap \<Rightarrow> gheap option) \<Rightarrow> backend \<Rightarrow> string \<Rightarrow> gheap \<Rightarrow> (backend \<times> gheap) option" where
  "do_create_dir_monitor set_monitor self filename h = register_monitor set_monitor self filename h"

definition do_create_file_monitor ::
  "(monitor_id \<Rightarrow> gheap \<Rightarrow> gheap option) \<Rightarrow> backend \<Rightarrow> string \<Rightarrow> gheap \<Rightarrow> (backend \<times> gheap) option" where
  "do_create_file_monitor set_monitor self filename h = register_monitor set_monitor self filename h"

section \<open>Creation and finalisation of the backend\<close>

definition g_vfs_backend_proton_init :: backend where
  "g_vfs_backend_proton_init = \<lparr>be_rpc = None, be_monitors = [], be_poll_id = 0\<rparr>"

text \<open>\<open>g_ptr_array_unref\<close> on the last reference frees every element.\<close>

fun g_ptr_array_unref :: "entry_addr list \<Rightarrow> gheap \<Rightarrow> gheap option" where
  "g_ptr_array_unref [] h = Some h"
| "g_ptr_array_unref (a # as) h = do { h \<leftarrow> proton_monitor_entry_free a h; g_ptr_array_unref as h }"

definition g_vfs_backend_proton_finalize ::
  "'w socket_ops \<Rightarrow> backend \<Rightarrow> gheap \<Rightarrow> 'w \<Rightarrow> (gheap \<times> 'w) option" where
  "g_vfs_backend_proton_finalize S self h w = do {
     let h = (if be_poll_id self \<noteq> 0 then g_source_remove (be_poll_id self) h else h);
     h \<leftarrow> g_ptr_array_unref (be_monitors self) h;
     Some (h, proton_rpc_free S (be_rpc self) w)
   }"

section \<open>Weak references never dangle\<close>

text \<open>
  The entries are those of the table; the registered weak pointers are exactly the non-NULL
  monitor fields; and each of these objects is alive.
\<close>

definition weak_ok :: "gheap \<Rightarrow> bool" where
  "weak_ok h \<longleftrightarrow>
     distinct (gh_weak h) \<and>
     (\<forall>m a. (m, a) \<in> set (gh_weak h) \<longleftrightarrow> (\<exists>e. gh_entries h a = Some e \<and> me_monitor e = Some m)) \<and>
     (\<forall>m a. (m, a) \<in> set (gh_weak h) \<longrightarrow> gh_refs h m \<noteq> 0)"

definition table_ok :: "entry_addr list \<Rightarrow> gheap \<Rightarrow> bool" where
  "table_ok as h \<longleftrightarrow>
     weak_ok h \<and> distinct as \<and> (\<forall>a. gh_entries h a \<noteq> None \<longleftrightarrow> a \<in> set as) \<and>
     (\<forall>a\<in>set as. a < gh_next_entry h) \<and> (\<forall>m. gh_refs h m \<noteq> 0 \<longrightarrow> m < gh_next_monitor h)"

lemma zero_all_Some:
  assumes "\<forall>a\<in>set as. gh_entries h a \<noteq> None"
  shows "zero_all as h = Some (h\<lparr>gh_entries := (\<lambda>a. if a \<in> set as
           then map_option (\<lambda>e. e\<lparr>me_monitor := None\<rparr>) (gh_entries h a) else gh_entries h a)\<rparr>)"
  using assms
proof (induction as arbitrary: h)
  case (Cons a as)
  from Cons.prems obtain e where e: "gh_entries h a = Some e"
    by auto
  let ?h = "h\<lparr>gh_entries := (gh_entries h)(a \<mapsto> e\<lparr>me_monitor := None\<rparr>)\<rparr>"
  have "zero_weak a h = Some ?h"
    by (simp add: zero_weak_def e)
  moreover have "(\<lambda>b. if b \<in> set as then map_option (\<lambda>e. e\<lparr>me_monitor := None\<rparr>) (gh_entries ?h b) else gh_entries ?h b) =
      (\<lambda>b. if b \<in> set (a # as) then map_option (\<lambda>e. e\<lparr>me_monitor := None\<rparr>) (gh_entries h b) else gh_entries h b)"
    by (auto simp: e)
  moreover have "\<forall>b\<in>set as. gh_entries ?h b \<noteq> None"
    using Cons.prems by simp
  ultimately show ?case
    using Cons.IH [of ?h] by simp
qed simp

lemma weak_slots_mem: "a \<in> set (weak_slots m h) \<longleftrightarrow> (m, a) \<in> set (gh_weak h)"
  by (auto simp: weak_slots_def image_iff split_beta)

lemma unref_Some:
  assumes "weak_ok h" "gh_refs h m \<noteq> 0"
  shows "g_object_unref m h = Some
    (if gh_refs h m = 1
     then h\<lparr>gh_refs := (gh_refs h)(m := 0),
            gh_entries := (\<lambda>a. if (m, a) \<in> set (gh_weak h)
               then map_option (\<lambda>e. e\<lparr>me_monitor := None\<rparr>) (gh_entries h a) else gh_entries h a),
            gh_weak := filter (\<lambda>(m', a). m' \<noteq> m) (gh_weak h)\<rparr>
     else h\<lparr>gh_refs := (gh_refs h)(m := gh_refs h m - 1)\<rparr>)"
proof -
  have "\<forall>a\<in>set (weak_slots m h). gh_entries h a \<noteq> None"
    using assms(1) by (auto simp: weak_slots_mem weak_ok_def)
  from zero_all_Some [OF this] assms(2) show ?thesis
    by (simp add: g_object_unref_def weak_slots_mem)
qed

lemma unref_pos: "g_object_unref m h = Some h' \<Longrightarrow> gh_refs h m \<noteq> 0"
  by (rule notI) (simp add: g_object_unref_def)

lemma unref_weak_ok:
  assumes "weak_ok h" "g_object_unref m h = Some h'"
  shows "weak_ok h'"
proof -
  from unref_Some [OF assms(1) unref_pos [OF assms(2)]] assms have h': "h' =
    (if gh_refs h m = 1
     then h\<lparr>gh_refs := (gh_refs h)(m := 0),
            gh_entries := (\<lambda>a. if (m, a) \<in> set (gh_weak h)
               then map_option (\<lambda>e. e\<lparr>me_monitor := None\<rparr>) (gh_entries h a) else gh_entries h a),
            gh_weak := filter (\<lambda>(m', a). m' \<noteq> m) (gh_weak h)\<rparr>
     else h\<lparr>gh_refs := (gh_refs h)(m := gh_refs h m - 1)\<rparr>)"
    by simp
  have w: "(m', a) \<in> set (gh_weak h) \<longleftrightarrow> (\<exists>e. gh_entries h a = Some e \<and> me_monitor e = Some m')"
      "distinct (gh_weak h)" for m' a
    using assms(1) unfolding weak_ok_def by blast+
  have pos: "0 < gh_refs h m'" if "gh_entries h a = Some e" "me_monitor e = Some m'" for m' a e
    using assms(1) that unfolding weak_ok_def by (metis neq0_conv)
  show ?thesis
  proof (cases "gh_refs h m = 1")
    case True
    then show ?thesis
      using w pos unfolding h' weak_ok_def by auto
  next
    case False
    with unref_pos [OF assms(2)] have "Suc 0 < gh_refs h m"
      by linarith
    with False show ?thesis
      using w pos unfolding h' weak_ok_def by auto
  qed
qed

lemma unref_frame:
  assumes "weak_ok h" "g_object_unref m h = Some h'"
  shows "(gh_entries h' a = None) = (gh_entries h a = None)"
    and "gh_next_entry h' = gh_next_entry h" "gh_next_monitor h' = gh_next_monitor h"
    and "gh_sources h' = gh_sources h" "gh_refs h' m' \<le> gh_refs h m'"
    and "map_option me_path (gh_entries h' a) = map_option me_path (gh_entries h a)"
proof -
  note u = unref_Some [OF assms(1) unref_pos [OF assms(2)]]
  show "(gh_entries h' a = None) = (gh_entries h a = None)"
    "gh_next_entry h' = gh_next_entry h" "gh_next_monitor h' = gh_next_monitor h"
    "gh_sources h' = gh_sources h" "gh_refs h' m' \<le> gh_refs h m'"
    "map_option me_path (gh_entries h' a) = map_option me_path (gh_entries h a)"
    using u assms(2) by (auto simp: option.map_comp comp_def split: if_splits)
qed

lemma unref_table_ok:
  assumes "table_ok as h" "g_object_unref m h = Some h'"
  shows "table_ok as h'"
proof -
  have w: "weak_ok h"
    using assms(1) by (simp add: table_ok_def)
  show ?thesis
    using assms(1) unref_frame [OF w assms(2)] unref_weak_ok [OF w assms(2)]
    unfolding table_ok_def by (metis le_zero_eq)
qed

lemma ref_table_ok:
  assumes "table_ok as h" "g_object_ref m h = Some h'"
  shows "table_ok as h'"
proof -
  from assms(2) have h': "gh_refs h m \<noteq> 0" "h' = h\<lparr>gh_refs := (gh_refs h)(m := gh_refs h m + 1)\<rparr>"
    by (auto simp: g_object_ref_def split: if_splits)
  then have "(gh_refs h' x = 0) = (gh_refs h x = 0)" for x
    by simp
  then show ?thesis
    using assms(1) unfolding table_ok_def weak_ok_def by (simp add: h'(2))
qed

lemma ref_sources: "g_object_ref m h = Some h' \<Longrightarrow> gh_sources h' = gh_sources h"
  by (auto simp: g_object_ref_def split: if_splits)

text \<open>Registration adds an entry for a new object, whose only reference is the job's.\<close>

definition keeps_reference :: "(monitor_id \<Rightarrow> gheap \<Rightarrow> gheap option) \<Rightarrow> bool" where
  "keeps_reference set_monitor \<longleftrightarrow>
     (\<forall>m h. gh_refs h m \<noteq> 0 \<longrightarrow> set_monitor m h = Some (h\<lparr>gh_refs := (gh_refs h)(m := gh_refs h m + 1)\<rparr>))"

definition registered :: "string \<Rightarrow> gheap \<Rightarrow> gheap" where
  "registered filename h =
     h\<lparr>gh_refs := (gh_refs h)(gh_next_monitor h := 1), gh_next_monitor := gh_next_monitor h + 1,
       gh_next_entry := gh_next_entry h + 1,
       gh_entries := (gh_entries h)(gh_next_entry h \<mapsto>
          \<lparr>me_path = filename, me_monitor = Some (gh_next_monitor h)\<rparr>),
       gh_weak := (gh_next_monitor h, gh_next_entry h) # gh_weak h\<rparr>"

lemma register_monitor_Some:
  assumes "keeps_reference set_monitor"
  shows "register_monitor set_monitor self filename h =
    Some (self\<lparr>be_monitors := be_monitors self @ [gh_next_entry h]\<rparr>, registered filename h)"
  using assms
  by (simp add: register_monitor_def g_vfs_monitor_new_def keeps_reference_def Let_def
      g_object_add_weak_pointer_def g_object_unref_def registered_def)

lemma registered_table_ok:
  assumes "table_ok as h"
  shows "table_ok (as @ [gh_next_entry h]) (registered filename h)"
proof -
  let ?m = "gh_next_monitor h" and ?a = "gh_next_entry h"
  have t: "distinct (gh_weak h)"
    "\<And>m a. (m, a) \<in> set (gh_weak h) \<longleftrightarrow> (\<exists>e. gh_entries h a = Some e \<and> me_monitor e = Some m)"
    "distinct as" "\<And>a. gh_entries h a \<noteq> None \<longleftrightarrow> a \<in> set as"
    "\<And>a. a \<in> set as \<Longrightarrow> a < ?a" "\<And>m. gh_refs h m \<noteq> 0 \<Longrightarrow> m < ?m"
    "\<And>m a. (m, a) \<in> set (gh_weak h) \<Longrightarrow> gh_refs h m \<noteq> 0"
    using assms unfolding table_ok_def weak_ok_def by blast+
  have fresh: "gh_entries h ?a = None" "?a \<notin> set as" "(?m, ?a) \<notin> set (gh_weak h)"
    using t(4,5) [of ?a] t(2) by fastforce+
  have bound: "a < Suc ?a" if "a \<in> set as" for a
    using t(5) [OF that] by simp
  have refs: "m < Suc ?m" if "gh_refs h m \<noteq> 0" for m
    using t(6) [OF that] by simp
  have "weak_ok (registered filename h)"
    unfolding weak_ok_def registered_def
    using t(1,2,7) fresh by (simp del: neq0_conv) (metis option.distinct(1))
  moreover have "gh_entries (registered filename h) a \<noteq> None \<longleftrightarrow> a \<in> set (as @ [?a])" for a
    using t(4) [of a] by (simp add: registered_def)
  ultimately show ?thesis
    unfolding table_ok_def using t(3) fresh(2) bound refs
    by (simp add: registered_def)
qed

text \<open>Freeing an entry.\<close>

lemma entry_free_Some:
  assumes "table_ok (a # as) h"
  shows "\<exists>h'. proton_monitor_entry_free a h = Some h' \<and> table_ok as h' \<and>
    gh_sources h' = gh_sources h \<and> gh_refs h' = gh_refs h"
proof -
  have t: "distinct (gh_weak h)"
    "\<And>m a. (m, a) \<in> set (gh_weak h) \<longleftrightarrow> (\<exists>e. gh_entries h a = Some e \<and> me_monitor e = Some m)"
    "a \<notin> set as" "distinct as" "\<And>b. gh_entries h b \<noteq> None \<longleftrightarrow> b \<in> set (a # as)"
    "\<And>m a. (m, a) \<in> set (gh_weak h) \<Longrightarrow> gh_refs h m \<noteq> 0"
    using assms unfolding table_ok_def weak_ok_def by auto
  obtain e where e: "gh_entries h a = Some e"
    using t(5) [of a] by auto
  define ws where "ws = (case me_monitor e of None \<Rightarrow> gh_weak h | Some m \<Rightarrow> remove1 (m, a) (gh_weak h))"
  have ws: "set ws = {(m, b). (m, b) \<in> set (gh_weak h) \<and> b \<noteq> a}" "distinct ws"
    using t(1,2) e by (auto simp: ws_def set_remove1_eq split: option.splits)
  have "proton_monitor_entry_free a h = Some (h\<lparr>gh_weak := ws, gh_entries := (gh_entries h)(a := None)\<rparr>)"
  proof (cases "me_monitor e")
    case None
    then show ?thesis by (simp add: proton_monitor_entry_free_def e ws_def)
  next
    case (Some m)
    then have "gh_refs h m \<noteq> 0"
      using t(2,6) e by blast
    with Some show ?thesis
      by (simp add: proton_monitor_entry_free_def e ws_def g_object_remove_weak_pointer_def)
  qed
  moreover have "table_ok as (h\<lparr>gh_weak := ws, gh_entries := (gh_entries h)(a := None)\<rparr>)"
    using assms t(3) t(5) unfolding table_ok_def weak_ok_def by (auto simp: ws simp del: neq0_conv)
  ultimately show ?thesis
    by simp
qed

lemma ptr_array_unref_Some:
  "table_ok as h \<Longrightarrow> \<exists>h'. g_ptr_array_unref as h = Some h' \<and> table_ok [] h' \<and>
    gh_sources h' = gh_sources h \<and> gh_refs h' = gh_refs h"
proof (induction as arbitrary: h)
  case (Cons a as)
  from entry_free_Some [OF Cons.prems] obtain h1 where h1: "proton_monitor_entry_free a h = Some h1"
    "table_ok as h1" "gh_sources h1 = gh_sources h" "gh_refs h1 = gh_refs h"
    by auto
  with Cons.IH [of h1] show ?case
    by auto
qed simp

section \<open>Paths\<close>

text \<open>
  An absolute path as its components, the root being the empty list. The reference notion of a
  match: the watched path is the changed one or one of its ancestors.
\<close>

definition component :: "string \<Rightarrow> bool" where
  "component c \<longleftrightarrow> c \<noteq> [] \<and> CHR ''/'' \<notin> set c"

definition slashed :: "string list \<Rightarrow> string" where
  "slashed cs = concat (map ((#) (CHR ''/'')) cs)"

definition abs_path :: "string list \<Rightarrow> string" where
  "abs_path cs = (if cs = [] then ''/'' else slashed cs)"

lemma slashed_simps [simp]:
  "slashed [] = []"
  "slashed (c # cs) = CHR ''/'' # c @ slashed cs"
  by (simp_all add: slashed_def)

lemma abs_path_nonempty: "abs_path cs \<noteq> []"
  by (cases cs) (simp_all add: abs_path_def)

lemma slashed_hd: "slashed cs = [] \<or> hd (slashed cs) = CHR ''/''"
  by (cases cs) simp_all

lemma split_at_slash:
  assumes "CHR ''/'' \<notin> set p" "CHR ''/'' \<notin> set q"
    and "X = [] \<or> hd X = CHR ''/''" "Y = [] \<or> hd Y = CHR ''/''"
    and "p @ X = q @ Y"
  shows "p = q \<and> X = Y"
proof -
  have tw: "takeWhile (\<lambda>c. c \<noteq> CHR ''/'') (r @ Z) = r"
    if "CHR ''/'' \<notin> set r" "Z = [] \<or> hd Z = CHR ''/''" for r Z :: string
    using that by (cases Z) (simp_all add: takeWhile_no_sep takeWhile_sep)
  from tw [OF assms(1,3)] tw [OF assms(2,4)] assms(5) have "p = q"
    by simp
  with assms(5) show ?thesis
    by simp
qed

lemma slashed_extends:
  assumes "\<forall>c\<in>set ps. component c" "\<forall>c\<in>set qs. component c"
  shows "(\<exists>Y. slashed qs = slashed ps @ Y \<and> (Y = [] \<or> hd Y = CHR ''/'')) \<longleftrightarrow> prefix ps qs"
  using assms
proof (induction ps arbitrary: qs)
  case Nil
  then show ?case
    using slashed_hd by simp
next
  case (Cons p ps)
  show ?case
  proof (cases qs)
    case Nil
    then show ?thesis by simp
  next
    case (Cons q qs')
    have pq: "CHR ''/'' \<notin> set p" "CHR ''/'' \<notin> set q" "\<forall>c\<in>set ps. component c" "\<forall>c\<in>set qs'. component c"
      using Cons.prems Cons by (simp_all add: component_def)
    have "(q @ slashed qs' = p @ slashed ps @ Y \<and> (Y = [] \<or> hd Y = CHR ''/'')) \<longleftrightarrow>
        q = p \<and> slashed qs' = slashed ps @ Y \<and> (Y = [] \<or> hd Y = CHR ''/'')" for Y
    proof -
      have "slashed ps @ Y = [] \<or> hd (slashed ps @ Y) = CHR ''/''" if "Y = [] \<or> hd Y = CHR ''/''"
        using that slashed_hd [of ps] by (cases "slashed ps") simp_all
      then show ?thesis
        using split_at_slash [OF pq(2,1) slashed_hd] by blast
    qed
    then have "(\<exists>Y. slashed qs = slashed (p # ps) @ Y \<and> (Y = [] \<or> hd Y = CHR ''/'')) \<longleftrightarrow>
        q = p \<and> (\<exists>Y. slashed qs' = slashed ps @ Y \<and> (Y = [] \<or> hd Y = CHR ''/''))"
      by (auto simp: Cons)
    with Cons.IH [OF pq(3,4)] show ?thesis
      by (auto simp: Cons)
  qed
qed

lemma slashy: "(Y = [] \<or> hd Y = c) \<longleftrightarrow> Y = [] \<or> (\<exists>ys. Y = c # ys)"
  by (cases Y) auto

lemma slashed_last:
  "\<forall>c\<in>set ps. component c \<Longrightarrow> ps \<noteq> [] \<Longrightarrow> last (slashed ps) \<noteq> CHR ''/''"
proof (induction ps)
  case (Cons p ps)
  then show ?case
    by (cases ps) (auto simp: component_def dest: last_in_set)
qed simp

lemma c_at_last: "s \<noteq> [] \<Longrightarrow> c_at s (length s - 1) = Some (last s)"
  by (simp add: c_at_def last_conv_nth)

lemma path_matches_nonempty:
  assumes "p \<noteq> []"
  shows "path_matches p f = Some (p = f \<or>
    (\<exists>y ys. f = p @ y # ys \<and> (last p = CHR ''/'' \<or> y = CHR ''/'')))"
proof (cases "p \<noteq> f \<and> prefix p f")
  case True
  then obtain y ys where "f = p @ y # ys"
    by (metis append_Nil2 list.exhaust prefixE)
  with assms show ?thesis
    by (simp add: path_matches_def c_at_last [simplified] c_at_append Let_def)
next
  case False
  then show ?thesis
    by (auto simp: path_matches_def Let_def)
qed

lemma path_matches_ancestor:
  assumes "\<forall>c\<in>set ps. component c" "\<forall>c\<in>set qs. component c"
  shows "path_matches (abs_path ps) (abs_path qs) = Some (prefix ps qs)"
proof (cases "ps = []")
  case True
  then have "abs_path qs = abs_path ps @ tl (abs_path qs)"
    by (cases qs) (simp_all add: abs_path_def)
  then show ?thesis
    using True by (cases "tl (abs_path qs)") (auto simp: path_matches_nonempty abs_path_def split: if_splits)
next
  case ps: False
  show ?thesis
  proof (cases "qs = []")
    case True
    obtain p ps' where "ps = p # ps'" "p \<noteq> []"
      using ps assms(1) by (cases ps) (auto simp: component_def)
    with True show ?thesis
      by (simp add: path_matches_nonempty abs_path_def)
  next
    case False
    have "(slashed ps = slashed qs \<or> (\<exists>y ys. slashed qs = slashed ps @ y # ys \<and> y = CHR ''/'')) \<longleftrightarrow>
        (\<exists>Y. slashed qs = slashed ps @ Y \<and> (Y = [] \<or> hd Y = CHR ''/''))"
      by (auto simp: slashy)
    with ps False slashed_last [OF assms(1) ps] slashed_extends [OF assms] abs_path_nonempty [of ps]
    show ?thesis
      by (simp add: path_matches_nonempty abs_path_def)
  qed
qed

section \<open>Who is told\<close>

text \<open>The live watchers of a table, with the paths they watch, in table order.\<close>

definition live_watchers :: "gheap \<Rightarrow> entry_addr list \<Rightarrow> (monitor_id \<times> string) list" where
  "live_watchers h as =
     concat (map (\<lambda>a. case gh_entries h a of
                        None \<Rightarrow> []
                      | Some e \<Rightarrow> (case me_monitor e of None \<Rightarrow> [] | Some m \<Rightarrow> [(m, me_path e)])) as)"

definition told :: "(monitor_id \<times> string) list \<Rightarrow> file_monitor_event \<Rightarrow> string option \<Rightarrow> emission list" where
  "told ws ev fp =
     (case fp of
        None \<Rightarrow> map (\<lambda>(m, p). (m, G_FILE_MONITOR_EVENT_CHANGED, p)) ws
      | Some f \<Rightarrow> map (\<lambda>(m, p). (m, ev, f)) (filter (\<lambda>(m, p). path_matches p f = Some True) ws))"

lemma live_watchers_Cons:
  "live_watchers h (a # as) =
     (case gh_entries h a of
        None \<Rightarrow> []
      | Some e \<Rightarrow> (case me_monitor e of None \<Rightarrow> [] | Some m \<Rightarrow> [(m, me_path e)])) @ live_watchers h as"
  by (simp add: live_watchers_def)

lemma told_append: "told (xs @ ys) ev fp = told xs ev fp @ told ys ev fp"
  by (simp add: told_def split: option.splits)

lemma emit_on_monitors_Some:
  assumes "table_ok as' h" "set as \<subseteq> set as'"
    and "\<forall>(m, p)\<in>set (live_watchers h as). p \<noteq> []"
  shows "emit_on_monitors h as ev fp = Some (told (live_watchers h as) ev fp)"
  using assms(2,3)
proof (induction as)
  case Nil
  then show ?case
    by (simp add: live_watchers_def told_def split: option.splits)
next
  case (Cons a as)
  have "gh_entries h a \<noteq> None"
    using assms(1) Cons.prems(1) unfolding table_ok_def by simp
  then obtain e where e: "gh_entries h a = Some e"
    by blast
  have IH: "emit_on_monitors h as ev fp = Some (told (live_watchers h as) ev fp)"
    using Cons by (simp add: live_watchers_Cons)
  show ?case
  proof (cases "me_monitor e")
    case None
    with e IH show ?thesis
      by (simp add: live_watchers_Cons)
  next
    case (Some m)
    with e assms(1) have "gh_refs h m \<noteq> 0"
      unfolding table_ok_def weak_ok_def by blast
    moreover have "me_path e \<noteq> []"
      using Cons.prems(2) e Some by (simp add: live_watchers_Cons)
    ultimately show ?thesis
      using e Some IH
      by (cases fp) (simp_all add: live_watchers_Cons told_append path_matches_nonempty
          g_vfs_monitor_emit_event_def, simp_all add: told_def path_matches_nonempty)
  qed
qed

lemma dispatch_events_Some:
  assumes "table_ok as h" "\<forall>(m, p)\<in>set (live_watchers h as). p \<noteq> []"
    and "\<forall>ev\<in>set evs. ev_type ev \<noteq> None"
  shows "dispatch_events h as evs =
    Some (concat (map (\<lambda>ev. told (live_watchers h as) (the (event_kind (ev_type ev))) (ev_path ev)) evs))"
  using assms(3)
  by (induction evs) (auto simp: emit_on_monitors_Some [OF assms(1) order_refl assms(2)] event_kind_def)

section \<open>Runs of the backend object\<close>

text \<open>
  From the new object: monitors are created; other holders take and drop references to monitors
  (so that monitors are finalised at any time); the client structure changes; the poll timer is
  started once.
\<close>

definition empty_heap :: gheap where
  "empty_heap = \<lparr>gh_refs = (\<lambda>_. 0), gh_next_monitor = 0, gh_entries = Map.empty, gh_next_entry = 0,
                 gh_weak = [], gh_sources = []\<rparr>"

inductive backend_run ::
  "(monitor_id \<Rightarrow> gheap \<Rightarrow> gheap option) \<Rightarrow> backend \<Rightarrow> gheap \<Rightarrow> bool" for set_monitor where
  run_init: "backend_run set_monitor g_vfs_backend_proton_init empty_heap"
| run_dir: "backend_run set_monitor self h \<Longrightarrow>
     do_create_dir_monitor set_monitor self f h = Some (self', h') \<Longrightarrow> backend_run set_monitor self' h'"
| run_file: "backend_run set_monitor self h \<Longrightarrow>
     do_create_file_monitor set_monitor self f h = Some (self', h') \<Longrightarrow> backend_run set_monitor self' h'"
| run_ref: "backend_run set_monitor self h \<Longrightarrow> g_object_ref m h = Some h' \<Longrightarrow> backend_run set_monitor self h'"
| run_unref: "backend_run set_monitor self h \<Longrightarrow> g_object_unref m h = Some h' \<Longrightarrow> backend_run set_monitor self h'"
| run_rpc: "backend_run set_monitor self h \<Longrightarrow> backend_run set_monitor (self\<lparr>be_rpc := r\<rparr>) h"
| run_timer: "backend_run set_monitor self h \<Longrightarrow> be_poll_id self = 0 \<Longrightarrow> i \<noteq> 0 \<Longrightarrow>
     backend_run set_monitor (self\<lparr>be_poll_id := i\<rparr>) (h\<lparr>gh_sources := i # gh_sources h\<rparr>)"

definition timers_ok :: "backend \<Rightarrow> gheap \<Rightarrow> bool" where
  "timers_ok self h \<longleftrightarrow> gh_sources h = (if be_poll_id self = 0 then [] else [be_poll_id self])"

lemma table_ok_sources: "table_ok as (h\<lparr>gh_sources := xs\<rparr>) = table_ok as h"
  by (simp add: table_ok_def weak_ok_def)

lemma backend_run_ok:
  assumes "keeps_reference set_monitor" "backend_run set_monitor self h"
  shows "table_ok (be_monitors self) h \<and> timers_ok self h"
  using assms(2)
proof (induction rule: backend_run.induct)
  case run_init
  show ?case
    by (simp add: table_ok_def weak_ok_def timers_ok_def empty_heap_def g_vfs_backend_proton_init_def)
next
  case (run_dir self h f self' h')
  then show ?case
    by (auto simp: do_create_dir_monitor_def register_monitor_Some [OF assms(1)] timers_ok_def
        registered_table_ok) (simp_all add: registered_def)
next
  case (run_file self h f self' h')
  then show ?case
    by (auto simp: do_create_file_monitor_def register_monitor_Some [OF assms(1)] timers_ok_def
        registered_table_ok) (simp_all add: registered_def)
next
  case (run_ref self h m h')
  then show ?case
    using ref_table_ok ref_sources unfolding timers_ok_def by metis
next
  case (run_unref self h m h')
  then have "weak_ok h"
    by (simp add: table_ok_def)
  then show ?case
    using run_unref unref_table_ok unref_frame(4) by (fastforce simp: timers_ok_def)
next
  case (run_rpc self h r)
  then show ?case
    by (simp add: timers_ok_def)
next
  case (run_timer self h i)
  then show ?case
    by (simp add: table_ok_sources timers_ok_def)
qed

text \<open>Finalising a backend of a run.\<close>

lemma finalize_Some:
  assumes "keeps_reference set_monitor" "backend_run set_monitor self h"
  shows "\<exists>h'. g_vfs_backend_proton_finalize S self h w = Some (h', proton_rpc_free S (be_rpc self) w) \<and>
    gh_sources h' = [] \<and> gh_entries h' = Map.empty \<and> gh_weak h' = [] \<and> gh_refs h' = gh_refs h"
proof -
  have ok: "table_ok (be_monitors self) h" "timers_ok self h"
    using backend_run_ok [OF assms] by simp_all
  let ?h = "if be_poll_id self \<noteq> 0 then g_source_remove (be_poll_id self) h else h"
  have h: "table_ok (be_monitors self) ?h" "gh_sources ?h = []" "gh_refs ?h = gh_refs h"
    using ok by (simp_all add: g_source_remove_def table_ok_sources timers_ok_def)
  from ptr_array_unref_Some [OF h(1)] obtain h' where h': "g_ptr_array_unref (be_monitors self) ?h = Some h'"
    "table_ok [] h'" "gh_sources h' = []" "gh_refs h' = gh_refs h"
    using h by auto
  from h'(2) have "gh_entries h' = Map.empty"
    by (auto simp: table_ok_def)
  moreover from this h'(2) have "gh_weak h' = []"
    by (cases "gh_weak h'") (auto simp: table_ok_def weak_ok_def)
  ultimately show ?thesis
    using h' by (simp add: g_vfs_backend_proton_finalize_def Let_def)
qed

section \<open>Properties\<close>

text \<open>
  C36. A watched path is notified of exactly the changes at or below it: for absolute paths, the
  condition in \<open>emit_on_monitors\<close> (string equality, or a prefix test with two look-ups of a slash)
  holds if and only if the components of the watched path are a prefix of those of the changed
  path, so \<open>/ab\<close> is not below \<open>/a\<close>, the root covers everything, and no look-up is out of bounds.
\<close>

theorem path_matches_iff_ancestor:
  assumes "\<forall>c\<in>set ps. component c" "\<forall>c\<in>set qs. component c"
  shows "path_matches (abs_path ps) (abs_path qs) = Some (prefix ps qs)"
  by (rule path_matches_ancestor [OF assms])

theorem path_matches_iff_ancestor_witness:
  "path_matches ''/a'' ''/a/b'' = Some True \<and> path_matches ''/a'' ''/ab'' = Some False"
  using path_matches_iff_ancestor [of "[''a'']" "[''a'', ''b'']"]
    path_matches_iff_ancestor [of "[''a'']" "[''ab'']"]
  by (simp add: abs_path_def component_def)

text \<open>
  C21. Weak references never dangle: in every reachable state of the backend each entry of the
  table is allocated, its monitor field is NULL or names a live object, dropping a reference to a
  live object always succeeds (the fields that GLib zeroes are still there), and emitting an event
  touches neither a freed entry nor a finalised monitor.
\<close>

theorem weak_references_sound:
  assumes "keeps_reference set_monitor" "backend_run set_monitor self h"
  shows "(\<forall>a\<in>set (be_monitors self). \<exists>e. gh_entries h a = Some e \<and>
            (\<forall>m. me_monitor e = Some m \<longrightarrow> 0 < gh_refs h m)) \<and>
    (\<forall>m. 0 < gh_refs h m \<longrightarrow> g_object_unref m h \<noteq> stuck) \<and>
    ((\<forall>a e. gh_entries h a = Some e \<longrightarrow> me_path e \<noteq> []) \<longrightarrow>
       (\<forall>ev fp. emit_on_monitors h (be_monitors self) ev fp \<noteq> stuck))"
proof -
  have ok: "table_ok (be_monitors self) h"
    using backend_run_ok [OF assms] by simp
  then have w: "weak_ok h"
    by (simp add: table_ok_def)
  have "\<exists>e. gh_entries h a = Some e \<and> (\<forall>m. me_monitor e = Some m \<longrightarrow> 0 < gh_refs h m)"
    if "a \<in> set (be_monitors self)" for a
    using ok that unfolding table_ok_def weak_ok_def by (metis neq0_conv not_None_eq)
  moreover have "emit_on_monitors h (be_monitors self) ev fp \<noteq> stuck"
    if "\<forall>a e. gh_entries h a = Some e \<longrightarrow> me_path e \<noteq> []" for ev fp
  proof -
    have "\<forall>(m, p)\<in>set (live_watchers h (be_monitors self)). p \<noteq> []"
      using that by (auto simp: live_watchers_def split: option.splits)
    then show ?thesis
      by (simp add: emit_on_monitors_Some [OF ok order_refl])
  qed
  moreover have "g_object_unref m h \<noteq> stuck" if "0 < gh_refs h m" for m
    using unref_Some [OF w] that by simp
  ultimately show ?thesis
    by blast
qed

text \<open>A backend with one watcher of the root, whose monitor is then finalised.\<close>

definition own_reference :: "monitor_id \<Rightarrow> gheap \<Rightarrow> gheap option" where
  "own_reference m h = Some (h\<lparr>gh_refs := (gh_refs h)(m := gh_refs h m + 1)\<rparr>)"

lemma own_reference_keeps: "keeps_reference own_reference"
  by (simp add: keeps_reference_def own_reference_def)

definition one_watcher :: backend where
  "one_watcher = g_vfs_backend_proton_init\<lparr>be_monitors := [0]\<rparr>"

definition one_watcher_heap :: gheap where
  "one_watcher_heap = registered ''/'' empty_heap"

lemma one_watcher_run: "backend_run own_reference one_watcher one_watcher_heap"
  by (rule backend_run.run_dir [OF backend_run.run_init, where f = "''/''"])
     (simp add: do_create_dir_monitor_def register_monitor_Some [OF own_reference_keeps] one_watcher_def
        one_watcher_heap_def g_vfs_backend_proton_init_def empty_heap_def)

theorem weak_references_sound_witness:
  "g_object_unref 0 one_watcher_heap \<noteq> stuck \<and>
   emit_on_monitors one_watcher_heap (be_monitors one_watcher) G_FILE_MONITOR_EVENT_DELETED (Some ''/x'') \<noteq> stuck"
proof -
  have "\<forall>a e. gh_entries one_watcher_heap a = Some e \<longrightarrow> me_path e \<noteq> []" "0 < gh_refs one_watcher_heap 0"
    by (simp_all add: one_watcher_heap_def registered_def empty_heap_def)
  then show ?thesis
    using weak_references_sound [OF own_reference_keeps one_watcher_run] by blast
qed

text \<open>
  C20. Remote changes reach every live watcher and nobody else: one poll over the link asks the
  helper once, emits for each of its events, in order, one notification to each live monitor at or
  above the event's path (to every live monitor, as a change of its own path, where the event has
  no path), keeps the timer running and leaves the table alone.
\<close>

theorem poll_notifies_watchers:
  assumes "keeps_reference set_monitor" "backend_run set_monitor self h"
    and "be_rpc self = Some rpc" "link_ready J G s rpc c None w ''GetEvents'' None"
    and "served s ''GetEvents'' None (net_helper w) (Inr (Some (marshal_GetEventsResult events))) st"
    and "\<forall>(m, p)\<in>set (live_watchers h (be_monitors self)). p \<noteq> []"
  shows "poll_events_cb (net_ops G s) J h self w =
    Some (True,
          concat (map (\<lambda>e. if evt_Path e = []
                           then map (\<lambda>(m, p). (m, G_FILE_MONITOR_EVENT_CHANGED, p)) (live_watchers h (be_monitors self))
                           else map (\<lambda>(m, p). (m, if evt_Type e = ''deleted'' then G_FILE_MONITOR_EVENT_DELETED
                                                  else if evt_Type e = ''created'' then G_FILE_MONITOR_EVENT_CREATED
                                                  else G_FILE_MONITOR_EVENT_CHANGED, evt_Path e))
                                    (filter (\<lambda>(m, p). path_matches p (evt_Path e) = Some True)
                                            (live_watchers h (be_monitors self)))) events),
          self\<lparr>be_rpc := Some (after_call rpc)\<rparr>, w\<lparr>net_helper := st\<rparr>)"
proof -
  have ok: "table_ok (be_monitors self) h"
    using backend_run_ok [OF assms(1,2)] by simp
  have "\<forall>ev\<in>set (map event_received events). ev_type ev \<noteq> None"
    by (simp add: event_received_def)
  from dispatch_events_Some [OF ok assms(6) this] show ?thesis
    by (simp add: poll_events_cb_def assms(3) get_events_served [OF assms(4,5)] event_received_def
        event_kind_def told_def comp_def if_distrib [of the] cong: if_cong map_cong)
       (intro arg_cong [where f = concat] map_cong refl, simp)
qed

theorem poll_notifies_watchers_witness:
  "\<exists>self' w'. poll_events_cb
      (net_ops sample_go (only ''GetEvents'' (Inr (Some (marshal_GetEventsResult
         [\<lparr>evt_Type = ''created'', evt_LinkID = ''1'', evt_Path = ''/x''\<rparr>])))))
      sample_json one_watcher_heap (one_watcher\<lparr>be_rpc := Some sample_rpc\<rparr>) (sample_net True) =
    Some (True, [(0, G_FILE_MONITOR_EVENT_CREATED, ''/x'')], self', w')"
proof -
  have r: "link_ready sample_json sample_go s sample_rpc 5 None (sample_net True) ''GetEvents'' None"
    for s :: "nat handlers"
    by (rule sample_link_ready) (simp add: sendable_sample)
  have w: "live_watchers one_watcher_heap [0] = [(0, ''/'')]"
    by (simp add: live_watchers_def one_watcher_heap_def registered_def empty_heap_def)
  have "be_rpc (one_watcher\<lparr>be_rpc := Some sample_rpc\<rparr>) = Some sample_rpc"
    by simp
  from poll_notifies_watchers [OF own_reference_keeps backend_run.run_rpc [OF one_watcher_run] this r only_served,
      of "[\<lparr>evt_Type = ''created'', evt_LinkID = ''1'', evt_Path = ''/x''\<rparr>]"]
  show ?thesis
    by (simp add: one_watcher_def w path_matches_nonempty)
qed

text \<open>
  Finalising the backend leaves nothing behind that GLib could still reach: it returns, no
  timeout source remains to call \<open>poll_events_cb\<close> on the freed object, every entry is freed and no
  weak pointer into one is registered any more, while the monitors others hold stay alive.
\<close>

theorem finalize_releases_everything:
  assumes "keeps_reference set_monitor" "backend_run set_monitor self h"
  shows "\<exists>h'. g_vfs_backend_proton_finalize S self h w = Some (h', proton_rpc_free S (be_rpc self) w) \<and>
    gh_sources h' = [] \<and> gh_entries h' = Map.empty \<and> gh_weak h' = [] \<and> gh_refs h' = gh_refs h"
  by (rule finalize_Some [OF assms])

theorem finalize_releases_everything_witness:
  "\<exists>h'. g_vfs_backend_proton_finalize sample_ops (one_watcher\<lparr>be_poll_id := 3\<rparr>)
      (one_watcher_heap\<lparr>gh_sources := 3 # gh_sources one_watcher_heap\<rparr>) (sample_net True) = Some (h', sample_net True) \<and>
    gh_sources h' = [] \<and> gh_weak h' = []"
proof -
  have "be_poll_id one_watcher = 0" "be_rpc one_watcher = None"
    by (simp_all add: one_watcher_def g_vfs_backend_proton_init_def)
  with finalize_releases_everything [OF own_reference_keeps backend_run.run_timer [OF one_watcher_run],
      of 3 sample_ops "sample_net True"]
  show ?thesis
    by (auto simp: proton_rpc_free_def)
qed

end
