(* ===== verification/Backend_Ops.thy ===== *)
theory Backend_Ops
  imports Monitors
begin

text \<open>
  The file operations of \<open>src/backend/gvfsbackendproton.c\<close>: file information from an entry, and
  the jobs query_info, enumerate, open_for_read, read, close_read and make_directory. GIO's
  content types, icons and dates are a parameter. Shown: what a job delivers of the helper's
  answer, which errors it reports, and that consecutive reads deliver the file.
\<close>

section \<open>File information\<close>

datatype file_type = G_FILE_TYPE_REGULAR | G_FILE_TYPE_DIRECTORY

datatype gicon = Themed_icon string | Content_icon string

text \<open>The attributes of a \<open>GFileInfo\<close> that the backend sets; an unset attribute is \<open>None\<close>.\<close>

record file_info =
  fi_name :: "string option"
  fi_display_name :: "string option"
  fi_edit_name :: "string option"
  fi_file_type :: "file_type option"
  fi_size :: "gint64 option"
  fi_content_type :: "string option"
  fi_icon :: "gicon option"
  fi_symbolic_icon :: "gicon option"
  fi_modified :: "gint64 option"
  fi_id_file :: "string option"
  fi_etag_value :: "string option"
  fi_thumbnail_path :: "string option"
  fi_thumbnail_is_valid :: "bool option"

definition g_file_info_new :: file_info where
  "g_file_info_new =
     \<lparr>fi_name = None, fi_display_name = None, fi_edit_name = None, fi_file_type = None, fi_size = None,
      fi_content_type = None, fi_icon = None, fi_symbolic_icon = None, fi_modified = None,
      fi_id_file = None, fi_etag_value = None, fi_thumbnail_path = None, fi_thumbnail_is_valid = None\<rparr>"

text \<open>
  GIO: the content type guessed from a name, its icons, and whether a time stamp denotes a date
  (the date is kept as the time stamp it was made from).
\<close>

record gio_lib =
  g_content_type_guess :: "string option \<Rightarrow> string option"
  g_content_type_get_icon :: "string \<Rightarrow> gicon option"
  g_content_type_get_symbolic_icon :: "string \<Rightarrow> gicon option"
  g_date_time_new_from_unix_utc :: "gint64 \<Rightarrow> gint64 option"

text \<open>A setter that GIO refuses for a NULL argument leaves the attribute as it was.\<close>

definition or_else :: "'a option \<Rightarrow> 'a option \<Rightarrow> 'a option" where
  "or_else new old = (case new of None \<Rightarrow> old | Some x \<Rightarrow> Some x)"

definition fill_file_info :: "gio_lib \<Rightarrow> file_info \<Rightarrow> proton_entry \<Rightarrow> file_info" where
  "fill_file_info L info e =
     (let info = info\<lparr>fi_name := or_else (pe_name e) (fi_name info),
                      fi_display_name := or_else (pe_name e) (fi_display_name info),
                      fi_edit_name := or_else (pe_name e) (fi_edit_name info)\<rparr>;
          info = (if pe_is_dir e
                  then info\<lparr>fi_file_type := Some G_FILE_TYPE_DIRECTORY,
                            fi_content_type := Some ''inode/directory'',
                            fi_icon := Some (Themed_icon ''folder''),
                            fi_symbolic_icon := Some (Themed_icon ''folder-symbolic'')\<rparr>
                  else
                    (let info = info\<lparr>fi_file_type := Some G_FILE_TYPE_REGULAR, fi_size := Some (pe_size e)\<rparr>
                     in case g_content_type_guess L (pe_name e) of
                          None \<Rightarrow> info
                        | Some content_type \<Rightarrow>
                            info\<lparr>fi_content_type := Some content_type,
                                 fi_icon := or_else (g_content_type_get_icon L content_type) (fi_icon info),
                                 fi_symbolic_icon := or_else (g_content_type_get_symbolic_icon L content_type)
                                                             (fi_symbolic_icon info)\<rparr>));
          info = info\<lparr>fi_modified := or_else (g_date_time_new_from_unix_utc L (pe_mtime e)) (fi_modified info)\<rparr>;
          info = (case pe_link_id e of None \<Rightarrow> info | Some i \<Rightarrow> info\<lparr>fi_id_file := Some i\<rparr>)
      in case pe_revision_id e of None \<Rightarrow> info | Some r \<Rightarrow> info\<lparr>fi_etag_value := Some r\<rparr>)"

section \<open>Jobs\<close>

text \<open>
  How a job ended; \<open>g_vfs_job_failed_from_error\<close> with a NULL error is \<open>Job_failed None\<close>.
\<close>

datatype job_result = Job_succeeded | Job_failed "gerror option"

definition job_failed :: "gio_error \<Rightarrow> string \<Rightarrow> job_result" where
  "job_failed code msg = Job_failed (Some (Io_error code msg))"

text \<open>A call through \<open>self->rpc\<close>, which must not be NULL.\<close>

definition with_rpc ::
  "backend \<Rightarrow> (proton_rpc \<Rightarrow> 'w \<Rightarrow> ('a \<times> proton_rpc \<times> 'w) option) \<Rightarrow> 'w \<Rightarrow> ('a \<times> backend \<times> 'w) option" where
  "with_rpc self f w = do {
     rpc \<leftarrow> be_rpc self;
     (x, rpc, w) \<leftarrow> f rpc w;
     Some (x, self\<lparr>be_rpc := Some rpc\<rparr>, w)
   }"

text \<open>
  \<open>matcher\<close>: the attributes the caller asks for.
\<close>

definition do_query_info ::
  "'w socket_ops \<Rightarrow> json_lib \<Rightarrow> gio_lib \<Rightarrow> backend \<Rightarrow> string \<Rightarrow> file_info \<Rightarrow> (string \<Rightarrow> bool) \<Rightarrow> cancellable \<Rightarrow> 'w
   \<Rightarrow> (job_result \<times> file_info \<times> backend \<times> 'w) option" where
  "do_query_info S J L self filename info matcher cancellable w = do {
     (stat, self, w) \<leftarrow> with_rpc self (\<lambda>rpc w. proton_rpc_stat S J rpc filename cancellable w) w;
     case stat of
       Fail error \<Rightarrow> Some (Job_failed error, info, self, w)
     | Ok e \<Rightarrow>
         (let info = fill_file_info L info e in
          case (pe_link_id e, pe_revision_id e) of
            (Some link_id, Some revision_id) \<Rightarrow>
              if \<not> pe_is_dir e \<and> matcher ''thumbnail::path'' then do {
                (thumb_path, self, w) \<leftarrow>
                  with_rpc self (\<lambda>rpc w. proton_rpc_fetch_thumbnail S J rpc link_id revision_id cancellable w) w;
                let info = (case thumb_path of
                              Fail _ \<Rightarrow> info
                            | Ok p \<Rightarrow> info\<lparr>fi_thumbnail_path := Some p, fi_thumbnail_is_valid := Some True\<rparr>);
                Some (Job_succeeded, info, self, w)
              }
              else Some (Job_succeeded, info, self, w)
          | _ \<Rightarrow> Some (Job_succeeded, info, self, w))
   }"

text \<open>The infos added to the job, in order, and whether \<open>g_vfs_job_enumerate_done\<close> was called.\<close>

definition do_enumerate ::
  "'w socket_ops \<Rightarrow> json_lib \<Rightarrow> gio_lib \<Rightarrow> backend \<Rightarrow> string \<Rightarrow> cancellable \<Rightarrow> 'w
   \<Rightarrow> (job_result \<times> file_info list \<times> bool \<times> backend \<times> 'w) option" where
  "do_enumerate S J L self filename cancellable w = do {
     (entries, self, w) \<leftarrow> with_rpc self (\<lambda>rpc w. proton_rpc_list_dir S J rpc filename cancellable w) w;
     case entries of
       Fail error \<Rightarrow> Some (Job_failed error, [], False, self, w)
     | Ok es \<Rightarrow> Some (Job_succeeded, map (fill_file_info L g_file_info_new) es, True, self, w)
   }"

record proton_handle =
  ph_path :: string
  ph_offset :: gint64

definition do_open_for_read ::
  "'w socket_ops \<Rightarrow> json_lib \<Rightarrow> backend \<Rightarrow> string \<Rightarrow> cancellable \<Rightarrow> 'w
   \<Rightarrow> (job_result \<times> proton_handle option \<times> backend \<times> 'w) option" where
  "do_open_for_read S J self filename cancellable w = do {
     (stat, self, w) \<leftarrow> with_rpc self (\<lambda>rpc w. proton_rpc_stat S J rpc filename cancellable w) w;
     case stat of
       Fail error \<Rightarrow> Some (Job_failed error, None, self, w)
     | Ok e \<Rightarrow>
         if pe_is_dir e then Some (job_failed G_IO_ERROR_IS_DIRECTORY ''Is a directory'', None, self, w)
         else Some (Job_succeeded, Some \<lparr>ph_path = filename, ph_offset = 0\<rparr>, self, w)
   }"

text \<open>\<open>h->offset += n\<close> in signed 64-bit arithmetic, where an overflow is undefined.\<close>

definition advance :: "gint64 \<Rightarrow> gssize \<Rightarrow> gint64 option" where
  "advance offset n = (if sint offset + sint n < 2 ^ 63 then Some (offset + n) else stuck)"

text \<open>
  The size reported to the job (\<open>None\<close>: not set), the handle and the buffer after the job. A
  count of 2^63 bytes or more would arrive as a negative \<open>gssize\<close>, without an error.
\<close>

definition do_read ::
  "'w socket_ops \<Rightarrow> json_lib \<Rightarrow> backend \<Rightarrow> proton_handle \<Rightarrow> byte list \<Rightarrow> gsize \<Rightarrow> cancellable \<Rightarrow> 'w
   \<Rightarrow> (job_result \<times> gsize option \<times> proton_handle \<times> byte list \<times> backend \<times> 'w) option" where
  "do_read S J self h buffer bytes_requested cancellable w = do {
     (res, self, w) \<leftarrow> with_rpc self (\<lambda>rpc w.
        proton_rpc_read_file S J rpc (ph_path h) (ph_offset h) bytes_requested buffer cancellable w) w;
     case res of
       Fail error \<Rightarrow> Some (Job_failed error, None, h, buffer, self, w)
     | Ok (n, buffer, eof) \<Rightarrow>
         if sint n < 0 then Some (Job_failed None, None, h, buffer, self, w)
         else do {
           offset \<leftarrow> advance (ph_offset h) n;
           Some (Job_succeeded, Some n, h\<lparr>ph_offset := offset\<rparr>, buffer, self, w)
         }
   }"

text \<open>The handle is given up.\<close>

definition do_close_read :: "proton_handle \<Rightarrow> job_result \<times> proton_handle option" where
  "do_close_read h = (Job_succeeded, None)"

definition do_make_directory ::
  "'w socket_ops \<Rightarrow> json_lib \<Rightarrow> backend \<Rightarrow> string \<Rightarrow> cancellable \<Rightarrow> 'w \<Rightarrow> (job_result \<times> backend \<times> 'w) option" where
  "do_make_directory S J self filename cancellable w = do {
     (res, self, w) \<leftarrow> with_rpc self (\<lambda>rpc w. proton_rpc_make_directory S J rpc filename cancellable w) w;
     Some (case res of Fail error \<Rightarrow> Job_failed error | Ok _ \<Rightarrow> Job_succeeded, self, w)
   }"

section \<open>Lemmas on file information\<close>

text \<open>What \<open>fill_file_info\<close> sets for an entry of the helper, on a new info.\<close>

lemma fill_new_info:
  assumes "info = fill_file_info L g_file_info_new (entry_received e)"
  shows "fi_name info = Some (en_Name e)" "fi_display_name info = Some (en_Name e)"
    "fi_file_type info = Some (if en_IsDir e then G_FILE_TYPE_DIRECTORY else G_FILE_TYPE_REGULAR)"
    "fi_size info = (if en_IsDir e then None else Some (en_Size e))"
    "fi_id_file info = Some (en_LinkID e)"
    "fi_etag_value info = (if en_RevisionID e = [] then None else Some (en_RevisionID e))"
    "fi_modified info = g_date_time_new_from_unix_utc L (en_MTime e)"
    "fi_thumbnail_path info = None"
  unfolding assms
  by (simp_all add: fill_file_info_def entry_received_def g_file_info_new_def or_else_def Let_def
      split: option.splits)

section \<open>Reading a file from start to end\<close>

text \<open>
  The contract between the reader of a file, who issues read jobs one after the other, and the
  implementation \<open>rd\<close> of a read job: in a state that allows \<open>n + 1\<close> more jobs, a job for a
  buffer of at most \<open>lim\<close> bytes delivers the next bytes of the content, as many as fit, and advances
  the offset.
\<close>

locale read_source =
  fixes rd :: "proton_handle \<Rightarrow> byte list \<Rightarrow> 's \<Rightarrow>
      (job_result \<times> gsize option \<times> proton_handle \<times> byte list \<times> 's) option"
    and path :: string
    and content :: "byte list"
    and lim :: nat
    and ready :: "nat \<Rightarrow> 's \<Rightarrow> bool"
  assumes chunk: "ready (Suc n) s \<Longrightarrow> off \<le> length content \<Longrightarrow> length buf \<le> lim \<Longrightarrow>
      \<exists>s'. rd \<lparr>ph_path = path, ph_offset = of_nat off\<rparr> buf s =
        Some (Job_succeeded, Some (of_nat (min (length buf) (length content - off))),
              \<lparr>ph_path = path, ph_offset = of_nat (off + min (length buf) (length content - off))\<rparr>,
              take (length buf) (drop off content) @ drop (length content - off) buf, s') \<and> ready n s'"
    and content_bound: "ready n s \<Longrightarrow> length content < 2 ^ 63"

text \<open>
  A sequence of read jobs with buffers of the given sizes: the bytes reported as read, up to the
  first job that fails.
\<close>

fun read_jobs ::
  "(proton_handle \<Rightarrow> byte list \<Rightarrow> 's \<Rightarrow> (job_result \<times> gsize option \<times> proton_handle \<times> byte list \<times> 's) option)
   \<Rightarrow> proton_handle \<Rightarrow> nat list \<Rightarrow> 's \<Rightarrow> (byte list \<times> proton_handle \<times> 's) option" where
  "read_jobs rd h [] s = Some ([], h, s)"
| "read_jobs rd h (n # ns) s = do {
     (job, size, h, buf, s) \<leftarrow> rd h (replicate n 0) s;
     case size of
       None \<Rightarrow> Some ([], h, s)
     | Some k \<Rightarrow> do { (rest, h, s) \<leftarrow> read_jobs rd h ns s; Some (take (unat k) buf @ rest, h, s) }
   }"

context read_source
begin

lemma read_jobs_content:
  assumes "ready (length ns) s" "off \<le> length content" "\<forall>n\<in>set ns. n \<le> lim"
  shows "\<exists>s'. read_jobs rd \<lparr>ph_path = path, ph_offset = of_nat off\<rparr> ns s =
    Some (take (sum_list ns) (drop off content),
          \<lparr>ph_path = path, ph_offset = of_nat (off + min (sum_list ns) (length content - off))\<rparr>, s')"
  using assms
proof (induction ns arbitrary: s off)
  case (Cons n ns)
  let ?k = "min n (length content - off)"
  have bound: "length content < 2 ^ 63"
    using content_bound Cons.prems(1) by blast
  have "\<exists>s'. rd \<lparr>ph_path = path, ph_offset = of_nat off\<rparr> (replicate n 0) s =
        Some (Job_succeeded, Some (of_nat ?k), \<lparr>ph_path = path, ph_offset = of_nat (off + ?k)\<rparr>,
              take n (drop off content) @ drop (length content - off) (replicate n 0), s') \<and> ready (length ns) s'"
    using chunk [of "length ns" s off "replicate n 0"] Cons.prems by simp
  then obtain s1 where s1: "rd \<lparr>ph_path = path, ph_offset = of_nat off\<rparr> (replicate n 0) s =
        Some (Job_succeeded, Some (of_nat ?k), \<lparr>ph_path = path, ph_offset = of_nat (off + ?k)\<rparr>,
              take n (drop off content) @ drop (length content - off) (replicate n 0), s1)" "ready (length ns) s1"
    by blast
  have "off + ?k \<le> length content"
    using Cons.prems(2) by simp
  from Cons.IH [OF s1(2) this] Cons.prems(3) obtain s2 where s2:
    "read_jobs rd \<lparr>ph_path = path, ph_offset = of_nat (off + ?k)\<rparr> ns s1 =
       Some (take (sum_list ns) (drop (off + ?k) content),
          \<lparr>ph_path = path, ph_offset = of_nat (off + ?k + min (sum_list ns) (length content - (off + ?k)))\<rparr>, s2)"
    by auto
  have "?k < 2 ^ LENGTH(64)"
    using bound by simp
  then have k: "unat (of_nat ?k :: gsize) = ?k"
    by (simp only: unat_of_nat mod_less)
  have "take ?k (take n (drop off content) @ drop (length content - off) (replicate n (0 :: byte))) = take n (drop off content)"
    by (simp add: min_def)
  moreover have "take n (drop off content) @ take (sum_list ns) (drop (off + ?k) content) =
      take (n + sum_list ns) (drop off content)"
    by (cases "n \<le> length content - off") (simp_all add: take_add add.commute min_def)
  moreover have o: "off + ?k + min (sum_list ns) (length content - (off + ?k)) =
      off + min (n + sum_list ns) (length content - off)"
    by simp
  ultimately show ?case
    by (simp only: read_jobs.simps s1(1) s2 k o sum_list.Cons Option.bind.simps split_conv option.case) simp
qed simp

end

text \<open>
  A helper that serves a file: in every state it can be in (\<open>ok\<close>), a read from inside the file of at
  most \<open>lim\<close> bytes is answered with at least the bytes of the content that the range covers (a nil
  slice may stand for none).
\<close>

definition serves_content ::
  "go_json \<Rightarrow> 'h handlers \<Rightarrow> ('h \<Rightarrow> bool) \<Rightarrow> nat \<Rightarrow> string \<Rightarrow> byte list \<Rightarrow> bool" where
  "serves_content G s ok lim path content \<longleftrightarrow>
     (\<forall>off len st. ok st \<longrightarrow> off \<le> length content \<longrightarrow> len \<le> lim \<longrightarrow>
        (\<exists>r st'. served s ''ReadFile'' (read_params path (of_nat off) (of_nat len)) st (Inr (Some (marshal_ReadResult G r))) st' \<and>
           ok st' \<and> take len (go_bytes (rr_Data r)) = take len (drop off content) \<and>
           length (go_bytes (rr_Data r)) < 2 ^ 63))"

text \<open>
  A connected backend with enough request ids left for \<open>n\<close> more reads; the libraries agree, and
  the requests fit into the helper's line buffer.
\<close>

definition read_ready ::
  "json_lib \<Rightarrow> go_json \<Rightarrow> 'h handlers \<Rightarrow> ('h \<Rightarrow> bool) \<Rightarrow> nat \<Rightarrow> string \<Rightarrow> byte list \<Rightarrow> cancellable \<Rightarrow> nat
   \<Rightarrow> backend \<times> 'h net \<Rightarrow> bool" where
  "read_ready J G s ok lim path content k n = (\<lambda>(self, w).
     json_access_ok J \<and> json_text_ok J \<and> wire_ok J G s \<and> base64_wire_ok J G \<and> null_decodes_empty J \<and>
     serves_content G s ok lim path content \<and> ok (net_helper w) \<and>
     length content < 2 ^ 63 \<and> lim < 2 ^ 63 \<and> \<not> is_cancelled k w \<and>
     (\<forall>i off len. 0 \<le> sint i \<longrightarrow> sendable J i ''ReadFile'' (read_params path off len)) \<and>
     (\<exists>rpc c. be_rpc self = Some rpc \<and> connected rpc c w \<and> unat (rpc_next_id rpc) + n < 2 ^ 63))"

definition read_job ::
  "json_lib \<Rightarrow> go_json \<Rightarrow> 'h handlers \<Rightarrow> cancellable \<Rightarrow> proton_handle \<Rightarrow> byte list \<Rightarrow> backend \<times> 'h net
   \<Rightarrow> (job_result \<times> gsize option \<times> proton_handle \<times> byte list \<times> backend \<times> 'h net) option" where
  "read_job J G s k h buf = (\<lambda>(self, w). do_read (net_ops G s) J self h buf (of_nat (length buf)) k w)"

lemma sint_of_nat_small: "n < 2 ^ 63 \<Longrightarrow> sint (of_nat n :: 64 word) = int n"
  by (simp add: signed_of_nat signed_take_bit_int_eq_self)

lemma unat_less_signed: "0 \<le> sint (w :: 64 word) \<longleftrightarrow> unat w < 2 ^ 63"
proof
  assume a: "0 \<le> sint w"
  from a have n: "nat (sint w) < 2 ^ 63"
    using sint_less [of w] by (simp add: nat_less_iff)
  have "w = of_nat (nat (sint w))"
    using a by simp
  then have "unat w = nat (sint w) mod 2 ^ LENGTH(64)"
    by (metis unat_of_nat)
  with n show "unat w < 2 ^ 63"
    by simp
next
  assume "unat w < 2 ^ 63"
  then show "0 \<le> sint w"
    using sint_of_nat_small [of "unat w"] by simp
qed

lemma unat_of_nat_small: "n < 2 ^ 64 \<Longrightarrow> unat (of_nat n :: 64 word) = n"
  by (simp add: unat_of_nat)

lemma unat_Suc: "unat w + n < 2 ^ 63 \<Longrightarrow> 0 < n \<Longrightarrow> unat (w + 1 :: 64 word) = unat w + 1"
proof -
  assume "unat w + n < 2 ^ 63" "0 < n"
  then have "unat (of_nat (unat w + 1) :: 64 word) = unat w + 1"
    by (intro unat_of_nat_small) simp
  then show ?thesis
    by (simp add: add.commute)
qed

lemma read_ready_step:
  assumes "read_ready J G s ok lim path content k (Suc n) (self, w)"
  obtains rpc c where "be_rpc self = Some rpc"
    "\<And>off len. link_ready J G s rpc c k w ''ReadFile'' (read_params path off len)"
    "\<And>st. ok st \<Longrightarrow> read_ready J G s ok lim path content k n (self\<lparr>be_rpc := Some (after_call rpc)\<rparr>, w\<lparr>net_helper := st\<rparr>)"
proof -
  from assms obtain rpc c where r: "be_rpc self = Some rpc" "connected rpc c w"
    "unat (rpc_next_id rpc) + Suc n < 2 ^ 63"
    by (auto simp: read_ready_def)
  then have "0 \<le> sint (rpc_next_id rpc)"
    by (simp add: unat_less_signed)
  with assms r have l: "link_ready J G s rpc c k w ''ReadFile'' (read_params path off len)" for off len
    by (simp add: read_ready_def link_ready_def)
  have "connected (after_call rpc) c (w\<lparr>net_helper := st\<rparr>)" for st
    using r(2) by (simp add: after_call_connected)
  moreover have "unat (rpc_next_id (after_call rpc)) + n < 2 ^ 63"
    using r(3) unat_Suc [OF r(3)] by (simp add: after_call_def)
  moreover have "is_cancelled k (w\<lparr>net_helper := st\<rparr>) = is_cancelled k w" for st
    by (cases k) (simp_all add: is_cancelled_def)
  ultimately have "read_ready J G s ok lim path content k n (self\<lparr>be_rpc := Some (after_call rpc)\<rparr>, w\<lparr>net_helper := st\<rparr>)"
    if "ok st" for st
    using assms that by (auto simp: read_ready_def)
  with r(1) l show thesis
    by (rule that)
qed

lemma do_read_chunk:
  assumes "read_ready J G s ok lim path content k (Suc n) (self, w)" "off \<le> length content" "length buf \<le> lim"
  shows "\<exists>self' w'. do_read (net_ops G s) J self \<lparr>ph_path = path, ph_offset = of_nat off\<rparr> buf (of_nat (length buf)) k w =
      Some (Job_succeeded, Some (of_nat (min (length buf) (length content - off))),
            \<lparr>ph_path = path, ph_offset = of_nat (off + min (length buf) (length content - off))\<rparr>,
            take (length buf) (drop off content) @ drop (length content - off) buf, self', w') \<and>
      read_ready J G s ok lim path content k n (self', w')"
proof -
  let ?m = "min (length buf) (length content - off)"
  from assms(1) have h: "serves_content G s ok lim path content" "ok (net_helper w)" "length content < 2 ^ 63"
    "lim < 2 ^ 63" "base64_wire_ok J G" "null_decodes_empty J"
    by (simp_all add: read_ready_def)
  obtain rpc c where r: "be_rpc self = Some rpc"
    "\<And>off len. link_ready J G s rpc c k w ''ReadFile'' (read_params path off len)"
    "\<And>st. ok st \<Longrightarrow> read_ready J G s ok lim path content k n (self\<lparr>be_rpc := Some (after_call rpc)\<rparr>, w\<lparr>net_helper := st\<rparr>)"
    using assms(1) by (rule read_ready_step) blast
  have u: "unat (of_nat (length buf) :: gsize) = length buf"
    using assms(3) h(4) by (simp add: unat_of_nat_small)
  obtain rr st where rr: "served s ''ReadFile'' (read_params path (of_nat off) (of_nat (length buf))) (net_helper w)
      (Inr (Some (marshal_ReadResult G rr))) st" "ok st"
    "take (length buf) (go_bytes (rr_Data rr)) = take (length buf) (drop off content)"
    "length (go_bytes (rr_Data rr)) < 2 ^ 63"
    using h(1,2) assms(2,3) unfolding serves_content_def by blast
  let ?bs = "go_bytes (rr_Data rr)"
  have m: "min (length ?bs) (length buf) = ?m"
    using arg_cong [OF rr(3), of length] by (simp add: min.commute)
  have "drop j buf = drop (min j (length buf)) buf" for j
    by (simp add: min_def)
  then have buf: "drop (length ?bs) buf = drop (length content - off) buf"
    using m by (metis min.commute)
  have "length ?bs < 2 ^ 64"
    using rr(4) by simp
  from read_served [OF r(2) rr(1) h(5,6) u [symmetric] this]
  have rd: "proton_rpc_read_file (net_ops G s) J rpc path (of_nat off) (of_nat (length buf)) buf k w =
      Some (Ok (of_nat ?m, take (length buf) (drop off content) @ drop (length content - off) buf, rr_EOF rr),
            after_call rpc, w\<lparr>net_helper := st\<rparr>)"
    unfolding u m rr(3) buf .
  have "?m < 2 ^ 63" "off < 2 ^ 63" "off + ?m < 2 ^ 63"
    using assms(2) h(3) by auto
  then have "sint (of_nat ?m :: gssize) = int ?m" "sint (of_nat off :: gint64) = int off"
    by (simp_all only: sint_of_nat_small)
  with \<open>off + ?m < 2 ^ 63\<close> have adv: "\<not> sint (of_nat ?m :: gssize) < 0" "advance (of_nat off) (of_nat ?m) = Some (of_nat (off + ?m))"
    by (simp_all add: advance_def del: of_nat_min)
  have "do_read (net_ops G s) J self \<lparr>ph_path = path, ph_offset = of_nat off\<rparr> buf (of_nat (length buf)) k w =
      Some (Job_succeeded, Some (of_nat ?m), \<lparr>ph_path = path, ph_offset = of_nat (off + ?m)\<rparr>,
            take (length buf) (drop off content) @ drop (length content - off) buf,
            self\<lparr>be_rpc := Some (after_call rpc)\<rparr>, w\<lparr>net_helper := st\<rparr>)"
    using adv by (simp add: do_read_def with_rpc_def r(1) rd del: of_nat_min of_nat_add)
  with r(3) [OF rr(2)] show ?thesis
    by blast
qed

interpretation rs: read_source "read_job J G s k" path content lim "read_ready J G s ok lim path content k"
  for J G s k path content lim ok
proof (unfold_locales, goal_cases)
  case (1 n st off buf)
  then show ?case
    using do_read_chunk [of J G s ok lim path content k n "fst st" "snd st" off buf]
    by (auto simp: read_job_def split_beta)
next
  case (2 n st)
  then show ?case
    by (auto simp: read_ready_def)
qed

section \<open>Jobs over the link\<close>

abbreviation (input) path_params :: "string \<Rightarrow> json option" where
  "path_params path \<equiv> Some (JObject [(''path'', JString path)])"

abbreviation (input) thumb_params :: "string \<Rightarrow> string \<Rightarrow> json option" where
  "thumb_params link_id revision_id \<equiv>
     Some (JObject [(''link_id'', JString link_id), (''revision_id'', JString revision_id)])"

lemma thumbnail_served:
  assumes "link_ready J G s rpc c k w ''FetchThumbnail'' (thumb_params l r)"
    and "served s ''FetchThumbnail'' (thumb_params l r) (net_helper w)
           (Inr (Some (marshal_FetchThumbnailResult p))) st"
  shows "proton_rpc_fetch_thumbnail (net_ops G s) J rpc l r k w =
    Some (if p = [] then Fail None else Ok p, after_call rpc, w\<lparr>net_helper := st\<rparr>)"
proof -
  note J = link_ready_access [OF assms(1)]
  show ?thesis
    by (simp add: proton_rpc_fetch_thumbnail_def call_served [OF assms] marshal_FetchThumbnailResult_def
        ok_response_result [OF J] json_access [OF J])
qed

lemma thumbnail_refused:
  assumes "link_ready J G s rpc c k w ''FetchThumbnail'' (thumb_params l r)"
    and "served s ''FetchThumbnail'' (thumb_params l r) (net_helper w) (Inl e) st"
  shows "\<exists>err. proton_rpc_fetch_thumbnail (net_ops G s) J rpc l r k w =
    Some (Fail err, after_call rpc, w\<lparr>net_helper := st\<rparr>)"
  by (simp add: proton_rpc_fetch_thumbnail_def call_refused [OF assms])

text \<open>A job on a client whose exchange fails.\<close>

lemma job_of_failed_call:
  assumes "be_rpc self = Some rpc" "\<And>m p. \<exists>rpc' w'. call S J rpc m p k w = Some (Fail e, rpc', w')"
  shows "\<exists>self' w'. do_query_info S J L self f info matcher k w = Some (Job_failed e, info, self', w')"
    and "\<exists>self' w'. do_enumerate S J L self f k w = Some (Job_failed e, [], False, self', w')"
    and "\<exists>self' w'. do_open_for_read S J self f k w = Some (Job_failed e, None, self', w')"
    and "\<exists>self' w'. do_read S J self h buf len k w = Some (Job_failed e, None, h, buf, self', w')"
    and "\<exists>self' w'. do_make_directory S J self f k w = Some (Job_failed e, self', w')"
proof -
  obtain r1 w1 where "call S J rpc ''Stat'' (path_params f) k w = Some (Fail e, r1, w1)"
    using assms(2) by blast
  then show "\<exists>self' w'. do_query_info S J L self f info matcher k w = Some (Job_failed e, info, self', w')"
    and "\<exists>self' w'. do_open_for_read S J self f k w = Some (Job_failed e, None, self', w')"
    using assms(1) by (simp_all add: do_query_info_def do_open_for_read_def with_rpc_def proton_rpc_stat_def)
  obtain r2 w2 where "call S J rpc ''ListDir'' (path_params f) k w = Some (Fail e, r2, w2)"
    using assms(2) by blast
  then show "\<exists>self' w'. do_enumerate S J L self f k w = Some (Job_failed e, [], False, self', w')"
    using assms(1) by (simp add: do_enumerate_def with_rpc_def proton_rpc_list_dir_def)
  obtain r3 w3 where "call S J rpc ''ReadFile'' (read_params (ph_path h) (ph_offset h) len) k w = Some (Fail e, r3, w3)"
    using assms(2) by blast
  then show "\<exists>self' w'. do_read S J self h buf len k w = Some (Job_failed e, None, h, buf, self', w')"
    using assms(1) by (simp add: do_read_def with_rpc_def proton_rpc_read_file_def read_params_def)
  obtain r4 w4 where "call S J rpc ''Mkdir'' (path_params f) k w = Some (Fail e, r4, w4)"
    using assms(2) by blast
  then show "\<exists>self' w'. do_make_directory S J self f k w = Some (Job_failed e, self', w')"
    using assms(1) by (simp add: do_make_directory_def with_rpc_def proton_rpc_make_directory_def)
qed

section \<open>Properties\<close>

text \<open>
  Reading delivers the file: for an open handle, consecutive read jobs of any buffer sizes
  (up to what the helper answers at once) over the link report exactly the first bytes of the content, as many as the buffers
  hold and not more than there are, in order, without a gap or a repetition, and the handle's
  offset ends where the delivered bytes end; every job succeeds, the ones at the end with size 0.
\<close>

theorem reads_deliver_content:
  assumes "read_ready J G s ok lim path content k (length ns) (self, w)" "\<forall>n\<in>set ns. n \<le> lim"
  shows "\<exists>st. read_jobs (read_job J G s k) \<lparr>ph_path = path, ph_offset = 0\<rparr> ns (self, w) =
    Some (take (sum_list ns) content,
          \<lparr>ph_path = path, ph_offset = of_nat (min (sum_list ns) (length content))\<rparr>, st)"
  using rs.read_jobs_content [OF assms(1), of 0] assms(2) by simp

definition sample_content :: "byte list" where
  "sample_content = [1, 2, 3]"

definition content_handler :: "nat handler" where
  "content_handler p n =
     (case p of
        Some (JObject [_, (_, JInt off), (_, JInt len)]) \<Rightarrow>
          (Inr (Some (marshal_ReadResult sample_go
             \<lparr>rr_Data = Some (take (unat len) (drop (unat off) sample_content)), rr_EOF = True\<rparr>)), n + 1)
      | _ \<Rightarrow> (Inl (Plain_err ''bad params''), n))"

lemma sample_serves_content:
  "serves_content sample_go (Register NewServer ''ReadFile'' content_handler) (\<lambda>_. True) 2 ''/f'' sample_content"
  unfolding serves_content_def
proof (intro allI impI)
  fix off len :: nat and st :: nat
  assume "off \<le> length sample_content" "len \<le> 2"
  then have "off < 2 ^ 64" "len < 2 ^ 64"
    by (simp_all add: sample_content_def)
  then have u: "unat (of_nat off :: 64 word) = off" "unat (of_nat len :: 64 word) = len"
    by (simp_all only: unat_of_nat_small)
  show "\<exists>r st'. served (Register NewServer ''ReadFile'' content_handler) ''ReadFile'' (read_params ''/f'' (of_nat off) (of_nat len)) st
      (Inr (Some (marshal_ReadResult sample_go r))) st' \<and> True \<and>
      take len (go_bytes (rr_Data r)) = take len (drop off sample_content) \<and> length (go_bytes (rr_Data r)) < 2 ^ 63"
    by (rule exI [where x = "\<lparr>rr_Data = Some (take len (drop off sample_content)), rr_EOF = True\<rparr>"])
       (simp add: served_def Register_def content_handler_def read_params_def go_bytes_def u, use \<open>len \<le> 2\<close> in \<open>simp add: sample_content_def\<close>)
qed

lemma sample_read_ready:
  "read_ready sample_json sample_go (Register NewServer ''ReadFile'' content_handler) (\<lambda>_. True) 2 ''/f'' sample_content None 3
     (g_vfs_backend_proton_init\<lparr>be_rpc := Some sample_rpc\<rparr>, sample_net True)"
proof -
  have "0 \<le> sint i \<Longrightarrow> sendable sample_json i ''ReadFile'' (read_params ''/f'' off len)" for i off len
    by (simp add: sendable_sample read_params_def)
  moreover have "\<exists>c. connected sample_rpc c (sample_net True)"
    using sample_connected by blast
  moreover have "unat (rpc_next_id sample_rpc) = 1"
    by (simp add: sample_rpc_def)
  ultimately show ?thesis
    by (simp add: read_ready_def sample_access_ok sample_text_ok sample_wire_ok sample_base64_wire_ok
        sample_null_decodes_empty sample_serves_content is_cancelled_def, simp add: sample_content_def)
qed

theorem reads_deliver_content_witness:
  "\<exists>st. read_jobs (read_job sample_json sample_go (Register NewServer ''ReadFile'' content_handler) None)
      \<lparr>ph_path = ''/f'', ph_offset = 0\<rparr> [2, 2, 2]
      (g_vfs_backend_proton_init\<lparr>be_rpc := Some sample_rpc\<rparr>, sample_net True) =
    Some ([1, 2, 3], \<lparr>ph_path = ''/f'', ph_offset = 3\<rparr>, st)"
proof -
  have "read_ready sample_json sample_go (Register NewServer ''ReadFile'' content_handler) (\<lambda>_. True) 2 ''/f'' sample_content None
      (length [2, 2, 2 :: nat]) (g_vfs_backend_proton_init\<lparr>be_rpc := Some sample_rpc\<rparr>, sample_net True)"
    using sample_read_ready by (simp add: numeral_3_eq_3)
  from reads_deliver_content [OF this] show ?thesis
    by (simp add: sample_content_def)
qed

text \<open>
  An enumeration shows every child once, in the helper's order, with the attributes of its
  entry: name, kind, the size of files, modification date, the link id as file id and, where there
  is one, the revision id as etag.
\<close>

theorem enumerate_over_link:
  assumes "be_rpc self = Some rpc" "link_ready J G s rpc c k w ''ListDir'' (path_params path)"
    and "served s ''ListDir'' (path_params path) (net_helper w) (Inr (Some (marshal_ListDirResult entries))) st"
  shows "\<exists>infos. do_enumerate (net_ops G s) J L self path k w =
      Some (Job_succeeded, infos, True, self\<lparr>be_rpc := Some (after_call rpc)\<rparr>, w\<lparr>net_helper := st\<rparr>) \<and>
    list_all2 (\<lambda>info e.
        fi_name info = Some (en_Name e) \<and> fi_display_name info = Some (en_Name e) \<and>
        fi_file_type info = Some (if en_IsDir e then G_FILE_TYPE_DIRECTORY else G_FILE_TYPE_REGULAR) \<and>
        fi_size info = (if en_IsDir e then None else Some (en_Size e)) \<and>
        fi_modified info = g_date_time_new_from_unix_utc L (en_MTime e) \<and>
        fi_id_file info = Some (en_LinkID e) \<and>
        fi_etag_value info = (if en_RevisionID e = [] then None else Some (en_RevisionID e)))
      infos entries"
proof -
  let ?infos = "map (\<lambda>e. fill_file_info L g_file_info_new (entry_received e)) entries"
  have "do_enumerate (net_ops G s) J L self path k w =
      Some (Job_succeeded, ?infos, True, self\<lparr>be_rpc := Some (after_call rpc)\<rparr>, w\<lparr>net_helper := st\<rparr>)"
    by (simp add: do_enumerate_def with_rpc_def assms(1) list_dir_served [OF assms(2,3)] comp_def)
  then show ?thesis
    using fill_new_info [OF refl] by (auto simp: list_all2_conv_all_nth)
qed

theorem enumerate_over_link_witness:
  "\<exists>i1 i2 self' w'. do_enumerate
      (net_ops sample_go (only ''ListDir'' (Inr (Some (marshal_ListDirResult sample_entries))))) sample_json
      \<lparr>g_content_type_guess = (\<lambda>_. None), g_content_type_get_icon = (\<lambda>_. None),
       g_content_type_get_symbolic_icon = (\<lambda>_. None), g_date_time_new_from_unix_utc = Some\<rparr>
      (g_vfs_backend_proton_init\<lparr>be_rpc := Some sample_rpc\<rparr>) ''/'' None (sample_net True) =
    Some (Job_succeeded, [i1, i2], True, self', w') \<and> fi_name i1 = Some ''a'' \<and> fi_size i2 = Some 9"
proof -
  have "be_rpc (g_vfs_backend_proton_init\<lparr>be_rpc := Some sample_rpc\<rparr>) = Some sample_rpc"
    by simp
  from enumerate_over_link [OF this sample_list_ready only_served, of sample_entries] show ?thesis
    by (fastforce simp: sample_entries_def list_all2_Cons2)
qed

text \<open>
  A query reports the entry, and a thumbnail only where there is one: for a file with a
  revision whose thumbnail the caller asks for, the job makes a second exchange; the info then has
  the two thumbnail attributes exactly if the helper answered with a nonempty path, and the job
  succeeds even if the helper refused. Nothing else of the info depends on it.
\<close>

theorem query_info_with_thumbnail:
  assumes "be_rpc self = Some rpc" "link_ready J G s rpc c k w ''Stat'' (path_params path)"
    and "served s ''Stat'' (path_params path) (net_helper w) (Inr (Some (marshal_Entry e))) st"
    and "\<not> en_IsDir e" "en_RevisionID e \<noteq> []" "matcher ''thumbnail::path''"
    and "link_ready J G s (after_call rpc) c k (w\<lparr>net_helper := st\<rparr>) ''FetchThumbnail''
           (thumb_params (en_LinkID e) (en_RevisionID e))"
    and "served s ''FetchThumbnail'' (thumb_params (en_LinkID e) (en_RevisionID e)) st
           (case thumb of Inl err \<Rightarrow> Inl err | Inr p \<Rightarrow> Inr (Some (marshal_FetchThumbnailResult p))) st'"
  shows "do_query_info (net_ops G s) J L self path info matcher k w =
    Some (Job_succeeded,
          (case thumb of
             Inl err \<Rightarrow> fill_file_info L info (entry_received e)
           | Inr p \<Rightarrow> (if p = [] then fill_file_info L info (entry_received e)
                      else (fill_file_info L info (entry_received e))
                             \<lparr>fi_thumbnail_path := Some p, fi_thumbnail_is_valid := Some True\<rparr>)),
          self\<lparr>be_rpc := Some (after_call (after_call rpc))\<rparr>, w\<lparr>net_helper := st'\<rparr>)"
proof -
  let ?w = "w\<lparr>net_helper := st\<rparr>"
  have e: "pe_link_id (entry_received e) = Some (en_LinkID e)"
    "pe_revision_id (entry_received e) = Some (en_RevisionID e)" "\<not> pe_is_dir (entry_received e)"
    using assms(4,5) by (simp_all add: entry_received_def)
  show ?thesis
  proof (cases thumb)
    case (Inl err)
    with assms(8) have "served s ''FetchThumbnail'' (thumb_params (en_LinkID e) (en_RevisionID e)) (net_helper ?w) (Inl err) st'"
      by simp
    from thumbnail_refused [OF assms(7) this] show ?thesis
      by (auto simp: do_query_info_def with_rpc_def assms(1,6) stat_served [OF assms(2,3)] e Inl)
  next
    case (Inr p)
    with assms(8) have "served s ''FetchThumbnail'' (thumb_params (en_LinkID e) (en_RevisionID e)) (net_helper ?w)
        (Inr (Some (marshal_FetchThumbnailResult p))) st'"
      by simp
    from thumbnail_served [OF assms(7) this] show ?thesis
      by (simp add: do_query_info_def with_rpc_def assms(1,6) stat_served [OF assms(2,3)] e Inr)
  qed
qed

definition file_b :: entry where
  "file_b = \<lparr>en_Name = ''b'', en_IsDir = False, en_Size = 9, en_MTime = 8, en_LinkID = ''2'',
             en_RevisionID = ''r'', en_HasThumbnail = True\<rparr>"

definition thumb_handlers :: "nat handlers" where
  "thumb_handlers = Register (only ''Stat'' (Inr (Some (marshal_Entry file_b)))) ''FetchThumbnail''
     (answering (Inr (Some (marshal_FetchThumbnailResult ''/t.png''))))"

definition plain_gio :: gio_lib where
  "plain_gio = \<lparr>g_content_type_guess = (\<lambda>_. None), g_content_type_get_icon = (\<lambda>_. None),
                g_content_type_get_symbolic_icon = (\<lambda>_. None), g_date_time_new_from_unix_utc = Some\<rparr>"

lemma sample_stat_ready:
  "link_ready sample_json sample_go s sample_rpc 5 None (sample_net True) ''Stat'' (path_params ''/b'')"
  by (rule sample_link_ready) (simp add: sendable_sample)

theorem query_info_with_thumbnail_witness:
  "\<exists>info' self' w'. do_query_info (net_ops sample_go thumb_handlers) sample_json plain_gio
      (g_vfs_backend_proton_init\<lparr>be_rpc := Some sample_rpc\<rparr>) ''/b'' g_file_info_new (\<lambda>_. True) None (sample_net True) =
    Some (Job_succeeded, info', self', w') \<and> fi_thumbnail_path info' = Some ''/t.png''"
proof -
  have b: "be_rpc (g_vfs_backend_proton_init\<lparr>be_rpc := Some sample_rpc\<rparr>) = Some sample_rpc"
    by simp
  have s: "served thumb_handlers ''Stat'' (path_params ''/b'') (net_helper (sample_net True))
      (Inr (Some (marshal_Entry file_b))) 1"
    by (simp add: served_def thumb_handlers_def only_def Register_def answering_def sample_net_def)
  have f: "\<not> en_IsDir file_b" "en_RevisionID file_b \<noteq> []"
    by (simp_all add: file_b_def)
  have "connected (after_call sample_rpc) 5 ((sample_net True)\<lparr>net_helper := 1\<rparr>)"
    by (simp add: after_call_connected sample_connected)
  moreover have "rpc_next_id (after_call sample_rpc) = 2"
    by (simp add: after_call_def sample_rpc_def)
  moreover have "sendable sample_json 2 ''FetchThumbnail'' (thumb_params (en_LinkID file_b) (en_RevisionID file_b))"
    by (simp add: sendable_sample file_b_def)
  ultimately have l: "link_ready sample_json sample_go thumb_handlers (after_call sample_rpc) 5 None
      ((sample_net True)\<lparr>net_helper := 1\<rparr>) ''FetchThumbnail'' (thumb_params (en_LinkID file_b) (en_RevisionID file_b))"
    by (simp add: link_ready_def sample_access_ok sample_text_ok sample_wire_ok is_cancelled_def)
  have t: "served thumb_handlers ''FetchThumbnail'' (thumb_params (en_LinkID file_b) (en_RevisionID file_b)) 1
      (case Inr ''/t.png'' of Inl err \<Rightarrow> Inl err | Inr p \<Rightarrow> Inr (Some (marshal_FetchThumbnailResult p))) 2"
    by (simp add: served_def thumb_handlers_def only_def Register_def answering_def)
  from query_info_with_thumbnail [OF b sample_stat_ready s f _ l t] show ?thesis
    by simp
qed

text \<open>
  Only files can be opened: an open job asks the helper first, hands out a handle for the
  path with offset 0 exactly if the helper's entry is a file, and fails with IS_DIRECTORY, without
  a handle, if it is a folder.
\<close>

theorem open_only_files:
  assumes "be_rpc self = Some rpc" "link_ready J G s rpc c k w ''Stat'' (path_params path)"
    and "served s ''Stat'' (path_params path) (net_helper w) (Inr (Some (marshal_Entry e))) st"
  shows "\<exists>job handle self' w'. do_open_for_read (net_ops G s) J self path k w = Some (job, handle, self', w') \<and>
    (if en_IsDir e
     then handle = None \<and> (\<exists>msg. job = Job_failed (Some (Io_error G_IO_ERROR_IS_DIRECTORY msg)))
     else job = Job_succeeded \<and> handle = Some \<lparr>ph_path = path, ph_offset = 0\<rparr>)"
  by (simp add: do_open_for_read_def with_rpc_def assms(1) stat_served [OF assms(2,3)] entry_received_def
      job_failed_def)

theorem open_only_files_witness:
  "\<exists>self' w'. do_open_for_read (net_ops sample_go (only ''Stat'' (Inr (Some (marshal_Entry file_b))))) sample_json
      (g_vfs_backend_proton_init\<lparr>be_rpc := Some sample_rpc\<rparr>) ''/b'' None (sample_net True) =
    Some (Job_succeeded, Some \<lparr>ph_path = ''/b'', ph_offset = 0\<rparr>, self', w')"
proof -
  have "be_rpc (g_vfs_backend_proton_init\<lparr>be_rpc := Some sample_rpc\<rparr>) = Some sample_rpc"
    by simp
  from open_only_files [OF this sample_stat_ready only_served, of file_b] show ?thesis
    by (simp add: file_b_def)
qed

text \<open>
  When the helper goes away between a request and its reply, the end of the stream is no
  error for GIO, so the client's functions return NULL with the error unset, and every kind of job
  is failed \<^emph>\<open>from\<close> a NULL error (which is then freed); no job crashes, hangs or succeeds.
\<close>

theorem end_of_stream_fails_job_without_error:
  assumes "be_rpc self = Some rpc" "\<not> rpc_lock rpc" "rpc_conn rpc = Some c" "rpc_writer rpc = c" "rpc_reader rpc = Some c"
    and "\<And>b w. \<exists>w'. g_output_stream_write_all S c b w = (Ok (), w')"
    and "\<And>w. \<exists>w'. g_data_input_stream_read_line S c k w = Some (Fail None, w')"
  shows "(\<exists>self' w'. do_query_info S J L self f info matcher k w = Some (Job_failed None, info, self', w')) \<and>
    (\<exists>self' w'. do_enumerate S J L self f k w = Some (Job_failed None, [], False, self', w')) \<and>
    (\<exists>self' w'. do_open_for_read S J self f k w = Some (Job_failed None, None, self', w')) \<and>
    (\<exists>self' w'. do_read S J self h buf len k w = Some (Job_failed None, None, h, buf, self', w')) \<and>
    (\<exists>self' w'. do_make_directory S J self f k w = Some (Job_failed None, self', w'))"
proof -
  have "\<exists>rpc' w'. call S J rpc m p k w = Some (Fail None, rpc', w')" for m p w
  proof -
    obtain w1 w2 w3 where
      "g_output_stream_write_all S c (json_generator_to_data J (build_request (rpc_next_id rpc) m p)) w = (Ok (), w1)"
      "g_output_stream_write_all S c [CHR 0x0A] w1 = (Ok (), w2)"
      "g_data_input_stream_read_line S c k w2 = Some (Fail None, w3)"
      using assms(6,7) by meson
    then show ?thesis
      using assms(2-5) by (simp add: call_def g_mutex_lock_def Let_def send_request_def writer_stream_def recv_response_def)
  qed
  from job_of_failed_call [OF assms(1) this] show ?thesis
    by blast
qed

definition eof_ops :: "unit socket_ops" where
  "eof_ops = \<lparr>g_socket_client_connect = (\<lambda>p w. (Fail None, w)), g_output_stream_write_all = (\<lambda>c b w. (Ok (), w)),
              g_data_input_stream_read_line = (\<lambda>c k w. Some (Fail None, w)), g_io_stream_unref = (\<lambda>c w. w)\<rparr>"

theorem end_of_stream_fails_job_without_error_witness:
  "\<exists>self' w'. do_make_directory eof_ops sample_json (g_vfs_backend_proton_init\<lparr>be_rpc := Some sample_rpc\<rparr>) ''/d'' None () =
     Some (Job_failed None, self', w')"
proof -
  have "be_rpc (g_vfs_backend_proton_init\<lparr>be_rpc := Some sample_rpc\<rparr>) = Some sample_rpc" "\<not> rpc_lock sample_rpc"
    "rpc_conn sample_rpc = Some 5" "rpc_writer sample_rpc = 5" "rpc_reader sample_rpc = Some 5"
    "\<And>b w. \<exists>w'. g_output_stream_write_all eof_ops 5 b w = (Ok (), w')"
    "\<And>w. \<exists>w'. g_data_input_stream_read_line eof_ops 5 None w = Some (Fail None, w')"
    by (simp_all add: sample_rpc_def eof_ops_def)
  from end_of_stream_fails_job_without_error [OF this] show ?thesis
    by blast
qed

end
