(* ===== verification/Mount.thy ===== *)
theory Mount
  imports Backend_Ops
begin

text \<open>
  The mount job of \<open>src/backend/gvfsbackendproton.c\<close>: connecting to the helper or starting it,
  reading the stored credentials, resuming the session, storing the rotated tokens and announcing
  the mount. The operating system is the parameter \<open>Y\<close>, the state of everything outside the
  process is \<open>'w\<close>; each visible step of a mount is recorded in the order it is taken.
\<close>

section \<open>The operating system\<close>

text \<open>
  \<open>g_spawn_sync\<close> yields the error, if any, and the standard output (\<open>None\<close>: the pointer was left
  NULL); the exit status, which the code does not look at, is not part of it.
\<close>

record 'w system =
  getuid :: "'w \<Rightarrow> nat"
  g_file_test_exists :: "string \<Rightarrow> 'w \<Rightarrow> bool"
  g_file_test_is_executable :: "string \<Rightarrow> 'w \<Rightarrow> bool"
  g_find_program_in_path :: "string \<Rightarrow> 'w \<Rightarrow> string option"
  g_usleep :: "nat \<Rightarrow> 'w \<Rightarrow> 'w"
  os_unlink :: "string \<Rightarrow> 'w \<Rightarrow> 'w"
  g_spawn_async :: "string list \<Rightarrow> 'w \<Rightarrow> gerror option \<times> 'w"
  g_spawn_sync :: "string list \<Rightarrow> 'w \<Rightarrow> gerror option \<times> string option \<times> 'w"
  g_subprocess_newv :: "string list \<Rightarrow> 'w \<Rightarrow> nat ret \<times> 'w"
  g_subprocess_communicate_utf8 :: "nat \<Rightarrow> string \<Rightarrow> 'w \<Rightarrow> gerror option \<times> 'w"
  g_timeout_add_seconds :: "nat \<Rightarrow> 'w \<Rightarrow> guint \<times> 'w"

section \<open>Helpers\<close>

text \<open>A failure is only logged, through \<open>err->message\<close>.\<close>

definition secret_tool_store ::
  "'w system \<Rightarrow> string \<Rightarrow> string \<Rightarrow> string \<Rightarrow> 'w \<Rightarrow> 'w option" where
  "secret_tool_store Y username field secret w =
     (let label = ''Proton Drive '' @ field @ '' ('' @ username @ '')'';
          argv = [''secret-tool'', ''store'', ''--label'', label,
                  ''schema'', ''org.gnome.proton.drive'',
                  ''username'', username,
                  ''field'', field]
      in case g_subprocess_newv Y argv w of
           (Fail None, w) \<Rightarrow> stuck
         | (Fail (Some err), w) \<Rightarrow> Some w
         | (Ok proc, w) \<Rightarrow> Some (snd (g_subprocess_communicate_utf8 Y proc secret w)))"

text \<open>\<open>libexecdir\<close> is the build's \<open>PROTON_LIBEXECDIR\<close>, a directory without a trailing slash.\<close>

definition find_helper_binary :: "'w system \<Rightarrow> string \<Rightarrow> 'w \<Rightarrow> string option" where
  "find_helper_binary Y libexecdir w =
     (let candidate = libexecdir @ ''/proton-drive-helper'' in
      if g_file_test_is_executable Y candidate w then Some candidate
      else g_find_program_in_path Y ''proton-drive-helper'' w)"

text \<open>The counter is a 32-bit \<open>guint\<close>; a timeout near its end would never be reached.\<close>

partial_function (option) wait_loop ::
  "'w system \<Rightarrow> string \<Rightarrow> guint \<Rightarrow> guint \<Rightarrow> 'w \<Rightarrow> (bool \<times> 'w) option" where
  "wait_loop Y path timeout_ms elapsed w =
     (if elapsed < timeout_ms then
        (if g_file_test_exists Y path w then Some (True, w)
         else wait_loop Y path timeout_ms (elapsed + 50) (g_usleep Y 50000 w))
      else Some (False, w))"

definition wait_for_socket :: "'w system \<Rightarrow> string \<Rightarrow> guint \<Rightarrow> 'w \<Rightarrow> (bool \<times> 'w) option" where
  "wait_for_socket Y path timeout_ms w = wait_loop Y path timeout_ms 0 w"

text \<open>Trailing whitespace, in the sense of \<open>g_ascii_isspace\<close>.\<close>

definition g_ascii_isspace :: "char \<Rightarrow> bool" where
  "g_ascii_isspace c \<longleftrightarrow> c \<in> {CHR 0x20, CHR 0x0C, CHR 0x0A, CHR 0x0D, CHR 0x09}"

definition g_strchomp :: "string \<Rightarrow> string" where
  "g_strchomp s = rev (dropWhile g_ascii_isspace (rev s))"

section \<open>The mount job\<close>

datatype mount_action =
    Unlinked string
  | Spawned "string list"
  | Stored string string
  | Described string string
  | Job_done job_result
  | Timer_started guint

text \<open>
  The block after a failed first connection: \<open>Inl\<close> of the job's result where the job ends here,
  \<open>Inr\<close> of the outcome of the second attempt to connect.
\<close>

definition start_helper ::
  "'w socket_ops \<Rightarrow> 'w system \<Rightarrow> string \<Rightarrow> string \<Rightarrow> 'w
   \<Rightarrow> (mount_action list \<times> (job_result + proton_rpc ret) \<times> 'w) option" where
  "start_helper S Y libexecdir socket_path w =
     (case find_helper_binary Y libexecdir w of
        None \<Rightarrow>
          Some ([], Inl (job_failed G_IO_ERROR_NOT_FOUND
                           ''proton-drive-helper not found in libexecdir or PATH''), w)
      | Some helper \<Rightarrow>
          (let w = os_unlink Y socket_path w;
               spawn_argv = [helper, ''--socket'', socket_path];
               log = [Unlinked socket_path, Spawned spawn_argv]
           in case g_spawn_async Y spawn_argv w of
                (Some spawn_error, w) \<Rightarrow> Some (log, Inl (Job_failed (Some spawn_error)), w)
              | (None, w) \<Rightarrow> do {
                  (appeared, w) \<leftarrow> wait_for_socket Y socket_path 5000 w;
                  if \<not> appeared
                  then Some (log, Inl (job_failed G_IO_ERROR_TIMED_OUT
                              ''timed out waiting for proton-drive-helper to start''), w)
                  else (case proton_rpc_new S socket_path w of (rpc, w) \<Rightarrow> Some (log, Inr rpc, w))
                }))"

text \<open>The macro \<open>LOOKUP_FIELD\<close>; \<open>g_strchomp\<close> returns NULL for NULL.\<close>

definition lookup_field ::
  "'w system \<Rightarrow> string \<Rightarrow> string \<Rightarrow> 'w \<Rightarrow> (gerror + string option) \<times> 'w" where
  "lookup_field Y account field w =
     (let argv = [''secret-tool'', ''lookup'',
                  ''schema'', ''org.gnome.proton.drive'',
                  ''username'', account,
                  ''field'', field]
      in case g_spawn_sync Y argv w of
           (Some error, out, w) \<Rightarrow> (Inl error, w)
         | (None, out, w) \<Rightarrow> (Inr (map_option g_strchomp out), w))"

definition lookup_credentials ::
  "'w system \<Rightarrow> string \<Rightarrow> 'w \<Rightarrow> (gerror + string option \<times> string option \<times> string option) \<times> 'w" where
  "lookup_credentials Y account w =
     (case lookup_field Y account ''uid'' w of
        (Inl error, w) \<Rightarrow> (Inl error, w)
      | (Inr uid, w) \<Rightarrow>
          (case lookup_field Y account ''refresh_token'' w of
             (Inl error, w) \<Rightarrow> (Inl error, w)
           | (Inr refresh_token, w) \<Rightarrow>
               (case lookup_field Y account ''salted_passphrase'' w of
                  (Inl error, w) \<Rightarrow> (Inl error, w)
                | (Inr salted, w) \<Rightarrow> (Inr (uid, refresh_token, salted), w))))"

text \<open>The rotated tokens: the uid is stored only together with a new refresh token.\<close>

definition store_tokens ::
  "'w system \<Rightarrow> string \<Rightarrow> string option \<Rightarrow> string option \<Rightarrow> 'w \<Rightarrow> (mount_action list \<times> 'w) option" where
  "store_tokens Y account new_uid new_refresh_token w =
     (case new_refresh_token of
        None \<Rightarrow> Some ([], w)
      | Some t \<Rightarrow> do {
          (log, w) \<leftarrow> (case new_uid of
                         None \<Rightarrow> Some ([], w)
                       | Some u \<Rightarrow> do { w \<leftarrow> secret_tool_store Y account ''uid'' u w;
                                       Some ([Stored ''uid'' u], w) });
          w \<leftarrow> secret_tool_store Y account ''refresh_token'' t w;
          Some (log @ [Stored ''refresh_token'' t], w)
        })"

text \<open>
  From the live connection on: credentials, session, tokens. \<open>Stored\<close> says that \<open>secret-tool store\<close>
  was run; the code ignores how it ended.
\<close>

definition em_dash :: string where
  "em_dash = [CHR 0xE2, CHR 0x80, CHR 0x94]"

definition resume_stored ::
  "'w socket_ops \<Rightarrow> json_lib \<Rightarrow> 'w system \<Rightarrow> string \<Rightarrow> proton_rpc \<Rightarrow> 'w
   \<Rightarrow> (mount_action list \<times> job_result \<times> proton_rpc \<times> 'w) option" where
  "resume_stored S J Y account rpc w =
     (case lookup_credentials Y account w of
        (Inl error, w) \<Rightarrow> Some ([], Job_failed (Some error), rpc, w)
      | (Inr (Some uid, Some refresh_token, Some salted_pass_b64), w) \<Rightarrow> do {
          let sp = g_base64_decode J (Some salted_pass_b64);
          (res, rpc, w) \<leftarrow> proton_rpc_resume_session S J rpc uid refresh_token sp w;
          case res of
            Fail error \<Rightarrow> Some ([], Job_failed error, rpc, w)
          | Ok (new_uid, new_refresh_token) \<Rightarrow> do {
              (log, w) \<leftarrow> store_tokens Y account new_uid new_refresh_token w;
              Some (log, Job_succeeded, rpc, w)
            }
        }
      | (Inr _, w) \<Rightarrow>
          Some ([], job_failed G_IO_ERROR_NOT_INITIALIZED
                      (''no stored credentials '' @ em_dash @ '' run the Proton Drive setup wizard first''), rpc, w))"

definition socket_path_of :: "nat \<Rightarrow> string \<Rightarrow> string" where
  "socket_path_of uid account = ''/run/user/'' @ decimal uid @ ''/proton-drive-'' @ account @ ''.sock''"

text \<open>
  \<open>account\<close> is the mount spec's item \<open>host\<close>, NULL where it has none. The result: the actions, the
  backend object, GLib's part of the heap (with the new timeout source) and the world.
\<close>

definition do_mount ::
  "'w socket_ops \<Rightarrow> json_lib \<Rightarrow> 'w system \<Rightarrow> string \<Rightarrow> backend \<Rightarrow> string option \<Rightarrow> gheap \<Rightarrow> 'w
   \<Rightarrow> (mount_action list \<times> backend \<times> gheap \<times> 'w) option" where
  "do_mount S J Y libexecdir self account h w =
     (if account = None \<or> account = Some []
      then Some ([Job_done (job_failed G_IO_ERROR_INVALID_ARGUMENT
              ''URI must contain the account email as host, e.g. proton://you%40example.com/'')], self, h, w)
      else do {
        let account = the account;
        let socket_path = socket_path_of (getuid Y w) account;
        let (first, w) = proton_rpc_new S socket_path w;
        (log1, second, w) \<leftarrow> (case first of
             Ok rpc \<Rightarrow> Some ([], Inr first, w)
           | Fail _ \<Rightarrow> start_helper S Y libexecdir socket_path w);
        case second of
          Inl result \<Rightarrow> Some (log1 @ [Job_done result], self\<lparr>be_rpc := None\<rparr>, h, w)
        | Inr (Fail error) \<Rightarrow> Some (log1 @ [Job_done (Job_failed error)], self\<lparr>be_rpc := None\<rparr>, h, w)
        | Inr (Ok rpc) \<Rightarrow> do {
            (log2, result, rpc, w) \<leftarrow> resume_stored S J Y account rpc w;
            let self = self\<lparr>be_rpc := Some rpc\<rparr>;
            case result of
              Job_failed error \<Rightarrow> Some (log1 @ log2 @ [Job_done result], self, h, w)
            | Job_succeeded \<Rightarrow>
                (case g_timeout_add_seconds Y 5 w of
                   (poll_id, w) \<Rightarrow>
                     Some (log1 @ log2 @
                             [Described account (''Proton Drive ('' @ account @ '')''), Job_done Job_succeeded,
                              Timer_started poll_id],
                           self\<lparr>be_poll_id := poll_id\<rparr>, h\<lparr>gh_sources := poll_id # gh_sources h\<rparr>, w))
          }
      })"

section \<open>Waiting for the socket\<close>

text \<open>The reference: at most \<open>n\<close> polls, each followed by a pause.\<close>

fun polls :: "'w system \<Rightarrow> string \<Rightarrow> nat \<Rightarrow> 'w \<Rightarrow> bool \<times> 'w" where
  "polls Y path 0 w = (False, w)"
| "polls Y path (Suc n) w =
     (if g_file_test_exists Y path w then (True, w) else polls Y path n (g_usleep Y 50000 w))"

lemma wait_loop_polls:
  assumes "t + 50 < 2 ^ 32" "e < t + 50" "n = (t - e + 49) div 50"
  shows "wait_loop Y path (of_nat t) (of_nat e) w = Some (polls Y path n w)"
  using assms(2,3)
proof (induction n arbitrary: e w)
  case 0
  then have "t \<le> e"
    by linarith
  moreover have "(of_nat e :: guint) < of_nat t \<longleftrightarrow> e < t"
    using assms(1) 0(1) by (simp add: word_less_nat_alt unat_of_nat)
  ultimately show ?case
    by (subst wait_loop.simps) simp
next
  case (Suc n)
  from Suc.prems have e: "e < t" "n = (t - (e + 50) + 49) div 50"
    by linarith+
  moreover have "(of_nat e :: guint) < of_nat t \<longleftrightarrow> e < t"
    using assms(1) Suc.prems(1) by (simp add: word_less_nat_alt unat_of_nat)
  moreover have "wait_loop Y path (of_nat t) (of_nat (e + 50)) w' = Some (polls Y path n w')" for w'
    using e by (intro Suc.IH) simp_all
  ultimately show ?case
    by (subst wait_loop.simps) (simp add: add.commute)
qed

lemma polls_cases:
  "(\<exists>k<n. (\<forall>j<k. \<not> g_file_test_exists Y path ((g_usleep Y 50000 ^^ j) w)) \<and>
           g_file_test_exists Y path ((g_usleep Y 50000 ^^ k) w) \<and>
           polls Y path n w = (True, (g_usleep Y 50000 ^^ k) w)) \<or>
   (\<forall>j<n. \<not> g_file_test_exists Y path ((g_usleep Y 50000 ^^ j) w)) \<and>
     polls Y path n w = (False, (g_usleep Y 50000 ^^ n) w)"
proof (induction n arbitrary: w)
  case (Suc n)
  let ?s = "g_usleep Y 50000"
  have shift: "(?s ^^ j) (?s w) = (?s ^^ Suc j) w" for j
    by (simp add: funpow_swap1)
  show ?case
  proof (cases "g_file_test_exists Y path w")
    case True
    then show ?thesis
      by (intro disjI1 exI [where x = 0]) simp
  next
    case False
    from Suc.IH [of "?s w"] show ?thesis
    proof (elim disjE exE conjE)
      fix k
      assume k: "k < n" "\<forall>j<k. \<not> g_file_test_exists Y path ((?s ^^ j) (?s w))"
        "g_file_test_exists Y path ((?s ^^ k) (?s w))" "polls Y path n (?s w) = (True, (?s ^^ k) (?s w))"
      then have "\<forall>j<Suc k. \<not> g_file_test_exists Y path ((?s ^^ j) w)"
        using False by (auto simp: less_Suc_eq_0_disj shift simp del: funpow.simps)
      with k False show ?thesis
        by (intro disjI1 exI [where x = "Suc k"]) (simp add: shift del: funpow.simps)
    next
      assume n: "\<forall>j<n. \<not> g_file_test_exists Y path ((?s ^^ j) (?s w))"
        "polls Y path n (?s w) = (False, (?s ^^ n) (?s w))"
      then have "\<forall>j<Suc n. \<not> g_file_test_exists Y path ((?s ^^ j) w)"
        using False by (auto simp: less_Suc_eq_0_disj shift simp del: funpow.simps)
      with n False show ?thesis
        by (intro disjI2) (simp add: shift del: funpow.simps)
    qed
  qed
qed simp

section \<open>What a mount does\<close>

lemma start_helper_log:
  assumes "start_helper S Y libexecdir path w = Some (log, r, w')"
  shows "log = [] \<or> (\<exists>helper. log = [Unlinked path, Spawned [helper, ''--socket'', path]])"
    and "r = Inl result \<Longrightarrow> \<exists>e. result = Job_failed e"
proof -
  have "(log = [] \<or> (\<exists>helper. log = [Unlinked path, Spawned [helper, ''--socket'', path]])) \<and>
      (\<forall>result. r = Inl result \<longrightarrow> (\<exists>e. result = Job_failed e))"
  proof (cases "find_helper_binary Y libexecdir w")
    case None
    with assms show ?thesis
      by (auto simp: start_helper_def job_failed_def)
  next
    case (Some helper)
    let ?argv = "[helper, ''--socket'', path]"
    obtain e w1 where sp: "g_spawn_async Y ?argv (os_unlink Y path w) = (e, w1)"
      by (cases "g_spawn_async Y ?argv (os_unlink Y path w)")
    show ?thesis
    proof (cases e)
      case None
      with assms Some sp obtain ok w2 where "wait_for_socket Y path 5000 w1 = Some (ok, w2)"
        by (auto simp: start_helper_def Let_def bind_eq_Some_conv)
      with None assms Some sp show ?thesis
        by (cases ok) (auto simp: start_helper_def Let_def job_failed_def split_beta)
    qed (use assms Some sp in \<open>auto simp: start_helper_def Let_def\<close>)
  qed
  then show "log = [] \<or> (\<exists>helper. log = [Unlinked path, Spawned [helper, ''--socket'', path]])"
    and "r = Inl result \<Longrightarrow> \<exists>e. result = Job_failed e"
    by blast+
qed

lemma store_tokens_log:
  "store_tokens Y account u t w = Some (log, w') \<Longrightarrow>
     log = (case t of None \<Rightarrow> []
            | Some t \<Rightarrow> (case u of None \<Rightarrow> [] | Some u \<Rightarrow> [Stored ''uid'' u]) @ [Stored ''refresh_token'' t])"
  by (auto simp: store_tokens_def bind_eq_Some_conv split: option.splits)

lemma resume_stored_log:
  assumes "resume_stored S J Y account rpc w = Some (log, r, rpc', w')"
  shows "set log \<subseteq> {a. \<exists>f s. a = Stored f s}" "r \<noteq> Job_succeeded \<Longrightarrow> log = []"
proof -
  obtain c w1 where c: "lookup_credentials Y account w = (c, w1)"
    by (cases "lookup_credentials Y account w")
  have "set log \<subseteq> {a. \<exists>f s. a = Stored f s} \<and> (r \<noteq> Job_succeeded \<longrightarrow> log = [])"
  proof (cases "\<exists>u t p. c = Inr (Some u, Some t, Some p)")
    case True
    then obtain u t p where utp: "c = Inr (Some u, Some t, Some p)"
      by blast
    with assms c obtain res rpc2 w2 where
      res: "proton_rpc_resume_session S J rpc u t (g_base64_decode J (Some p)) w1 = Some (res, rpc2, w2)"
      by (auto simp: resume_stored_def bind_eq_Some_conv)
    show ?thesis
    proof (cases res)
      case (Ok ab)
      with assms c utp res have "store_tokens Y account (fst ab) (snd ab) w2 = Some (log, w')" "r = Job_succeeded"
        by (auto simp: resume_stored_def bind_eq_Some_conv split_beta)
      then show ?thesis
        by (auto dest!: store_tokens_log split: option.splits)
    qed (use assms c utp res in \<open>auto simp: resume_stored_def\<close>)
  next
    case False
    with assms c have "log = []"
      by (auto simp: resume_stored_def split: sum.splits option.splits)
    then show ?thesis
      by simp
  qed
  then show "set log \<subseteq> {a. \<exists>f s. a = Stored f s}" "r \<noteq> Job_succeeded \<Longrightarrow> log = []"
    by blast+
qed

text \<open>The actions that prepare a mount: no outcome is reported, no timer started.\<close>

fun preparation :: "mount_action \<Rightarrow> bool" where
  "preparation (Unlinked _) = True"
| "preparation (Spawned _) = True"
| "preparation (Stored _ _) = True"
| "preparation _ = False"

lemma do_mount_cases [consumes 1, case_names refused unconnected failed mounted]:
  assumes "do_mount S J Y libexecdir self account h w = Some (log, self', h', w')"
  obtains
    (refused) e where "log = [Job_done (Job_failed e)]" "self' = self" "h' = h" "w' = w"
  | (unconnected) log1 e where "log = log1 @ [Job_done (Job_failed e)]"
      "\<forall>a\<in>set log1. preparation a" "self' = self\<lparr>be_rpc := None\<rparr>" "h' = h"
  | (failed) log1 e rpc where "log = log1 @ [Job_done (Job_failed e)]"
      "\<forall>a\<in>set log1. preparation a" "self' = self\<lparr>be_rpc := Some rpc\<rparr>" "h' = h"
  | (mounted) log1 rpc name display i where
      "log = log1 @ [Described name display, Job_done Job_succeeded, Timer_started i]"
      "\<forall>a\<in>set log1. preparation a" "self' = self\<lparr>be_rpc := Some rpc, be_poll_id := i\<rparr>"
      "h' = h\<lparr>gh_sources := i # gh_sources h\<rparr>" "\<exists>w. i = fst (g_timeout_add_seconds Y 5 w)"
proof (cases "account = None \<or> account = Some []")
  case True
  with assms refused show thesis
    by (auto simp: do_mount_def job_failed_def)
next
  case False
  then obtain acc where acc: "account = Some acc" "acc \<noteq> []"
    by auto
  let ?path = "socket_path_of (getuid Y w) acc"
  obtain first w1 where first: "proton_rpc_new S ?path w = (first, w1)"
    by (cases "proton_rpc_new S ?path w")
  from assms acc first obtain log1 second w2 where
    s: "(case first of Ok rpc \<Rightarrow> Some ([], Inr first, w1)
         | Fail _ \<Rightarrow> start_helper S Y libexecdir ?path w1) = Some (log1, second, w2)"
    by (auto simp: do_mount_def Let_def bind_eq_Some_conv)
  have prep1: "\<forall>a\<in>set log1. preparation a"
    using s start_helper_log(1) [of S Y libexecdir ?path w1 log1 second w2] by (cases first) auto
  have inl: "\<exists>e. result = Job_failed e" if "second = Inl result" for result
    using s start_helper_log(2) that by (cases first) auto
  consider e where "second = Inl (Job_failed e)" | e where "second = Inr (Fail e)"
    | rpc where "second = Inr (Ok rpc)"
    using inl by (metis ret.exhaust sumE)
  then show thesis
  proof cases
    case (1 e)
    with assms acc first s prep1 unconnected [of log1 e] show thesis
      by (simp add: do_mount_def Let_def)
  next
    case (2 e)
    with assms acc first s prep1 unconnected [of log1 e] show thesis
      by (simp add: do_mount_def Let_def)
  next
    case rpc: (3 rpc)
    with assms acc first s obtain log2 r rpc' w3 where
      r: "resume_stored S J Y acc rpc w2 = Some (log2, r, rpc', w3)"
      by (auto simp: do_mount_def Let_def bind_eq_Some_conv)
    have prep: "\<forall>a\<in>set (log1 @ log2). preparation a"
      using prep1 resume_stored_log(1) [OF r] by auto
    show thesis
    proof (cases r)
      case (Job_failed e)
      with assms acc first s rpc r failed [of "log1 @ log2" e rpc'] prep show thesis
        by (simp add: do_mount_def Let_def)
    next
      case Job_succeeded
      obtain i w4 where "g_timeout_add_seconds Y 5 w3 = (i, w4)"
        by (cases "g_timeout_add_seconds Y 5 w3")
      moreover from this have "\<exists>w. i = fst (g_timeout_add_seconds Y 5 w)"
        by (metis fst_conv)
      ultimately show thesis
        using Job_succeeded assms acc first s rpc r mounted [of "log1 @ log2" acc "''Proton Drive ('' @ acc @ '')''" i rpc'] prep
        by (simp add: do_mount_def Let_def)
    qed
  qed
qed

section \<open>A mount over the link\<close>

definition lookup_argv :: "string \<Rightarrow> string \<Rightarrow> string list" where
  "lookup_argv account field =
     [''secret-tool'', ''lookup'', ''schema'', ''org.gnome.proton.drive'', ''username'', account,
      ''field'', field]"

lemma lookup_credentials_Some:
  assumes "\<And>field. g_spawn_sync Y (lookup_argv account field) w = (None, Some (cred field), w)"
  shows "lookup_credentials Y account w =
    (Inr (Some (g_strchomp (cred ''uid'')), Some (g_strchomp (cred ''refresh_token'')),
          Some (g_strchomp (cred ''salted_passphrase''))), w)"
  using assms by (simp add: lookup_credentials_def lookup_field_def lookup_argv_def Let_def)

lemma secret_tool_store_ok:
  assumes "\<And>argv w. \<exists>proc w'. g_subprocess_newv Y argv w = (Ok proc, w')"
  shows "\<exists>w'. secret_tool_store Y username field secret w = Some w'"
proof -
  have "\<exists>proc w'. g_subprocess_newv Y [''secret-tool'', ''store'', ''--label'',
      ''Proton Drive '' @ field @ '' ('' @ username @ '')'', ''schema'', ''org.gnome.proton.drive'',
      ''username'', username, ''field'', field] w = (Ok proc, w')"
    by (rule assms)
  then show ?thesis
    by (auto simp: secret_tool_store_def)
qed

lemma store_tokens_both:
  assumes "\<And>argv w. \<exists>proc w'. g_subprocess_newv Y argv w = (Ok proc, w')"
  shows "\<exists>w'. store_tokens Y account (Some u) (Some t) w = Some ([Stored ''uid'' u, Stored ''refresh_token'' t], w')"
proof -
  obtain w1 where w1: "secret_tool_store Y account ''uid'' u w = Some w1"
    using secret_tool_store_ok [OF assms] by blast
  obtain w2 where w2: "secret_tool_store Y account ''refresh_token'' t w1 = Some w2"
    using secret_tool_store_ok [OF assms] by blast
  from w1 w2 show ?thesis
    by (simp add: store_tokens_def)
qed

definition resume_params :: "json_lib \<Rightarrow> string \<Rightarrow> string \<Rightarrow> byte list \<Rightarrow> json option" where
  "resume_params J uid token sp =
     Some (JObject [(''uid'', JString uid), (''refresh_token'', JString token),
                    (''salted_passphrase'', JString (g_base64_encode J sp))])"

lemma resume_served:
  assumes "link_ready J G s rpc c None w ''ResumeSession'' (resume_params J uid token sp)"
    and "served s ''ResumeSession'' (resume_params J uid token sp) (net_helper w)
           (Inr (Some (marshal_AuthResult G a))) st"
  shows "proton_rpc_resume_session (net_ops G s) J rpc uid token sp w =
    Some (Ok (Some (ar_UID a), Some (ar_RefreshToken a)), after_call rpc, w\<lparr>net_helper := st\<rparr>)"
proof -
  note J = link_ready_access [OF assms(1)]
  show ?thesis
    using call_served [OF assms]
    by (simp add: proton_rpc_resume_session_def Let_def resume_params_def marshal_AuthResult_def
        ok_response_result [OF J] json_access [OF J])
qed

lemma resume_refused:
  assumes "link_ready J G s rpc c None w ''ResumeSession'' (resume_params J uid token sp)"
    and "served s ''ResumeSession'' (resume_params J uid token sp) (net_helper w) (Inl (Rpc_err e)) st"
  shows "proton_rpc_resume_session (net_ops G s) J rpc uid token sp w =
    Some (Fail (Some (Io_error (gio_code (re_Code e)) (re_Message e))), after_call rpc, w\<lparr>net_helper := st\<rparr>)"
  using call_refused [OF assms]
  by (simp add: proton_rpc_resume_session_def Let_def resume_params_def)

text \<open>The client right after a successful connection.\<close>

lemma new_connected:
  assumes "net_listening w p" "proton_rpc_new (net_ops G s) p w = (first, w1)"
  shows "\<exists>rpc. first = Ok rpc \<and> connected rpc (net_next w) w1 \<and> rpc_next_id rpc = 1 \<and>
    net_helper w1 = net_helper w"
  using assms
  by (auto simp: proton_rpc_new_def net_connect_def connected_def split: prod.splits ret.splits)

text \<open>The state after the connection and the credentials.\<close>

lemma mount_connected:
  assumes "net_listening w (socket_path_of (getuid Y w) acc)" "acc \<noteq> []"
    and "\<And>field w. g_spawn_sync Y (lookup_argv acc field) w = (None, Some (cred field), w)"
  shows "\<exists>rpc w1. connected rpc (net_next w) w1 \<and> rpc_next_id rpc = 1 \<and> net_helper w1 = net_helper w \<and>
    do_mount (net_ops G s) J Y libexecdir self (Some acc) h w = do {
      (res, rpc, w) \<leftarrow> proton_rpc_resume_session (net_ops G s) J rpc (g_strchomp (cred ''uid''))
         (g_strchomp (cred ''refresh_token'')) (g_base64_decode J (Some (g_strchomp (cred ''salted_passphrase'')))) w1;
      case res of
        Fail error \<Rightarrow> Some ([Job_done (Job_failed error)], self\<lparr>be_rpc := Some rpc\<rparr>, h, w)
      | Ok (u, t) \<Rightarrow> do {
          (log, w) \<leftarrow> store_tokens Y acc u t w;
          case g_timeout_add_seconds Y 5 w of
            (i, w) \<Rightarrow> Some (log @ [Described acc (''Proton Drive ('' @ acc @ '')''), Job_done Job_succeeded, Timer_started i],
                         self\<lparr>be_rpc := Some rpc, be_poll_id := i\<rparr>, h\<lparr>gh_sources := i # gh_sources h\<rparr>, w)
        }
    }"
proof -
  obtain first w1 where first: "proton_rpc_new (net_ops G s) (socket_path_of (getuid Y w) acc) w = (first, w1)"
    by (cases "proton_rpc_new (net_ops G s) (socket_path_of (getuid Y w) acc) w")
  from new_connected [OF assms(1) this] obtain rpc where rpc: "first = Ok rpc" "connected rpc (net_next w) w1"
      "rpc_next_id rpc = 1" "net_helper w1 = net_helper w"
    by auto
  note lookup = lookup_credentials_Some [OF assms(3), of w1]
  let ?resume = "proton_rpc_resume_session (net_ops G s) J rpc (g_strchomp (cred ''uid''))
         (g_strchomp (cred ''refresh_token'')) (g_base64_decode J (Some (g_strchomp (cred ''salted_passphrase'')))) w1"
  have "do_mount (net_ops G s) J Y libexecdir self (Some acc) h w = do {
      (res, rpc, w) \<leftarrow> ?resume;
      case res of
        Fail error \<Rightarrow> Some ([Job_done (Job_failed error)], self\<lparr>be_rpc := Some rpc\<rparr>, h, w)
      | Ok (u, t) \<Rightarrow> do {
          (log, w) \<leftarrow> store_tokens Y acc u t w;
          case g_timeout_add_seconds Y 5 w of
            (i, w) \<Rightarrow> Some (log @ [Described acc (''Proton Drive ('' @ acc @ '')''), Job_done Job_succeeded, Timer_started i],
                         self\<lparr>be_rpc := Some rpc, be_poll_id := i\<rparr>, h\<lparr>gh_sources := i # gh_sources h\<rparr>, w)
        }
    }"
  proof (cases ?resume)
    case None
    with assms(2) show ?thesis
      by (simp add: do_mount_def Let_def first rpc(1) resume_stored_def lookup)
  next
    case (Some x)
    obtain res rpc2 w2 where x: "x = (res, rpc2, w2)"
      by (cases x)
    show ?thesis
    proof (cases res)
      case (Ok ut)
      with assms(2) Some x show ?thesis
        by (cases ut; cases "store_tokens Y acc (fst ut) (snd ut) w2")
           (simp_all add: do_mount_def Let_def first rpc(1) resume_stored_def lookup split_beta)
    next
      case (Fail e)
      with assms(2) Some x show ?thesis
        by (simp add: do_mount_def Let_def first rpc(1) resume_stored_def lookup)
    qed
  qed
  with rpc show ?thesis
    by blast
qed

lemma connected_ready:
  assumes "json_access_ok J" "json_text_ok J" "wire_ok J G s" "connected rpc c w" "rpc_next_id rpc = 1"
    and "sendable J 1 m p"
  shows "link_ready J G s rpc c None w m p"
  using assms by (simp add: link_ready_def is_cancelled_def)

lemma mount_resumed:
  assumes "json_access_ok J" "json_text_ok J" "wire_ok J G s"
    and "net_listening w (socket_path_of (getuid Y w) acc)" "acc \<noteq> []"
    and "\<And>field w. g_spawn_sync Y (lookup_argv acc field) w = (None, Some (cred field), w)"
    and "\<And>argv w. \<exists>proc w'. g_subprocess_newv Y argv w = (Ok proc, w')"
    and "p = resume_params J (g_strchomp (cred ''uid'')) (g_strchomp (cred ''refresh_token''))
           (g_base64_decode J (Some (g_strchomp (cred ''salted_passphrase''))))"
    and "sendable J 1 ''ResumeSession'' p"
    and "served s ''ResumeSession'' p (net_helper w) (Inr (Some (marshal_AuthResult G a))) st"
  shows "\<exists>i self' h' w'. do_mount (net_ops G s) J Y libexecdir self (Some acc) h w =
    Some ([Stored ''uid'' (ar_UID a), Stored ''refresh_token'' (ar_RefreshToken a),
           Described acc (''Proton Drive ('' @ acc @ '')''), Job_done Job_succeeded, Timer_started i], self', h', w')"
proof -
  obtain rpc w1 where m: "connected rpc (net_next w) w1" "rpc_next_id rpc = 1" "net_helper w1 = net_helper w"
    and mount: "do_mount (net_ops G s) J Y libexecdir self (Some acc) h w = do {
      (res, rpc, w) \<leftarrow> proton_rpc_resume_session (net_ops G s) J rpc (g_strchomp (cred ''uid''))
         (g_strchomp (cred ''refresh_token'')) (g_base64_decode J (Some (g_strchomp (cred ''salted_passphrase'')))) w1;
      case res of
        Fail error \<Rightarrow> Some ([Job_done (Job_failed error)], self\<lparr>be_rpc := Some rpc\<rparr>, h, w)
      | Ok (u, t) \<Rightarrow> do {
          (log, w) \<leftarrow> store_tokens Y acc u t w;
          case g_timeout_add_seconds Y 5 w of
            (i, w) \<Rightarrow> Some (log @ [Described acc (''Proton Drive ('' @ acc @ '')''), Job_done Job_succeeded, Timer_started i],
                         self\<lparr>be_rpc := Some rpc, be_poll_id := i\<rparr>, h\<lparr>gh_sources := i # gh_sources h\<rparr>, w)
        }
    }"
    using mount_connected [OF assms(4-6)] by blast
  note l = connected_ready [OF assms(1-3) m(1,2) assms(9)]
  have "served s ''ResumeSession'' p (net_helper w1) (Inr (Some (marshal_AuthResult G a))) st"
    using assms(10) m(3) by simp
  note res = resume_served [OF l [unfolded assms(8)] this [unfolded assms(8)]]
  obtain w2 where w2: "store_tokens Y acc (Some (ar_UID a)) (Some (ar_RefreshToken a)) (w1\<lparr>net_helper := st\<rparr>) =
      Some ([Stored ''uid'' (ar_UID a), Stored ''refresh_token'' (ar_RefreshToken a)], w2)"
    using store_tokens_both [OF assms(7)] by blast
  obtain i w3 where i: "g_timeout_add_seconds Y 5 w2 = (i, w3)"
    by (cases "g_timeout_add_seconds Y 5 w2")
  show ?thesis
    by (simp add: mount res w2 i)
qed

section \<open>Samples for the witnesses\<close>

text \<open>A system whose socket file appears after three pauses, counted in the helper's state.\<close>

definition sample_system :: "nat net system" where
  "sample_system =
     \<lparr>getuid = (\<lambda>_. 0), g_file_test_exists = (\<lambda>_ w. 3 \<le> net_helper w), g_file_test_is_executable = (\<lambda>_ _. True),
      g_find_program_in_path = (\<lambda>_ _. None), g_usleep = (\<lambda>_ w. w\<lparr>net_helper := net_helper w + 1\<rparr>),
      os_unlink = (\<lambda>_ w. w), g_spawn_async = (\<lambda>_ w. (None, w)),
      g_spawn_sync = (\<lambda>argv w. (None, Some (last argv @ [CHR 0x0A]), w)),
      g_subprocess_newv = (\<lambda>_ w. (Ok 0, w)), g_subprocess_communicate_utf8 = (\<lambda>_ _ w. (None, w)),
      g_timeout_add_seconds = (\<lambda>_ w. (7, w))\<rparr>"

definition sample_auth :: auth_result where
  "sample_auth = \<lparr>ar_UID = ''u2'', ar_RefreshToken = ''t2'', ar_SaltedPassphrase = None\<rparr>"

lemma sample_spawn:
  "g_spawn_sync sample_system (lookup_argv ''me'' field) w = (None, Some (field @ [CHR 0x0A]), w)"
  by (simp add: sample_system_def lookup_argv_def)

lemma sample_subprocess: "\<exists>proc w'. g_subprocess_newv sample_system argv w = (Ok proc, w')"
  by (simp add: sample_system_def)

lemma sample_listening: "net_listening (sample_net True) (socket_path_of (getuid sample_system (sample_net True)) ''me'')"
  by (simp add: sample_net_def)

lemma char_byte: "char_of (unat (word_of_nat (of_char c) :: byte)) = (c :: char)"
proof -
  have "of_char c < (256 :: nat)"
    by simp
  then show ?thesis
    by (simp add: unat_of_nat)
qed

lemma sample_base64_text: "g_base64_encode sample_json (g_base64_decode sample_json (Some text)) = text"
  by (simp add: sample_json_def comp_def char_byte del: unat_of_nat)

lemma chomp_newline: "g_strchomp (xs @ [CHR 0x0A]) = g_strchomp xs"
  by (simp add: g_strchomp_def g_ascii_isspace_def)

lemma sample_chomp:
  "g_strchomp ''uid'' = ''uid''" "g_strchomp ''refresh_token'' = ''refresh_token''"
  "g_strchomp ''salted_passphrase'' = ''salted_passphrase''"
  by (simp_all add: g_strchomp_def g_ascii_isspace_def)

lemma sample_resume_sendable:
  "sendable sample_json 1 ''ResumeSession'' (resume_params sample_json (g_strchomp (''uid'' @ [CHR 0x0A]))
     (g_strchomp (''refresh_token'' @ [CHR 0x0A])) (g_base64_decode sample_json (Some (g_strchomp (''salted_passphrase'' @ [CHR 0x0A])))))"
  unfolding chomp_newline sample_chomp resume_params_def sample_base64_text
  by (simp add: sendable_sample)

lemma sample_mounted:
  "\<exists>i self' h' w'. do_mount (net_ops sample_go (only ''ResumeSession'' (Inr (Some (marshal_AuthResult sample_go sample_auth)))))
      sample_json sample_system ''/usr/libexec'' g_vfs_backend_proton_init (Some ''me'') empty_heap (sample_net True) =
    Some ([Stored ''uid'' ''u2'', Stored ''refresh_token'' ''t2'', Described ''me'' ''Proton Drive (me)'',
           Job_done Job_succeeded, Timer_started i], self', h', w')"
  using mount_resumed [OF sample_access_ok sample_text_ok sample_wire_ok sample_listening _
      sample_spawn sample_subprocess refl sample_resume_sendable only_served,
      of sample_auth "''/usr/libexec''" g_vfs_backend_proton_init empty_heap]
  by (simp add: sample_auth_def)

section \<open>Properties\<close>

text \<open>
  Waiting for the helper ends: with a timeout of \<open>t\<close> milliseconds the loop makes at most
  \<open>t/50\<close> (rounded up) tests with a pause after each, returns TRUE at the first test that finds the
  file, and FALSE if none does; the 32-bit counter does not wrap for any timeout below 2^32 - 50
  (the mount uses 5000, so at most 100 tests).
\<close>

theorem wait_for_socket_polls:
  assumes "t + 50 < 2 ^ 32"
  shows "(\<exists>k<(t + 49) div 50.
        (\<forall>j<k. \<not> g_file_test_exists Y path ((g_usleep Y 50000 ^^ j) w)) \<and>
        g_file_test_exists Y path ((g_usleep Y 50000 ^^ k) w) \<and>
        wait_for_socket Y path (of_nat t) w = Some (True, (g_usleep Y 50000 ^^ k) w)) \<or>
    (\<forall>j<(t + 49) div 50. \<not> g_file_test_exists Y path ((g_usleep Y 50000 ^^ j) w)) \<and>
      wait_for_socket Y path (of_nat t) w = Some (False, (g_usleep Y 50000 ^^ ((t + 49) div 50)) w)"
proof -
  have "wait_for_socket Y path (of_nat t) w = Some (polls Y path ((t + 49) div 50) w)"
    using wait_loop_polls [OF assms, of 0 "(t + 49) div 50" Y path w] by (simp add: wait_for_socket_def)
  with polls_cases [of "(t + 49) div 50" Y path w] show ?thesis
    by simp
qed

theorem wait_for_socket_polls_witness:
  "\<exists>w'. wait_for_socket sample_system ''/s'' 5000 (sample_net True) = Some (True, w') \<and> net_helper w' = 3"
proof -
  have pow: "(g_usleep sample_system 50000 ^^ k) (sample_net True) = (sample_net True)\<lparr>net_helper := k\<rparr>" for k
    by (induction k) (simp_all add: sample_system_def sample_net_def)
  have ex: "g_file_test_exists sample_system ''/s'' w \<longleftrightarrow> 3 \<le> net_helper w" for w
    by (simp add: sample_system_def)
  have "(5000 :: nat) + 50 < 2 ^ 32"
    by simp
  from wait_for_socket_polls [OF this, of sample_system "''/s''" "sample_net True"] show ?thesis
  proof (elim disjE exE conjE)
    fix k
    assume before: "\<forall>j<k. \<not> g_file_test_exists sample_system ''/s'' ((g_usleep sample_system 50000 ^^ j) (sample_net True))"
      and k: "g_file_test_exists sample_system ''/s'' ((g_usleep sample_system 50000 ^^ k) (sample_net True))"
        "wait_for_socket sample_system ''/s'' (of_nat 5000) (sample_net True) =
           Some (True, (g_usleep sample_system 50000 ^^ k) (sample_net True))"
    have "\<not> 3 < k"
      using before [rule_format, of 3] by (auto simp: pow ex)
    with k show ?thesis
      by (simp add: pow ex)
  next
    assume "\<forall>j<(5000 + 49) div 50. \<not> g_file_test_exists sample_system ''/s''
      ((g_usleep sample_system 50000 ^^ j) (sample_net True))"
    then have "\<not> g_file_test_exists sample_system ''/s'' ((g_usleep sample_system 50000 ^^ 3) (sample_net True))"
      by simp
    then show ?thesis
      unfolding pow ex by simp
  qed
qed

text \<open>
  C17. A mount reports its outcome exactly once, and the poll timer belongs to a mounted backend:
  whatever the world does, the actions of a mount that returns are preparations, then one
  completion of the job, and after a success (and only then) the start of one timer, whose id is
  kept for the finaliser, with the client structure in place for the callback.
\<close>

theorem mount_completes_once:
  assumes "do_mount S J Y libexecdir self account h w = Some (log, self', h', w')"
  shows "\<exists>pre. (\<forall>a\<in>set pre. preparation a) \<and>
    ((\<exists>e. log = pre @ [Job_done (Job_failed e)] \<and> be_poll_id self' = be_poll_id self \<and> h' = h) \<or>
     (\<exists>name display i. log = pre @ [Described name display, Job_done Job_succeeded, Timer_started i] \<and>
        be_poll_id self' = i \<and> be_rpc self' \<noteq> None \<and> h' = h\<lparr>gh_sources := i # gh_sources h\<rparr>))"
  using assms
proof (cases rule: do_mount_cases)
  case (refused e)
  then show ?thesis
    by (intro exI [where x = "[]"]) simp
next
  case (unconnected log1 e)
  then show ?thesis
    by (intro exI [where x = log1]) simp
next
  case (failed log1 e rpc)
  then show ?thesis
    by (intro exI [where x = log1]) simp
next
  case (mounted log1 rpc name display i)
  then show ?thesis
    by (intro exI [where x = log1]) simp
qed

theorem mount_completes_once_witness:
  "\<exists>log self' h' w'. do_mount (net_ops sample_go (only ''ResumeSession'' (Inr (Some (marshal_AuthResult sample_go sample_auth)))))
      sample_json sample_system ''/usr/libexec'' g_vfs_backend_proton_init (Some ''me'') empty_heap (sample_net True) =
      Some (log, self', h', w') \<and> gh_sources h' = [be_poll_id self'] \<and> be_rpc self' \<noteq> None"
proof -
  obtain i self' h' w' where m: "do_mount (net_ops sample_go (only ''ResumeSession'' (Inr (Some (marshal_AuthResult sample_go sample_auth)))))
      sample_json sample_system ''/usr/libexec'' g_vfs_backend_proton_init (Some ''me'') empty_heap (sample_net True) =
    Some ([Stored ''uid'' ''u2'', Stored ''refresh_token'' ''t2'', Described ''me'' ''Proton Drive (me)'',
           Job_done Job_succeeded, Timer_started i], self', h', w')"
    using sample_mounted by blast
  from mount_completes_once [OF m] have "gh_sources h' = [be_poll_id self'] \<and> be_rpc self' \<noteq> None"
    by (auto simp: empty_heap_def)
  with m show ?thesis
    by blast
qed

text \<open>
  A mount with a running helper and stored credentials succeeds where the helper resumes the
  session, and stores the rotated tokens first: Proton invalidates the old refresh token, so the
  new uid and token of the helper's answer are written to the keyring, in this order, before the
  mount is announced and the job reported as successful.
\<close>

theorem mount_stores_rotated_tokens:
  assumes "json_access_ok J" "json_text_ok J" "wire_ok J G s"
    and "net_listening w (socket_path_of (getuid Y w) acc)" "acc \<noteq> []"
    and "\<And>field w. g_spawn_sync Y (lookup_argv acc field) w = (None, Some (cred field), w)"
    and "\<And>argv w. \<exists>proc w'. g_subprocess_newv Y argv w = (Ok proc, w')"
    and "p = resume_params J (g_strchomp (cred ''uid'')) (g_strchomp (cred ''refresh_token''))
           (g_base64_decode J (Some (g_strchomp (cred ''salted_passphrase''))))"
    and "sendable J 1 ''ResumeSession'' p"
    and "served s ''ResumeSession'' p (net_helper w) (Inr (Some (marshal_AuthResult G a))) st"
  shows "\<exists>i self' h' w'. do_mount (net_ops G s) J Y libexecdir self (Some acc) h w =
    Some ([Stored ''uid'' (ar_UID a), Stored ''refresh_token'' (ar_RefreshToken a),
           Described acc (''Proton Drive ('' @ acc @ '')''), Job_done Job_succeeded, Timer_started i], self', h', w')"
  by (rule mount_resumed [OF assms])

theorem mount_stores_rotated_tokens_witness:
  "\<exists>i self' h' w'. do_mount (net_ops sample_go (only ''ResumeSession'' (Inr (Some (marshal_AuthResult sample_go sample_auth)))))
      sample_json sample_system ''/usr/libexec'' g_vfs_backend_proton_init (Some ''me'') empty_heap (sample_net True) =
    Some ([Stored ''uid'' ''u2'', Stored ''refresh_token'' ''t2'', Described ''me'' ''Proton Drive (me)'',
           Job_done Job_succeeded, Timer_started i], self', h', w')"
  using mount_stores_rotated_tokens [OF sample_access_ok sample_text_ok sample_wire_ok sample_listening _
      sample_spawn sample_subprocess refl sample_resume_sendable only_served,
      of sample_auth "''/usr/libexec''" g_vfs_backend_proton_init empty_heap]
  by (simp add: sample_auth_def)

text \<open>
  A helper is started only where none answers, and cleanly: if a mount spawns a process, its
  first attempt to connect had failed, it spawned exactly one, with the argument list
  \<open>helper --socket path\<close> for the account's own socket path, and removed a stale socket file
  of that path immediately before.
\<close>

theorem mount_spawns_after_unlink:
  assumes "do_mount S J Y libexecdir self account h w = Some (log, self', h', w')"
    and "Spawned argv \<in> set log"
  shows "\<exists>acc path helper rest e w1. account = Some acc \<and> path = socket_path_of (getuid Y w) acc \<and>
    proton_rpc_new S path w = (Fail e, w1) \<and> argv = [helper, ''--socket'', path] \<and>
    log = Unlinked path # Spawned argv # rest \<and>
    (\<forall>a\<in>set rest. \<forall>argv' p. a \<noteq> Spawned argv' \<and> a \<noteq> Unlinked p)"
proof -
  have "\<not> (account = None \<or> account = Some [])"
  proof
    assume "account = None \<or> account = Some []"
    with assms show False
      by (auto simp: do_mount_def)
  qed
  then obtain acc where acc: "account = Some acc" "acc \<noteq> []"
    by auto
  let ?path = "socket_path_of (getuid Y w) acc"
  obtain first w1 where first: "proton_rpc_new S ?path w = (first, w1)"
    by (cases "proton_rpc_new S ?path w")
  from assms(1) acc first obtain log1 second w2 where
    s: "(case first of Ok rpc \<Rightarrow> Some ([], Inr first, w1)
         | Fail _ \<Rightarrow> start_helper S Y libexecdir ?path w1) = Some (log1, second, w2)"
    by (auto simp: do_mount_def Let_def bind_eq_Some_conv)
  have rest: "\<exists>rest. log = log1 @ rest \<and> (\<forall>a\<in>set rest. \<forall>argv' p. a \<noteq> Spawned argv' \<and> a \<noteq> Unlinked p)"
  proof (cases "\<exists>rpc. second = Inr (Ok rpc)")
    case False
    with assms(1) acc first s show ?thesis
      by (cases second) (auto simp: do_mount_def Let_def split: ret.splits)
  next
    case True
    then obtain rpc where rpc: "second = Inr (Ok rpc)" ..
    with assms(1) acc first s obtain log2 r rpc' w3 where
      r: "resume_stored S J Y acc rpc w2 = Some (log2, r, rpc', w3)"
      by (auto simp: do_mount_def Let_def bind_eq_Some_conv)
    obtain i w4 where "g_timeout_add_seconds Y 5 w3 = (i, w4)"
      by (cases "g_timeout_add_seconds Y 5 w3")
    with assms(1) acc first s rpc r resume_stored_log(1) [OF r] show ?thesis
      by (cases r) (auto simp: do_mount_def Let_def)
  qed
  then have "Spawned argv \<in> set log1"
    using assms(2) by fastforce
  with s obtain e where e: "first = Fail e" "start_helper S Y libexecdir ?path w1 = Some (log1, second, w2)"
    by (cases first) auto
  from start_helper_log(1) [OF e(2)] \<open>Spawned argv \<in> set log1\<close> obtain helper where
    "log1 = [Unlinked ?path, Spawned [helper, ''--socket'', ?path]]" "argv = [helper, ''--socket'', ?path]"
    by auto
  with rest acc first e(1) show ?thesis
    by auto
qed

lemma decimal_0: "decimal 0 = ''0''"
  by code_simp

lemma polls_late:
  assumes "4 \<le> n"
  shows "polls sample_system p n (sample_net False) = (True, sample_net False\<lparr>net_helper := 3\<rparr>)"
proof -
  from assms have "n = Suc (Suc (Suc (Suc (n - 4))))"
    by simp
  then obtain m where "n = Suc (Suc (Suc (Suc m)))" ..
  then show ?thesis
    by (simp add: sample_system_def sample_net_def)
qed

lemma sample_fresh_mount:
  "\<exists>self' w'. do_mount sample_ops sample_json sample_system ''/usr/libexec'' g_vfs_backend_proton_init (Some ''me'')
     empty_heap (sample_net False) =
     Some ([Unlinked ''/run/user/0/proton-drive-me.sock'',
            Spawned [''/usr/libexec/proton-drive-helper'', ''--socket'', ''/run/user/0/proton-drive-me.sock''],
            Job_done (Job_failed (Some (Io_error (G_IO_ERROR_NUMBER 39) ''Could not connect'')))], self', empty_heap, w')"
proof -
  have path: "socket_path_of (getuid sample_system (sample_net False)) ''me'' = ''/run/user/0/proton-drive-me.sock''"
    by (simp add: socket_path_of_def sample_system_def decimal_0)
  have new: "proton_rpc_new sample_ops p (sample_net False\<lparr>net_helper := n\<rparr>) =
      (Fail (Some (Io_error (G_IO_ERROR_NUMBER 39) ''Could not connect'')), sample_net False\<lparr>net_helper := n\<rparr>)" for p n
    by (simp add: proton_rpc_new_def sample_ops_def net_connect_def sample_net_def)
  have new0: "proton_rpc_new sample_ops p (sample_net False) =
      (Fail (Some (Io_error (G_IO_ERROR_NUMBER 39) ''Could not connect'')), sample_net False)" for p
    by (simp add: proton_rpc_new_def sample_ops_def net_connect_def sample_net_def)
  have "wait_for_socket sample_system p (of_nat 5000) (sample_net False) =
      Some (polls sample_system p 100 (sample_net False))" for p
    using wait_loop_polls [of 5000 0 100 sample_system p "sample_net False"] by (simp add: wait_for_socket_def)
  moreover have "polls sample_system p 100 (sample_net False) = (True, sample_net False\<lparr>net_helper := 3\<rparr>)" for p
    by (rule polls_late) simp
  ultimately have wait: "wait_for_socket sample_system p 5000 (sample_net False) =
      Some (True, sample_net False\<lparr>net_helper := 3\<rparr>)" for p
    by simp
  have start: "start_helper sample_ops sample_system ''/usr/libexec'' p (sample_net False) =
      Some ([Unlinked p, Spawned [''/usr/libexec/proton-drive-helper'', ''--socket'', p]],
            Inr (Fail (Some (Io_error (G_IO_ERROR_NUMBER 39) ''Could not connect''))), sample_net False\<lparr>net_helper := 3\<rparr>)" for p
    unfolding start_helper_def Let_def
    using wait [of p] new [of p 3]
    by (simp add: find_helper_binary_def Let_def sample_system_def)
  show ?thesis
    by (simp add: do_mount_def Let_def path new0 start)
qed

theorem mount_spawns_after_unlink_witness:
  "\<exists>log self' h' w' rest. do_mount sample_ops sample_json sample_system ''/usr/libexec'' g_vfs_backend_proton_init
      (Some ''me'') empty_heap (sample_net False) = Some (log, self', h', w') \<and>
    log = Unlinked ''/run/user/0/proton-drive-me.sock'' #
      Spawned [''/usr/libexec/proton-drive-helper'', ''--socket'', ''/run/user/0/proton-drive-me.sock''] # rest \<and>
    (\<forall>a\<in>set rest. \<forall>argv'. a \<noteq> Spawned argv')"
proof -
  obtain self' w' where m: "do_mount sample_ops sample_json sample_system ''/usr/libexec'' g_vfs_backend_proton_init (Some ''me'')
     empty_heap (sample_net False) =
     Some ([Unlinked ''/run/user/0/proton-drive-me.sock'',
            Spawned [''/usr/libexec/proton-drive-helper'', ''--socket'', ''/run/user/0/proton-drive-me.sock''],
            Job_done (Job_failed (Some (Io_error (G_IO_ERROR_NUMBER 39) ''Could not connect'')))], self', empty_heap, w')"
    using sample_fresh_mount by blast
  from mount_spawns_after_unlink [OF m, of "[''/usr/libexec/proton-drive-helper'', ''--socket'', ''/run/user/0/proton-drive-me.sock'']"] m
  show ?thesis
    by auto
qed

text \<open>
  Missing credentials are not noticed: where the keyring has nothing for the account,
  \<open>secret-tool\<close> prints nothing, \<open>g_spawn_sync\<close> still hands over an (empty) string, and the branch
  "no stored credentials" (NOT_INITIALIZED) is not taken; the mount instead asks the helper to
  resume a session with an empty uid, token and passphrase, and fails with whatever it answers.
\<close>

theorem missing_credentials_reach_helper:
  assumes "\<And>field w. g_spawn_sync Y (lookup_argv acc field) w = (None, Some [], w)"
  shows "resume_stored S J Y acc rpc w = do {
    (res, rpc, w) \<leftarrow> proton_rpc_resume_session S J rpc [] [] (g_base64_decode J (Some [])) w;
    case res of
      Fail error \<Rightarrow> Some ([], Job_failed error, rpc, w)
    | Ok (u, t) \<Rightarrow> do { (log, w) \<leftarrow> store_tokens Y acc u t w; Some (log, Job_succeeded, rpc, w) }
  }"
proof -
  have "g_strchomp [] = []"
    by (simp add: g_strchomp_def)
  then show ?thesis
    by (simp add: resume_stored_def lookup_credentials_Some [OF assms])
qed

theorem missing_credentials_reach_helper_witness:
  "\<exists>rpc' w'. resume_stored
     (net_ops sample_go (only ''ResumeSession'' (Inl (Rpc_err \<lparr>re_Code = ErrInvalidArg, re_Message = ''bad'', re_Details = None\<rparr>))))
     sample_json (sample_system\<lparr>g_spawn_sync := (\<lambda>_ w. (None, Some [], w))\<rparr>) ''me'' sample_rpc (sample_net True) =
   Some ([], Job_failed (Some (Io_error G_IO_ERROR_FAILED ''bad'')), rpc', w')"
proof -
  have "link_ready sample_json sample_go s sample_rpc 5 None (sample_net True) ''ResumeSession'' (resume_params sample_json [] [] [])"
    for s :: "nat handlers"
    by (rule sample_link_ready) (simp add: sendable_sample resume_params_def)
  note r = resume_refused [OF this only_served, where e = "\<lparr>re_Code = ErrInvalidArg, re_Message = ''bad'', re_Details = None\<rparr>"]
  have "g_spawn_sync (sample_system\<lparr>g_spawn_sync := (\<lambda>_ w. (None, Some [], w))\<rparr>) (lookup_argv ''me'' field) w =
      (None, Some [], w)" for field and w :: "nat net"
    by simp
  note m = missing_credentials_reach_helper [OF this]
  have "g_base64_decode sample_json (Some []) = []"
    by (simp add: sample_json_def)
  then show ?thesis
    unfolding m by (simp add: r) (simp add: Err_defs)
qed

text \<open>
  A mount never leaves a timer that outlives the backend: a backend that has not been mounted
  before is, after a mount with any outcome, again in a state of \<open>backend_run\<close>, so that finalising
  it succeeds and leaves no timeout source, no entry and no weak pointer.
\<close>

theorem mounted_backend_finalizes:
  assumes "keeps_reference set_monitor" "backend_run set_monitor self h" "be_poll_id self = 0"
    and "do_mount S J Y libexecdir self account h w = Some (log, self', h', w')"
    and "\<And>w. fst (g_timeout_add_seconds Y 5 w) \<noteq> 0"
  shows "backend_run set_monitor self' h' \<and>
    (\<exists>h''. g_vfs_backend_proton_finalize S self' h' w' = Some (h'', proton_rpc_free S (be_rpc self') w') \<and>
       gh_sources h'' = [] \<and> gh_entries h'' = Map.empty \<and> gh_weak h'' = [])"
proof -
  from assms(4) have run: "backend_run set_monitor self' h'"
  proof (cases rule: do_mount_cases)
    case (mounted log1 rpc name display i)
    from mounted(5) assms(5) have "i \<noteq> 0"
      by auto
    with assms(3) mounted(3,4) backend_run.run_timer [OF backend_run.run_rpc [OF assms(2), of "Some rpc"]]
    show ?thesis
      by simp
  qed (use assms(2) in \<open>auto intro: backend_run.run_rpc\<close>)
  obtain h'' where "g_vfs_backend_proton_finalize S self' h' w' = Some (h'', proton_rpc_free S (be_rpc self') w')"
    "gh_sources h'' = []" "gh_entries h'' = Map.empty" "gh_weak h'' = []"
    using finalize_Some [OF assms(1) run, of S w'] by auto
  then show ?thesis
    by (intro conjI run exI [of _ h''])
qed

theorem mounted_backend_finalizes_witness:
  "\<exists>log self' h' w' h'' w''. do_mount (net_ops sample_go (only ''ResumeSession'' (Inr (Some (marshal_AuthResult sample_go sample_auth)))))
      sample_json sample_system ''/usr/libexec'' g_vfs_backend_proton_init (Some ''me'') empty_heap (sample_net True) =
      Some (log, self', h', w') \<and>
    g_vfs_backend_proton_finalize (net_ops sample_go (only ''ResumeSession'' (Inr (Some (marshal_AuthResult sample_go sample_auth)))))
      self' h' w' = Some (h'', w'') \<and> gh_sources h'' = []"
proof -
  obtain i self' h' w' where m: "do_mount (net_ops sample_go (only ''ResumeSession'' (Inr (Some (marshal_AuthResult sample_go sample_auth)))))
      sample_json sample_system ''/usr/libexec'' g_vfs_backend_proton_init (Some ''me'') empty_heap (sample_net True) =
    Some ([Stored ''uid'' ''u2'', Stored ''refresh_token'' ''t2'', Described ''me'' ''Proton Drive (me)'',
           Job_done Job_succeeded, Timer_started i], self', h', w')"
    using sample_mounted by blast
  have n: "be_poll_id g_vfs_backend_proton_init = 0" "fst (g_timeout_add_seconds sample_system 5 w) \<noteq> 0" for w
    by (simp_all add: g_vfs_backend_proton_init_def sample_system_def)
  from mounted_backend_finalizes [OF own_reference_keeps backend_run.run_init n(1) m n(2)]
  obtain h'' where "g_vfs_backend_proton_finalize (net_ops sample_go (only ''ResumeSession'' (Inr (Some (marshal_AuthResult sample_go sample_auth)))))
      self' h' w' = Some (h'', proton_rpc_free (net_ops sample_go (only ''ResumeSession''
        (Inr (Some (marshal_AuthResult sample_go sample_auth))))) (be_rpc self') w')" "gh_sources h'' = []"
    by blast
  with m show ?thesis
    by (intro exI conjI)
qed

end
