(* ===== verification/Daemon_Main.thy ===== *)
theory Daemon_Main
  imports Mount
begin

text \<open>
  The daemon around the backend, \<open>src/backend/daemon-main.c\<close> and \<open>daemon-main-generic.c\<close>: the
  set-up of the process, the command line, and the main loop's callbacks for the bus name, the spawner's reply and the
  shutdown, as a state machine. GVfs's \<open>GMountSpec\<close> is a parameter. Shown: what a command line
  means, that the initial mount is requested at most once and never from a freed specification,
  and what the exit status says.
\<close>

section \<open>Setting up the process\<close>

text \<open>
  What \<open>daemon_init\<close> and \<open>daemon_setup\<close> leave in the process: the message domain (name, directory,
  character set), the name the debug handler puts before a message, the disposition of SIGPIPE
  and the application's name. The catalogue of translations is a parameter \<open>gettext\<close>; the macros
  are those of \<open>config.h\<close> and of the build.
\<close>

record process =
  pr_locale :: "string option"
  pr_text_domain :: "(string \<times> string \<times> string) option"
  pr_log_data :: "string option"
  pr_debug_handler :: bool
  pr_sigpipe_ignored :: bool
  pr_application_name :: "string option"

definition process_start :: process where
  "process_start = \<lparr>pr_locale = None, pr_text_domain = None, pr_log_data = None, pr_debug_handler = False,
     pr_sigpipe_ignored = False, pr_application_name = None\<rparr>"

definition log_debug :: "bool \<Rightarrow> string \<Rightarrow> string \<Rightarrow> string" where
  "log_debug debug user_data message = (if debug then user_data @ '': '' @ message else [])"

text \<open>\<open>bus\<close>: whether the session bus can be reached. \<open>Inl\<close>: the process exits with this status.\<close>

definition daemon_init :: "bool \<Rightarrow> process \<Rightarrow> int + process" where
  "daemon_init bus p =
     (let p = p\<lparr>pr_locale := Some '''', pr_text_domain := Some (''gvfs'', ''/usr/share/locale'', ''UTF-8'')\<rparr>;
          p = p\<lparr>pr_log_data := Some ''proton''\<rparr>;
          p = p\<lparr>pr_debug_handler := True\<rparr>;
          p = p\<lparr>pr_sigpipe_ignored := True\<rparr> in
      if \<not> bus then Inl 1 else Inr p)"

definition g_ascii_toupper :: "char \<Rightarrow> char" where
  "g_ascii_toupper c =
     (let n = of_char c :: nat in
      if of_char (CHR ''a'') \<le> n \<and> n \<le> of_char (CHR ''z'') then char_of (n - 32) else c)"

definition g_ascii_strup :: "string \<Rightarrow> string" where
  "g_ascii_strup = map g_ascii_toupper"

text \<open>\<open>printf\<close> with one string argument; a second directive or another one is undefined.\<close>

fun printf_s :: "string \<Rightarrow> string option \<Rightarrow> string option" where
  "printf_s [] arg = Some []"
| "printf_s (c # cs) arg =
     (if c \<noteq> CHR ''%'' then map_option ((#) c) (printf_s cs arg)
      else (case cs of
              [] \<Rightarrow> stuck
            | d # ds \<Rightarrow>
                if d = CHR ''%'' then map_option ((#) d) (printf_s ds arg)
                else if d = CHR ''s'' then
                  (case arg of None \<Rightarrow> stuck | Some a \<Rightarrow> map_option ((@) a) (printf_s ds None))
                else stuck))"

definition daemon_setup :: "(string \<Rightarrow> string) \<Rightarrow> process \<Rightarrow> process option" where
  "daemon_setup gettext p =
     (let up = g_ascii_strup ''proton'' in
      do { name \<leftarrow> printf_s (gettext ''%s File System Service'') (Some up);
           Some (p\<lparr>pr_application_name := Some name\<rparr>) })"

section \<open>The command line\<close>

record 'm mount_spec_lib =
  g_mount_spec_new :: "string option \<Rightarrow> 'm"
  g_mount_spec_set :: "'m \<Rightarrow> string \<Rightarrow> string \<Rightarrow> 'm"
  g_mount_spec_get :: "'m \<Rightarrow> string \<Rightarrow> string option"

definition mount_spec_ok :: "'m mount_spec_lib \<Rightarrow> bool" where
  "mount_spec_ok M \<longleftrightarrow>
     (\<forall>t k. g_mount_spec_get M (g_mount_spec_new M t) k = (if k = ''type'' then t else None)) \<and>
     (\<forall>m k v k'. g_mount_spec_get M (g_mount_spec_set M m k v) k' =
        (if k' = k then Some v else g_mount_spec_get M m k'))"

text \<open>An argument \<open>key=value\<close>: the first \<open>=\<close> separates, and neither side may be empty.\<close>

definition split_item :: "string \<Rightarrow> (string \<times> string) option" where
  "split_item arg =
     (let key = takeWhile (\<lambda>c. c \<noteq> CHR ''='') arg in
      if length key = length arg then None
      else (let v = drop (length key + 1) arg in
            if v = [] \<or> key = [] then None else Some (key, v)))"

fun parse_items ::
  "'m mount_spec_lib \<Rightarrow> string list \<Rightarrow> 'm \<Rightarrow> bool \<Rightarrow> ('m \<times> bool) option" where
  "parse_items M [] mount_spec found_type = Some (mount_spec, found_type)"
| "parse_items M (arg # args) mount_spec found_type =
     (case split_item arg of
        None \<Rightarrow> None
      | Some (key, v) \<Rightarrow>
          parse_items M args (g_mount_spec_set M mount_spec key v) (if key = ''type'' then True else found_type))"

text \<open>The debugging output on the way: a line for each item, up to the first malformed one.\<close>

fun parse_output :: "bool \<Rightarrow> string list \<Rightarrow> string" where
  "parse_output debug [] = []"
| "parse_output debug (arg # args) =
     (case split_item arg of
        None \<Rightarrow> []
      | Some (key, v) \<Rightarrow>
          (let q = [CHR 0x27];
               message = ''setting '' @ q @ key @ q @ '' to '' @ q @ v @ q @ [CHR 0x0A] in
           log_debug debug ''proton'' message @ parse_output debug args))"

lemma parse_output_silent: "parse_output False args = []"
  by (induction args) (simp_all add: log_debug_def split: option.splits)

text \<open>
  \<open>Inl\<close>: the process exits with this status. \<open>Inr\<close>: whether debug output is on, the spawner (its
  D-Bus id and object path), and the mount specification. \<open>gvfs_debug\<close>: \<open>GVFS_DEBUG\<close> is set.
\<close>

definition daemon_parse_args ::
  "'m mount_spec_lib \<Rightarrow> bool \<Rightarrow> string list \<Rightarrow> string option \<Rightarrow> int + (bool \<times> (string \<times> string) option \<times> 'm option)" where
  "daemon_parse_args M gvfs_debug argv default_type =
     (let (debug, argv) =
        (if 1 < length argv \<and> argv ! 1 = ''--debug'' then (True, tl argv) else (gvfs_debug, argv)) in
      if 1 < length argv \<and> argv ! 1 = ''--spawner'' then
        (if length argv < 4 then Inl 1 else Inr (debug, Some (argv ! 2, argv ! 3), None))
      else if 1 < length argv \<or> default_type \<noteq> None then
        (case parse_items M (drop 1 argv) (g_mount_spec_new M default_type) (default_type \<noteq> None) of
           None \<Rightarrow> Inl 1
         | Some (mount_spec, found_type) \<Rightarrow>
             if found_type then Inr (debug, None, Some mount_spec) else Inl 1)
      else Inr (debug, None, None))"

section \<open>The daemon's state and callbacks\<close>

datatype spawned_cb = Spawned_failed_cb | Spawned_succeeded_cb

text \<open>
  The globals and \<open>DaemonData\<close>, and what has left the process: messages to the spawner (success
  and error code), calls waiting for the spawner's reply, mounts requested of the daemon. The
  mount specification is released after use (\<open>dm_spec_refs\<close>) while the pointer stays. \<open>dm_threads\<close>
  is the limit of job threads given to the daemon object.
  \<open>dm_owner\<close> is the bus's side: whether the name is ours.
\<close>

record 'm daemon =
  dm_spawner :: "(string \<times> string) option"
  dm_mount_spec :: "'m option"
  dm_spec_refs :: nat
  dm_max_job_threads :: int
  dm_mountable_name :: string
  dm_backend_types :: "string list"
  dm_already_acquired :: bool
  dm_process_result :: int
  dm_running :: bool
  dm_daemon :: bool
  dm_threads :: "int option"
  dm_mounts :: "'m list"
  dm_sent :: "(bool \<times> gio_error option) list"
  dm_pending :: "spawned_cb list"
  dm_owner :: bool

definition spawned_failed_cb :: "'m daemon \<Rightarrow> 'm daemon" where
  "spawned_failed_cb d = d\<lparr>dm_process_result := 1, dm_running := False\<rparr>"

definition spawned_succeeded_cb :: "'m daemon \<Rightarrow> 'm daemon option" where
  "spawned_succeeded_cb d =
     (case dm_mount_spec d of
        None \<Rightarrow> Some d
      | Some m \<Rightarrow>
          if dm_spec_refs d = 0 then stuck
          else Some (d\<lparr>dm_mounts := dm_mounts d @ [m], dm_spec_refs := dm_spec_refs d - 1\<rparr>))"

fun run_callback :: "spawned_cb \<Rightarrow> 'm daemon \<Rightarrow> 'm daemon option" where
  "run_callback Spawned_failed_cb d = Some (spawned_failed_cb d)"
| "run_callback Spawned_succeeded_cb d = spawned_succeeded_cb d"

text \<open>The spawner's reply; an error is only printed.\<close>

definition call_spawned_cb :: "bool \<Rightarrow> spawned_cb \<Rightarrow> 'm daemon \<Rightarrow> 'm daemon option" where
  "call_spawned_cb finished cb d = run_callback cb d"

text \<open>\<open>proxy\<close>: whether a proxy for the spawner can be created.\<close>

definition send_spawned ::
  "bool \<Rightarrow> bool \<Rightarrow> gio_error option \<Rightarrow> spawned_cb \<Rightarrow> 'm daemon \<Rightarrow> 'm daemon option" where
  "send_spawned proxy succeeded error_code callback d =
     (case dm_spawner d of
        None \<Rightarrow> run_callback callback d
      | Some _ \<Rightarrow>
          if \<not> proxy then Some d
          else Some (d\<lparr>dm_sent := dm_sent d @ [(succeeded, error_code)],
                       dm_pending := dm_pending d @ [callback]\<rparr>))"

definition on_name_lost :: "bool \<Rightarrow> bool \<Rightarrow> 'm daemon \<Rightarrow> 'm daemon option" where
  "on_name_lost connection proxy d =
     (if \<not> connection then Some (d\<lparr>dm_process_result := 1, dm_running := False\<rparr>)
      else if dm_already_acquired d then Some (d\<lparr>dm_running := False\<rparr>)
      else send_spawned proxy False (Some G_IO_ERROR_ALREADY_MOUNTED) Spawned_failed_cb d)"

definition daemon_shutdown :: "'m daemon \<Rightarrow> 'm daemon" where
  "daemon_shutdown d = (if dm_running d then d\<lparr>dm_running := False\<rparr> else d)"

text \<open>\<open>created\<close>: whether \<open>g_vfs_daemon_new\<close> returned a daemon.\<close>

definition on_name_acquired :: "bool \<Rightarrow> bool \<Rightarrow> 'm daemon \<Rightarrow> 'm daemon option" where
  "on_name_acquired created proxy d =
     (let d = d\<lparr>dm_already_acquired := True, dm_daemon := created\<rparr> in
      if \<not> created then send_spawned proxy False (Some G_IO_ERROR_FAILED) Spawned_failed_cb d
      else
        (let d = d\<lparr>dm_threads := Some (dm_max_job_threads d)\<rparr> in
         send_spawned proxy True None Spawned_succeeded_cb d))"

section \<open>The program\<close>

definition daemon_start ::
  "'m mount_spec_lib \<Rightarrow> bool \<Rightarrow> nat \<Rightarrow> string list \<Rightarrow> int \<Rightarrow> string option \<Rightarrow> string option \<Rightarrow> string list \<Rightarrow> int + 'm daemon" where
  "daemon_start M gvfs_debug pid argv max_job_threads default_type mountable_name types =
     (case daemon_parse_args M gvfs_debug argv default_type of
        Inl status \<Rightarrow> Inl status
      | Inr (debug, spawner, mount_spec) \<Rightarrow>
          Inr \<lparr>dm_spawner = spawner, dm_mount_spec = mount_spec,
               dm_spec_refs = (if mount_spec = None then 0 else 1),
               dm_max_job_threads = max_job_threads,
               dm_mountable_name = (case mountable_name of
                                      None \<Rightarrow> ''org.gtk.vfs.mountpoint_'' @ decimal pid
                                    | Some n \<Rightarrow> n),
               dm_backend_types = types, dm_already_acquired = False, dm_process_result = 0,
               dm_running = True, dm_daemon = False, dm_threads = None, dm_mounts = [], dm_sent = [],
               dm_pending = [], dm_owner = False\<rparr>)"

text \<open>
  \<open>main\<close> with the macros of the build: ten job threads, default type \<open>proton\<close>, no fixed bus name,
  and no set-up functions of the backend's own.
\<close>

definition main_start ::
  "'m mount_spec_lib \<Rightarrow> (string \<Rightarrow> string) \<Rightarrow> bool \<Rightarrow> bool \<Rightarrow> nat \<Rightarrow> string list \<Rightarrow> (int + process \<times> 'm daemon) option" where
  "main_start M gettext bus gvfs_debug pid argv =
     (case daemon_init bus process_start of
        Inl status \<Rightarrow> Some (Inl status)
      | Inr p \<Rightarrow>
          do { p \<leftarrow> daemon_setup gettext p;
               Some (case daemon_start M gvfs_debug pid argv 10 (Some ''proton'') None [''proton''] of
                       Inl status \<Rightarrow> Inl status
                     | Inr d \<Rightarrow> Inr (p, d)) })"

text \<open>
  The main loop dispatches one callback at a time until it is quit. The bus reports the
  acquisition of the name only while we do not own it. The model's loop ends with the callback that quits
  it; GLib may still dispatch the sources that are ready in the same iteration.
\<close>

inductive daemon_step :: "'m daemon \<Rightarrow> 'm daemon \<Rightarrow> bool" where
  acquired: "dm_running d \<Longrightarrow> \<not> dm_owner d \<Longrightarrow>
     on_name_acquired created proxy (d\<lparr>dm_owner := True\<rparr>) = Some d' \<Longrightarrow> daemon_step d d'"
| lost: "dm_running d \<Longrightarrow> on_name_lost connection proxy (d\<lparr>dm_owner := False\<rparr>) = Some d' \<Longrightarrow> daemon_step d d'"
| replied: "dm_running d \<Longrightarrow> dm_pending d = xs @ cb # ys \<Longrightarrow>
     call_spawned_cb finished cb (d\<lparr>dm_pending := xs @ ys\<rparr>) = Some d' \<Longrightarrow> daemon_step d d'"
| shutdown: "dm_running d \<Longrightarrow> dm_daemon d \<Longrightarrow> daemon_step d (daemon_shutdown d)"

inductive daemon_run :: "'m daemon \<Rightarrow> 'm daemon \<Rightarrow> bool" for d0 where
  run_start: "daemon_run d0 d0"
| run_step: "daemon_run d0 d \<Longrightarrow> daemon_step d d' \<Longrightarrow> daemon_run d0 d'"

inductive_cases daemon_stepE: "daemon_step d d'"

text \<open>After the loop: \<open>exit (process_result)\<close>, or a return of \<open>main\<close> with 0.\<close>

definition exit_status :: "'m daemon \<Rightarrow> int option" where
  "exit_status d = (if dm_running d then None else Some (dm_process_result d))"

section \<open>Lemmas\<close>

lemma strup_proton: "g_ascii_strup ''proton'' = ''PROTON''"
  by code_simp

text \<open>
  What \<open>main\<close> has set up when its loop starts, where the translation keeps the single directive:
  without a session bus the command line is not even looked at.
\<close>

lemma main_start_untranslated:
  assumes "gettext ''%s File System Service'' = ''%s File System Service''"
  shows "main_start M gettext bus gvfs_debug pid argv =
    Some (if \<not> bus then Inl 1
          else (case daemon_start M gvfs_debug pid argv 10 (Some ''proton'') None [''proton''] of
                  Inl status \<Rightarrow> Inl status
                | Inr d \<Rightarrow>
                    Inr (\<lparr>pr_locale = Some '''', pr_text_domain = Some (''gvfs'', ''/usr/share/locale'', ''UTF-8''),
                          pr_log_data = Some ''proton'', pr_debug_handler = True, pr_sigpipe_ignored = True,
                          pr_application_name = Some ''PROTON File System Service''\<rparr>, d)))"
  using assms
  by (simp add: main_start_def daemon_init_def daemon_setup_def process_start_def strup_proton)

definition started :: "'m daemon \<Rightarrow> bool" where
  "started d \<longleftrightarrow> dm_spec_refs d = (if dm_mount_spec d = None then 0 else 1) \<and> \<not> dm_already_acquired d \<and>
     dm_process_result d = 0 \<and> dm_running d \<and> \<not> dm_daemon d \<and> dm_mounts d = [] \<and> dm_sent d = [] \<and>
     dm_pending d = [] \<and> \<not> dm_owner d"

lemma daemon_start_started:
  "daemon_start M gvfs_debug pid argv threads default_type name types = Inr d \<Longrightarrow> started d"
  by (auto simp: daemon_start_def started_def split: sum.splits)

text \<open>
  The invariant: a success callback is outstanding or has been run at most once, and only after
  the name was acquired with a daemon; while the loop runs, a name once acquired is still ours;
  the status tells a failure, and a loop that ended before the acquisition has failed.
\<close>

definition spec_ok :: "'m option \<Rightarrow> nat \<Rightarrow> 'm list \<Rightarrow> nat \<Rightarrow> bool" where
  "spec_ok spec refs mounts waiting \<longleftrightarrow>
     (case spec of
        None \<Rightarrow> mounts = []
      | Some m \<Rightarrow> refs = 1 \<and> mounts = [] \<and> waiting \<le> 1 \<or> refs = 0 \<and> mounts = [m] \<and> waiting = 0)"

definition status_ok :: "int \<Rightarrow> bool \<Rightarrow> bool \<Rightarrow> bool" where
  "status_ok result running acquired \<longleftrightarrow>
     (result = 0 \<and> (running \<or> acquired)) \<or> (result = 1 \<and> \<not> running)"

definition daemon_inv :: "nat \<Rightarrow> 'm daemon \<Rightarrow> bool" where
  "daemon_inv waiting d \<longleftrightarrow>
     spec_ok (dm_mount_spec d) (dm_spec_refs d) (dm_mounts d) waiting \<and>
     status_ok (dm_process_result d) (dm_running d) (dm_already_acquired d) \<and>
     (\<not> dm_already_acquired d \<longrightarrow> waiting = 0 \<and> dm_mounts d = [] \<and> \<not> dm_daemon d) \<and>
     (0 < waiting \<or> dm_mounts d \<noteq> [] \<longrightarrow> dm_daemon d) \<and>
     (dm_running d \<longrightarrow> dm_already_acquired d = dm_owner d)"

definition waiting :: "'m daemon \<Rightarrow> nat" where
  "waiting d = count_list (dm_pending d) Spawned_succeeded_cb"

definition daemon_ok :: "'m daemon \<Rightarrow> bool" where
  "daemon_ok d \<longleftrightarrow> daemon_inv (waiting d) d"

lemma started_ok: "started d \<Longrightarrow> daemon_ok d"
  by (auto simp: started_def daemon_ok_def daemon_inv_def waiting_def spec_ok_def status_ok_def split: option.splits)

text \<open>What a callback does, with the success callback no longer counted among the waiting ones.\<close>

lemma run_callback_Some:
  assumes "run_callback cb d = Some d'"
  shows "(cb = Spawned_failed_cb \<and> d' = d\<lparr>dm_process_result := 1, dm_running := False\<rparr>) \<or>
    (cb = Spawned_succeeded_cb \<and> dm_mount_spec d = None \<and> d' = d) \<or>
    (\<exists>m. cb = Spawned_succeeded_cb \<and> dm_mount_spec d = Some m \<and> dm_spec_refs d \<noteq> 0 \<and>
       d' = d\<lparr>dm_mounts := dm_mounts d @ [m], dm_spec_refs := dm_spec_refs d - 1\<rparr>)"
  using assms
  by (cases cb) (auto simp: spawned_failed_cb_def spawned_succeeded_cb_def split: option.splits if_splits)

text \<open>A callback is about to run: the success callback counts as waiting.\<close>

definition about_to_run :: "spawned_cb \<Rightarrow> 'm daemon \<Rightarrow> bool" where
  "about_to_run cb d \<longleftrightarrow> daemon_inv (waiting d + (if cb = Spawned_succeeded_cb then 1 else 0)) d"

lemma run_callback_ok:
  assumes "about_to_run cb d" "run_callback cb d = Some d'"
  shows "daemon_ok d'"
  using run_callback_Some [OF assms(2)]
proof (elim disjE exE conjE)
  assume "cb = Spawned_failed_cb" "d' = d\<lparr>dm_process_result := 1, dm_running := False\<rparr>"
  with assms(1) show ?thesis
    by (auto simp: about_to_run_def daemon_ok_def daemon_inv_def waiting_def status_ok_def)
next
  assume "cb = Spawned_succeeded_cb" "dm_mount_spec d = None" "d' = d"
  with assms(1) show ?thesis
    by (auto simp: about_to_run_def daemon_ok_def daemon_inv_def waiting_def spec_ok_def)
next
  fix m
  assume "cb = Spawned_succeeded_cb" "dm_mount_spec d = Some m" "dm_spec_refs d \<noteq> 0"
    "d' = d\<lparr>dm_mounts := dm_mounts d @ [m], dm_spec_refs := dm_spec_refs d - 1\<rparr>"
  with assms(1) show ?thesis
    by (auto simp: about_to_run_def daemon_ok_def daemon_inv_def waiting_def spec_ok_def)
qed

lemma run_callback_defined: "about_to_run cb d \<Longrightarrow> run_callback cb d \<noteq> stuck"
  by (cases cb) (auto simp: about_to_run_def daemon_inv_def spec_ok_def spawned_succeeded_cb_def split: option.splits)

lemma send_spawned_ok:
  assumes "about_to_run cb d"
  shows "\<exists>d'. send_spawned proxy succeeded code cb d = Some d' \<and> daemon_ok d'"
proof (cases "dm_spawner d")
  case None
  with assms show ?thesis
    using run_callback_ok run_callback_defined by (fastforce simp: send_spawned_def)
next
  case (Some sp)
  have drop: "daemon_ok d"
    using assms(1)
    by (cases cb) (auto simp: about_to_run_def daemon_ok_def daemon_inv_def spec_ok_def split: option.splits)
  have queue: "daemon_ok (d\<lparr>dm_sent := s, dm_pending := dm_pending d @ [cb]\<rparr>)" for s
    using assms(1) by (cases cb) (auto simp: about_to_run_def daemon_ok_def daemon_inv_def waiting_def)
  show ?thesis
    using Some drop queue by (simp add: send_spawned_def)
qed

lemma acquired_ok:
  assumes "daemon_ok d" "dm_running d" "\<not> dm_owner d"
  shows "\<exists>d'. on_name_acquired created proxy (d\<lparr>dm_owner := True\<rparr>) = Some d' \<and> daemon_ok d'"
proof -
  let ?d = "d\<lparr>dm_owner := True, dm_already_acquired := True, dm_daemon := created,
    dm_threads := (if created then Some (dm_max_job_threads d) else dm_threads d)\<rparr>"
  have "\<not> dm_already_acquired d"
    using assms by (simp add: daemon_ok_def daemon_inv_def)
  then have "about_to_run (if created then Spawned_succeeded_cb else Spawned_failed_cb) ?d"
    using assms by (auto simp: about_to_run_def daemon_ok_def daemon_inv_def waiting_def spec_ok_def status_ok_def split: option.splits)
  from send_spawned_ok [OF this] show ?thesis
    by (cases created) (simp_all add: on_name_acquired_def)
qed

lemma lost_ok:
  assumes "daemon_ok d" "dm_running d"
  shows "\<exists>d'. on_name_lost connection proxy (d\<lparr>dm_owner := False\<rparr>) = Some d' \<and> daemon_ok d'"
proof (cases "connection \<and> \<not> dm_already_acquired d")
  case True
  then have "about_to_run Spawned_failed_cb (d\<lparr>dm_owner := False\<rparr>)"
    using assms by (auto simp: about_to_run_def daemon_ok_def daemon_inv_def waiting_def)
  from send_spawned_ok [OF this] True show ?thesis
    by (simp add: on_name_lost_def)
next
  case False
  with assms show ?thesis
    by (auto simp: on_name_lost_def daemon_ok_def daemon_inv_def waiting_def status_ok_def)
qed

lemma replied_ok:
  assumes "daemon_ok d" "dm_pending d = xs @ cb # ys"
  shows "\<exists>d'. call_spawned_cb finished cb (d\<lparr>dm_pending := xs @ ys\<rparr>) = Some d' \<and> daemon_ok d'"
proof -
  have "about_to_run cb (d\<lparr>dm_pending := xs @ ys\<rparr>)"
    using assms by (cases cb) (auto simp: about_to_run_def daemon_ok_def daemon_inv_def waiting_def)
  with run_callback_ok run_callback_defined show ?thesis
    by (fastforce simp: call_spawned_cb_def)
qed

lemma shutdown_ok: "daemon_ok d \<Longrightarrow> dm_daemon d \<Longrightarrow> daemon_ok (daemon_shutdown d)"
  by (auto simp: daemon_shutdown_def daemon_ok_def daemon_inv_def waiting_def status_ok_def)

lemma daemon_run_ok:
  assumes "daemon_run d0 d" "daemon_ok d0"
  shows "daemon_ok d"
  using assms
proof (induction rule: daemon_run.induct)
  case (run_step d d')
  from run_step.hyps(2) run_step.IH [OF run_step.prems] show ?case
  proof (cases rule: daemon_step.cases)
    case (acquired created proxy)
    with acquired_ok [of d created proxy] run_step.IH [OF run_step.prems] show ?thesis
      by simp
  next
    case (lost connection proxy)
    with lost_ok [of d connection proxy] run_step.IH [OF run_step.prems] show ?thesis
      by simp
  next
    case (replied xs cb ys finished)
    with replied_ok [of d xs cb ys finished] run_step.IH [OF run_step.prems] show ?thesis
      by simp
  next
    case shutdown
    with shutdown_ok [of d] run_step.IH [OF run_step.prems] show ?thesis
      by simp
  qed
qed

lemma callback_const:
  "run_callback cb d = Some d' \<Longrightarrow> dm_mount_spec d' = dm_mount_spec d"
  by (drule run_callback_Some) auto

lemma send_spawned_const:
  "send_spawned proxy ok code cb d = Some d' \<Longrightarrow> dm_mount_spec d' = dm_mount_spec d"
  by (auto simp: send_spawned_def dest: callback_const split: option.splits if_splits)

lemma daemon_step_const: "daemon_step d d' \<Longrightarrow> dm_mount_spec d' = dm_mount_spec d"
  by (erule daemon_stepE)
     (auto simp: on_name_acquired_def on_name_lost_def call_spawned_cb_def daemon_shutdown_def Let_def
        dest!: send_spawned_const callback_const split: if_splits)

lemma daemon_run_const: "daemon_run d0 d \<Longrightarrow> dm_mount_spec d = dm_mount_spec d0"
  by (induction rule: daemon_run.induct) (simp_all add: daemon_step_const)

section \<open>Command lines that mean a mount\<close>

definition item_ok :: "string \<times> string \<Rightarrow> bool" where
  "item_ok kv \<longleftrightarrow> fst kv \<noteq> [] \<and> CHR ''='' \<notin> set (fst kv) \<and> snd kv \<noteq> []"

definition print_item :: "string \<times> string \<Rightarrow> string" where
  "print_item kv = fst kv @ ''='' @ snd kv"

lemma split_print: "item_ok kv \<Longrightarrow> split_item (print_item kv) = Some kv"
  by (cases kv) (simp add: split_item_def print_item_def item_ok_def takeWhile_sep)

lemma split_item_Some:
  "split_item arg = Some kv \<longleftrightarrow> item_ok kv \<and> arg = print_item kv"
proof
  assume a: "split_item arg = Some kv"
  define k where "k = takeWhile (\<lambda>c. c \<noteq> CHR ''='') arg"
  from a have l: "length k \<noteq> length arg" and kv: "kv = (k, drop (length k + 1) arg)"
    "k \<noteq> []" "drop (length k + 1) arg \<noteq> []"
    by (auto simp: split_item_def k_def [symmetric] Let_def split: if_splits)
  have d: "arg = k @ dropWhile (\<lambda>c. c \<noteq> CHR ''='') arg"
    by (simp add: k_def)
  with l have "dropWhile (\<lambda>c. c \<noteq> CHR ''='') arg \<noteq> []"
    by (metis append_Nil2)
  then obtain r where r: "arg = k @ CHR ''='' # r"
    using d hd_dropWhile [of "\<lambda>c. c \<noteq> CHR ''=''" arg] by (metis list.collapse)
  moreover have "CHR ''='' \<notin> set k"
    unfolding k_def by (auto dest: set_takeWhileD)
  ultimately show "item_ok kv \<and> arg = print_item kv"
    using kv by (simp add: item_ok_def print_item_def)
qed (simp add: split_print)

lemma parse_items_print:
  "\<forall>kv\<in>set kvs. item_ok kv \<Longrightarrow>
     parse_items M (map print_item kvs) m found =
       Some (foldl (\<lambda>m (k, v). g_mount_spec_set M m k v) m kvs, found \<or> ''type'' \<in> fst ` set kvs)"
  by (induction kvs arbitrary: m found) (auto simp: split_print split_beta)

lemma parse_items_None:
  "parse_items M args m found = None \<longleftrightarrow> (\<exists>arg\<in>set args. split_item arg = None)"
  by (induction args arbitrary: m found) (auto split: option.splits)

lemma get_foldl:
  assumes "mount_spec_ok M"
  shows "g_mount_spec_get M (foldl (\<lambda>m (k, v). g_mount_spec_set M m k v) m kvs) key =
    (case map_of (rev kvs) key of Some v \<Rightarrow> Some v | None \<Rightarrow> g_mount_spec_get M m key)"
proof (induction kvs arbitrary: m)
  case (Cons kv kvs)
  with assms show ?case
    by (auto simp: split_beta mount_spec_ok_def map_add_def split: option.splits)
qed simp

lemma print_item_eq: "item_ok kv \<Longrightarrow> CHR ''='' \<in> set (print_item kv)"
  by (simp add: print_item_def)

section \<open>Properties\<close>

text \<open>
  A command line of well-formed items is read back: with any program name, an optional
  \<open>--debug\<close> first and a default type (or an item \<open>type\<close>), \<open>daemon_parse_args\<close> yields a mount
  specification in which each key has the value of its last item, the type defaulting, and no
  spawner; without items and without a default there is no initial mount.
\<close>

theorem parse_args_roundtrip:
  assumes "mount_spec_ok M" "\<forall>kv\<in>set kvs. item_ok kv"
    and "default_type \<noteq> None \<or> ''type'' \<in> fst ` set kvs"
  shows "\<exists>m. daemon_parse_args M gvfs_debug (prog # (if debug then [''--debug''] else []) @ map print_item kvs) default_type =
      Inr (debug \<or> gvfs_debug, None, Some m) \<and>
    (\<forall>key. g_mount_spec_get M m key =
       (case map_of (rev kvs) key of
          Some v \<Rightarrow> Some v
        | None \<Rightarrow> if key = ''type'' then default_type else None))"
proof -
  have no: "print_item kv \<noteq> ''--debug''" "print_item kv \<noteq> ''--spawner''" if "kv \<in> set kvs" for kv
    using assms(2) that print_item_eq by fastforce+
  let ?m = "foldl (\<lambda>m (k, v). g_mount_spec_set M m k v) (g_mount_spec_new M default_type) kvs"
  have p: "parse_items M (map print_item kvs) (g_mount_spec_new M default_type) (default_type \<noteq> None) = Some (?m, True)"
    using assms(3) by (auto simp: parse_items_print [OF assms(2)])
  have "daemon_parse_args M gvfs_debug (prog # (if debug then [''--debug''] else []) @ map print_item kvs) default_type =
      Inr (debug \<or> gvfs_debug, None, Some ?m)"
    using assms(3) no p by (cases kvs; cases debug) (auto simp: daemon_parse_args_def)
  moreover have "g_mount_spec_get M (g_mount_spec_new M default_type) key = (if key = ''type'' then default_type else None)" for key
    using assms(1) by (simp add: mount_spec_ok_def)
  ultimately show ?thesis
    by (auto simp: get_foldl [OF assms(1)] split: option.splits)
qed

definition map_spec :: "(string \<rightharpoonup> string) mount_spec_lib" where
  "map_spec = \<lparr>g_mount_spec_new = (\<lambda>t k. if k = ''type'' then t else None),
               g_mount_spec_set = (\<lambda>m k v. m(k \<mapsto> v)), g_mount_spec_get = (\<lambda>m k. m k)\<rparr>"

lemma map_spec_ok: "mount_spec_ok map_spec"
  by (simp add: mount_spec_ok_def map_spec_def)

theorem parse_args_roundtrip_witness:
  "\<exists>m. daemon_parse_args map_spec False [''gvfsd-proton'', ''--debug'', ''host=a@b'', ''host=c=d''] (Some ''proton'') =
     Inr (True, None, Some m) \<and> g_mount_spec_get map_spec m ''host'' = Some ''c=d'' \<and>
     g_mount_spec_get map_spec m ''type'' = Some ''proton''"
proof -
  have "\<forall>kv\<in>set [(''host'', ''a@b''), (''host'', ''c=d'')]. item_ok kv"
    by (simp add: item_ok_def)
  from parse_args_roundtrip [OF map_spec_ok this, of "Some ''proton''" False "''gvfsd-proton''" True]
  show ?thesis
    by (auto simp: print_item_def)
qed

text \<open>
  Everything else is refused: arguments that are neither \<open>--debug\<close>, a complete
  \<open>--spawner id path\<close> nor all of the form \<open>key=value\<close> end the process with status 1.
\<close>

theorem parse_args_rejects:
  assumes "arg \<in> set args" "\<forall>kv. item_ok kv \<longrightarrow> arg \<noteq> print_item kv"
    and "hd args \<noteq> ''--debug''" "hd args \<noteq> ''--spawner'' \<or> length args < 3"
  shows "daemon_parse_args M gvfs_debug (prog # args) default_type = Inl 1"
proof -
  have "split_item arg = None"
    using assms(2) by (metis not_None_eq split_item_Some)
  with assms(1) have "parse_items M args m found = None" for m found
    by (auto simp: parse_items_None)
  with assms(1,3,4) show ?thesis
    by (cases args) (auto simp: daemon_parse_args_def)
qed

theorem parse_args_rejects_witness:
  "daemon_parse_args map_spec False [''gvfsd-proton'', ''host=a'', ''port=''] (Some ''proton'') = Inl 1"
proof -
  have "split_item ''port='' = None"
    by (simp add: split_item_def)
  then have "\<forall>kv. item_ok kv \<longrightarrow> ''port='' \<noteq> print_item kv"
    by (metis option.distinct(1) split_print)
  from parse_args_rejects [OF _ this, of "[''host=a'', ''port='']"] show ?thesis
    by simp
qed

text \<open>
  C37. The initial mount is requested at most once, of a daemon that exists, and only after the
  bus name was acquired; in no reachable state does a callback use the mount specification after
  its release; and the exit status is honest: 0 or 1, and 1 whenever the loop ended before the
  name was acquired.
\<close>

theorem daemon_mounts_at_most_once:
  assumes "daemon_start M gvfs_debug pid argv threads default_type name types = Inr d0" "daemon_run d0 d"
  shows "(dm_mounts d = [] \<or> (\<exists>m. dm_mounts d = [m] \<and> dm_mount_spec d0 = Some m \<and> dm_daemon d \<and> dm_already_acquired d)) \<and>
    (dm_running d \<longrightarrow>
       (\<forall>created proxy. \<not> dm_owner d \<longrightarrow> on_name_acquired created proxy (d\<lparr>dm_owner := True\<rparr>) \<noteq> stuck) \<and>
       (\<forall>connection proxy. on_name_lost connection proxy (d\<lparr>dm_owner := False\<rparr>) \<noteq> stuck) \<and>
       (\<forall>finished xs cb ys. dm_pending d = xs @ cb # ys \<longrightarrow>
          call_spawned_cb finished cb (d\<lparr>dm_pending := xs @ ys\<rparr>) \<noteq> stuck)) \<and>
    (exit_status d = None \<or> exit_status d = Some 1 \<or> exit_status d = Some 0 \<and> dm_already_acquired d)"
proof -
  have ok: "daemon_ok d"
    using daemon_run_ok [OF assms(2) started_ok [OF daemon_start_started [OF assms(1)]]] .
  have mounts: "dm_mounts d = [] \<or> (\<exists>m. dm_mounts d = [m] \<and> dm_mount_spec d0 = Some m \<and> dm_daemon d \<and> dm_already_acquired d)"
    using ok daemon_run_const [OF assms(2)]
    by (cases "dm_mount_spec d") (auto simp: daemon_ok_def daemon_inv_def spec_ok_def split: option.splits)
  have status: "exit_status d = None \<or> exit_status d = Some 1 \<or> exit_status d = Some 0 \<and> dm_already_acquired d"
    using ok by (auto simp: daemon_ok_def daemon_inv_def status_ok_def exit_status_def)
  have "on_name_acquired created proxy (d\<lparr>dm_owner := True\<rparr>) \<noteq> stuck" if "dm_running d" "\<not> dm_owner d" for created proxy
    using acquired_ok [OF ok that] by auto
  moreover have "on_name_lost connection proxy (d\<lparr>dm_owner := False\<rparr>) \<noteq> stuck" if "dm_running d" for connection proxy
    using lost_ok [OF ok that] by auto
  moreover have "call_spawned_cb finished cb (d\<lparr>dm_pending := xs @ ys\<rparr>) \<noteq> stuck" if "dm_pending d = xs @ cb # ys" for finished xs cb ys
    using replied_ok [OF ok that] by auto
  ultimately show ?thesis
    using mounts status by blast
qed

definition sample_daemon :: "(string \<rightharpoonup> string) daemon" where
  "sample_daemon =
     \<lparr>dm_spawner = None, dm_mount_spec = Some (g_mount_spec_new map_spec (Some ''proton'')), dm_spec_refs = 1,
      dm_max_job_threads = 10, dm_mountable_name = ''n'', dm_backend_types = [''proton''], dm_already_acquired = False,
      dm_process_result = 0, dm_running = True, dm_daemon = False, dm_threads = None, dm_mounts = [], dm_sent = [],
      dm_pending = [], dm_owner = False\<rparr>"

lemma sample_daemon_start:
  "daemon_start map_spec False 1 [''gvfsd-proton''] 10 (Some ''proton'') (Some ''n'') [''proton''] = Inr sample_daemon"
  by (simp add: daemon_start_def daemon_parse_args_def sample_daemon_def)

theorem daemon_mounts_at_most_once_witness:
  "\<exists>d. daemon_run sample_daemon d \<and> length (dm_mounts d) = 1 \<and> on_name_lost True True (d\<lparr>dm_owner := False\<rparr>) \<noteq> stuck"
proof -
  let ?d = "sample_daemon\<lparr>dm_owner := True, dm_already_acquired := True, dm_daemon := True, dm_threads := Some 10,
      dm_mounts := [g_mount_spec_new map_spec (Some ''proton'')], dm_spec_refs := 0\<rparr>"
  have "daemon_step sample_daemon ?d"
    by (rule daemon_step.acquired [where created = True and proxy = True])
       (simp_all add: sample_daemon_def on_name_acquired_def send_spawned_def spawned_succeeded_cb_def)
  then have run: "daemon_run sample_daemon ?d"
    by (rule daemon_run.run_step [OF daemon_run.run_start])
  have "dm_running ?d"
    by (simp add: sample_daemon_def)
  with daemon_mounts_at_most_once [OF sample_daemon_start run]
  have "on_name_lost True True (?d\<lparr>dm_owner := False\<rparr>) \<noteq> stuck"
    by blast
  with run show ?thesis
    by (intro exI [where x = ?d]) simp
qed

end
