(* ===== verification/Go_Path.thy ===== *)
theory Go_Path
  imports Prelude
begin

text \<open>
  What the helper uses of Go's packages \<open>path\<close> and \<open>strings\<close> on slash-separated paths: \<open>Clean\<close>,
  \<open>Dir\<close>, \<open>Base\<close>, \<open>Split\<close>, \<open>TrimRight\<close> and \<open>TrimPrefix\<close>, and the absolute paths they produce as
  lists of names.
\<close>

section \<open>Splitting and joining\<close>

abbreviation slash :: char where
  "slash \<equiv> CHR 0x2F"

text \<open>\<open>strings.Split(s, "/")\<close> and \<open>strings.Join(xs, "/")\<close>.\<close>

fun split_slash :: "string \<Rightarrow> string list" where
  "split_slash [] = [[]]"
| "split_slash (c # s) =
     (if c = slash then [] # split_slash s
      else (case split_slash s of [] \<Rightarrow> [[c]] | x # xs \<Rightarrow> (c # x) # xs))"

fun join_slash :: "string list \<Rightarrow> string" where
  "join_slash [] = []"
| "join_slash [x] = x"
| "join_slash (x # y # zs) = x @ slash # join_slash (y # zs)"

definition trim_right_slash :: "string \<Rightarrow> string" where
  "trim_right_slash s = rev (dropWhile ((=) slash) (rev s))"

definition trim_prefix_slash :: "string \<Rightarrow> string" where
  "trim_prefix_slash s = (case s of [] \<Rightarrow> [] | c # r \<Rightarrow> if c = slash then r else s)"

lemma split_slash_nonempty [simp]: "split_slash s \<noteq> []"
  by (induction s) (auto split: list.splits)

lemma split_slash_no_slash: "x \<in> set (split_slash s) \<Longrightarrow> slash \<notin> set x"
  by (induction s arbitrary: x) (auto split: if_splits list.splits)

lemma split_slash_plain: "slash \<notin> set x \<Longrightarrow> split_slash x = [x]"
  by (induction x) auto

lemma split_slash_append: "slash \<notin> set x \<Longrightarrow> split_slash (x @ slash # s) = x # split_slash s"
  by (induction x) auto

lemma split_join_slash: "xs \<noteq> [] \<Longrightarrow> \<forall>x \<in> set xs. slash \<notin> set x \<Longrightarrow> split_slash (join_slash xs) = xs"
  by (induction xs rule: join_slash.induct) (auto simp: split_slash_plain split_slash_append)

lemma join_slash_Cons: "join_slash (x # xs) = (if xs = [] then x else x @ slash # join_slash xs)"
  by (cases xs) auto

lemma join_slash_snoc: "join_slash (xs @ [x]) = (if xs = [] then x else join_slash xs @ slash # x)"
  by (induction xs) (auto simp: join_slash_Cons)

lemma join_slash_append:
  "xs \<noteq> [] \<Longrightarrow> ys \<noteq> [] \<Longrightarrow> join_slash (xs @ ys) = join_slash xs @ slash # join_slash ys"
  by (induction xs) (auto simp: join_slash_Cons)

section \<open>Package path\<close>

text \<open>
  One element of the input of \<open>Clean\<close>, on the stack of the elements kept so far: empty elements
  and dots are dropped, a double dot removes the element before it or, at the root, nothing.
\<close>

definition clean_step :: "bool \<Rightarrow> string \<Rightarrow> string list \<Rightarrow> string list" where
  "clean_step rooted e stk =
     (if e = [] \<or> e = ''.'' then stk
      else if e = ''..'' then
        (if stk \<noteq> [] \<and> hd stk \<noteq> ''..'' then tl stk else if rooted then stk else e # stk)
      else e # stk)"

definition path_Clean :: "string \<Rightarrow> string" where
  "path_Clean p =
     (let rooted = (p \<noteq> [] \<and> hd p = slash);
          elems = rev (fold (clean_step rooted) (split_slash p) [])
      in if rooted then slash # join_slash elems
         else if elems = [] then ''.'' else join_slash elems)"

definition path_Dir :: "string \<Rightarrow> string" where
  "path_Dir p = path_Clean (rev (dropWhile (\<lambda>c. c \<noteq> slash) (rev p)))"

definition path_Base :: "string \<Rightarrow> string" where
  "path_Base p =
     (if p = [] then ''.''
      else (let last = rev (takeWhile (\<lambda>c. c \<noteq> slash) (rev (trim_right_slash p))) in
            if last = [] then [slash] else last))"

section \<open>Absolute paths as lists of names\<close>

definition name_ok :: "string \<Rightarrow> bool" where
  "name_ok n \<longleftrightarrow> n \<noteq> [] \<and> n \<noteq> ''.'' \<and> n \<noteq> ''..'' \<and> slash \<notin> set n"

definition abs_path :: "string list \<Rightarrow> string" where
  "abs_path ns = slash # join_slash ns"

text \<open>The names that an absolute path comes down to.\<close>

definition clean_names :: "string \<Rightarrow> string list" where
  "clean_names p = rev (fold (clean_step True) (split_slash p) [])"

lemma clean_step_ok:
  "slash \<notin> set e \<Longrightarrow> \<forall>n \<in> set stk. name_ok n \<Longrightarrow> \<forall>n \<in> set (clean_step True e stk). name_ok n"
  by (cases stk) (auto simp: clean_step_def name_ok_def)

lemma fold_clean_step_ok:
  "\<forall>e \<in> set es. slash \<notin> set e \<Longrightarrow> \<forall>n \<in> set stk. name_ok n \<Longrightarrow>
     \<forall>n \<in> set (fold (clean_step True) es stk). name_ok n"
proof (induction es arbitrary: stk)
  case (Cons e es)
  then show ?case
    using clean_step_ok [of e stk] by simp
qed simp

lemma clean_names_ok: "\<forall>n \<in> set (clean_names p). name_ok n"
  using fold_clean_step_ok [of "split_slash p" "[]"] split_slash_no_slash [of _ p]
  by (auto simp: clean_names_def)

lemma fold_clean_step_names:
  "\<forall>n \<in> set ns. name_ok n \<Longrightarrow> fold (clean_step True) ns stk = rev ns @ stk"
  by (induction ns arbitrary: stk) (auto simp: clean_step_def name_ok_def)

lemma path_Clean_slash: "path_Clean (slash # p) = abs_path (clean_names p)"
  by (simp add: path_Clean_def abs_path_def clean_names_def clean_step_def)

lemma clean_names_join:
  assumes "\<forall>n \<in> set ns. name_ok n"
  shows "clean_names (join_slash ns) = ns"
proof (cases "ns = []")
  case True
  then show ?thesis by (simp add: clean_names_def clean_step_def)
next
  case False
  moreover have "\<forall>n \<in> set ns. slash \<notin> set n"
    using assms by (simp add: name_ok_def)
  ultimately show ?thesis
    using assms by (simp add: clean_names_def split_join_slash fold_clean_step_names)
qed

lemma path_Clean_abs [simp]: "\<forall>n \<in> set ns. name_ok n \<Longrightarrow> path_Clean (abs_path ns) = abs_path ns"
  by (simp add: abs_path_def [of ns] path_Clean_slash clean_names_join)

lemma clean_names_slash [simp]: "clean_names (slash # p) = clean_names p"
  by (simp add: clean_names_def clean_step_def)

lemma clean_names_abs [simp]: "\<forall>n \<in> set ns. name_ok n \<Longrightarrow> clean_names (abs_path ns) = ns"
  by (simp add: abs_path_def clean_names_join)

lemma abs_path_inj:
  "\<forall>n \<in> set ns. name_ok n \<Longrightarrow> \<forall>n \<in> set ms. name_ok n \<Longrightarrow> abs_path ns = abs_path ms \<longleftrightarrow> ns = ms"
  by (metis clean_names_abs)

lemma abs_path_root: "\<forall>n \<in> set ns. name_ok n \<Longrightarrow> abs_path ns = [slash] \<longleftrightarrow> ns = []"
  using abs_path_inj [of ns "[]"] by (simp add: abs_path_def)

lemma abs_path_snoc: "abs_path (ns @ [n]) = (if ns = [] then slash # n else abs_path ns @ slash # n)"
  by (simp add: abs_path_def join_slash_snoc)

text \<open>The parent and the last name of a path.\<close>

lemma dropWhile_rev_name:
  "slash \<notin> set n \<Longrightarrow> dropWhile (\<lambda>c. c \<noteq> slash) (rev (xs @ slash # n)) = slash # rev xs"
  by (simp, subst dropWhile_append2) auto

lemma takeWhile_rev_name:
  "slash \<notin> set n \<Longrightarrow> takeWhile (\<lambda>c. c \<noteq> slash) (rev (xs @ slash # n)) = rev n"
  by (simp, subst takeWhile_append2) auto

lemma abs_path_split:
  obtains xs where "abs_path (ns @ [n]) = xs @ slash # n"
    "xs = (if ns = [] then [] else abs_path ns)"
  by (simp add: abs_path_snoc)

lemma split_slash_snoc: "split_slash (s @ [slash]) = split_slash s @ [[]]"
  by (induction s) (auto split: list.splits)

lemma clean_names_snoc [simp]: "clean_names (s @ [slash]) = clean_names s"
  by (simp add: clean_names_def split_slash_snoc clean_step_def)

lemma path_Dir_abs [simp]:
  assumes "\<forall>x \<in> set ns. name_ok x" "name_ok n"
  shows "path_Dir (abs_path (ns @ [n])) = abs_path ns"
proof -
  from assms(2) have n: "slash \<notin> set n"
    by (simp add: name_ok_def)
  show ?thesis
  proof (cases "ns = []")
    case True
    then show ?thesis
      using dropWhile_rev_name [OF n, of "[]"]
      by (simp add: path_Dir_def abs_path_def path_Clean_def clean_step_def)
  next
    case False
    then have "path_Dir (abs_path (ns @ [n])) = path_Clean (rev (slash # rev (abs_path ns)))"
      using dropWhile_rev_name [OF n, of "abs_path ns"] abs_path_snoc [of ns n]
      by (simp only: path_Dir_def if_False)
    also have "\<dots> = path_Clean (slash # (join_slash ns @ [slash]))"
      by (simp add: abs_path_def)
    also have "\<dots> = abs_path ns"
      using assms(1) by (simp only: path_Clean_slash clean_names_snoc clean_names_join)
    finally show ?thesis .
  qed
qed

lemma trim_right_slash_id: "s \<noteq> [] \<Longrightarrow> last s \<noteq> slash \<Longrightarrow> trim_right_slash s = s"
  by (cases s rule: rev_cases) (auto simp: trim_right_slash_def)

lemma name_ok_last: "name_ok n \<Longrightarrow> n \<noteq> [] \<and> last n \<noteq> slash"
  by (auto simp: name_ok_def dest: last_in_set)

lemma path_Base_abs [simp]:
  assumes "name_ok n"
  shows "path_Base (abs_path (ns @ [n])) = n"
proof -
  obtain xs where xs: "abs_path (ns @ [n]) = xs @ slash # n"
    by (rule abs_path_split)
  moreover have "trim_right_slash (xs @ slash # n) = xs @ slash # n"
    using name_ok_last [OF assms] by (intro trim_right_slash_id) auto
  moreover have "slash \<notin> set n" "n \<noteq> []"
    using assms by (simp_all add: name_ok_def)
  ultimately show ?thesis
    using takeWhile_rev_name [of n xs] by (simp add: path_Base_def)
qed

text \<open>A child's path as the event poller builds it.\<close>

lemma child_path_abs:
  assumes "\<forall>x \<in> set ns. name_ok x"
  shows "trim_right_slash (abs_path ns) @ slash # n = abs_path (ns @ [n])"
proof (cases ns rule: rev_cases)
  case Nil
  then show ?thesis by (simp add: abs_path_def trim_right_slash_def)
next
  case (snoc ms m)
  then obtain xs where "abs_path ns = xs @ slash # m"
    using abs_path_split [of ms m] by auto
  then have "trim_right_slash (abs_path ns) = abs_path ns"
    using assms snoc name_ok_last [of m] by (intro trim_right_slash_id) auto
  then show ?thesis
    using abs_path_snoc [of ns n] snoc by simp
qed

text \<open>The paths below a directory other than the root are those that extend it by a slash.\<close>

lemma below_iff_prefix:
  assumes "\<forall>x \<in> set ns. name_ok x" "\<forall>x \<in> set ms. name_ok x" "ns \<noteq> []"
  shows "prefix (abs_path ns @ [slash]) (abs_path ms) \<longleftrightarrow> strict_prefix ns ms"
proof
  assume "strict_prefix ns ms"
  then obtain ks where "ms = ns @ ks" "ks \<noteq> []"
    by (auto elim: strict_prefixE')
  then show "prefix (abs_path ns @ [slash]) (abs_path ms)"
    using assms(3) by (simp add: abs_path_def join_slash_append)
next
  assume "prefix (abs_path ns @ [slash]) (abs_path ms)"
  then obtain r where r: "join_slash ms = join_slash ns @ slash # r"
    by (auto simp: abs_path_def prefix_def)
  have ms: "ms \<noteq> []"
    using r by auto
  have slashes: "\<forall>x \<in> set ns. slash \<notin> set x" "\<forall>x \<in> set ms. slash \<notin> set x"
    using assms(1,2) by (simp_all add: name_ok_def)
  have "split_slash (join_slash ns @ slash # r) = ns @ split_slash r"
    using assms(3) slashes(1)
    by (induction ns) (auto simp: join_slash_Cons split_slash_append)
  then have "ms = ns @ split_slash r"
    using r split_join_slash [OF ms slashes(2)] by simp
  then show "strict_prefix ns ms"
    by (simp add: strict_prefix_def)
qed

end
