(* ===== verification/Proton_Api.thy ===== *)
theory Proton_Api
  imports Json_Glib
begin

text \<open>
  The Proton API as the helper sees it. The client library (\<open>go-proton-api\<close>), the cryptography,
  the clock and the disk are not part of the repository: they are the fields of a record whose
  functions act on a world of type \<open>'w\<close>. The errors are those of \<open>src/helper/drive/errors.go\<close>.
\<close>

section \<open>Errors\<close>

text \<open>
  An error by what \<open>errors.As\<close> and \<open>errors.Is\<close> can find out about it: a network error, the expired
  deadline, an answer of the API with its code, as a \<open>proton.APIError\<close> or as a pointer to one (two types for
  \<open>errors.As\<close>), the sentinel values of the package, any other error, or an error wrapped with \<open>%w\<close> behind a text.
\<close>

datatype drive_error =
    Net_Error string
  | DeadlineExceeded
  | APIError int string
  | APIError_ptr int string
  | Drive_ErrOffline
  | Drive_ErrAlreadyExists
  | Errorf string
  | Wrapped string drive_error

fun Error :: "drive_error \<Rightarrow> string" where
  "Error (Net_Error m) = m"
| "Error DeadlineExceeded = ''context deadline exceeded''"
| "Error (APIError c m) = m"
| "Error (APIError_ptr c m) = m"
| "Error Drive_ErrOffline = ''offline: no cached data available''"
| "Error Drive_ErrAlreadyExists = ''already exists''"
| "Error (Errorf m) = m"
| "Error (Wrapped m e) = m @ Error e"

fun isOfflineError :: "drive_error \<Rightarrow> bool" where
  "isOfflineError (Net_Error _) = True"
| "isOfflineError DeadlineExceeded = True"
| "isOfflineError (Wrapped _ e) = isOfflineError e"
| "isOfflineError _ = False"

text \<open>\<open>errors.Is\<close> for the two sentinels, \<open>errors.As\<close> for the API's code 2500.\<close>

fun is_ErrOffline :: "drive_error \<Rightarrow> bool" where
  "is_ErrOffline Drive_ErrOffline = True"
| "is_ErrOffline (Wrapped _ e) = is_ErrOffline e"
| "is_ErrOffline _ = False"

fun is_ErrAlreadyExists :: "drive_error \<Rightarrow> bool" where
  "is_ErrAlreadyExists Drive_ErrAlreadyExists = True"
| "is_ErrAlreadyExists (Wrapped _ e) = is_ErrAlreadyExists e"
| "is_ErrAlreadyExists _ = False"

fun isAlreadyExistsError :: "drive_error \<Rightarrow> bool" where
  "isAlreadyExistsError (APIError c _) = (c = 2500)"
| "isAlreadyExistsError (Wrapped _ e) = isAlreadyExistsError e"
| "isAlreadyExistsError _ = False"

text \<open>\<open>errors.As\<close> for \<open>*proton.APIError\<close>, with which a log-in looks for a human verification.\<close>

fun api_error_ptr :: "drive_error \<Rightarrow> drive_error option" where
  "api_error_ptr (APIError_ptr c m) = Some (APIError_ptr c m)"
| "api_error_ptr (Wrapped _ e) = api_error_ptr e"
| "api_error_ptr _ = None"

text \<open>
  The two lookups are for different types: an error in which one finds an answer of the API is
  none for the other, whatever the client library returns.
\<close>

lemma api_errors_disjoint:
  "isAlreadyExistsError e \<Longrightarrow> api_error_ptr e = None"
  "api_error_ptr e = Some x \<Longrightarrow> \<not> isAlreadyExistsError e"
  by (induction e) auto

section \<open>Links, revisions and events of the API\<close>

datatype link_type = LinkTypeFolder | LinkTypeFile | LinkType_other nat

datatype link_state =
  LinkStateDraft | LinkStateActive | LinkStateTrashed | LinkStateDeleted | LinkState_other nat

record revision_meta =
  rm_ID :: string
  rm_CreateTime :: gint64
  rm_Thumbnail :: bool

text \<open>The fields of \<open>proton.Link\<close> that the helper reads; the encrypted ones are kept as text.\<close>

record link =
  lk_LinkID :: string
  lk_ParentLinkID :: string
  lk_Type :: link_type
  lk_State :: link_state
  lk_Name :: string
  lk_NodeKey :: string
  lk_Size :: gint64
  lk_CreateTime :: gint64
  lk_ModifyTime :: gint64
  lk_ActiveRevision :: "revision_meta option" \<comment> \<open>\<open>FileProperties\<close>; nil for a folder\<close>

record api_block =
  bk_Index :: int
  bk_BareURL :: string
  bk_Token :: string

datatype link_event_type =
  LinkEventDelete | LinkEventCreate | LinkEventUpdate | LinkEventUpdateMetadata

record link_event =
  le_EventType :: link_event_type
  le_Link :: link

record volume_event =
  ve_EventID :: string
  ve_Refresh :: bool
  ve_Events :: "link_event list"

section \<open>The API, the keys and the clock\<close>

record ('w, 'k) proton_api =
  api_GetLink :: "string \<Rightarrow> string \<Rightarrow> 'w \<Rightarrow> (drive_error + link) \<times> 'w"
  api_ListChildren :: "string \<Rightarrow> string \<Rightarrow> 'w \<Rightarrow> (drive_error + link list) \<times> 'w"
  api_GetShareKR :: "string \<Rightarrow> 'k \<Rightarrow> 'w \<Rightarrow> (drive_error + 'k) \<times> 'w"
    \<comment> \<open>\<open>GetShare\<close> and the share's \<open>GetKeyRing\<close>\<close>
  api_GetRevision :: "string \<Rightarrow> string \<Rightarrow> string \<Rightarrow> int \<Rightarrow> nat \<Rightarrow> 'w \<Rightarrow> (drive_error + api_block list) \<times> 'w"
  api_GetBlock :: "string \<Rightarrow> string \<Rightarrow> 'w \<Rightarrow> (drive_error + byte list) \<times> 'w"
  api_GetLatestVolumeEventID :: "string \<Rightarrow> 'w \<Rightarrow> (drive_error + string) \<times> 'w"
  api_GetVolumeEvent :: "string \<Rightarrow> string \<Rightarrow> 'w \<Rightarrow> (drive_error + volume_event) \<times> 'w"
  api_TrashChildren :: "string \<Rightarrow> string \<Rightarrow> string \<Rightarrow> 'w \<Rightarrow> drive_error option \<times> 'w"
  api_DeleteChildren :: "string \<Rightarrow> string \<Rightarrow> string \<Rightarrow> 'w \<Rightarrow> drive_error option \<times> 'w"
  GetName :: "link \<Rightarrow> 'k \<Rightarrow> 'k \<Rightarrow> drive_error + string"
  GetKeyRing :: "link \<Rightarrow> 'k \<Rightarrow> 'k \<Rightarrow> drive_error + 'k"
  GetSessionKey :: "link \<Rightarrow> 'k \<Rightarrow> drive_error + 'k"
  Decrypt :: "'k \<Rightarrow> byte list \<Rightarrow> drive_error + byte list"
  time_Now :: "'w \<Rightarrow> int \<times> 'w"

text \<open>A call of the API leads to a result and a new world; an error ends the function.\<close>

lemma sum_case_Inr: "x = Inr y \<Longrightarrow> case_sum f g x = g y"
  by simp

end
