(* ===== verification/Meta_Cache.thy ===== *)
theory Meta_Cache
  imports Go_Path Proton_Api
begin

text \<open>
  The metadata cache of \<open>src/helper/drive/metacache.go\<close>: two maps with a time stamp per entry, one
  for \<open>Stat\<close> results and one for directory listings. Every method holds the mutex for its whole
  body, so a method is one step. The time is an argument; a Go map is a function into \<open>option\<close>,
  and where the code ranges over one, the order of the iteration is an argument.
\<close>

named_theorems meta_simps \<open>what every method does to the lookups\<close>

section \<open>State and methods\<close>

record 'k metaStatEntry =
  mse_link :: link
  mse_parentKR :: 'k
  mse_cachedAt :: int

record 'k metaListEntry =
  mle_links :: "link list"
  mle_parentKR :: 'k
  mle_cachedAt :: int

record 'k MetaCache =
  mc_ttl :: int
  mc_stats :: "string \<Rightarrow> 'k metaStatEntry option"
  mc_lists :: "string \<Rightarrow> 'k metaListEntry option"

definition defaultMetaTTL :: int where
  "defaultMetaTTL = 30 * 1000000000"

definition NewMetaCache :: "int \<Rightarrow> 'k MetaCache" where
  "NewMetaCache ttl =
     \<lparr>mc_ttl = (if ttl = 0 then defaultMetaTTL else ttl), mc_stats = Map.empty, mc_lists = Map.empty\<rparr>"

definition GetStat :: "int \<Rightarrow> string \<Rightarrow> 'k MetaCache \<Rightarrow> (link \<times> 'k) option" where
  "GetStat now p c =
     (case mc_stats c p of
        None \<Rightarrow> None
      | Some e \<Rightarrow> if now - mse_cachedAt e \<ge> mc_ttl c then None else Some (mse_link e, mse_parentKR e))"

definition SetStat :: "int \<Rightarrow> string \<Rightarrow> link \<times> 'k \<Rightarrow> 'k MetaCache \<Rightarrow> 'k MetaCache" where
  "SetStat now p v c =
     c\<lparr>mc_stats := (mc_stats c)
         (p \<mapsto> \<lparr>mse_link = fst v, mse_parentKR = snd v, mse_cachedAt = now\<rparr>)\<rparr>"

definition GetStatStale :: "string \<Rightarrow> 'k MetaCache \<Rightarrow> (link \<times> 'k) option" where
  "GetStatStale p c =
     (case mc_stats c p of None \<Rightarrow> None | Some e \<Rightarrow> Some (mse_link e, mse_parentKR e))"

definition GetList :: "int \<Rightarrow> string \<Rightarrow> 'k MetaCache \<Rightarrow> (link list \<times> 'k) option" where
  "GetList now dirPath c =
     (case mc_lists c dirPath of
        None \<Rightarrow> None
      | Some e \<Rightarrow> if now - mle_cachedAt e \<ge> mc_ttl c then None else Some (mle_links e, mle_parentKR e))"

definition SetList :: "int \<Rightarrow> string \<Rightarrow> link list \<times> 'k \<Rightarrow> 'k MetaCache \<Rightarrow> 'k MetaCache" where
  "SetList now dirPath v c =
     c\<lparr>mc_lists := (mc_lists c)
         (dirPath \<mapsto> \<lparr>mle_links = fst v, mle_parentKR = snd v, mle_cachedAt = now\<rparr>)\<rparr>"

definition GetListStale :: "string \<Rightarrow> 'k MetaCache \<Rightarrow> (link list \<times> 'k) option" where
  "GetListStale dirPath c =
     (case mc_lists c dirPath of None \<Rightarrow> None | Some e \<Rightarrow> Some (mle_links e, mle_parentKR e))"

text \<open>\<open>delete(m, k)\<close>.\<close>

definition map_delete :: "'a \<Rightarrow> ('a \<Rightarrow> 'b option) \<Rightarrow> 'a \<Rightarrow> 'b option" where
  "map_delete k m = m(k := None)"

definition meta_InvalidatePath :: "string \<Rightarrow> 'k MetaCache \<Rightarrow> 'k MetaCache" where
  "meta_InvalidatePath p c =
     (if p = [] then c
      else c\<lparr>mc_stats := map_delete p (mc_stats c),
             mc_lists := map_delete (path_Dir p) (map_delete p (mc_lists c))\<rparr>)"

text \<open>The scan ends at the first entry, in the order of the iteration, that has the id.\<close>

definition meta_invalidateLinkID :: "string list \<Rightarrow> string \<Rightarrow> 'k MetaCache \<Rightarrow> 'k MetaCache" where
  "meta_invalidateLinkID order linkID c =
     (case List.find (\<lambda>p. case mc_stats c p of
                            None \<Rightarrow> False
                          | Some e \<Rightarrow> lk_LinkID (mse_link e) = linkID) order of
        None \<Rightarrow> c
      | Some p \<Rightarrow>
          c\<lparr>mc_stats := map_delete p (mc_stats c),
            mc_lists := map_delete (path_Dir p) (map_delete p (mc_lists c))\<rparr>)"

definition meta_invalidateAll :: "'k MetaCache \<Rightarrow> 'k MetaCache" where
  "meta_invalidateAll c = c\<lparr>mc_stats := Map.empty, mc_lists := Map.empty\<rparr>"

section \<open>The interface of a cache with a time to live\<close>

text \<open>
  What \<open>Session\<close> relies on: a value is found for less than the time to live after it was stored,
  and without a time limit by the stale lookup; storing under one key leaves the others alone.
\<close>

locale ttl_cache =
  fixes get :: "int \<Rightarrow> 'key \<Rightarrow> 'c \<Rightarrow> 'v option"
    and stale :: "'key \<Rightarrow> 'c \<Rightarrow> 'v option"
    and store :: "int \<Rightarrow> 'key \<Rightarrow> 'v \<Rightarrow> 'c \<Rightarrow> 'c"
    and ttl :: "'c \<Rightarrow> int"
  assumes get_store: "get now k (store t j v c) =
      (if k = j then if now - t < ttl c then Some v else None else get now k c)"
    and stale_store: "stale k (store t j v c) = (if k = j then Some v else stale k c)"
    and ttl_store: "ttl (store t j v c) = ttl c"
    and get_stale: "get now k c = Some v \<Longrightarrow> stale k c = Some v"
    and get_earlier: "get now k c = Some v \<Longrightarrow> before \<le> now \<Longrightarrow> get before k c = Some v"
begin

lemma store_hit: "now - t < ttl c \<Longrightarrow> get now k (store t k v c) = Some v"
  by (simp add: get_store)

lemma store_expires: "ttl c \<le> now - t \<Longrightarrow> get now k (store t k v c) = None"
  by (simp add: get_store)

lemma expired_stays: "get now k c = None \<Longrightarrow> now \<le> later \<Longrightarrow> get later k c = None"
  using get_earlier [of later k c _ now] by (cases "get later k c") auto

lemma store_again: "get now k (store t k v (store t' k v' c)) = get now k (store t k v c)"
  by (simp add: get_store ttl_store)

lemma stale_miss: "stale k c = None \<Longrightarrow> get now k c = None"
  using get_stale [of now k c] by (cases "get now k c") auto

end

interpretation stat_cache: ttl_cache GetStat GetStatStale SetStat mc_ttl
  by unfold_locales (auto simp: GetStat_def SetStat_def GetStatStale_def split: option.splits if_splits)

interpretation list_cache: ttl_cache GetList GetListStale SetList mc_ttl
  by unfold_locales (auto simp: GetList_def SetList_def GetListStale_def split: option.splits if_splits)

section \<open>What each method does to the stale lookups\<close>

lemma GetStat_stale:
  "GetStat now p c =
     (case mc_stats c p of
        Some e \<Rightarrow> if now - mse_cachedAt e < mc_ttl c then GetStatStale p c else None | None \<Rightarrow> None)"
  by (auto simp: GetStat_def GetStatStale_def split: option.splits)

lemma new_lookups [meta_simps]:
  "mc_stats (NewMetaCache ttl) = Map.empty" "mc_lists (NewMetaCache ttl) = Map.empty"
  by (simp_all add: NewMetaCache_def)

lemma set_lookups [meta_simps]:
  "mc_lists (SetStat now p v c) = mc_lists c"
  "mc_stats (SetList now p vs c) = mc_stats c"
  "mc_stats (SetStat now p v c) q =
     (if q = p then Some \<lparr>mse_link = fst v, mse_parentKR = snd v, mse_cachedAt = now\<rparr> else mc_stats c q)"
  "mc_lists (SetList now p vs c) q =
     (if q = p then Some \<lparr>mle_links = fst vs, mle_parentKR = snd vs, mle_cachedAt = now\<rparr> else mc_lists c q)"
  by (simp_all add: SetStat_def SetList_def)

lemma invalidate_lookups [meta_simps]:
  "mc_stats (meta_InvalidatePath p c) q = (if p \<noteq> [] \<and> q = p then None else mc_stats c q)"
  "mc_lists (meta_InvalidatePath p c) q =
     (if p \<noteq> [] \<and> (q = p \<or> q = path_Dir p) then None else mc_lists c q)"
  "mc_stats (meta_invalidateAll c) q = None"
  "mc_lists (meta_invalidateAll c) q = None"
  by (simp_all add: meta_InvalidatePath_def meta_invalidateAll_def map_delete_def)

lemma ttl_kept [meta_simps]:
  "mc_ttl (SetStat now p v c) = mc_ttl c"
  "mc_ttl (SetList now p vs c) = mc_ttl c"
  "mc_ttl (meta_InvalidatePath p c) = mc_ttl c"
  "mc_ttl (meta_invalidateLinkID order i c) = mc_ttl c"
  "mc_ttl (meta_invalidateAll c) = mc_ttl c"
  by (simp_all add: SetStat_def SetList_def meta_InvalidatePath_def meta_invalidateLinkID_def
      meta_invalidateAll_def split: option.split)

lemma invalidateLinkID_cases [case_names untouched hit]:
  obtains
    (untouched) "\<forall>p \<in> set order. \<forall>e. mc_stats c p = Some e \<longrightarrow> lk_LinkID (mse_link e) \<noteq> i"
      "meta_invalidateLinkID order i c = c"
  | (hit) p e where "p \<in> set order" "mc_stats c p = Some e" "lk_LinkID (mse_link e) = i"
      "meta_invalidateLinkID order i c =
         c\<lparr>mc_stats := map_delete p (mc_stats c),
           mc_lists := map_delete (path_Dir p) (map_delete p (mc_lists c))\<rparr>"
proof (cases "List.find (\<lambda>p. case mc_stats c p of None \<Rightarrow> False | Some e \<Rightarrow> lk_LinkID (mse_link e) = i) order")
  case None
  then have "meta_invalidateLinkID order i c = c"
    by (simp only: meta_invalidateLinkID_def option.case)
  with None show ?thesis
    by (intro untouched) (auto simp: find_None_iff split: option.splits)
next
  case (Some p)
  then have "p \<in> set order" "case mc_stats c p of None \<Rightarrow> False | Some e \<Rightarrow> lk_LinkID (mse_link e) = i"
    by (auto simp: find_Some_iff)
  with Some show ?thesis
    by (cases "mc_stats c p") (auto intro!: hit simp: meta_invalidateLinkID_def)
qed

section \<open>Histories\<close>

text \<open>The methods that change the cache, with the time of the call; the latest call comes first.\<close>

datatype 'k meta_op =
    Set_stat string "link \<times> 'k"
  | Set_list string "link list \<times> 'k"
  | Invalidate string
  | Invalidate_link "string list" string
  | Invalidate_all

fun meta_step :: "int \<times> 'k meta_op \<Rightarrow> 'k MetaCache \<Rightarrow> 'k MetaCache" where
  "meta_step (now, Set_stat p v) c = SetStat now p v c"
| "meta_step (now, Set_list p v) c = SetList now p v c"
| "meta_step (now, Invalidate p) c = meta_InvalidatePath p c"
| "meta_step (now, Invalidate_link order i) c = meta_invalidateLinkID order i c"
| "meta_step (now, Invalidate_all) c = meta_invalidateAll c"

definition meta_history :: "int \<Rightarrow> (int \<times> 'k meta_op) list \<Rightarrow> 'k MetaCache" where
  "meta_history ttl ops = foldr meta_step ops (NewMetaCache ttl)"

lemma meta_history_simps [simp]:
  "meta_history ttl [] = NewMetaCache ttl"
  "meta_history ttl (op # ops) = meta_step op (meta_history ttl ops)"
  by (simp_all add: meta_history_def)

lemma meta_step_ttl [simp]: "mc_ttl (meta_step op c) = mc_ttl c"
  by (cases op; cases "snd op") (auto simp: meta_simps)

lemma meta_history_ttl [simp]: "mc_ttl (meta_history ttl ops) = (if ttl = 0 then defaultMetaTTL else ttl)"
  by (induction ops) (simp_all add: NewMetaCache_def)

text \<open>
  The calls after which nothing older may be found for a path, or for a listing. Whether a scan for a
  link's id drops a path depends on the entries then cached: it drops the first path, in the order of the
  iteration, whose entry has the id.
\<close>

definition has_id :: "string \<Rightarrow> 'k MetaCache \<Rightarrow> string \<Rightarrow> bool" where
  "has_id i c p \<longleftrightarrow> (\<exists>v. GetStatStale p c = Some v \<and> lk_LinkID (fst v) = i)"

definition first_with_id :: "string list \<Rightarrow> string \<Rightarrow> 'k MetaCache \<Rightarrow> string \<Rightarrow> bool" where
  "first_with_id order i c p \<longleftrightarrow>
     (\<exists>qs rs. order = qs @ p # rs \<and> has_id i c p \<and> (\<forall>q \<in> set qs. \<not> has_id i c q))"

fun drops_stat :: "string \<Rightarrow> 'k MetaCache \<Rightarrow> 'k meta_op \<Rightarrow> bool" where
  "drops_stat p c (Set_stat q v) \<longleftrightarrow> q = p"
| "drops_stat p c (Set_list q v) \<longleftrightarrow> False"
| "drops_stat p c (Invalidate q) \<longleftrightarrow> q \<noteq> [] \<and> q = p"
| "drops_stat p c (Invalidate_link order i) \<longleftrightarrow> first_with_id order i c p"
| "drops_stat p c Invalidate_all \<longleftrightarrow> True"

fun drops_list :: "string \<Rightarrow> 'k MetaCache \<Rightarrow> 'k meta_op \<Rightarrow> bool" where
  "drops_list p c (Set_stat q v) \<longleftrightarrow> False"
| "drops_list p c (Set_list q v) \<longleftrightarrow> q = p"
| "drops_list p c (Invalidate q) \<longleftrightarrow> q \<noteq> [] \<and> (q = p \<or> path_Dir q = p)"
| "drops_list p c (Invalidate_link order i) \<longleftrightarrow> (\<exists>q. first_with_id order i c q \<and> (q = p \<or> path_Dir q = p))"
| "drops_list p c Invalidate_all \<longleftrightarrow> True"

text \<open>None of the calls of \<open>post\<close> drops it, each looked at in the cache that it was made on.\<close>

definition none_drops ::
  "('k MetaCache \<Rightarrow> 'k meta_op \<Rightarrow> bool) \<Rightarrow> int \<Rightarrow> (int \<times> 'k meta_op) list \<Rightarrow> (int \<times> 'k meta_op) list \<Rightarrow> bool" where
  "none_drops drops ttl post pre \<longleftrightarrow>
     (\<forall>xs t op ys. post = xs @ (t, op) # ys \<longrightarrow> \<not> drops (meta_history ttl (ys @ pre)) op)"

lemma none_drops_Nil [simp]: "none_drops drops ttl [] pre"
  by (simp add: none_drops_def)

lemma none_drops_Cons [simp]:
  "none_drops drops ttl ((t, op) # post) pre \<longleftrightarrow>
     \<not> drops (meta_history ttl (post @ pre)) op \<and> none_drops drops ttl post pre"
  by (auto simp: none_drops_def Cons_eq_append_conv)

text \<open>
  Either map: if an entry survives every call that does not drop it, and only the call that made
  it leaves it behind a drop, then an entry found was made by a call that nothing has dropped since.
\<close>

lemma entry_made:
  assumes "found (NewMetaCache ttl) = None"
    and "\<And>t op c e. found (meta_step (t, op) c) = Some e \<Longrightarrow>
           if drops c op then (t, op) = made e else found c = Some e"
    and "found (meta_history ttl ops) = Some e"
  shows "\<exists>post pre. ops = post @ made e # pre \<and> none_drops drops ttl post (made e # pre)"
  using assms(3)
proof (induction ops)
  case Nil
  then show ?case by (simp add: assms(1))
next
  case (Cons op ops)
  obtain t o' where op: "op = (t, o')"
    by (cases op)
  note last = assms(2) [of t o' "meta_history ttl ops" e]
  show ?case
  proof (cases "drops (meta_history ttl ops) o'")
    case True
    with last Cons.prems have "op # ops = [] @ made e # ops"
      by (simp add: op)
    then show ?thesis
      by (metis none_drops_Nil)
  next
    case False
    with last Cons obtain post pre where
      p: "ops = post @ made e # pre" "none_drops drops ttl post (made e # pre)"
      by (auto simp: op)
    with False have "op # ops = (op # post) @ made e # pre" "none_drops drops ttl (op # post) (made e # pre)"
      by (simp_all add: op)
    then show ?thesis
      by blast
  qed
qed

text \<open>The scan of \<open>invalidateLinkID\<close> drops the first path with the id.\<close>

lemma invalidateLinkID_first:
  assumes "first_with_id order i c p"
  shows "meta_invalidateLinkID order i c =
    c\<lparr>mc_stats := map_delete p (mc_stats c), mc_lists := map_delete (path_Dir p) (map_delete p (mc_lists c))\<rparr>"
proof -
  have id: "(case mc_stats c q of None \<Rightarrow> False | Some e \<Rightarrow> lk_LinkID (mse_link e) = i) \<longleftrightarrow> has_id i c q" for q
    by (simp add: has_id_def GetStatStale_def split: option.split)
  from assms obtain qs rs where order: "order = qs @ p # rs" "has_id i c p" "\<forall>q \<in> set qs. \<not> has_id i c q"
    by (auto simp: first_with_id_def)
  have "List.find (has_id i c) (qs @ p # rs) = Some p"
    using order(2,3) by (induction qs) auto
  then show ?thesis
    by (simp add: meta_invalidateLinkID_def id order(1))
qed

lemma invalidateLinkID_shrinks:
  "mc_stats (meta_invalidateLinkID order i c) p = Some e \<Longrightarrow> mc_stats c p = Some e"
  "mc_lists (meta_invalidateLinkID order i c) p = Some e' \<Longrightarrow> mc_lists c p = Some e'"
  by (cases rule: invalidateLinkID_cases [where order = order and i = i and c = c];
      auto simp: map_delete_def split: if_splits)+

lemma stat_entry_made:
  assumes "mc_stats (meta_history ttl ops) p = Some e"
  shows "\<exists>post pre. ops = post @ (mse_cachedAt e, Set_stat p (mse_link e, mse_parentKR e)) # pre \<and>
           none_drops (drops_stat p) ttl post ((mse_cachedAt e, Set_stat p (mse_link e, mse_parentKR e)) # pre)"
proof (rule entry_made [where found = "\<lambda>c. mc_stats c p"])
  fix t op c e
  assume "mc_stats (meta_step (t, op) c) p = Some e"
  then show "if drops_stat p c op then (t, op) = (mse_cachedAt e, Set_stat p (mse_link e, mse_parentKR e))
             else mc_stats c p = Some e"
    by (cases op)
       (auto simp: meta_simps invalidateLinkID_first map_delete_def dest: invalidateLinkID_shrinks split: if_splits)
qed (use assms in \<open>simp_all add: meta_simps\<close>)

lemma list_entry_made:
  assumes "mc_lists (meta_history ttl ops) p = Some e"
  shows "\<exists>post pre. ops = post @ (mle_cachedAt e, Set_list p (mle_links e, mle_parentKR e)) # pre \<and>
           none_drops (drops_list p) ttl post ((mle_cachedAt e, Set_list p (mle_links e, mle_parentKR e)) # pre)"
proof (rule entry_made [where found = "\<lambda>c. mc_lists c p"])
  fix t op c e
  assume "mc_lists (meta_step (t, op) c) p = Some e"
  then show "if drops_list p c op then (t, op) = (mle_cachedAt e, Set_list p (mle_links e, mle_parentKR e))
             else mc_lists c p = Some e"
    by (cases op)
       (auto simp: meta_simps invalidateLinkID_first map_delete_def dest: invalidateLinkID_shrinks split: if_splits)
qed (use assms in \<open>simp_all add: meta_simps\<close>)

section \<open>Properties\<close>

text \<open>
  C28. The metadata cache never answers with what it should have forgotten: whatever calls were
  made, a hit for a path (or for a directory's listing) is the value of a call that stored it less
  than the time to live ago, and since that call it was neither stored again nor invalidated, by its path
  or by its link's id, nor was the cache cleared. An invalidation by id is one of the first path, in the order
  of the iteration, whose cached link has the id; a listing is also dropped when a path directly in the
  directory is invalidated.
\<close>

theorem fresh_hits_only:
  assumes "0 < ttl"
  shows "(\<forall>p v. GetStat now p (meta_history ttl ops) = Some v \<longrightarrow>
      (\<exists>t post pre. ops = post @ (t, Set_stat p v) # pre \<and> now - t < ttl \<and>
        none_drops (drops_stat p) ttl post ((t, Set_stat p v) # pre))) \<and>
    (\<forall>d vs. GetList now d (meta_history ttl ops) = Some vs \<longrightarrow>
      (\<exists>t post pre. ops = post @ (t, Set_list d vs) # pre \<and> now - t < ttl \<and>
        none_drops (drops_list d) ttl post ((t, Set_list d vs) # pre)))"
proof (intro conjI allI impI)
  fix p v
  assume "GetStat now p (meta_history ttl ops) = Some v"
  then obtain e where "mc_stats (meta_history ttl ops) p = Some e" "v = (mse_link e, mse_parentKR e)"
    "now - mse_cachedAt e < ttl"
    using assms by (auto simp: GetStat_def split: option.splits if_splits)
  then show "\<exists>t post pre. ops = post @ (t, Set_stat p v) # pre \<and> now - t < ttl \<and>
        none_drops (drops_stat p) ttl post ((t, Set_stat p v) # pre)"
    using stat_entry_made [of ttl ops p e] by blast
next
  fix d vs
  assume "GetList now d (meta_history ttl ops) = Some vs"
  then obtain e where "mc_lists (meta_history ttl ops) d = Some e" "vs = (mle_links e, mle_parentKR e)"
    "now - mle_cachedAt e < ttl"
    using assms by (auto simp: GetList_def split: option.splits if_splits)
  then show "\<exists>t post pre. ops = post @ (t, Set_list d vs) # pre \<and> now - t < ttl \<and>
        none_drops (drops_list d) ttl post ((t, Set_list d vs) # pre)"
    using list_entry_made [of ttl ops d e] by blast
qed

definition sample_link :: "string \<Rightarrow> string \<Rightarrow> link" where
  "sample_link i name =
     \<lparr>lk_LinkID = i, lk_ParentLinkID = ''root'', lk_Type = LinkTypeFile, lk_State = LinkStateActive,
      lk_Name = name, lk_NodeKey = [], lk_Size = 0, lk_CreateTime = 1, lk_ModifyTime = 2,
      lk_ActiveRevision = None\<rparr>"

theorem fresh_hits_only_witness:
  "\<exists>t post pre. [(12, Invalidate_link [''/b'', ''/a''] ''j''), (11, Set_stat ''/b'' (sample_link ''j'' [], ())),
       (10, Set_stat ''/a'' (sample_link ''i'' [], ()))] =
     post @ (t, Set_stat ''/a'' (sample_link ''i'' [], ())) # pre \<and> 15 - t < (30 :: int) \<and>
     none_drops (drops_stat ''/a'') 30 post ((t, Set_stat ''/a'' (sample_link ''i'' [], ())) # pre)"
proof -
  let ?ops = "[(12, Invalidate_link [''/b'', ''/a''] ''j''), (11, Set_stat ''/b'' (sample_link ''j'' [], ())),
      (10, Set_stat ''/a'' (sample_link ''i'' [], ()))]"
  have "GetStat 15 ''/a'' (meta_history 30 ?ops) = Some (sample_link ''i'' [], ())"
    by (simp add: GetStat_def SetStat_def NewMetaCache_def meta_invalidateLinkID_def map_delete_def sample_link_def)
  then show ?thesis
    using fresh_hits_only [of 30 15 ?ops] by simp
qed

text \<open>
  A change of a link whose path is not known drops one path only: if the scan's order lists
  the cached paths and some of them have the link's id, exactly one of these is forgotten (with the
  listings of it and of its directory), and every other cached path, also of the same link, is
  still answered from the cache.
\<close>

theorem invalidateLinkID_drops_one:
  assumes "dom (mc_stats c) \<subseteq> set order"
    and "mc_stats c q = Some e" "lk_LinkID (mse_link e) = i"
  shows "\<exists>p v. GetStatStale p c = Some v \<and> lk_LinkID (fst v) = i \<and>
    GetStatStale p (meta_invalidateLinkID order i c) = None \<and>
    GetListStale p (meta_invalidateLinkID order i c) = None \<and>
    GetListStale (path_Dir p) (meta_invalidateLinkID order i c) = None \<and>
    (\<forall>p'. p' \<noteq> p \<longrightarrow> GetStat now p' (meta_invalidateLinkID order i c) = GetStat now p' c)"
proof (cases rule: invalidateLinkID_cases [where order = order and i = i and c = c])
  case untouched
  with assms show ?thesis by blast
next
  case (hit p e')
  then show ?thesis
    by (intro exI [of _ p] exI [of _ "(mse_link e', mse_parentKR e')"])
       (simp add: GetStatStale_def GetListStale_def GetStat_def map_delete_def split: option.split)
qed

theorem invalidateLinkID_drops_one_witness:
  "\<exists>c :: unit MetaCache. \<exists>p v. GetStatStale p c = Some v \<and> lk_LinkID (fst v) = ''i'' \<and>
    GetStatStale p (meta_invalidateLinkID [''/a'', ''/b''] ''i'' c) = None \<and>
    GetListStale p (meta_invalidateLinkID [''/a'', ''/b''] ''i'' c) = None \<and>
    GetListStale (path_Dir p) (meta_invalidateLinkID [''/a'', ''/b''] ''i'' c) = None \<and>
    (\<forall>p'. p' \<noteq> p \<longrightarrow> GetStat 5 p' (meta_invalidateLinkID [''/a'', ''/b''] ''i'' c) = GetStat 5 p' c)"
  by (rule exI [of _ "SetStat 1 ''/a'' (sample_link ''i'' [], ()) (SetStat 1 ''/b'' (sample_link ''i'' [], ()) (NewMetaCache 30))"],
      rule invalidateLinkID_drops_one
        [where q = "''/a''" and e = "\<lparr>mse_link = sample_link ''i'' [], mse_parentKR = (), mse_cachedAt = 1\<rparr>"])
     (auto simp: SetStat_def NewMetaCache_def sample_link_def)

end
