(* ===== verification/Block_Cache.thy ===== *)
theory Block_Cache
  imports Go_Path "HOL-Library.AList" "HOL-Library.Multiset"
begin

text \<open>
  The block cache of \<open>src/helper/drive/blockcache.go\<close>: one file per decrypted block below a root
  directory, least recently used files removed first when a size limit is passed. The disk is an
  association list from paths to files; directories are not kept (\<open>os.MkdirAll\<close> makes what is
  missing, and an empty directory changes no operation). Which system calls fail is part of the
  disk, and so is after how many bytes a write to a path fails, if it does.
\<close>

section \<open>The disk\<close>

record disk_file =
  df_data :: "byte list"
  df_mtime :: int

datatype os_call = Os_read string | Os_remove string | Os_chtimes string | Os_mkdir string

record disk =
  dk_files :: "(string \<times> disk_file) list"
  dk_refuses :: "os_call \<Rightarrow> bool"
  dk_short :: "string \<Rightarrow> nat option"

text \<open>
  \<open>filepath.Join\<close> ignores empty elements and cleans the result; \<open>filepath.Dir\<close> is \<open>path.Dir\<close> here.
\<close>

definition filepath_Join :: "string list \<Rightarrow> string" where
  "filepath_Join elems =
     (let elems = filter (\<lambda>e. e \<noteq> []) elems in
      if elems = [] then [] else path_Clean (join_slash elems))"

definition at_or_below :: "string \<Rightarrow> string \<Rightarrow> bool" where
  "at_or_below dir p \<longleftrightarrow> p = dir \<or> prefix (dir @ [slash]) p"

definition os_ReadFile :: "string \<Rightarrow> disk \<Rightarrow> byte list option" where
  "os_ReadFile p d =
     (if dk_refuses d (Os_read p) then None else map_option df_data (map_of (dk_files d) p))"

definition os_Chtimes :: "string \<Rightarrow> int \<Rightarrow> disk \<Rightarrow> disk" where
  "os_Chtimes p now d =
     (if dk_refuses d (Os_chtimes p) then d
      else d\<lparr>dk_files := AList.map_entry p (\<lambda>f. f\<lparr>df_mtime := now\<rparr>) (dk_files d)\<rparr>)"

text \<open>Whether the call fails, and the disk after it.\<close>

definition os_Remove :: "string \<Rightarrow> disk \<Rightarrow> bool \<times> disk" where
  "os_Remove p d =
     (if dk_refuses d (Os_remove p) then (False, d)
      else (True, d\<lparr>dk_files := AList.delete p (dk_files d)\<rparr>))"

text \<open>A file in the place of a directory on the way stops \<open>MkdirAll\<close>.\<close>

definition os_MkdirAll :: "string \<Rightarrow> disk \<Rightarrow> bool" where
  "os_MkdirAll p d \<longleftrightarrow>
     \<not> dk_refuses d (Os_mkdir p) \<and> (\<forall>q \<in> fst ` set (dk_files d). \<not> at_or_below q p)"

text \<open>A failing write leaves what it has written.\<close>

definition os_WriteFile :: "string \<Rightarrow> byte list \<Rightarrow> int \<Rightarrow> disk \<Rightarrow> bool \<times> disk" where
  "os_WriteFile p data now d =
     (case dk_short d p of
        Some n \<Rightarrow> (False, d\<lparr>dk_files := AList.update p \<lparr>df_data = take n data, df_mtime = now\<rparr> (dk_files d)\<rparr>)
      | None \<Rightarrow> (True, d\<lparr>dk_files := AList.update p \<lparr>df_data = data, df_mtime = now\<rparr> (dk_files d)\<rparr>))"

definition os_RemoveAll :: "string \<Rightarrow> disk \<Rightarrow> disk" where
  "os_RemoveAll p d =
     d\<lparr>dk_files := filter (\<lambda>(q, f). \<not> at_or_below p q \<or> dk_refuses d (Os_remove q)) (dk_files d)\<rparr>"

section \<open>The cache\<close>

record BlockCache =
  bc_root :: string
  bc_maxSize :: int

definition defaultBlockCacheSize :: int where
  "defaultBlockCacheSize = 2 * 2 ^ 30"

definition NewBlockCache :: "string \<Rightarrow> int \<Rightarrow> disk \<Rightarrow> BlockCache option" where
  "NewBlockCache baseDir maxSize d =
     (let maxSize = (if maxSize = 0 then defaultBlockCacheSize else maxSize);
          root = filepath_Join [baseDir, ''blocks'']
      in if os_MkdirAll root d then Some \<lparr>bc_root = root, bc_maxSize = maxSize\<rparr> else None)"

definition InvalidateLink :: "BlockCache \<Rightarrow> string \<Rightarrow> disk \<Rightarrow> disk" where
  "InvalidateLink bc linkID d = os_RemoveAll (filepath_Join [bc_root bc, linkID]) d"

definition Itoa :: "int \<Rightarrow> string" where
  "Itoa i = (if i < 0 then CHR ''-'' # decimal (nat (- i)) else decimal (nat i))"

definition blockPath :: "BlockCache \<Rightarrow> string \<Rightarrow> string \<Rightarrow> int \<Rightarrow> string" where
  "blockPath bc linkID revisionID index = filepath_Join [bc_root bc, linkID, revisionID, Itoa index]"

definition bc_GetBlock ::
  "BlockCache \<Rightarrow> string \<Rightarrow> string \<Rightarrow> int \<Rightarrow> int \<Rightarrow> disk \<Rightarrow> byte list option \<times> disk" where
  "bc_GetBlock bc linkID revisionID index now d =
     (let p = blockPath bc linkID revisionID index in
      case os_ReadFile p d of
        None \<Rightarrow> (None, d)
      | Some data \<Rightarrow> (Some data, os_Chtimes p now d))"

record cacheFile =
  cf_path :: string
  cf_mtime :: int
  cf_size :: int

text \<open>
  The walk's regular files, all of whose \<open>Info\<close> calls succeed; the code skips directories and the files
  whose \<open>Info\<close> fails, and its error value is ignored.
\<close>

definition WalkDir :: "string \<Rightarrow> disk \<Rightarrow> cacheFile list" where
  "WalkDir root d =
     map (\<lambda>(p, f). \<lparr>cf_path = p, cf_mtime = df_mtime f, cf_size = int (length (df_data f))\<rparr>)
         (filter (\<lambda>(p, f). at_or_below root p) (dk_files d))"

text \<open>
  \<open>int64(float64(maxSize) * 0.9)\<close>: for sizes below \<open>2^49\<close> the rounding of the product stays below
  the distance to the next integer, and the truncated value is the integer quotient. (The default
  size is 2 GiB.)
\<close>

definition evict_target :: "int \<Rightarrow> int" where
  "evict_target maxSize = maxSize * 9 div 10"

fun evict_loop :: "int \<Rightarrow> cacheFile list \<Rightarrow> int \<Rightarrow> disk \<Rightarrow> disk" where
  "evict_loop target [] tot d = d"
| "evict_loop target (f # files) tot d =
     (if tot \<le> target then d
      else (case os_Remove (cf_path f) d of
              (False, d) \<Rightarrow> evict_loop target files tot d
            | (True, d) \<Rightarrow> evict_loop target files (tot - cf_size f) d))"

text \<open>
  \<open>sort.Slice\<close> orders by modification time and is not stable: the sorted list is the value of a
  parameter, of which only the documented result is assumed.
\<close>

definition sorts_by_mtime :: "(cacheFile list \<Rightarrow> cacheFile list) \<Rightarrow> bool" where
  "sorts_by_mtime sort_Slice \<longleftrightarrow>
     (\<forall>files. mset (sort_Slice files) = mset files \<and> sorted (map cf_mtime (sort_Slice files)))"

definition evictIfNeeded :: "(cacheFile list \<Rightarrow> cacheFile list) \<Rightarrow> BlockCache \<Rightarrow> disk \<Rightarrow> disk" where
  "evictIfNeeded sort_Slice bc d =
     (let files = WalkDir (bc_root bc) d; tot = sum_list (map cf_size files) in
      if tot \<le> bc_maxSize bc then d
      else evict_loop (evict_target (bc_maxSize bc)) (sort_Slice files) tot d)"

text \<open>Whether the block is stored (False is an error, which the caller only logs).\<close>

definition PutBlock ::
  "(cacheFile list \<Rightarrow> cacheFile list) \<Rightarrow> BlockCache \<Rightarrow> string \<Rightarrow> string \<Rightarrow> int \<Rightarrow> byte list \<Rightarrow> int \<Rightarrow> disk
   \<Rightarrow> bool \<times> disk" where
  "PutBlock sort_Slice bc linkID revisionID index data now d =
     (let revDir = filepath_Join [bc_root bc, linkID, revisionID];
          (ok, d) = (if revDir \<in> fst ` set (dk_files d) then os_Remove revDir d else (True, d))
      in if \<not> ok then (False, d)
         else if \<not> os_MkdirAll revDir d then (False, d)
         else (case os_WriteFile (blockPath bc linkID revisionID index) data now d of
                 (False, d) \<Rightarrow> (False, d)
               | (True, d) \<Rightarrow> (True, evictIfNeeded sort_Slice bc d)))"

section \<open>Files after each call\<close>

definition disk_ok :: "disk \<Rightarrow> bool" where
  "disk_ok d \<longleftrightarrow> distinct (map fst (dk_files d))"

abbreviation file_at :: "disk \<Rightarrow> string \<Rightarrow> disk_file option" where
  "file_at d \<equiv> map_of (dk_files d)"

lemma Chtimes_files [simp]:
  "map_option df_data (file_at (os_Chtimes p now d) q) = map_option df_data (file_at d q)"
  "dk_refuses (os_Chtimes p now d) = dk_refuses d" "dk_short (os_Chtimes p now d) = dk_short d"
  "fst ` set (dk_files (os_Chtimes p now d)) = fst ` set (dk_files d)"
  by (simp_all add: os_Chtimes_def map_of_map_entry dom_map_entry split: option.split)

lemma Chtimes_ok [simp]: "disk_ok d \<Longrightarrow> disk_ok (os_Chtimes p now d)"
  by (simp add: disk_ok_def os_Chtimes_def AList.distinct_map_entry)

lemma ReadFile_Chtimes [simp]: "os_ReadFile q (os_Chtimes p now d) = os_ReadFile q d"
  by (simp add: os_ReadFile_def)

lemma Remove_files:
  "os_Remove p d = (ok, d') \<Longrightarrow>
     file_at d' q = (if ok \<and> q = p then None else file_at d q) \<and>
     dk_refuses d' = dk_refuses d \<and> dk_short d' = dk_short d \<and> (disk_ok d \<longrightarrow> disk_ok d')"
  by (auto simp: os_Remove_def disk_ok_def AList.delete_conv AList.distinct_delete split: if_splits)

lemma WriteFile_files:
  "os_WriteFile p data now d = (ok, d') \<Longrightarrow>
     file_at d' q = (if q = p
       then Some \<lparr>df_data = (case dk_short d p of None \<Rightarrow> data | Some n \<Rightarrow> take n data), df_mtime = now\<rparr>
       else file_at d q) \<and>
     dk_refuses d' = dk_refuses d \<and> dk_short d' = dk_short d \<and> (disk_ok d \<longrightarrow> disk_ok d') \<and>
     ok = (dk_short d p = None)"
  by (auto simp: os_WriteFile_def disk_ok_def AList.update_conv' AList.distinct_update split: option.splits)

text \<open>Keeping the files that satisfy a predicate on their paths.\<close>

definition keep_files :: "(string \<Rightarrow> bool) \<Rightarrow> disk \<Rightarrow> disk" where
  "keep_files P d = d\<lparr>dk_files := filter (\<lambda>x. P (fst x)) (dk_files d)\<rparr>"

lemma map_of_filter_key: "map_of (filter (\<lambda>x. P (fst x)) xs) k = (if P k then map_of xs k else None)"
  by (induction xs) auto

lemma keep_files [simp]:
  "file_at (keep_files P d) p = (if P p then file_at d p else None)"
  "dk_refuses (keep_files P d) = dk_refuses d" "dk_short (keep_files P d) = dk_short d"
  "disk_ok d \<Longrightarrow> disk_ok (keep_files P d)"
  "keep_files P (keep_files Q d) = keep_files (\<lambda>p. P p \<and> Q p) d"
  "WalkDir root (keep_files P d) = filter (\<lambda>f. P (cf_path f)) (WalkDir root d)"
  by (auto simp: keep_files_def map_of_filter_key disk_ok_def WalkDir_def filter_map comp_def
      distinct_map inj_on_def case_prod_unfold conj_commute)

lemma Remove_keep: "os_Remove p d = (if dk_refuses d (Os_remove p) then (False, d) else (True, keep_files ((\<noteq>) p) d))"
  by (simp add: os_Remove_def keep_files_def AList.delete_eq case_prod_unfold)

lemma RemoveAll_keep: "os_RemoveAll p d = keep_files (\<lambda>q. \<not> at_or_below p q \<or> dk_refuses d (Os_remove q)) d"
  by (simp add: os_RemoveAll_def keep_files_def case_prod_unfold)

section \<open>What eviction removes\<close>

text \<open>The reference: the files removed, in order.\<close>

fun evicted :: "int \<Rightarrow> (string \<Rightarrow> bool) \<Rightarrow> cacheFile list \<Rightarrow> int \<Rightarrow> cacheFile list" where
  "evicted target fixed [] tot = []"
| "evicted target fixed (f # files) tot =
     (if tot \<le> target then []
      else if fixed (cf_path f) then evicted target fixed files tot
      else f # evicted target fixed files (tot - cf_size f))"

abbreviation cannot_remove :: "disk \<Rightarrow> string \<Rightarrow> bool" where
  "cannot_remove d p \<equiv> dk_refuses d (Os_remove p)"

lemma keep_all [simp]: "keep_files (\<lambda>_. True) d = d"
  by (simp add: keep_files_def)

lemma evict_loop_evicted:
  "evict_loop target files tot d =
     keep_files (\<lambda>p. p \<notin> cf_path ` set (evicted target (cannot_remove d) files tot)) d"
  by (induction target files tot d rule: evict_loop.induct)
     (auto simp: Remove_keep intro!: arg_cong2 [where f = keep_files] split: prod.splits)

text \<open>
  They are the removable files of a beginning of the list, which ends where the target is met.
\<close>

lemma evicted_prefix:
  "\<exists>xs ys. files = xs @ ys \<and> evicted target fixed files tot = filter (\<lambda>f. \<not> fixed (cf_path f)) xs \<and>
     (ys = [] \<or> tot - sum_list (map cf_size (evicted target fixed files tot)) \<le> target)"
proof (induction files arbitrary: tot)
  case (Cons f files)
  show ?case
  proof (cases "tot \<le> target")
    case True
    then show ?thesis
      by (intro exI [of _ "[]"] exI [of _ "f # files"]) simp
  next
    case False
    define tot' where "tot' = (if fixed (cf_path f) then tot else tot - cf_size f)"
    from Cons obtain xs ys where "files = xs @ ys"
      "evicted target fixed files tot' = filter (\<lambda>f. \<not> fixed (cf_path f)) xs"
      "ys = [] \<or> tot' - sum_list (map cf_size (evicted target fixed files tot')) \<le> target"
      by blast
    with False show ?thesis
      by (intro exI [of _ "f # xs"] exI [of _ ys]) (auto simp: tot'_def)
  qed
qed simp

text \<open>Nothing is removed once the target is met.\<close>

lemma evicted_needed:
  "evicted target fixed files tot = as @ f # bs \<Longrightarrow> target < tot - sum_list (map cf_size as)"
proof (induction files arbitrary: tot as)
  case (Cons g files)
  then show ?case
  proof (cases "tot \<le> target \<or> fixed (cf_path g)")
    case True
    with Cons show ?thesis
      by (auto split: if_splits)
  next
    case False
    then have "g # evicted target fixed files (tot - cf_size g) = as @ f # bs"
      using Cons.prems by simp
    with Cons.IH [of "tot - cf_size g" "tl as"] False show ?thesis
      by (cases as) auto
  qed
qed simp

lemma evicted_subset: "set (evicted target fixed files tot) \<subseteq> {f \<in> set files. \<not> fixed (cf_path f)}"
  using evicted_prefix [of files target fixed tot] by auto

lemma evicted_distinct: "distinct files \<Longrightarrow> distinct (evicted target fixed files tot)"
  using evicted_prefix [of files target fixed tot] by auto

text \<open>In a sorted list, what is removed is not newer than what is kept and could be removed.\<close>

lemma evicted_oldest:
  assumes "sorted (map cf_mtime files)" "f \<in> set (evicted target fixed files tot)"
    and "g \<in> set files" "g \<notin> set (evicted target fixed files tot)" "\<not> fixed (cf_path g)"
  shows "cf_mtime f \<le> cf_mtime g"
proof -
  obtain xs ys where xs: "files = xs @ ys"
    "evicted target fixed files tot = filter (\<lambda>f. \<not> fixed (cf_path f)) xs"
    using evicted_prefix by blast
  with assms have "f \<in> set xs" "g \<in> set ys"
    by auto
  with assms(1) xs(1) show ?thesis
    by (auto simp: sorted_append)
qed

section \<open>The size of the cache\<close>

definition cache_size :: "BlockCache \<Rightarrow> disk \<Rightarrow> int" where
  "cache_size bc d = sum_list (map cf_size (WalkDir (bc_root bc) d))"

lemma WalkDir_paths: "disk_ok d \<Longrightarrow> distinct (map cf_path (WalkDir root d))"
  by (auto simp: WalkDir_def disk_ok_def comp_def distinct_map case_prod_unfold inj_on_def)

lemma WalkDir_member:
  "disk_ok d \<Longrightarrow> f \<in> set (WalkDir root d) \<longleftrightarrow>
     (\<exists>g. file_at d (cf_path f) = Some g \<and> at_or_below root (cf_path f) \<and>
          f = \<lparr>cf_path = cf_path f, cf_mtime = df_mtime g, cf_size = int (length (df_data g))\<rparr>)"
  by (force simp: WalkDir_def disk_ok_def)

lemma sum_list_without:
  assumes "distinct (map key xs)" "distinct ys" "set ys \<subseteq> set xs"
  shows "sum_list (map h (filter (\<lambda>x. key x \<notin> key ` set ys) xs)) = sum_list (map h xs) - (sum_list (map h ys) :: int)"
proof -
  have xs: "distinct xs" "inj_on key (set xs)"
    using assms(1) by (simp_all add: distinct_map)
  then have "filter (\<lambda>x. key x \<notin> key ` set ys) xs = filter (\<lambda>x. x \<notin> set ys) xs"
    using assms(3) by (auto intro!: filter_cong dest: inj_onD)
  then have "sum_list (map h (filter (\<lambda>x. key x \<notin> key ` set ys) xs)) = sum h (set xs - set ys)"
    using xs by (simp add: sum_list_distinct_conv_sum_set set_diff_eq)
  also have "\<dots> = sum h (set xs) - sum h (set ys)"
    using assms(3) by (intro sum_diff) simp_all
  finally show ?thesis
    using xs assms(2) by (simp add: sum_list_distinct_conv_sum_set)
qed

lemma evictIfNeeded_keep:
  assumes "sorts_by_mtime sort_Slice" "disk_ok d"
  obtains out where
    "evictIfNeeded sort_Slice bc d = keep_files (\<lambda>p. p \<notin> cf_path ` set out) d"
    "set out \<subseteq> {f \<in> set (WalkDir (bc_root bc) d). \<not> cannot_remove d (cf_path f)}"
    "cache_size bc (evictIfNeeded sort_Slice bc d) = cache_size bc d - sum_list (map cf_size out)"
    "cache_size bc (evictIfNeeded sort_Slice bc d) \<le> bc_maxSize bc \<or>
       cache_size bc (evictIfNeeded sort_Slice bc d) \<le> evict_target (bc_maxSize bc) \<or>
       set out = {f \<in> set (WalkDir (bc_root bc) d). \<not> cannot_remove d (cf_path f)}"
    "\<And>f g. f \<in> set out \<Longrightarrow> g \<in> set (WalkDir (bc_root bc) d) \<Longrightarrow> g \<notin> set out \<Longrightarrow>
       \<not> cannot_remove d (cf_path g) \<Longrightarrow> cf_mtime f \<le> cf_mtime g"
    "out = [] \<or> out = evicted (evict_target (bc_maxSize bc)) (cannot_remove d)
       (sort_Slice (WalkDir (bc_root bc) d)) (cache_size bc d)"
proof (cases "cache_size bc d \<le> bc_maxSize bc")
  case True
  then show ?thesis
    by (intro that [of "[]"]) (auto simp: evictIfNeeded_def Let_def cache_size_def)
next
  case False
  let ?files = "WalkDir (bc_root bc) d"
  let ?out = "evicted (evict_target (bc_maxSize bc)) (cannot_remove d) (sort_Slice ?files) (cache_size bc d)"
  have sorted: "mset (sort_Slice ?files) = mset ?files" "sorted (map cf_mtime (sort_Slice ?files))"
    using assms(1) by (simp_all add: sorts_by_mtime_def)
  then have set: "set (sort_Slice ?files) = set ?files"
    by (metis set_mset_mset)
  have paths: "distinct (map cf_path ?files)"
    by (rule WalkDir_paths [OF assms(2)])
  then have "distinct (sort_Slice ?files)"
    using sorted(1) by (metis distinct_map mset_eq_imp_distinct_iff)
  then have out: "distinct ?out" "set ?out \<subseteq> {f \<in> set ?files. \<not> cannot_remove d (cf_path f)}"
    using evicted_subset [of _ "cannot_remove d" "sort_Slice ?files"] set by (auto intro: evicted_distinct)
  have evict: "evictIfNeeded sort_Slice bc d = keep_files (\<lambda>p. p \<notin> cf_path ` set ?out) d"
    using False by (simp add: evictIfNeeded_def Let_def cache_size_def evict_loop_evicted)
  have size: "cache_size bc (evictIfNeeded sort_Slice bc d) = cache_size bc d - sum_list (map cf_size ?out)"
    using sum_list_without [OF paths out(1), of cf_size] out(2) by (auto simp: evict cache_size_def)
  obtain xs ys where "sort_Slice ?files = xs @ ys" "?out = filter (\<lambda>f. \<not> cannot_remove d (cf_path f)) xs"
    "ys = [] \<or> cache_size bc d - sum_list (map cf_size ?out) \<le> evict_target (bc_maxSize bc)"
    using evicted_prefix by blast
  then have bound: "cache_size bc (evictIfNeeded sort_Slice bc d) \<le> evict_target (bc_maxSize bc) \<or>
      set ?out = {f \<in> set ?files. \<not> cannot_remove d (cf_path f)}"
    using size set by auto
  show ?thesis
  proof (rule that [OF evict out(2) size])
    fix f g
    assume "f \<in> set ?out" "g \<in> set ?files" "g \<notin> set ?out" "\<not> cannot_remove d (cf_path g)"
    then show "cf_mtime f \<le> cf_mtime g"
      using evicted_oldest [OF sorted(2)] set by blast
  qed (use bound in simp_all)
qed

section \<open>Paths of blocks\<close>

lemma decimal_digits: "c \<in> set (decimal n) \<Longrightarrow> 48 \<le> (of_char c :: nat) \<and> (of_char c :: nat) \<le> 57"
proof (induction n arbitrary: c rule: decimal.induct)
  case (1 n)
  then show ?case
    by (subst (asm) (2) decimal.simps) (auto split: if_splits)
qed

fun undecimal :: "string \<Rightarrow> nat \<Rightarrow> nat" where
  "undecimal [] n = n"
| "undecimal (c # s) n = undecimal s (10 * n + (of_char c - 48))"

lemma undecimal_append: "undecimal (s @ t) n = undecimal t (undecimal s n)"
  by (induction s arbitrary: n) auto

lemma undecimal_decimal: "undecimal (decimal n) 0 = n"
proof (induction n rule: decimal.induct)
  case (1 n)
  then show ?case
    by (subst decimal.simps) (auto simp: undecimal_append)
qed

lemma decimal_inj: "decimal n = decimal m \<longleftrightarrow> n = m"
  by (metis undecimal_decimal)

lemma Itoa_chars: "c \<in> set (Itoa i) \<Longrightarrow> (of_char c :: nat) = 45 \<or> 48 \<le> (of_char c :: nat)"
  using decimal_digits [of c "nat i"] decimal_digits [of c "nat (- i)"]
  by (auto simp: Itoa_def split: if_splits)

lemma Itoa_name [simp]: "name_ok (Itoa i)"
proof -
  have "c \<in> set (Itoa i) \<Longrightarrow> c \<noteq> CHR 0x2E \<and> c \<noteq> slash" for c
    using Itoa_chars [of c i] by auto
  moreover have "Itoa i \<noteq> []"
    by (simp add: Itoa_def decimal_nonempty)
  ultimately show ?thesis
    by (fastforce simp: name_ok_def)
qed

lemma Itoa_inj: "Itoa i = Itoa j \<longleftrightarrow> i = j"
proof -
  have "CHR ''-'' # s \<noteq> decimal n" for s n
    using decimal_digits [of "CHR ''-''" n] by (auto dest: sym)
  then show ?thesis
    by (auto simp: Itoa_def decimal_inj dest: sym)
qed

definition cache_at :: "BlockCache \<Rightarrow> string list \<Rightarrow> bool" where
  "cache_at bc rs \<longleftrightarrow> bc_root bc = abs_path rs \<and> rs \<noteq> [] \<and> (\<forall>x \<in> set rs. name_ok x)"

lemma filepath_Join_below:
  assumes "rs \<noteq> []" "\<forall>x \<in> set rs. name_ok x" "ns \<noteq> []" "\<forall>x \<in> set ns. name_ok x"
  shows "filepath_Join (abs_path rs # ns) = abs_path (rs @ ns)"
proof -
  have "filter (\<lambda>e. e \<noteq> []) (abs_path rs # ns) = abs_path rs # ns"
    using assms(4) by (auto simp: abs_path_def name_ok_def intro!: filter_True)
  moreover have "join_slash (abs_path rs # ns) = abs_path (rs @ ns)"
    using assms(1,3) by (simp add: join_slash_Cons abs_path_def join_slash_append)
  ultimately show ?thesis
    using assms by (simp add: filepath_Join_def) (metis Un_iff path_Clean_abs set_append)
qed

lemma NewBlockCache_at:
  assumes "NewBlockCache baseDir maxSize d = Some bc" "baseDir = slash # b"
  shows "cache_at bc (clean_names b @ [''blocks''])"
proof -
  have "bc_root bc = path_Clean (join_slash [slash # b, ''blocks''])"
    using assms by (auto simp: NewBlockCache_def filepath_Join_def Let_def split: if_splits)
  also have "\<dots> = abs_path (clean_names (b @ slash # ''blocks''))"
    by (simp add: path_Clean_slash)
  also have "clean_names (b @ slash # ''blocks'') = clean_names b @ [''blocks'']"
  proof -
    have "split_slash (s @ slash # t) = split_slash s @ split_slash t" for s t
      by (induction s) (auto split: list.splits)
    then show ?thesis
      by (simp add: clean_names_def clean_step_def)
  qed
  finally show ?thesis
    using clean_names_ok [of b] by (auto simp: cache_at_def name_ok_def)
qed

text \<open>A block is known by its link, its revision and its index.\<close>

type_synonym block_key = "string \<times> string \<times> int"

definition key_ok :: "block_key \<Rightarrow> bool" where
  "key_ok k \<longleftrightarrow> name_ok (fst k) \<and> name_ok (fst (snd k))"

definition key_path :: "BlockCache \<Rightarrow> block_key \<Rightarrow> string" where
  "key_path bc k = blockPath bc (fst k) (fst (snd k)) (snd (snd k))"

lemma key_path_abs:
  "cache_at bc rs \<Longrightarrow> key_ok k \<Longrightarrow> key_path bc k = abs_path (rs @ [fst k, fst (snd k), Itoa (snd (snd k))])"
  by (auto simp: key_path_def blockPath_def cache_at_def key_ok_def intro!: filepath_Join_below)

lemma key_path_inj:
  assumes "cache_at bc rs" "key_ok k" "key_ok j"
  shows "key_path bc k = key_path bc j \<longleftrightarrow> k = j"
  using assms by (cases k; cases j)
    (auto simp: key_path_abs cache_at_def key_ok_def abs_path_inj Itoa_inj)

lemma rev_dir_abs:
  "cache_at bc rs \<Longrightarrow> key_ok k \<Longrightarrow> filepath_Join [bc_root bc, fst k, fst (snd k)] = abs_path (rs @ [fst k, fst (snd k)])"
  by (auto simp: cache_at_def key_ok_def intro!: filepath_Join_below)

lemma at_or_below_abs:
  assumes "\<forall>x \<in> set ns. name_ok x" "\<forall>x \<in> set ms. name_ok x" "ns \<noteq> []"
  shows "at_or_below (abs_path ns) (abs_path ms) \<longleftrightarrow> prefix ns ms"
  using below_iff_prefix [OF assms] abs_path_inj [OF assms(1,2)]
  by (auto simp: at_or_below_def strict_prefix_def)

lemma key_below_root: "cache_at bc rs \<Longrightarrow> key_ok k \<Longrightarrow> at_or_below (bc_root bc) (key_path bc k)"
  by (auto simp: key_path_abs cache_at_def key_ok_def at_or_below_abs)

lemma key_not_rev_dir:
  assumes "cache_at bc rs" "key_ok k" "key_ok j"
  shows "key_path bc j \<noteq> filepath_Join [bc_root bc, fst k, fst (snd k)]"
  using assms by (simp add: key_path_abs rev_dir_abs)
    (auto simp: cache_at_def key_ok_def abs_path_inj)

section \<open>Storing and finding blocks\<close>

abbreviation look :: "BlockCache \<Rightarrow> disk \<Rightarrow> block_key \<Rightarrow> byte list option" where
  "look bc d k \<equiv> os_ReadFile (key_path bc k) d"

abbreviation get_block :: "BlockCache \<Rightarrow> block_key \<Rightarrow> int \<Rightarrow> disk \<Rightarrow> byte list option \<times> disk" where
  "get_block bc k now d \<equiv> bc_GetBlock bc (fst k) (fst (snd k)) (snd (snd k)) now d"

abbreviation put_block ::
  "(cacheFile list \<Rightarrow> cacheFile list) \<Rightarrow> BlockCache \<Rightarrow> block_key \<Rightarrow> byte list \<Rightarrow> int \<Rightarrow> disk \<Rightarrow> bool \<times> disk" where
  "put_block sort_Slice bc k data now d \<equiv>
     PutBlock sort_Slice bc (fst k) (fst (snd k)) (snd (snd k)) data now d"

definition cache_ok :: "(cacheFile list \<Rightarrow> cacheFile list) \<Rightarrow> BlockCache \<Rightarrow> disk \<Rightarrow> bool" where
  "cache_ok sort_Slice bc d \<longleftrightarrow>
     sorts_by_mtime sort_Slice \<and> (\<exists>rs. cache_at bc rs) \<and> disk_ok d \<and> (\<forall>p. dk_short d p = None)"

lemma get_block_look:
  "fst (get_block bc k now d) = look bc d k" "look bc (snd (get_block bc k now d)) j = look bc d j"
  "disk_ok d \<Longrightarrow> disk_ok (snd (get_block bc k now d))"
  "dk_short (snd (get_block bc k now d)) = dk_short d" "dk_refuses (snd (get_block bc k now d)) = dk_refuses d"
  by (auto simp: bc_GetBlock_def Let_def key_path_def [symmetric] split: option.split)

text \<open>The legacy file is out of the way; then the block is written or not.\<close>

lemma PutBlock_cases [case_names refused short stored]:
  obtains
    (refused) d0 where "put_block sort_Slice bc k data now d = (False, d0)"
      "d0 = d \<or> d0 = keep_files ((\<noteq>) (filepath_Join [bc_root bc, fst k, fst (snd k)])) d"
  | (short) d0 d1 where "put_block sort_Slice bc k data now d = (False, d1)"
      "d0 = d \<or> d0 = keep_files ((\<noteq>) (filepath_Join [bc_root bc, fst k, fst (snd k)])) d"
      "os_WriteFile (key_path bc k) data now d0 = (False, d1)"
  | (stored) d0 d1 where "put_block sort_Slice bc k data now d = (True, evictIfNeeded sort_Slice bc d1)"
      "d0 = d \<or> d0 = keep_files ((\<noteq>) (filepath_Join [bc_root bc, fst k, fst (snd k)])) d"
      "os_WriteFile (key_path bc k) data now d0 = (True, d1)"
proof -
  let ?r = "filepath_Join [bc_root bc, fst k, fst (snd k)]"
  obtain ok d0 where d0: "(if ?r \<in> fst ` set (dk_files d) then os_Remove ?r d else (True, d)) = (ok, d0)"
    by fastforce
  then have d0': "d0 = d \<or> d0 = keep_files ((\<noteq>) ?r) d"
    by (auto simp: Remove_keep split: if_splits)
  obtain wr d1 where d1: "os_WriteFile (key_path bc k) data now d0 = (wr, d1)"
    by fastforce
  show thesis
  proof (cases "ok \<and> os_MkdirAll ?r d0")
    case True
    then show thesis
      using d0 d1 stored [OF _ d0'] short [OF _ d0'] by (cases wr) (auto simp: PutBlock_def key_path_def)
  next
    case False
    then show thesis
      using d0 refused [OF _ d0'] by (auto simp: PutBlock_def)
  qed
qed

lemma evictIfNeeded_files: "\<exists>P. evictIfNeeded sort_Slice bc d = keep_files P d"
proof -
  have "d = keep_files (\<lambda>_. True) d"
    by simp
  then show ?thesis
    unfolding evictIfNeeded_def Let_def evict_loop_evicted by metis
qed

lemma evict_look:
  "look bc (evictIfNeeded sort_Slice bc d) k = None \<or> look bc (evictIfNeeded sort_Slice bc d) k = look bc d k"
  "disk_ok d \<Longrightarrow> disk_ok (evictIfNeeded sort_Slice bc d)"
  "dk_short (evictIfNeeded sort_Slice bc d) = dk_short d"
  "dk_refuses (evictIfNeeded sort_Slice bc d) = dk_refuses d"
  using evictIfNeeded_files [of sort_Slice bc d] by (auto simp: os_ReadFile_def)

lemma rev_dir_look:
  assumes "cache_at bc rs" "key_ok k" "key_ok j"
    and "d0 = d \<or> d0 = keep_files ((\<noteq>) (filepath_Join [bc_root bc, fst k, fst (snd k)])) d"
  shows "look bc d0 j = look bc d j" "dk_short d0 = dk_short d" "dk_refuses d0 = dk_refuses d"
    "disk_ok d \<Longrightarrow> disk_ok d0"
  using assms(4) key_not_rev_dir [OF assms(1-3)] by (auto simp: os_ReadFile_def)

definition may_find :: "disk \<Rightarrow> block_key \<Rightarrow> byte list \<Rightarrow> BlockCache \<Rightarrow> block_key \<Rightarrow> byte list option set" where
  "may_find d k data bc j = {None, look bc d j} \<union>
     (if j = k then {Some (case dk_short d (key_path bc k) of None \<Rightarrow> data | Some n \<Rightarrow> take n data)} else {})"

definition same_faults :: "disk \<Rightarrow> disk \<Rightarrow> bool" where
  "same_faults d d' \<longleftrightarrow> dk_short d' = dk_short d \<and> dk_refuses d' = dk_refuses d"

lemma WriteFile_look:
  assumes "cache_at bc rs" "key_ok k" "key_ok j" "disk_ok d"
    and "d0 = d \<or> d0 = keep_files ((\<noteq>) (filepath_Join [bc_root bc, fst k, fst (snd k)])) d"
    and "os_WriteFile (key_path bc k) data now d0 = (ok, d1)"
  shows "look bc d1 j \<in> may_find d k data bc j" "disk_ok d1" "same_faults d d1"
proof -
  note d0 = rev_dir_look [OF assms(1-3,5)]
  note d1 = WriteFile_files [OF assms(6), of "key_path bc j"]
  have "look bc d1 j = look bc d0 j" if "j \<noteq> k"
    using d1 key_path_inj [OF assms(1,3,2)] that by (simp add: os_ReadFile_def)
  then show "look bc d1 j \<in> may_find d k data bc j"
    using d0 d1 by (cases "j = k") (auto simp: may_find_def os_ReadFile_def)
  show "disk_ok d1" "same_faults d d1"
    using d0 d1 assms(4) by (simp_all add: same_faults_def)
qed

lemma put_block_look:
  assumes "cache_at bc rs" "disk_ok d" "key_ok k" "key_ok j"
  shows "look bc (snd (put_block sort_Slice bc k data now d)) j \<in> may_find d k data bc j \<and>
    disk_ok (snd (put_block sort_Slice bc k data now d)) \<and>
    same_faults d (snd (put_block sort_Slice bc k data now d))"
proof (cases rule: PutBlock_cases
    [where sort_Slice = sort_Slice and bc = bc and k = k and data = data and now = now and d = d])
  case (refused d0)
  then show ?thesis
    using rev_dir_look [OF assms(1,3,4) refused(2)] assms(2)
    by (simp only: snd_conv same_faults_def may_find_def) simp
next
  case (short d0 d1)
  then show ?thesis
    using WriteFile_look [OF assms(1,3,4,2) short(2,3)] by (simp only: snd_conv)
next
  case (stored d0 d1)
  note wrote = WriteFile_look [OF assms(1,3,4,2) stored(2,3)]
  note kept = evict_look [where bc = bc and sort_Slice = sort_Slice and d = d1]
  have "None \<in> may_find d k data bc j"
    by (simp add: may_find_def)
  then have "look bc (evictIfNeeded sort_Slice bc d1) j \<in> may_find d k data bc j"
    using kept(1) [of j] wrote(1) by (metis (no_types))
  then show ?thesis
    using kept(2-4) wrote(2,3) by (simp only: stored(1) snd_conv same_faults_def)
qed

section \<open>The interface of the block cache\<close>

text \<open>
  What a reader of blocks relies on: the cache may forget, but what it finds under a key is what
  was stored under that key.
\<close>

locale forgetful_cache =
  fixes get :: "'k \<Rightarrow> int \<Rightarrow> 'd \<Rightarrow> 'v option \<times> 'd"
    and put :: "'k \<Rightarrow> 'v \<Rightarrow> int \<Rightarrow> 'd \<Rightarrow> bool \<times> 'd"
    and find :: "'d \<Rightarrow> 'k \<Rightarrow> 'v option"
    and sound :: "'d \<Rightarrow> bool"
    and valid :: "'k \<Rightarrow> bool"
  assumes get_find: "fst (get k now d) = find d k"
    and find_get: "find (snd (get k now d)) j = find d j"
    and find_put: "sound d \<Longrightarrow> valid k \<Longrightarrow> valid j \<Longrightarrow>
      find (snd (put k v now d)) j \<in> {None, find d j} \<union> (if j = k then {Some v} else {})"
    and sound_get: "sound d \<Longrightarrow> sound (snd (get k now d))"
    and sound_put: "sound d \<Longrightarrow> valid k \<Longrightarrow> sound (snd (put k v now d))"
begin

text \<open>A cache that holds only pieces of the given contents.\<close>

definition holds_only :: "('k \<Rightarrow> 'v) \<Rightarrow> 'd \<Rightarrow> bool" where
  "holds_only content d \<longleftrightarrow> sound d \<and> (\<forall>k v. valid k \<longrightarrow> find d k = Some v \<longrightarrow> v = content k)"

lemma holds_only_hit:
  "holds_only content d \<Longrightarrow> valid k \<Longrightarrow> fst (get k now d) = Some v \<Longrightarrow> v = content k"
  by (auto simp: holds_only_def get_find)

lemma holds_only_get: "holds_only content d \<Longrightarrow> holds_only content (snd (get k now d))"
  by (auto simp: holds_only_def find_get sound_get)

lemma holds_only_put:
  assumes "holds_only content d" "valid k"
  shows "holds_only content (snd (put k (content k) now d))"
  unfolding holds_only_def
proof (intro conjI allI impI)
  fix j v
  assume "valid j" "find (snd (put k (content k) now d)) j = Some v"
  then show "v = content j"
    using find_put [of d k j "content k" now] assms by (auto simp: holds_only_def split: if_splits)
qed (use assms in \<open>simp add: holds_only_def sound_put\<close>)

end

interpretation block_cache: forgetful_cache
  "get_block bc" "put_block sort_Slice bc" "look bc" "cache_ok sort_Slice bc" key_ok
  for sort_Slice bc
proof (unfold_locales, goal_cases)
  case (3 d k j v now)
  then show ?case
    using put_block_look [of bc _ d k j sort_Slice v now] by (auto simp: cache_ok_def may_find_def)
next
  case (5 d k v now)
  then show ?case
    using put_block_look [of bc _ d k k sort_Slice v now] by (auto simp: cache_ok_def same_faults_def)
qed (auto simp: get_block_look cache_ok_def)

section \<open>A successful PutBlock\<close>

lemma evict_target_le: "0 \<le> n \<Longrightarrow> evict_target n \<le> n"
  by (simp add: evict_target_def)

lemma put_block_stored:
  assumes "cache_at bc rs" "disk_ok d" "name_ok linkID" "name_ok revisionID"
    and "PutBlock sort_Slice bc linkID revisionID index data now d = (True, d')"
  shows "\<exists>d1. d' = evictIfNeeded sort_Slice bc d1 \<and> disk_ok d1 \<and> dk_refuses d1 = dk_refuses d \<and>
    file_at d1 (blockPath bc linkID revisionID index) = Some \<lparr>df_data = data, df_mtime = now\<rparr> \<and>
    (\<forall>p. p \<noteq> blockPath bc linkID revisionID index \<longrightarrow>
         file_at d1 p = None \<and> p = filepath_Join [bc_root bc, linkID, revisionID] \<or> file_at d1 p = file_at d p)"
proof -
  let ?k = "(linkID, revisionID, index)"
  have k: "key_ok ?k"
    using assms(3,4) by (simp add: key_ok_def)
  show ?thesis
  proof (cases rule: PutBlock_cases
      [where sort_Slice = sort_Slice and bc = bc and k = ?k and data = data and now = now and d = d])
    case (stored d0 d1)
    note d0 = rev_dir_look [OF assms(1) k k stored(2)]
    note d1 = WriteFile_files [OF stored(3), unfolded key_path_def fst_conv snd_conv]
    have "dk_short d0 (blockPath bc linkID revisionID index) = None"
      using d1 by blast
    then have "file_at d1 (blockPath bc linkID revisionID index) = Some \<lparr>df_data = data, df_mtime = now\<rparr>"
      using d1 by simp
    moreover have "file_at d1 p = file_at d0 p" if "p \<noteq> blockPath bc linkID revisionID index" for p
      using d1 [of p] that by simp
    moreover have "file_at d0 p = None \<and> p = filepath_Join [bc_root bc, linkID, revisionID] \<or>
        file_at d0 p = file_at d p" for p
      using stored(2) by (auto split: if_splits)
    moreover have "d' = evictIfNeeded sort_Slice bc d1"
      using stored(1) assms(5) by simp
    moreover have "disk_ok d1" "dk_refuses d1 = dk_refuses d"
      using d1 d0(3,4) assms(2) by auto
    ultimately show ?thesis
      by (intro exI [of _ d1]) simp
  qed (use assms(5) in simp_all)
qed

text \<open>The newest file stays if it alone fits into the cache.\<close>

lemma newest_kept:
  assumes "sorts_by_mtime sort_Slice" "disk_ok d1" "\<And>p. \<not> cannot_remove d1 p"
    and "file_at d1 q = Some g" "at_or_below (bc_root bc) q"
    and newest: "\<And>p f. file_at d1 p = Some f \<Longrightarrow> at_or_below (bc_root bc) p \<Longrightarrow> p \<noteq> q \<Longrightarrow> df_mtime f < df_mtime g"
    and fits: "int (length (df_data g)) \<le> evict_target (bc_maxSize bc)"
  shows "file_at (evictIfNeeded sort_Slice bc d1) q = Some g"
proof -
  let ?files = "WalkDir (bc_root bc) d1"
  let ?new = "\<lparr>cf_path = q, cf_mtime = df_mtime g, cf_size = int (length (df_data g))\<rparr>"
  let ?out = "evicted (evict_target (bc_maxSize bc)) (cannot_remove d1) (sort_Slice ?files) (cache_size bc d1)"
  obtain out where out: "evictIfNeeded sort_Slice bc d1 = keep_files (\<lambda>p. p \<notin> cf_path ` set out) d1"
    "set out \<subseteq> {f \<in> set ?files. \<not> cannot_remove d1 (cf_path f)}" "out = [] \<or> out = ?out"
    by (rule evictIfNeeded_keep [OF assms(1,2), of bc]) blast
  have "?new \<notin> set out"
  proof
    assume "?new \<in> set out"
    then have "?new \<in> set ?out"
      using out(3) by auto
    then obtain as bs where as: "?out = as @ ?new # bs"
      by (blast dest: split_list)
    obtain xs ys where xs: "sort_Slice ?files = xs @ ys" "?out = filter (\<lambda>f. \<not> cannot_remove d1 (cf_path f)) xs"
      using evicted_prefix [of "sort_Slice ?files" "evict_target (bc_maxSize bc)" "cannot_remove d1" "cache_size bc d1"]
      by blast
    then have xs_out: "xs = as @ ?new # bs"
      using as assms(3) by simp
    have files: "mset ?files = mset (as @ ?new # bs @ ys)" "sorted (map cf_mtime (as @ ?new # bs @ ys))"
      using assms(1) xs(1) xs_out by (auto simp: sorts_by_mtime_def dest: spec [of _ ?files])
    have "x \<notin> set (bs @ ys)" for x
    proof
      assume x: "x \<in> set (bs @ ys)"
      then have "cf_mtime ?new \<le> cf_mtime x"
        using files(2) by (auto simp: sorted_append)
      moreover have "distinct (map cf_path (as @ ?new # bs @ ys))"
        using WalkDir_paths [OF assms(2)] arg_cong [OF files(1), of "image_mset cf_path"]
        by (metis mset_eq_imp_distinct_iff mset_map)
      with x have "cf_path x \<noteq> q"
        by auto
      moreover have "x \<in> set ?files"
        using x arg_cong [OF files(1), of set_mset] by simp
      then obtain f where "file_at d1 (cf_path x) = Some f" "at_or_below (bc_root bc) (cf_path x)"
        "cf_mtime x = df_mtime f"
        using WalkDir_member [OF assms(2), of x] by (metis cacheFile.select_convs(2))
      ultimately show False
        using newest [of "cf_path x" f] by simp
    qed
    then have "bs @ ys = []"
      by (metis list.set_intros(1) neq_Nil_conv)
    then have "sum_mset (image_mset cf_size (mset ?files)) = sum_mset (image_mset cf_size (mset (as @ [?new])))"
      using files(1) by simp
    then have "cache_size bc d1 = sum_list (map cf_size as) + int (length (df_data g))"
      by (simp add: cache_size_def flip: sum_mset_sum_list)
    with evicted_needed [OF as] fits show False
      by simp
  qed
  then have "q \<notin> cf_path ` set out"
    using out(2) assms(4) WalkDir_member [OF assms(2)] by (auto simp: image_iff)
  then show ?thesis
    using out(1) assms(4) by simp
qed

section \<open>Properties\<close>

text \<open>A small cache for the witnesses: two blocks of four bytes, a limit of ten bytes.\<close>

definition sample_bc :: BlockCache where
  "sample_bc = \<lparr>bc_root = ''/c'', bc_maxSize = 10\<rparr>"

definition sample_disk :: "(string \<Rightarrow> nat option) \<Rightarrow> disk" where
  "sample_disk short =
     \<lparr>dk_files = [(''/c/l1/r/0'', \<lparr>df_data = [1, 1, 1, 1], df_mtime = 1\<rparr>),
                 (''/c/l2/r/0'', \<lparr>df_data = [2, 2, 2, 2], df_mtime = 2\<rparr>)],
      dk_refuses = (\<lambda>_. False), dk_short = short\<rparr>"

abbreviation sample_put :: "bool \<times> disk" where
  "sample_put \<equiv> PutBlock (sort_key cf_mtime) sample_bc ''l3'' ''r'' 0 [3, 3, 3, 3] 3 (sample_disk (\<lambda>_. None))"

lemma sorts_sort_key: "sorts_by_mtime (sort_key cf_mtime)"
  by (simp add: sorts_by_mtime_def)

lemma sample_bc_at: "cache_at sample_bc [''c'']"
  by (simp add: cache_at_def sample_bc_def abs_path_def name_ok_def)

lemma sample_disk_ok: "disk_ok (sample_disk short)"
  by (simp add: disk_ok_def sample_disk_def)

lemma sample_names: "name_ok ''l3''" "name_ok ''r''"
  by (simp_all add: name_ok_def)

lemma sample_put_files:
  "sample_put = (True, snd sample_put)"
  "dk_files (snd sample_put) =
     [(''/c/l2/r/0'', \<lparr>df_data = [2, 2, 2, 2], df_mtime = 2\<rparr>),
      (''/c/l3/r/0'', \<lparr>df_data = [3, 3, 3, 3], df_mtime = 3\<rparr>)]"
proof -
  have "fst sample_put"
    by code_simp
  then show "sample_put = (True, snd sample_put)"
    by (cases sample_put) simp
  show "dk_files (snd sample_put) =
     [(''/c/l2/r/0'', \<lparr>df_data = [2, 2, 2, 2], df_mtime = 2\<rparr>),
      (''/c/l3/r/0'', \<lparr>df_data = [3, 3, 3, 3], df_mtime = 3\<rparr>)]"
    by code_simp
qed

text \<open>
  C27. The block cache respects its limit: after a block has been stored, the files of the cache
  together are no larger than the configured size, unless none of those left can be removed.
\<close>

theorem put_block_bounded:
  assumes "sorts_by_mtime sort_Slice" "cache_at bc rs" "disk_ok d" "name_ok linkID" "name_ok revisionID"
    and "0 \<le> bc_maxSize bc"
    and "PutBlock sort_Slice bc linkID revisionID index data now d = (True, d')"
  shows "cache_size bc d' \<le> bc_maxSize bc \<or>
    (\<forall>p f. file_at d' p = Some f \<longrightarrow> at_or_below (bc_root bc) p \<longrightarrow> dk_refuses d (Os_remove p))"
proof -
  obtain d1 where d1: "d' = evictIfNeeded sort_Slice bc d1" "disk_ok d1" "dk_refuses d1 = dk_refuses d"
    using put_block_stored [OF assms(2-5,7)] by blast
  obtain out where out: "d' = keep_files (\<lambda>p. p \<notin> cf_path ` set out) d1"
    "cache_size bc d' \<le> bc_maxSize bc \<or> cache_size bc d' \<le> evict_target (bc_maxSize bc) \<or>
       set out = {f \<in> set (WalkDir (bc_root bc) d1). \<not> cannot_remove d1 (cf_path f)}"
    by (rule evictIfNeeded_keep [OF assms(1) d1(2), of bc]) (use d1(1) in blast)
  show ?thesis
  proof (cases "cache_size bc d' \<le> bc_maxSize bc")
    case False
    then have all: "set out = {f \<in> set (WalkDir (bc_root bc) d1). \<not> cannot_remove d1 (cf_path f)}"
      using out(2) evict_target_le [OF assms(6)] by linarith
    have "dk_refuses d (Os_remove p)" if "file_at d' p = Some f" "at_or_below (bc_root bc) p" for p f
    proof -
      from that(1) out(1) have "file_at d1 p = Some f" "p \<notin> cf_path ` set out"
        by (auto split: if_splits)
      then have "\<lparr>cf_path = p, cf_mtime = df_mtime f, cf_size = int (length (df_data f))\<rparr>
          \<in> set (WalkDir (bc_root bc) d1)"
        using that(2) by (simp add: WalkDir_member [OF d1(2)])
      with all \<open>p \<notin> cf_path ` set out\<close> d1(3) show ?thesis
        by force
    qed
    then show ?thesis by blast
  qed simp
qed

theorem put_block_bounded_witness:
  "cache_size sample_bc (snd sample_put) \<le> 10 \<or>
    (\<forall>p f. file_at (snd sample_put) p = Some f \<longrightarrow> at_or_below ''/c'' p \<longrightarrow> False)"
  using put_block_bounded [OF sorts_sort_key sample_bc_at sample_disk_ok sample_names _ sample_put_files(1)]
  by (simp add: sample_bc_def sample_disk_def)

text \<open>
  Eviction is least recently used first: when a stored block pushes other files out of the
  cache, each of them was used no later than every file that stays and could have been removed.
\<close>

theorem put_block_evicts_oldest:
  assumes "sorts_by_mtime sort_Slice" "cache_at bc rs" "disk_ok d" "name_ok linkID" "name_ok revisionID"
    and "PutBlock sort_Slice bc linkID revisionID index data now d = (True, d')"
    and "map_of (dk_files d) p = Some f" "map_of (dk_files d') p = None"
    and "p \<noteq> blockPath bc linkID revisionID index" "p \<noteq> filepath_Join [bc_root bc, linkID, revisionID]"
    and "map_of (dk_files d') q = Some g" "at_or_below (bc_root bc) q" "\<not> dk_refuses d (Os_remove q)"
  shows "df_mtime f \<le> df_mtime g"
proof -
  let ?cf = "\<lambda>p f. \<lparr>cf_path = p, cf_mtime = df_mtime f, cf_size = int (length (df_data f))\<rparr>"
  obtain d1 where d1: "d' = evictIfNeeded sort_Slice bc d1" "disk_ok d1" "dk_refuses d1 = dk_refuses d"
    "file_at d1 p = Some f"
    using put_block_stored [OF assms(2-6)] assms(7,9,10) by metis
  obtain out where out: "d' = keep_files (\<lambda>p. p \<notin> cf_path ` set out) d1"
    "\<And>f g. f \<in> set out \<Longrightarrow> g \<in> set (WalkDir (bc_root bc) d1) \<Longrightarrow> g \<notin> set out \<Longrightarrow>
       \<not> cannot_remove d1 (cf_path g) \<Longrightarrow> cf_mtime f \<le> cf_mtime g"
    "set out \<subseteq> set (WalkDir (bc_root bc) d1)"
    by (rule evictIfNeeded_keep [OF assms(1) d1(2), of bc]) (use d1(1) in blast)
  from out(1) d1(4) assms(8) obtain f' where f': "f' \<in> set out" "cf_path f' = p"
    by (auto split: if_splits)
  with out(3) d1(4) have "f' = ?cf p f"
    using WalkDir_member [OF d1(2), of f' "bc_root bc"] by auto
  moreover from out(1) assms(11) have q: "file_at d1 q = Some g" "q \<notin> cf_path ` set out"
    by (auto split: if_splits)
  then have "?cf q g \<in> set (WalkDir (bc_root bc) d1)" "?cf q g \<notin> set out"
    using assms(12) by (auto simp: WalkDir_member [OF d1(2)] image_iff)
  ultimately show ?thesis
    using out(2) [OF f'(1), of "?cf q g"] assms(13) d1(3) by simp
qed

theorem put_block_evicts_oldest_witness:
  "file_at (snd sample_put) ''/c/l1/r/0'' = None \<and>
   df_mtime \<lparr>df_data = [1, 1, 1, 1], df_mtime = 1\<rparr> \<le> df_mtime \<lparr>df_data = [2, 2, 2, 2], df_mtime = 2\<rparr>"
proof
  show gone: "file_at (snd sample_put) ''/c/l1/r/0'' = None"
    by (simp add: sample_put_files(2))
  show "df_mtime \<lparr>df_data = [1, 1, 1, 1], df_mtime = 1\<rparr> \<le> df_mtime \<lparr>df_data = [2, 2, 2, 2], df_mtime = 2\<rparr>"
  proof (rule put_block_evicts_oldest [OF sorts_sort_key sample_bc_at sample_disk_ok sample_names
        sample_put_files(1) _ gone, where q = "''/c/l2/r/0''"])
    show "''/c/l1/r/0'' \<noteq> blockPath sample_bc ''l3'' ''r'' 0"
      "''/c/l1/r/0'' \<noteq> filepath_Join [bc_root sample_bc, ''l3'', ''r'']"
      by code_simp+
  qed (simp_all add: sample_put_files(2), simp_all add: sample_disk_def sample_bc_def at_or_below_def)
qed

text \<open>
  A stored block is found again: when \<open>PutBlock\<close> succeeds, the other files of the cache were
  used before, the block fits into 90 % of the limit and the system lets files be removed and read,
  reading the block returns its bytes, whatever had to be evicted.
\<close>

theorem put_block_then_get:
  assumes "sorts_by_mtime sort_Slice" "cache_at bc rs" "disk_ok d" "name_ok linkID" "name_ok revisionID"
    and "PutBlock sort_Slice bc linkID revisionID index data now d = (True, d')"
    and "\<And>p. \<not> dk_refuses d (Os_remove p)" "\<And>p. \<not> dk_refuses d (Os_read p)"
    and "\<And>p f. map_of (dk_files d) p = Some f \<Longrightarrow> at_or_below (bc_root bc) p \<Longrightarrow> df_mtime f < now"
    and "int (length data) \<le> evict_target (bc_maxSize bc)"
  shows "fst (bc_GetBlock bc linkID revisionID index later d') = Some data"
proof -
  let ?p = "blockPath bc linkID revisionID index"
  have k: "key_ok (linkID, revisionID, index)"
    using assms(4,5) by (simp add: key_ok_def)
  obtain d1 where d1: "d' = evictIfNeeded sort_Slice bc d1" "disk_ok d1" "dk_refuses d1 = dk_refuses d"
    "file_at d1 ?p = Some \<lparr>df_data = data, df_mtime = now\<rparr>"
    and other: "\<And>p. p \<noteq> ?p \<Longrightarrow> file_at d1 p = None \<and> p = filepath_Join [bc_root bc, linkID, revisionID] \<or>
      file_at d1 p = file_at d p"
    using put_block_stored [OF assms(2-6)] by blast
  have "file_at d' ?p = Some \<lparr>df_data = data, df_mtime = now\<rparr>"
    unfolding d1(1)
  proof (rule newest_kept [OF assms(1) d1(2) _ d1(4)])
    fix p f
    assume "file_at d1 p = Some f" "at_or_below (bc_root bc) p" "p \<noteq> ?p"
    then show "df_mtime f < df_mtime \<lparr>df_data = data, df_mtime = now\<rparr>"
      using other [of p] assms(9) by auto
  qed (use assms(7,10) d1(3) key_below_root [OF assms(2) k] in \<open>simp_all add: key_path_def\<close>)
  moreover have "dk_refuses d' = dk_refuses d"
    using d1(1,3) evict_look(4) by metis
  ultimately show ?thesis
    using assms(8) by (simp add: bc_GetBlock_def os_ReadFile_def Let_def)
qed

theorem put_block_then_get_witness:
  "fst (bc_GetBlock sample_bc ''l3'' ''r'' 0 9 (snd sample_put)) = Some [3, 3, 3, 3]"
proof (rule put_block_then_get [OF sorts_sort_key sample_bc_at sample_disk_ok sample_names sample_put_files(1)])
  show "\<And>p f. map_of (dk_files (sample_disk (\<lambda>_. None))) p = Some f \<Longrightarrow>
      at_or_below (bc_root sample_bc) p \<Longrightarrow> df_mtime f < 3"
    by (auto simp: sample_disk_def split: if_splits)
qed (simp_all add: sample_disk_def sample_bc_def evict_target_def)

text \<open>
  A write that fails half way is served as a block: the caller of \<open>PutBlock\<close> sees the error,
  but the truncated file stays where the block belongs, and reading the block from then on returns
  the truncated bytes as a cache hit.
\<close>

theorem short_write_served:
  assumes "cache_at bc rs" "name_ok linkID" "name_ok revisionID"
    and "\<And>p. \<not> dk_refuses d (Os_read p)" "\<And>p. \<not> dk_refuses d (Os_mkdir p)"
    and "\<And>q. q \<in> fst ` set (dk_files d) \<Longrightarrow> \<not> at_or_below q (filepath_Join [bc_root bc, linkID, revisionID])"
    and "dk_short d (blockPath bc linkID revisionID index) = Some n"
  shows "\<exists>d'. PutBlock sort_Slice bc linkID revisionID index data now d = (False, d') \<and>
    fst (bc_GetBlock bc linkID revisionID index later d') = Some (take n data)"
proof -
  have "filepath_Join [bc_root bc, linkID, revisionID] \<notin> fst ` set (dk_files d)"
    using assms(6) by (auto simp: at_or_below_def)
  moreover have "os_MkdirAll (filepath_Join [bc_root bc, linkID, revisionID]) d"
    using assms(5,6) by (auto simp: os_MkdirAll_def)
  ultimately show ?thesis
    using assms(4,7)
    by (simp add: PutBlock_def os_WriteFile_def bc_GetBlock_def os_ReadFile_def Let_def AList.update_conv')
qed

theorem short_write_served_witness:
  "\<exists>d'. PutBlock (sort_key cf_mtime) sample_bc ''l3'' ''r'' 0 [3, 3, 3, 3] 3 (sample_disk (\<lambda>_. Some 2)) = (False, d') \<and>
    fst (bc_GetBlock sample_bc ''l3'' ''r'' 0 9 d') = Some (take 2 [3, 3, 3, 3])"
proof (rule short_write_served [OF sample_bc_at sample_names])
  show "\<And>q. q \<in> fst ` set (dk_files (sample_disk (\<lambda>_. Some 2))) \<Longrightarrow>
      \<not> at_or_below q (filepath_Join [bc_root sample_bc, ''l3'', ''r''])"
    using rev_dir_abs [OF sample_bc_at, of "(''l3'', ''r'', 0)"] sample_names
    by (auto simp: sample_disk_def key_ok_def abs_path_def at_or_below_def)
qed (simp_all add: sample_disk_def)

end
