(* ===== verification/Drive_Session.thy ===== *)
theory Drive_Session
  imports Meta_Cache Block_Cache
begin

text \<open>
  The session of \<open>src/helper/drive/session.go\<close>: from POSIX paths to links and keyrings, with the
  metadata cache in front of the API and as the fallback when the API cannot be reached. A method
  takes the session and returns its result, or the error, with the session after it; the world
  that the API acts on and the disk are kept in the session's record.
\<close>

section \<open>State\<close>

record ('w, 'k) Session =
  s_shareID :: string
  s_volumeID :: string
  s_rootID :: string
  s_account :: string
  s_cacheBase :: string
  s_apiBase :: string
  s_auth :: "string \<times> string" \<comment> \<open>uid and access token\<close>
  s_addrKR :: 'k
  s_addrEmail :: string
  s_shareKR :: "'k option"
  s_nodeKRs :: "string \<Rightarrow> 'k option"
  s_linkPaths :: "string \<Rightarrow> string option"
  s_pathLinks :: "string \<Rightarrow> string option"
  s_meta :: "'k MetaCache"
  s_blocks :: "BlockCache option"
  s_world :: 'w
  s_disk :: disk

text \<open>A call of the API or of the clock, and Go's early return on an error.\<close>

definition on_world :: "('w \<Rightarrow> 'a \<times> 'w) \<Rightarrow> ('w, 'k) Session \<Rightarrow> 'a \<times> ('w, 'k) Session" where
  "on_world f s = (case f (s_world s) of (r, w) \<Rightarrow> (r, s\<lparr>s_world := w\<rparr>))"

definition if_ok :: "('e + 'a) \<times> 's \<Rightarrow> ('a \<Rightarrow> 's \<Rightarrow> ('e + 'b) \<times> 's) \<Rightarrow> ('e + 'b) \<times> 's" where
  "if_ok m f = (case m of (Inl e, s) \<Rightarrow> (Inl e, s) | (Inr x, s) \<Rightarrow> f x s)"

lemma if_ok_simps [simp]: "if_ok (Inl e, s) f = (Inl e, s)" "if_ok (Inr x, s) f = f x s"
  by (simp_all add: if_ok_def)

section \<open>Keyrings and path resolution\<close>

definition shareKeyRing ::
  "('w, 'k) proton_api \<Rightarrow> ('w, 'k) Session \<Rightarrow> (drive_error + 'k) \<times> ('w, 'k) Session" where
  "shareKeyRing A s =
     (case s_shareKR s of
        Some kr \<Rightarrow> (Inr kr, s)
      | None \<Rightarrow>
          if_ok (on_world (api_GetShareKR A (s_shareID s) (s_addrKR s)) s)
            (\<lambda>kr s. (Inr kr, s\<lparr>s_shareKR := Some kr\<rparr>)))"

definition rootNodeKeyRing ::
  "('w, 'k) proton_api \<Rightarrow> ('w, 'k) Session \<Rightarrow> (drive_error + 'k) \<times> ('w, 'k) Session" where
  "rootNodeKeyRing A s =
     (case s_nodeKRs s (s_rootID s) of
        Some kr \<Rightarrow> (Inr kr, s)
      | None \<Rightarrow>
          if_ok (shareKeyRing A s) (\<lambda>shareKR s.
          if_ok (on_world (api_GetLink A (s_shareID s) (s_rootID s)) s) (\<lambda>rootLink s.
            case GetKeyRing A rootLink shareKR (s_addrKR s) of
              Inl e \<Rightarrow> (Inl e, s)
            | Inr kr \<Rightarrow> (Inr kr, s\<lparr>s_nodeKRs := (s_nodeKRs s)(s_rootID s \<mapsto> kr)\<rparr>))))"

definition splitPath :: "string \<Rightarrow> string list" where
  "splitPath p =
     (let p = path_Clean (slash # p) in
      if p = [slash] then [] else split_slash (trim_prefix_slash p))"

text \<open>The first child whose name can be decrypted and is the one wanted.\<close>

definition named_child :: "('w, 'k) proton_api \<Rightarrow> 'k \<Rightarrow> 'k \<Rightarrow> string \<Rightarrow> link list \<Rightarrow> link option" where
  "named_child A kr addrKR part children = List.find (\<lambda>c. GetName A c kr addrKR = Inr part) children"

fun resolve_parts ::
  "('w, 'k) proton_api \<Rightarrow> string \<Rightarrow> string list \<Rightarrow> string \<Rightarrow> 'k \<Rightarrow> string \<Rightarrow> ('w, 'k) Session
   \<Rightarrow> (drive_error + string \<times> 'k) \<times> ('w, 'k) Session" where
  "resolve_parts A p [] linkID kr currentPath s = (Inr (linkID, kr), s)"
| "resolve_parts A p (part # parts) linkID kr currentPath s =
     if_ok (on_world (api_ListChildren A (s_shareID s) linkID) s) (\<lambda>children s.
       case on_world (time_Now A) s of (now, s) \<Rightarrow>
       (let s = s\<lparr>s_meta := SetList now currentPath (children, kr) (s_meta s)\<rparr> in
        case named_child A kr (s_addrKR s) part children of
          None \<Rightarrow> (Inl (Errorf (''not found: '' @ p)), s)
        | Some child \<Rightarrow>
            (case GetKeyRing A child kr (s_addrKR s) of
               Inl e \<Rightarrow> (Inl e, s)
             | Inr childKR \<Rightarrow>
                 (let i = lk_LinkID child;
                      currentPath = (if currentPath = [slash] then slash # part
                                     else currentPath @ slash # part)
                  in resolve_parts A p parts i childKR currentPath
                       (s\<lparr>s_nodeKRs := (s_nodeKRs s)(i \<mapsto> childKR),
                          s_linkPaths := (s_linkPaths s)(i \<mapsto> currentPath),
                          s_pathLinks := (s_pathLinks s)(currentPath \<mapsto> i)\<rparr>)))))"

definition resolvePath ::
  "('w, 'k) proton_api \<Rightarrow> string \<Rightarrow> ('w, 'k) Session \<Rightarrow> (drive_error + string \<times> 'k) \<times> ('w, 'k) Session" where
  "resolvePath A p s =
     (let p = path_Clean (slash # p); parts = splitPath p in
      case Option.bind (s_pathLinks s p) (\<lambda>i. map_option (Pair i) (s_nodeKRs s i)) of
        Some (i, kr) \<Rightarrow> (Inr (i, kr), s)
      | None \<Rightarrow>
          (let s = s\<lparr>s_linkPaths := (s_linkPaths s)(s_rootID s \<mapsto> [slash])\<rparr> in
           if_ok (rootNodeKeyRing A s) (\<lambda>kr s.
             resolve_parts A p parts (s_rootID s) kr [slash]
               (s\<lparr>s_pathLinks := (s_pathLinks s)([slash] \<mapsto> s_rootID s)\<rparr>))))"

definition parentKRFor ::
  "('w, 'k) proton_api \<Rightarrow> string \<Rightarrow> ('w, 'k) Session \<Rightarrow> (drive_error + 'k) \<times> ('w, 'k) Session" where
  "parentKRFor A p s =
     if_ok (resolvePath A (path_Dir (path_Clean (slash # p))) s) (\<lambda>(_, kr) s. (Inr kr, s))"

section \<open>Listing and Stat\<close>

text \<open>On an error that means "offline", the stale entry; otherwise the error.\<close>

definition stale_or :: "drive_error \<Rightarrow> 'a option \<Rightarrow> 's \<Rightarrow> (drive_error + 'a) \<times> 's" where
  "stale_or err stale s =
     (if isOfflineError err then (case stale of Some v \<Rightarrow> (Inr v, s) | None \<Rightarrow> (Inl err, s))
      else (Inl err, s))"

definition ListChildren ::
  "('w, 'k) proton_api \<Rightarrow> string \<Rightarrow> ('w, 'k) Session \<Rightarrow> (drive_error + link list \<times> 'k) \<times> ('w, 'k) Session" where
  "ListChildren A dirPath s =
     (case on_world (time_Now A) s of (now, s) \<Rightarrow>
      case GetList now dirPath (s_meta s) of
        Some (links, kr) \<Rightarrow> (Inr (links, kr), s)
      | None \<Rightarrow>
          (case resolvePath A dirPath s of
             (Inl err, s) \<Rightarrow> stale_or err (GetListStale dirPath (s_meta s)) s
           | (Inr (linkID, kr), s) \<Rightarrow>
               (case on_world (api_ListChildren A (s_shareID s) linkID) s of
                  (Inl err, s) \<Rightarrow> stale_or err (GetListStale dirPath (s_meta s)) s
                | (Inr links, s) \<Rightarrow>
                    (case on_world (time_Now A) s of (now, s) \<Rightarrow>
                       (Inr (links, kr), s\<lparr>s_meta := SetList now dirPath (links, kr) (s_meta s)\<rparr>)))))"

definition statUncached ::
  "('w, 'k) proton_api \<Rightarrow> string \<Rightarrow> ('w, 'k) Session \<Rightarrow> (drive_error + link \<times> 'k) \<times> ('w, 'k) Session" where
  "statUncached A p s =
     (if p = [slash] then
        if_ok (on_world (api_GetLink A (s_shareID s) (s_rootID s)) s) (\<lambda>link s.
        if_ok (rootNodeKeyRing A s) (\<lambda>kr s. (Inr (link, kr), s)))
      else
        if_ok (parentKRFor A p s) (\<lambda>parentKR s.
        if_ok (ListChildren A (path_Dir p) s) (\<lambda>(children, _) s.
          case named_child A parentKR (s_addrKR s) (path_Base p) children of
            Some l \<Rightarrow> (Inr (l, parentKR), s)
          | None \<Rightarrow> (Inl (Errorf (''not found: '' @ p)), s))))"

definition Stat ::
  "('w, 'k) proton_api \<Rightarrow> string \<Rightarrow> ('w, 'k) Session \<Rightarrow> (drive_error + link \<times> 'k) \<times> ('w, 'k) Session" where
  "Stat A p s =
     (let p = path_Clean (slash # p) in
      case on_world (time_Now A) s of (now, s) \<Rightarrow>
      case GetStat now p (s_meta s) of
        Some (link, kr) \<Rightarrow> (Inr (link, kr), s)
      | None \<Rightarrow>
          (case statUncached A p s of
             (Inl err, s) \<Rightarrow> stale_or err (GetStatStale p (s_meta s)) s
           | (Inr (link, kr), s) \<Rightarrow>
               (case on_world (time_Now A) s of (now, s) \<Rightarrow>
                  (Inr (link, kr), s\<lparr>s_meta := SetStat now p (link, kr) (s_meta s)\<rparr>))))"

section \<open>Changes\<close>

definition Move :: "string \<Rightarrow> string \<Rightarrow> ('w, 'k) Session \<Rightarrow> drive_error option \<times> ('w, 'k) Session" where
  "Move src dst s = (Some (Errorf ''Move: not yet implemented''), s)"

definition Delete ::
  "('w, 'k) proton_api \<Rightarrow> string \<Rightarrow> bool \<Rightarrow> ('w, 'k) Session \<Rightarrow> drive_error option \<times> ('w, 'k) Session" where
  "Delete A p trash s =
     (case Stat A p s of
        (Inl err, s) \<Rightarrow> (Some err, s)
      | (Inr (link, _), s) \<Rightarrow>
          (case resolvePath A (path_Dir (path_Clean (slash # p))) s of
             (Inl err, s) \<Rightarrow> (Some err, s)
           | (Inr (parentID, _), s) \<Rightarrow>
               if trash then on_world (api_TrashChildren A (s_shareID s) parentID (lk_LinkID link)) s
               else on_world (api_DeleteChildren A (s_shareID s) parentID (lk_LinkID link)) s))"

definition InvalidatePath :: "string \<Rightarrow> ('w, 'k) Session \<Rightarrow> ('w, 'k) Session" where
  "InvalidatePath p s =
     s\<lparr>s_meta := meta_InvalidatePath p (s_meta s),
       s_pathLinks := (\<lambda>q. if q = p \<or> prefix (p @ [slash]) q then None else s_pathLinks s q)\<rparr>"

definition invalidateLinkID :: "string list \<Rightarrow> string \<Rightarrow> ('w, 'k) Session \<Rightarrow> ('w, 'k) Session" where
  "invalidateLinkID order linkID s =
     (let s = s\<lparr>s_meta := meta_invalidateLinkID order linkID (s_meta s)\<rparr> in
      case s_linkPaths s linkID of
        None \<Rightarrow> s
      | Some p \<Rightarrow> s\<lparr>s_pathLinks := map_delete p (s_pathLinks s)\<rparr>)"

definition invalidateAll :: "('w, 'k) Session \<Rightarrow> ('w, 'k) Session" where
  "invalidateAll s = s\<lparr>s_meta := meta_invalidateAll (s_meta s), s_pathLinks := Map.empty\<rparr>"

section \<open>The drive that the paths are about\<close>

text \<open>
  The reference: a drive whose folders do not change while it is looked at. A path is walked from
  the root, each name among the children of the link reached, with the keyring of that link.
\<close>

record 'k drive =
  dr_shareID :: string
  dr_rootID :: string
  dr_addrKR :: 'k
  dr_shareKR :: 'k
  dr_rootKR :: 'k
  dr_rootLink :: link
  dr_children :: "string \<Rightarrow> link list"

fun walk_from :: "('w, 'k) proton_api \<Rightarrow> 'k drive \<Rightarrow> string \<times> 'k \<Rightarrow> string list \<Rightarrow> (string \<times> 'k) option" where
  "walk_from A D at [] = Some at"
| "walk_from A D at (n # ns) =
     (case named_child A (snd at) (dr_addrKR D) n (dr_children D (fst at)) of
        None \<Rightarrow> None
      | Some c \<Rightarrow>
          (case GetKeyRing A c (snd at) (dr_addrKR D) of
             Inl e \<Rightarrow> None
           | Inr kr \<Rightarrow> walk_from A D (lk_LinkID c, kr) ns))"

abbreviation walk :: "('w, 'k) proton_api \<Rightarrow> 'k drive \<Rightarrow> string list \<Rightarrow> (string \<times> 'k) option" where
  "walk A D \<equiv> walk_from A D (dr_rootID D, dr_rootKR D)"

text \<open>The link at a path, with its parent's keyring.\<close>

definition link_at :: "('w, 'k) proton_api \<Rightarrow> 'k drive \<Rightarrow> string list \<Rightarrow> (link \<times> 'k) option" where
  "link_at A D ns =
     (if ns = [] then Some (dr_rootLink D, dr_rootKR D)
      else (case walk A D (butlast ns) of
              None \<Rightarrow> None
            | Some (i, kr) \<Rightarrow>
                map_option (\<lambda>l. (l, kr)) (named_child A kr (dr_addrKR D) (last ns) (dr_children D i))))"

text \<open>The API answers from the drive, and a link has one keyring wherever it is reached.\<close>

definition serves_drive :: "('w, 'k) proton_api \<Rightarrow> 'k drive \<Rightarrow> bool" where
  "serves_drive A D \<longleftrightarrow>
     (\<forall>i w. fst (api_ListChildren A (dr_shareID D) i w) = Inr (dr_children D i)) \<and>
     (\<forall>w. fst (api_GetLink A (dr_shareID D) (dr_rootID D) w) = Inr (dr_rootLink D)) \<and>
     (\<forall>w. fst (api_GetShareKR A (dr_shareID D) (dr_addrKR D) w) = Inr (dr_shareKR D)) \<and>
     GetKeyRing A (dr_rootLink D) (dr_shareKR D) (dr_addrKR D) = Inr (dr_rootKR D) \<and>
     (\<forall>ns ms i kr kr'. walk A D ns = Some (i, kr) \<longrightarrow> walk A D ms = Some (i, kr') \<longrightarrow> kr = kr')"

text \<open>A session on the drive: whatever it has cached is what the drive would answer.\<close>

definition names_ok :: "string list \<Rightarrow> bool" where
  "names_ok ns \<longleftrightarrow> (\<forall>n \<in> set ns. name_ok n)"

definition session_of :: "'k drive \<Rightarrow> ('w, 'k) Session \<Rightarrow> bool" where
  "session_of D s \<longleftrightarrow> s_shareID s = dr_shareID D \<and> s_rootID s = dr_rootID D \<and> s_addrKR s = dr_addrKR D"

definition paths_coherent ::
  "('w, 'k) proton_api \<Rightarrow> 'k drive \<Rightarrow> (string \<Rightarrow> string option) \<Rightarrow> bool" where
  "paths_coherent A D links \<longleftrightarrow>
     (\<forall>p i. links p = Some i \<longrightarrow> (\<exists>kr. walk A D (clean_names p) = Some (i, kr)))"

definition keys_coherent ::
  "('w, 'k) proton_api \<Rightarrow> 'k drive \<Rightarrow> (string \<Rightarrow> 'k option) \<Rightarrow> bool" where
  "keys_coherent A D krs \<longleftrightarrow>
     (\<forall>i kr ns kr'. krs i = Some kr \<longrightarrow> walk A D ns = Some (i, kr') \<longrightarrow> kr' = kr)"

definition meta_coherent ::
  "('w, 'k) proton_api \<Rightarrow> 'k drive \<Rightarrow> 'k MetaCache \<Rightarrow> bool" where
  "meta_coherent A D c \<longleftrightarrow>
     (\<forall>p v. GetListStale p c = Some v \<longrightarrow>
        (\<exists>i. walk A D (clean_names p) = Some (i, snd v) \<and> fst v = dr_children D i)) \<and>
     (\<forall>p v. GetStatStale p c = Some v \<longrightarrow> link_at A D (clean_names p) = Some v)"

definition caches_coherent :: "('w, 'k) proton_api \<Rightarrow> 'k drive \<Rightarrow> ('w, 'k) Session \<Rightarrow> bool" where
  "caches_coherent A D s \<longleftrightarrow>
     session_of D s \<and> paths_coherent A D (s_pathLinks s) \<and>
     keys_coherent A D (s_nodeKRs s) \<and> (\<forall>kr. s_shareKR s = Some kr \<longrightarrow> kr = dr_shareKR D) \<and>
     meta_coherent A D (s_meta s)"

definition coherent :: "('w, 'k) proton_api \<Rightarrow> 'k drive \<Rightarrow> ('w, 'k) Session \<Rightarrow> bool" where
  "coherent A D s \<longleftrightarrow> serves_drive A D \<and> caches_coherent A D s"

text \<open>What a call leads to: the session stays on the drive, and the result is the given one.\<close>

definition answers ::
  "('w, 'k) proton_api \<Rightarrow> 'k drive \<Rightarrow> 'a option \<Rightarrow> (drive_error + 'a) \<times> ('w, 'k) Session \<Rightarrow> bool" where
  "answers A D x m \<longleftrightarrow>
     coherent A D (snd m) \<and> (case x of Some y \<Rightarrow> fst m = Inr y | None \<Rightarrow> \<exists>e. fst m = Inl e)"

lemma walk_append:
  "walk_from A D at (ns @ ms) = Option.bind (walk_from A D at ns) (\<lambda>at. walk_from A D at ms)"
  by (induction A D at ns rule: walk_from.induct) (auto split: option.split sum.split)

lemma answers_Some: "answers A D (Some y) m \<longleftrightarrow> (\<exists>s. m = (Inr y, s) \<and> coherent A D s)"
  by (cases m) (auto simp: answers_def)

lemma answers_None: "answers A D None m \<longleftrightarrow> (\<exists>e s. m = (Inl e, s) \<and> coherent A D s)"
  by (cases m) (auto simp: answers_def)

lemma if_ok_answers:
  assumes "answers A D x m"
    and "\<And>y s. x = Some y \<Longrightarrow> coherent A D s \<Longrightarrow> answers A D (f y) (g y s)"
  shows "answers A D (Option.bind x f) (if_ok m g)"
  using assms by (cases x) (auto simp: answers_Some answers_None)

section \<open>Coherence under the elementary steps\<close>

named_theorems coherent_intros \<open>steps that keep a session coherent\<close>

lemma coherent_serves: "coherent A D s \<Longrightarrow> serves_drive A D"
  by (simp add: coherent_def)

lemma coherent_session:
  "coherent A D s \<Longrightarrow> s_shareID s = dr_shareID D"
  "coherent A D s \<Longrightarrow> s_rootID s = dr_rootID D"
  "coherent A D s \<Longrightarrow> s_addrKR s = dr_addrKR D"
  by (simp_all add: coherent_def caches_coherent_def session_of_def)

lemma coherent_world [coherent_intros]: "coherent A D s \<Longrightarrow> coherent A D (s\<lparr>s_world := w\<rparr>)"
  by (simp add: coherent_def caches_coherent_def session_of_def)

lemma coherent_linkPaths [coherent_intros]: "coherent A D s \<Longrightarrow> coherent A D (s\<lparr>s_linkPaths := f\<rparr>)"
  by (simp add: coherent_def caches_coherent_def session_of_def)

lemma coherent_shareKR [coherent_intros]: "coherent A D s \<Longrightarrow> coherent A D (s\<lparr>s_shareKR := Some (dr_shareKR D)\<rparr>)"
  by (simp add: coherent_def caches_coherent_def session_of_def)

lemma on_world_coherent: "on_world f s = (r, s') \<Longrightarrow> coherent A D s \<Longrightarrow> coherent A D s'"
  by (auto simp: on_world_def coherent_world split: prod.splits)

lemma on_world_answers:
  assumes "coherent A D s" "\<And>w. fst (f w) = Inr y"
  shows "answers A D (Some y) (on_world f s)"
  using assms(2) [of "s_world s"] coherent_world [OF assms(1)]
  by (cases "f (s_world s)") (simp add: on_world_def answers_Some)

lemma coherent_nodeKR [coherent_intros]:
  assumes "coherent A D s" "walk A D ns = Some (i, kr)"
  shows "coherent A D (s\<lparr>s_nodeKRs := (s_nodeKRs s)(i \<mapsto> kr)\<rparr>)"
  using assms unfolding coherent_def caches_coherent_def keys_coherent_def serves_drive_def session_of_def by auto

lemma coherent_pathLink [coherent_intros]:
  assumes "coherent A D s" "walk A D (clean_names p) = Some (i, kr)"
  shows "coherent A D (s\<lparr>s_pathLinks := (s_pathLinks s)(p \<mapsto> i)\<rparr>)"
  using assms unfolding coherent_def caches_coherent_def paths_coherent_def session_of_def by auto

lemma coherent_list [coherent_intros]:
  assumes "coherent A D s" "walk A D (clean_names p) = Some (i, kr)"
  shows "coherent A D (s\<lparr>s_meta := SetList now p (dr_children D i, kr) (s_meta s)\<rparr>)"
  using assms
  by (auto simp: coherent_def caches_coherent_def session_of_def meta_coherent_def list_cache.stale_store GetStatStale_def set_lookups)

lemma coherent_stat [coherent_intros]:
  assumes "coherent A D s" "link_at A D (clean_names p) = Some v"
  shows "coherent A D (s\<lparr>s_meta := SetStat now p v (s_meta s)\<rparr>)"
  using assms
  by (auto simp: coherent_def caches_coherent_def session_of_def meta_coherent_def stat_cache.stale_store GetListStale_def set_lookups)

text \<open>What is cached is what the drive has.\<close>

lemma cached_list:
  "caches_coherent A D s \<Longrightarrow> GetListStale p (s_meta s) = Some v \<Longrightarrow>
     \<exists>i. walk A D (clean_names p) = Some (i, snd v) \<and> fst v = dr_children D i"
  unfolding caches_coherent_def meta_coherent_def by blast

lemma cached_stat:
  "caches_coherent A D s \<Longrightarrow> GetStatStale p (s_meta s) = Some v \<Longrightarrow> link_at A D (clean_names p) = Some v"
  unfolding caches_coherent_def meta_coherent_def by blast

lemma cached_path:
  "caches_coherent A D s \<Longrightarrow> s_pathLinks s p = Some i \<Longrightarrow> s_nodeKRs s i = Some kr \<Longrightarrow>
     walk A D (clean_names p) = Some (i, kr)"
  unfolding caches_coherent_def paths_coherent_def keys_coherent_def by blast

lemma cached_root:
  "caches_coherent A D s \<Longrightarrow> s_nodeKRs s (s_rootID s) = Some kr \<Longrightarrow> kr = dr_rootKR D"
  unfolding caches_coherent_def keys_coherent_def session_of_def by (metis walk_from.simps(1))

lemmas coherent_GetListStale = cached_list [OF conjunct2 [OF iffD1 [OF coherent_def]]]
lemmas coherent_GetStatStale = cached_stat [OF conjunct2 [OF iffD1 [OF coherent_def]]]
lemmas coherent_path = cached_path [OF conjunct2 [OF iffD1 [OF coherent_def]]]
lemmas coherent_root = cached_root [OF conjunct2 [OF iffD1 [OF coherent_def]]]

section \<open>Every lookup answers from the drive\<close>

lemma shareKeyRing_answers:
  assumes "coherent A D s"
  shows "answers A D (Some (dr_shareKR D)) (shareKeyRing A s)"
proof (cases "s_shareKR s")
  case None
  have "answers A D (Some (dr_shareKR D)) (on_world (api_GetShareKR A (s_shareID s) (s_addrKR s)) s)"
    using assms coherent_session [OF assms] coherent_serves [OF assms]
    by (intro on_world_answers) (simp_all add: serves_drive_def)
  then show ?thesis
    using None by (auto simp: shareKeyRing_def answers_Some coherent_shareKR)
next
  case (Some kr)
  then show ?thesis
    using assms by (simp add: shareKeyRing_def answers_Some coherent_def caches_coherent_def)
qed

lemma rootNodeKeyRing_answers:
  assumes "coherent A D s"
  shows "answers A D (Some (dr_rootKR D)) (rootNodeKeyRing A s)"
proof (cases "s_nodeKRs s (s_rootID s)")
  case None
  from shareKeyRing_answers [OF assms] obtain s1 where
    s1: "shareKeyRing A s = (Inr (dr_shareKR D), s1)" "coherent A D s1"
    by (auto simp: answers_Some)
  note serves = coherent_serves [OF assms]
  have "answers A D (Some (dr_rootLink D)) (on_world (api_GetLink A (s_shareID s1) (s_rootID s1)) s1)"
    using s1(2) coherent_session [OF s1(2)] serves by (intro on_world_answers) (simp_all add: serves_drive_def)
  then obtain s2 where s2: "on_world (api_GetLink A (s_shareID s1) (s_rootID s1)) s1 = (Inr (dr_rootLink D), s2)"
    "coherent A D s2"
    by (auto simp: answers_Some)
  have "coherent A D (s2\<lparr>s_nodeKRs := (s_nodeKRs s2)(dr_rootID D \<mapsto> dr_rootKR D)\<rparr>)"
    by (rule coherent_nodeKR [OF s2(2), of "[]"]) simp
  then show ?thesis
    using None s1 s2 serves coherent_session [OF s2(2)]
    by (simp add: rootNodeKeyRing_def answers_Some serves_drive_def)
next
  case (Some kr)
  moreover have "kr = dr_rootKR D"
    by (rule coherent_root [OF assms Some])
  ultimately show ?thesis
    using assms by (simp add: rootNodeKeyRing_def answers_Some)
qed

lemma child_abs_path:
  "names_ok ns \<Longrightarrow> (if abs_path ns = [slash] then slash # n else abs_path ns @ slash # n) = abs_path (ns @ [n])"
  using abs_path_root [of ns] abs_path_snoc [of ns n] by (cases "ns = []") (auto simp: names_ok_def)

lemma coherent_step:
  assumes "coherent A D s" "names_ok (ns @ [n])" "walk A D (ns @ [n]) = Some (i, kr)"
  shows "coherent A D (s\<lparr>s_nodeKRs := (s_nodeKRs s)(i \<mapsto> kr), s_linkPaths := l,
    s_pathLinks := (s_pathLinks s)(abs_path (ns @ [n]) \<mapsto> i)\<rparr>)"
proof -
  have "coherent A D (s\<lparr>s_nodeKRs := (s_nodeKRs s)(i \<mapsto> kr), s_linkPaths := l\<rparr>)"
    using coherent_nodeKR [OF assms(1,3)] by (rule coherent_linkPaths)
  from coherent_pathLink [OF this, of "abs_path (ns @ [n])" i kr] show ?thesis
    using assms(2,3) by (simp add: names_ok_def)
qed

lemma resolve_parts_answers:
  "coherent A D s \<Longrightarrow> names_ok (ns @ parts) \<Longrightarrow> walk A D ns = Some (i, kr) \<Longrightarrow>
     answers A D (walk A D (ns @ parts)) (resolve_parts A p parts i kr (abs_path ns) s)"
proof (induction parts arbitrary: ns i kr s)
  case Nil
  then show ?case by (simp add: answers_Some)
next
  case (Cons part parts)
  note serves = coherent_serves [OF Cons.prems(1)]
  have "answers A D (Some (dr_children D i)) (on_world (api_ListChildren A (s_shareID s) i) s)"
    using Cons.prems(1) coherent_session [OF Cons.prems(1)] serves
    by (intro on_world_answers) (simp_all add: serves_drive_def)
  then obtain s1 where s1: "on_world (api_ListChildren A (s_shareID s) i) s = (Inr (dr_children D i), s1)"
    "coherent A D s1"
    by (auto simp: answers_Some)
  obtain now s2 where s2: "on_world (time_Now A) s1 = (now, s2)"
    by fastforce
  let ?s = "s2\<lparr>s_meta := SetList now (abs_path ns) (dr_children D i, kr) (s_meta s2)\<rparr>"
  have ns: "names_ok ns" "names_ok (ns @ [part])"
    using Cons.prems(2) by (simp_all add: names_ok_def)
  have s: "coherent A D ?s"
    using Cons.prems(3) ns(1) by (intro coherent_list on_world_coherent [OF s2 s1(2)]) (simp add: names_ok_def)
  have walk: "walk A D (ns @ part # parts) = walk_from A D (i, kr) (part # parts)"
    using Cons.prems(3) by (simp add: walk_append)
  show ?case
  proof (cases "named_child A kr (dr_addrKR D) part (dr_children D i)")
    case None
    then show ?thesis
      using s1(1) s2 s coherent_session [OF s] walk by (simp add: answers_None Let_def)
  next
    case (Some c)
    show ?thesis
    proof (cases "GetKeyRing A c kr (dr_addrKR D)")
      case (Inl e)
      then show ?thesis
        using s1(1) s2 s Some coherent_session [OF s] walk by (simp add: answers_None Let_def)
    next
      case (Inr ckr)
      have at: "walk A D (ns @ [part]) = Some (lk_LinkID c, ckr)"
        using Cons.prems(3) Some Inr by (simp add: walk_append)
      note IH = Cons.IH [OF coherent_step [OF s ns(2) at] _ at]
      show ?thesis
        using IH Cons.prems(2) s1(1) s2 Some Inr coherent_session [OF s] child_abs_path [OF ns(1), of part]
        by (simp add: Let_def)
    qed
  qed
qed

lemma splitPath_clean: "splitPath p = clean_names p"
proof -
  have ok: "\<forall>n \<in> set (clean_names p). name_ok n"
    by (rule clean_names_ok)
  then have "clean_names p \<noteq> [] \<Longrightarrow> split_slash (join_slash (clean_names p)) = clean_names p"
    by (intro split_join_slash) (auto simp: name_ok_def)
  then show ?thesis
    using abs_path_root [OF ok] by (simp add: splitPath_def path_Clean_slash trim_prefix_slash_def abs_path_def)
qed

lemma resolvePath_answers:
  assumes "coherent A D s"
  shows "answers A D (walk A D (clean_names p)) (resolvePath A p s)"
proof -
  let ?ns = "clean_names p"
  have ok: "names_ok ?ns"
    using clean_names_ok by (auto simp: names_ok_def)
  show ?thesis
  proof (cases "Option.bind (s_pathLinks s (abs_path ?ns)) (\<lambda>i. map_option (Pair i) (s_nodeKRs s i))")
    case (Some v)
    then obtain i kr where v: "v = (i, kr)" "s_pathLinks s (abs_path ?ns) = Some i" "s_nodeKRs s i = Some kr"
      by (auto simp: bind_eq_Some_conv)
    then have "walk A D ?ns = Some (i, kr)"
      using coherent_path [OF assms v(2,3)] ok by (simp add: names_ok_def)
    then show ?thesis
      using Some v assms by (simp add: resolvePath_def path_Clean_slash answers_Some)
  next
    case None
    let ?s = "s\<lparr>s_linkPaths := (s_linkPaths s)(s_rootID s \<mapsto> [slash])\<rparr>"
    from rootNodeKeyRing_answers [OF coherent_linkPaths [OF assms]] obtain s1 where
      s1: "rootNodeKeyRing A ?s = (Inr (dr_rootKR D), s1)" "coherent A D s1"
      unfolding answers_Some by blast
    have "coherent A D (s1\<lparr>s_pathLinks := (s_pathLinks s1)(abs_path [] \<mapsto> dr_rootID D)\<rparr>)"
      by (rule coherent_pathLink [OF s1(2)]) simp
    note walked = resolve_parts_answers [OF this, of "[]" ?ns]
    have root: "abs_path [] = [slash]"
      by (simp add: abs_path_def)
    have "splitPath (abs_path ?ns) = ?ns"
      using ok by (simp add: splitPath_clean names_ok_def)
    then show ?thesis
      using walked None s1 ok coherent_session [OF s1(2)]
      by (simp add: resolvePath_def path_Clean_slash Let_def root)
  qed
qed

lemma stale_or_answers:
  assumes "coherent A D s" "stale = None"
  shows "answers A D None (stale_or e stale s)"
  using assms by (simp add: stale_or_def answers_None)

lemma ListChildren_answers:
  assumes "coherent A D s"
  shows "answers A D (map_option (\<lambda>(i, kr). (dr_children D i, kr)) (walk A D (clean_names p))) (ListChildren A p s)"
proof -
  obtain now s1 where s1: "on_world (time_Now A) s = (now, s1)" "coherent A D s1"
    using on_world_coherent [OF _ assms] by (metis surj_pair)
  show ?thesis
  proof (cases "GetList now p (s_meta s1)")
    case (Some v)
    from coherent_GetListStale [OF s1(2) list_cache.get_stale [OF this]] Some s1 show ?thesis
      by (cases v) (auto simp: ListChildren_def answers_Some)
  next
    case None
    note resolved = resolvePath_answers [OF s1(2), of p]
    show ?thesis
    proof (cases "walk A D (clean_names p)")
      case None
      with resolved obtain e s2 where s2: "resolvePath A p s1 = (Inl e, s2)" "coherent A D s2"
        by (auto simp: answers_None)
      have "GetListStale p (s_meta s2) = None"
        using coherent_GetListStale [OF s2(2), of p] None by (cases "GetListStale p (s_meta s2)") auto
      from stale_or_answers [OF s2(2) this, of e] show ?thesis
        using None s1(1) s2(1) \<open>GetList now p (s_meta s1) = None\<close> by (simp add: ListChildren_def)
    next
      case (Some at)
      then obtain i kr where at: "walk A D (clean_names p) = Some (i, kr)"
        by (cases at) auto
      with resolved obtain s2 where s2: "resolvePath A p s1 = (Inr (i, kr), s2)" "coherent A D s2"
        by (auto simp: answers_Some)
      have "answers A D (Some (dr_children D i)) (on_world (api_ListChildren A (s_shareID s2) i) s2)"
        using s2(2) coherent_session [OF s2(2)] coherent_serves [OF s2(2)]
        by (intro on_world_answers) (simp_all add: serves_drive_def)
      then obtain s3 where s3: "on_world (api_ListChildren A (s_shareID s2) i) s2 = (Inr (dr_children D i), s3)"
        "coherent A D s3"
        by (auto simp: answers_Some)
      obtain now' s4 where s4: "on_world (time_Now A) s3 = (now', s4)" "coherent A D s4"
        using on_world_coherent [OF _ s3(2)] by (metis surj_pair)
      show ?thesis
        using s1(1) s2(1) s3(1) s4(1) at coherent_list [OF s4(2) at] \<open>GetList now p (s_meta s1) = None\<close>
        by (simp add: ListChildren_def answers_Some)
    qed
  qed
qed

lemma abs_path_parts:
  assumes "names_ok ns" "ns \<noteq> []"
  shows "path_Dir (abs_path ns) = abs_path (butlast ns)" "path_Base (abs_path ns) = last ns"
    "clean_names (abs_path (butlast ns)) = butlast ns"
    "path_Clean (slash # abs_path ns) = abs_path ns"
proof -
  obtain ms n where ns: "ns = ms @ [n]"
    using assms(2) by (cases ns rule: rev_cases) auto
  with assms(1) have ok: "\<forall>x \<in> set ms. name_ok x" "name_ok n" "\<forall>x \<in> set ns. name_ok x"
    by (auto simp: names_ok_def)
  then show "path_Dir (abs_path ns) = abs_path (butlast ns)" "path_Base (abs_path ns) = last ns"
    "clean_names (abs_path (butlast ns)) = butlast ns" "path_Clean (slash # abs_path ns) = abs_path ns"
    by (simp_all add: ns path_Clean_slash)
qed

lemma statUncached_answers:
  assumes "coherent A D s" "names_ok ns"
  shows "answers A D (link_at A D ns) (statUncached A (abs_path ns) s)"
proof (cases "ns = []")
  case True
  have "answers A D (Some (dr_rootLink D)) (on_world (api_GetLink A (s_shareID s) (s_rootID s)) s)"
    using assms(1) coherent_session [OF assms(1)] coherent_serves [OF assms(1)]
    by (intro on_world_answers) (simp_all add: serves_drive_def)
  then obtain s1 where s1: "on_world (api_GetLink A (s_shareID s) (s_rootID s)) s = (Inr (dr_rootLink D), s1)"
    "coherent A D s1"
    by (auto simp: answers_Some)
  from rootNodeKeyRing_answers [OF s1(2)] show ?thesis
    using True s1(1) by (auto simp: statUncached_def abs_path_def link_at_def answers_Some)
next
  case False
  note parts = abs_path_parts [OF assms(2) False]
  have root: "abs_path ns \<noteq> [slash]"
    using assms(2) False by (simp add: names_ok_def abs_path_root)
  from resolvePath_answers [OF assms(1), of "abs_path (butlast ns)"] have
    resolved: "answers A D (walk A D (butlast ns)) (resolvePath A (abs_path (butlast ns)) s)"
    by (simp add: parts)
  show ?thesis
  proof (cases "walk A D (butlast ns)")
    case None
    with resolved show ?thesis
      using False root by (auto simp: statUncached_def parentKRFor_def parts link_at_def answers_None)
  next
    case (Some at)
    then obtain i kr where at: "walk A D (butlast ns) = Some (i, kr)"
      by (cases at) auto
    with resolved obtain s1 where s1: "resolvePath A (abs_path (butlast ns)) s = (Inr (i, kr), s1)" "coherent A D s1"
      by (auto simp: answers_Some)
    from ListChildren_answers [OF s1(2), of "abs_path (butlast ns)"] at obtain s2 where
      s2: "ListChildren A (abs_path (butlast ns)) s1 = (Inr (dr_children D i, kr), s2)" "coherent A D s2"
      by (auto simp: parts answers_Some)
    show ?thesis
      using False root s1(1) s2 at coherent_session [OF s2(2)]
      by (auto simp: statUncached_def parentKRFor_def parts link_at_def answers_Some answers_None
          split: option.split)
  qed
qed

lemma Stat_answers:
  assumes "coherent A D s"
  shows "answers A D (link_at A D (clean_names p)) (Stat A p s)"
proof -
  let ?p = "abs_path (clean_names p)"
  have ok: "names_ok (clean_names p)"
    using clean_names_ok by (auto simp: names_ok_def)
  then have names: "clean_names ?p = clean_names p"
    by (simp add: names_ok_def)
  obtain now s1 where s1: "on_world (time_Now A) s = (now, s1)" "coherent A D s1"
    using on_world_coherent [OF _ assms] by (metis surj_pair)
  show ?thesis
  proof (cases "GetStat now ?p (s_meta s1)")
    case (Some v)
    from coherent_GetStatStale [OF s1(2) stat_cache.get_stale [OF this]] Some s1 show ?thesis
      by (cases v) (simp add: Stat_def path_Clean_slash answers_Some names)
  next
    case miss: None
    note stat = statUncached_answers [OF s1(2) ok]
    show ?thesis
    proof (cases "link_at A D (clean_names p)")
      case None
      with stat obtain e s2 where s2: "statUncached A ?p s1 = (Inl e, s2)" "coherent A D s2"
        by (auto simp: answers_None)
      have "GetStatStale ?p (s_meta s2) = None"
        using coherent_GetStatStale [OF s2(2), of ?p] None by (cases "GetStatStale ?p (s_meta s2)") (auto simp: names)
      from stale_or_answers [OF s2(2) this, of e] show ?thesis
        using None s1(1) s2(1) miss by (simp add: Stat_def path_Clean_slash)
    next
      case (Some v)
      with stat obtain s2 where s2: "statUncached A ?p s1 = (Inr v, s2)" "coherent A D s2"
        by (auto simp: answers_Some)
      obtain now' s3 where s3: "on_world (time_Now A) s2 = (now', s3)" "coherent A D s3"
        using on_world_coherent [OF _ s2(2)] by (metis surj_pair)
      have "coherent A D (s3\<lparr>s_meta := SetStat now' ?p v (s_meta s3)\<rparr>)"
        using Some by (intro coherent_stat [OF s3(2)]) (simp add: names)
      then show ?thesis
        using Some s1(1) s2(1) s3(1) miss by (cases v) (simp add: Stat_def path_Clean_slash answers_Some)
    qed
  qed
qed

section \<open>Invalidation keeps sessions coherent\<close>

lemma coherent_fewer:
  assumes "coherent A D s" "\<And>p i. links p = Some i \<Longrightarrow> s_pathLinks s p = Some i"
    and "\<And>p v. GetListStale p c = Some v \<Longrightarrow> GetListStale p (s_meta s) = Some v"
    and "\<And>p v. GetStatStale p c = Some v \<Longrightarrow> GetStatStale p (s_meta s) = Some v"
  shows "coherent A D (s\<lparr>s_meta := c, s_pathLinks := links\<rparr>)"
  using assms unfolding coherent_def caches_coherent_def paths_coherent_def meta_coherent_def session_of_def
  by simp

lemma stale_fewer [meta_simps]:
  "GetListStale q (meta_InvalidatePath p c) = Some v \<Longrightarrow> GetListStale q c = Some v"
  "GetStatStale q (meta_InvalidatePath p c) = Some u \<Longrightarrow> GetStatStale q c = Some u"
  "GetListStale q (meta_invalidateLinkID order i c) = Some v \<Longrightarrow> GetListStale q c = Some v"
  "GetStatStale q (meta_invalidateLinkID order i c) = Some u \<Longrightarrow> GetStatStale q c = Some u"
  by (auto simp: GetListStale_def GetStatStale_def invalidate_lookups split: option.splits if_splits
      dest: invalidateLinkID_shrinks)

lemma coherent_InvalidatePath [coherent_intros]: "coherent A D s \<Longrightarrow> coherent A D (InvalidatePath p s)"
  unfolding InvalidatePath_def
  by (erule coherent_fewer) (auto dest: stale_fewer split: if_splits)

lemma coherent_invalidateLinkID [coherent_intros]:
  assumes "coherent A D s"
  shows "coherent A D (invalidateLinkID order i s)"
proof -
  have fewer: "coherent A D (s\<lparr>s_meta := meta_invalidateLinkID order i (s_meta s), s_pathLinks := links\<rparr>)"
    if "\<And>p i. links p = Some i \<Longrightarrow> s_pathLinks s p = Some i" for links
    using that by (rule coherent_fewer [OF assms]) (auto dest: stale_fewer)
  show ?thesis
  proof (cases "s_linkPaths s i")
    case None
    then show ?thesis
      using fewer [of "s_pathLinks s"] by (simp add: invalidateLinkID_def)
  next
    case (Some p)
    then show ?thesis
      by (simp add: invalidateLinkID_def map_delete_def) (rule fewer, simp split: if_splits)
  qed
qed

lemma coherent_invalidateAll [coherent_intros]: "coherent A D s \<Longrightarrow> coherent A D (invalidateAll s)"
  unfolding invalidateAll_def
  by (erule coherent_fewer) (simp_all add: GetListStale_def GetStatStale_def meta_invalidateAll_def)

section \<open>Sessions in use\<close>

text \<open>
  A session from its creation on: lookups, invalidations, and between them any change of the clock
  and of the disk.
\<close>

inductive session_run :: "('w, 'k) proton_api \<Rightarrow> 'k drive \<Rightarrow> ('w, 'k) Session \<Rightarrow> bool"
  for A :: "('w, 'k) proton_api" and D :: "'k drive" where
  new: "session_of D s \<Longrightarrow> s_shareKR s = None \<Longrightarrow> s_nodeKRs s = Map.empty \<Longrightarrow>
      s_pathLinks s = Map.empty \<Longrightarrow> s_meta s = NewMetaCache 0 \<Longrightarrow> session_run A D s"
| stat: "session_run A D s \<Longrightarrow> Stat A p s = (r, s') \<Longrightarrow> session_run A D s'"
| list: "session_run A D s \<Longrightarrow> ListChildren A p s = (r', s') \<Longrightarrow> session_run A D s'"
| invalidate: "session_run A D s \<Longrightarrow> session_run A D (InvalidatePath p s)"
| invalidate_link: "session_run A D s \<Longrightarrow> session_run A D (invalidateLinkID order i s)"
| invalidate_all: "session_run A D s \<Longrightarrow> session_run A D (invalidateAll s)"
| outside: "session_run A D s \<Longrightarrow> session_run A D (s\<lparr>s_world := w, s_disk := d\<rparr>)"

lemma answers_coherent: "answers A D x (r, s) \<Longrightarrow> coherent A D s"
  by (simp add: answers_def)

lemma session_run_coherent: "session_run A D s \<Longrightarrow> serves_drive A D \<Longrightarrow> coherent A D s"
proof (induction rule: session_run.induct)
  case (new s)
  then show ?case
    by (simp add: coherent_def caches_coherent_def paths_coherent_def keys_coherent_def meta_coherent_def
        GetListStale_def GetStatStale_def new_lookups)
next
  case (stat s p r s')
  then show ?case
    using Stat_answers [of A D s p] by (simp add: answers_coherent)
next
  case (list s p r' s')
  then show ?case
    using ListChildren_answers [of A D s p] by (simp add: answers_def split: option.splits)
next
  case (outside s w d)
  then show ?case
    by (simp add: coherent_def caches_coherent_def session_of_def)
qed (auto intro: coherent_intros)

section \<open>Without a network\<close>

definition offline_api :: "('w, 'k) proton_api \<Rightarrow> bool" where
  "offline_api A \<longleftrightarrow>
     (\<forall>sh i w. \<exists>e. fst (api_ListChildren A sh i w) = Inl e \<and> isOfflineError e) \<and>
     (\<forall>sh i w. \<exists>e. fst (api_GetLink A sh i w) = Inl e \<and> isOfflineError e) \<and>
     (\<forall>sh kr w. \<exists>e. fst (api_GetShareKR A sh kr w) = Inl e \<and> isOfflineError e)"

text \<open>
  What a call may lead to: the caches are the same as before, and the result is right or an error
  that means "offline".
\<close>

definition same_caches :: "('w, 'k) Session \<Rightarrow> ('w, 'k) Session \<Rightarrow> bool" where
  "same_caches s s' \<longleftrightarrow> s_shareID s' = s_shareID s \<and> s_rootID s' = s_rootID s \<and> s_addrKR s' = s_addrKR s \<and>
     s_nodeKRs s' = s_nodeKRs s \<and> s_shareKR s' = s_shareKR s \<and> s_meta s' = s_meta s"

definition cached_or_offline ::
  "('w, 'k) proton_api \<Rightarrow> 'k drive \<Rightarrow> ('a \<Rightarrow> bool) \<Rightarrow> ('w, 'k) Session \<Rightarrow> (drive_error + 'a) \<times> ('w, 'k) Session \<Rightarrow> bool" where
  "cached_or_offline A D right s m \<longleftrightarrow>
     caches_coherent A D (snd m) \<and> same_caches s (snd m) \<and>
     (case fst m of Inr x \<Rightarrow> right x | Inl e \<Rightarrow> isOfflineError e)"

lemma same_caches_refl [simp]: "same_caches s s"
  by (simp add: same_caches_def)

lemma same_caches_trans: "same_caches s s' \<Longrightarrow> same_caches s' s'' \<Longrightarrow> same_caches s s''"
  by (simp add: same_caches_def)

lemma on_world_cached:
  assumes "caches_coherent A D s" "on_world f s = (r, s')"
  shows "caches_coherent A D s'" "same_caches s s'" "r = fst (f (s_world s))"
  using assms by (auto simp: on_world_def caches_coherent_def session_of_def same_caches_def split: prod.splits)

lemma on_world_offline:
  assumes "caches_coherent A D s" "\<And>w. \<exists>e. fst (f w) = Inl e \<and> isOfflineError e"
  obtains e s' where "on_world f s = (Inl e, s')" "isOfflineError e" "caches_coherent A D s'" "same_caches s s'"
  using on_world_cached [OF assms(1), of f] assms(2) [of "s_world s"] by (cases "on_world f s") auto

lemma offline_calls:
  assumes "offline_api A" "caches_coherent A D s"
  shows "\<exists>e s'. on_world (api_ListChildren A sh i) s = (Inl e, s') \<and> isOfflineError e \<and> caches_coherent A D s' \<and> same_caches s s'"
    and "\<exists>e s'. on_world (api_GetLink A sh i) s = (Inl e, s') \<and> isOfflineError e \<and> caches_coherent A D s' \<and> same_caches s s'"
    and "\<exists>e s'. on_world (api_GetShareKR A sh kr) s = (Inl e, s') \<and> isOfflineError e \<and> caches_coherent A D s' \<and> same_caches s s'"
  using assms(1) on_world_offline [OF assms(2)] unfolding offline_api_def by meson+

lemma if_ok_offline:
  assumes "cached_or_offline A D right s m"
    and "\<And>x s'. right x \<Longrightarrow> caches_coherent A D s' \<Longrightarrow> same_caches s s' \<Longrightarrow> cached_or_offline A D right' s' (f x s')"
  shows "cached_or_offline A D right' s (if_ok m f)"
  using assms by (cases m; cases "fst m")
    (auto simp: cached_or_offline_def split: sum.splits intro: same_caches_trans)

lemma rootNodeKeyRing_offline:
  assumes "offline_api A" "caches_coherent A D s"
  shows "cached_or_offline A D (\<lambda>kr. kr = dr_rootKR D) s (rootNodeKeyRing A s)"
proof (cases "s_nodeKRs s (s_rootID s)")
  case (Some kr)
  then show ?thesis
    using assms(2) cached_root [OF assms(2)] by (simp add: rootNodeKeyRing_def cached_or_offline_def)
next
  case None
  have share: "cached_or_offline A D (\<lambda>_. True) s (shareKeyRing A s)"
  proof (cases "s_shareKR s")
    case None
    obtain e s' where "on_world (api_GetShareKR A (s_shareID s) (s_addrKR s)) s = (Inl e, s')" "isOfflineError e"
      "caches_coherent A D s'" "same_caches s s'"
      using offline_calls(3) [OF assms] by blast
    with None show ?thesis
      by (simp add: shareKeyRing_def cached_or_offline_def)
  qed (use assms(2) in \<open>simp add: shareKeyRing_def cached_or_offline_def\<close>)
  have "cached_or_offline A D (\<lambda>kr. kr = dr_rootKR D) s
      (if_ok (on_world (api_GetLink A (s_shareID s) (s_rootID s)) s) g)" if s: "caches_coherent A D s" for s g
  proof -
    obtain e s' where "on_world (api_GetLink A (s_shareID s) (s_rootID s)) s = (Inl e, s')" "isOfflineError e"
      "caches_coherent A D s'" "same_caches s s'"
      using offline_calls(2) [OF assms(1) s] by blast
    then show ?thesis
      by (simp add: cached_or_offline_def)
  qed
  then show ?thesis
    using None by (auto simp: rootNodeKeyRing_def intro!: if_ok_offline [OF share])
qed

lemma same_caches_paths:
  "same_caches s (s'\<lparr>s_pathLinks := l\<rparr>) = same_caches s s'"
  "same_caches s (s'\<lparr>s_linkPaths := l\<rparr>) = same_caches s s'"
  "same_caches (s\<lparr>s_linkPaths := l\<rparr>) s' = same_caches s s'"
  by (simp_all add: same_caches_def)

lemma resolve_parts_offline:
  assumes "offline_api A" "caches_coherent A D s"
  shows "cached_or_offline A D (\<lambda>at. parts = [] \<and> at = (i, kr)) s (resolve_parts A p parts i kr cur s)"
proof (cases parts)
  case (Cons n ns)
  obtain e u where "on_world (api_ListChildren A (s_shareID s) i) s = (Inl e, u)"
    "isOfflineError e" "caches_coherent A D u" "same_caches s u"
    using offline_calls(1) [OF assms] by blast
  then show ?thesis
    using Cons by (simp add: cached_or_offline_def)
qed (use assms in \<open>simp add: cached_or_offline_def\<close>)

lemma resolvePath_offline:
  assumes "offline_api A" "caches_coherent A D s"
  shows "cached_or_offline A D (\<lambda>at. walk A D (clean_names p) = Some at) s (resolvePath A p s)"
proof -
  let ?ns = "clean_names p"
  have ok: "\<forall>n \<in> set ?ns. name_ok n"
    by (rule clean_names_ok)
  show ?thesis
  proof (cases "Option.bind (s_pathLinks s (abs_path ?ns)) (\<lambda>i. map_option (Pair i) (s_nodeKRs s i))")
    case (Some v)
    then obtain i kr where "v = (i, kr)" "s_pathLinks s (abs_path ?ns) = Some i" "s_nodeKRs s i = Some kr"
      by (auto simp: bind_eq_Some_conv)
    with cached_path [OF assms(2), of "abs_path ?ns" i kr] Some ok assms(2) show ?thesis
      by (simp add: resolvePath_def path_Clean_slash cached_or_offline_def)
  next
    case None
    let ?s = "s\<lparr>s_linkPaths := (s_linkPaths s)(s_rootID s \<mapsto> [slash])\<rparr>"
    have s: "caches_coherent A D ?s"
      using assms(2) by (simp add: caches_coherent_def session_of_def)
    have "cached_or_offline A D (\<lambda>at. walk A D ?ns = Some at) ?s
        (if_ok (rootNodeKeyRing A ?s) (\<lambda>kr s'. resolve_parts A (abs_path ?ns) ?ns (s_rootID s') kr [slash]
           (s'\<lparr>s_pathLinks := (s_pathLinks s')([slash] \<mapsto> s_rootID s')\<rparr>)))"
    proof (rule if_ok_offline [OF rootNodeKeyRing_offline [OF assms(1) s]], goal_cases)
      case (1 kr s')
      have root: "s_rootID s' = dr_rootID D" "clean_names [slash] = []"
        using 1(2) by (simp_all add: caches_coherent_def session_of_def clean_names_def clean_step_def)
      then have t: "caches_coherent A D (s'\<lparr>s_pathLinks := (s_pathLinks s')([slash] \<mapsto> s_rootID s')\<rparr>)"
        using 1(2) by (auto simp: caches_coherent_def paths_coherent_def session_of_def)
      show ?case
        using resolve_parts_offline [OF assms(1) t, of ?ns "s_rootID s'" kr "abs_path ?ns" "[slash]"] 1(1,3) root(1)
        by (auto simp: cached_or_offline_def same_caches_def split: sum.splits)
    qed
    moreover have "splitPath (abs_path ?ns) = ?ns"
      using ok by (simp add: splitPath_clean)
    ultimately show ?thesis
      using None by (simp add: resolvePath_def path_Clean_slash Let_def cached_or_offline_def same_caches_paths)
  qed
qed

lemma stale_or_offline:
  assumes "caches_coherent A D s'" "same_caches s s'" "isOfflineError e" "\<And>v. stale = Some v \<Longrightarrow> right v"
  shows "cached_or_offline A D right s (stale_or e stale s')"
  using assms by (auto simp: stale_or_def cached_or_offline_def split: option.split)

definition listing_of :: "('w, 'k) proton_api \<Rightarrow> 'k drive \<Rightarrow> string list \<Rightarrow> link list \<times> 'k \<Rightarrow> bool" where
  "listing_of A D ns v \<longleftrightarrow> (\<exists>i. walk A D ns = Some (i, snd v) \<and> fst v = dr_children D i)"

lemma ListChildren_offline:
  assumes "offline_api A" "caches_coherent A D s"
  shows "cached_or_offline A D (listing_of A D (clean_names p)) s (ListChildren A p s)"
    and "GetListStale p (s_meta s) = Some v \<Longrightarrow> fst (ListChildren A p s) = Inr v"
proof -
  obtain now s1 where s1: "on_world (time_Now A) s = (now, s1)" by fastforce
  note c1 = on_world_cached [OF assms(2) s1]
  have stale: "listing_of A D (clean_names p) v" if "GetListStale p (s_meta s') = Some v" "caches_coherent A D s'" for v s'
    using cached_list [OF that(2,1)] by (simp add: listing_of_def)
  have meta: "s_meta s1 = s_meta s"
    using c1(2) by (simp add: same_caches_def)
  have "cached_or_offline A D (listing_of A D (clean_names p)) s (ListChildren A p s) \<and>
    (\<forall>v. GetListStale p (s_meta s) = Some v \<longrightarrow> fst (ListChildren A p s) = Inr v)"
  proof (cases "GetList now p (s_meta s1)")
    case (Some v)
    then show ?thesis
      using s1 c1 meta list_cache.get_stale [OF Some] stale [OF list_cache.get_stale [OF Some] c1(1)]
      by (cases v) (simp add: ListChildren_def cached_or_offline_def)
  next
    case None
    note resolved = resolvePath_offline [OF assms(1) c1(1), of p]
    show ?thesis
    proof (cases "resolvePath A p s1")
      case (Pair r s2)
      show ?thesis
      proof (cases r)
        case (Inl e)
        with Pair resolved have r: "caches_coherent A D s2" "same_caches s1 s2" "isOfflineError e"
          by (simp_all add: cached_or_offline_def)
        then have "same_caches s s2" "s_meta s2 = s_meta s"
          using c1(2) meta by (auto intro: same_caches_trans simp: same_caches_def)
        with stale_or_offline [OF r(1) _ r(3), of s "GetListStale p (s_meta s2)"] stale [OF _ r(1)] r(3)
        show ?thesis
          using None Inl Pair s1 by (auto simp: ListChildren_def stale_or_def)
      next
        case (Inr at)
        obtain i kr where at: "at = (i, kr)" by (cases at)
        with Inr Pair resolved have r: "caches_coherent A D s2" "same_caches s1 s2"
          by (simp_all add: cached_or_offline_def)
        obtain e s3 where s3: "on_world (api_ListChildren A (s_shareID s2) i) s2 = (Inl e, s3)" "isOfflineError e"
          "caches_coherent A D s3" "same_caches s2 s3"
          using offline_calls(1) [OF assms(1) r(1)] by blast
        then have "same_caches s s3" "s_meta s3 = s_meta s"
          using c1(2) r(2) meta by (auto intro: same_caches_trans simp: same_caches_def)
        with stale_or_offline [OF s3(3) _ s3(2), of s "GetListStale p (s_meta s3)"] stale [OF _ s3(3)] s3(2)
        show ?thesis
          using None Inr at Pair s1 s3(1) by (auto simp: ListChildren_def stale_or_def)
      qed
    qed
  qed
  then show "cached_or_offline A D (listing_of A D (clean_names p)) s (ListChildren A p s)"
    "GetListStale p (s_meta s) = Some v \<Longrightarrow> fst (ListChildren A p s) = Inr v"
    by blast+
qed

text \<open>\<open>statUncached\<close> finds the link, fails because there is none, or is offline.\<close>

lemma statUncached_offline:
  assumes "offline_api A" "caches_coherent A D s" "names_ok ns"
  shows "case statUncached A (abs_path ns) s of
      (Inr v, s') \<Rightarrow> link_at A D ns = Some v \<and> s_meta s' = s_meta s
    | (Inl e, s') \<Rightarrow> (link_at A D ns = None \<or> isOfflineError e) \<and> s_meta s' = s_meta s"
proof (cases "ns = []")
  case True
  obtain e s1 where "on_world (api_GetLink A (s_shareID s) (s_rootID s)) s = (Inl e, s1)" "isOfflineError e"
    "same_caches s s1"
    using offline_calls(2) [OF assms(1,2)] by blast
  then show ?thesis
    using True by (simp add: statUncached_def abs_path_def same_caches_def)
next
  case False
  note parts = abs_path_parts [OF assms(3) False]
  have root: "abs_path ns \<noteq> [slash]"
    using assms(3) False by (simp add: names_ok_def abs_path_root)
  note resolved = resolvePath_offline [OF assms(1,2), of "abs_path (butlast ns)", unfolded parts]
  show ?thesis
  proof (cases "resolvePath A (abs_path (butlast ns)) s")
    case (Pair r s1)
    show ?thesis
    proof (cases r)
      case (Inl e)
      then show ?thesis
        using Pair resolved root
        by (simp add: statUncached_def parentKRFor_def parts cached_or_offline_def same_caches_def)
    next
      case (Inr at)
      obtain i kr where at: "at = (i, kr)" by (cases at)
      with Inr Pair resolved have r: "caches_coherent A D s1" "s_meta s1 = s_meta s" "walk A D (butlast ns) = Some (i, kr)"
        by (simp_all add: cached_or_offline_def same_caches_def)
      note listed = ListChildren_offline(1) [OF assms(1) r(1), of "abs_path (butlast ns)", unfolded parts]
      obtain l s2 where s2: "ListChildren A (abs_path (butlast ns)) s1 = (l, s2)" by fastforce
      then have s2': "s_meta s2 = s_meta s" "s_addrKR s2 = dr_addrKR D"
        using listed r(2) by (simp_all add: cached_or_offline_def same_caches_def caches_coherent_def session_of_def)
      show ?thesis
      proof (cases l)
        case (Inl e)
        then show ?thesis
          using Pair Inr at s2 s2' listed root
          by (simp add: statUncached_def parentKRFor_def parts cached_or_offline_def)
      next
        case (Inr v)
        then have "fst v = dr_children D i"
          using listed s2 r(3) by (auto simp: cached_or_offline_def listing_of_def)
        then show ?thesis
          using Pair \<open>r = Inr at\<close> at s2 s2' Inr root r(3) False
          by (cases v) (auto simp: statUncached_def parentKRFor_def parts link_at_def split: option.split)
      qed
    qed
  qed
qed

lemma Stat_offline:
  assumes "offline_api A" "caches_coherent A D s"
  shows "case fst (Stat A p s) of
      Inr v \<Rightarrow> link_at A D (clean_names p) = Some v
    | Inl e \<Rightarrow> GetStatStale (abs_path (clean_names p)) (s_meta s) = None"
proof -
  let ?p = "abs_path (clean_names p)"
  have ok: "names_ok (clean_names p)"
    using clean_names_ok by (auto simp: names_ok_def)
  then have names: "clean_names ?p = clean_names p"
    by (simp add: names_ok_def)
  obtain now s1 where s1: "on_world (time_Now A) s = (now, s1)" by fastforce
  note c1 = on_world_cached [OF assms(2) s1]
  have meta: "s_meta s1 = s_meta s"
    using c1(2) by (simp add: same_caches_def)
  show ?thesis
  proof (cases "GetStat now ?p (s_meta s1)")
    case (Some v)
    then show ?thesis
      using s1 cached_stat [OF c1(1) stat_cache.get_stale [OF Some]]
      by (cases v) (simp add: Stat_def path_Clean_slash names)
  next
    case None
    obtain r s2 where s2: "statUncached A ?p s1 = (r, s2)" by fastforce
    note stat = statUncached_offline [OF assms(1) c1(1) ok, unfolded s2]
    show ?thesis
    proof (cases r)
      case (Inl e)
      with stat meta have m: "s_meta s2 = s_meta s" "link_at A D (clean_names p) = None \<or> isOfflineError e"
        by simp_all
      show ?thesis
      proof (cases "GetStatStale ?p (s_meta s)")
        case None
        then show ?thesis
          using \<open>GetStat now ?p (s_meta s1) = None\<close> s1 s2 Inl m
          by (auto simp: Stat_def path_Clean_slash stale_or_def)
      next
        case (Some v)
        then show ?thesis
          using cached_stat [OF assms(2) Some] \<open>GetStat now ?p (s_meta s1) = None\<close> s1 s2 Inl m
          by (cases v) (simp add: Stat_def path_Clean_slash stale_or_def names)
      qed
    next
      case (Inr v)
      then show ?thesis
        using None s1 s2 stat
        by (cases v) (auto simp: Stat_def path_Clean_slash split: prod.split)
    qed
  qed
qed

text \<open>The same keys and names: the same paths.\<close>

definition same_crypto :: "('w, 'k) proton_api \<Rightarrow> ('w, 'k) proton_api \<Rightarrow> bool" where
  "same_crypto A B \<longleftrightarrow> GetName A = GetName B \<and> GetKeyRing A = GetKeyRing B"

lemma walk_same_crypto: "same_crypto A B \<Longrightarrow> walk_from A D at ns = walk_from B D at ns"
  by (induction A D at ns rule: walk_from.induct)
     (auto simp: same_crypto_def named_child_def split: option.split sum.split)

lemma caches_coherent_same_crypto:
  "same_crypto A B \<Longrightarrow> caches_coherent A D s \<longleftrightarrow> caches_coherent B D s"
  "same_crypto A B \<Longrightarrow> link_at A D ns = link_at B D ns"
proof -
  assume same: "same_crypto A B"
  have at: "link_at A D ns = link_at B D ns" for ns
  proof -
    have child: "named_child A = named_child B"
      using same by (intro ext) (simp add: named_child_def same_crypto_def)
    show ?thesis
      unfolding link_at_def walk_same_crypto [OF same] child ..
  qed
  then show "link_at A D ns = link_at B D ns" .
  show "caches_coherent A D s \<longleftrightarrow> caches_coherent B D s"
    by (simp add: caches_coherent_def paths_coherent_def keys_coherent_def meta_coherent_def at
        walk_same_crypto [OF same])
qed

section \<open>Entries that a deletion leaves\<close>

definition same_stats :: "('w, 'k) Session \<Rightarrow> ('w, 'k) Session \<Rightarrow> bool" where
  "same_stats s s' \<longleftrightarrow> mc_stats (s_meta s') = mc_stats (s_meta s) \<and> mc_ttl (s_meta s') = mc_ttl (s_meta s) \<and>
     s_disk s' = s_disk s \<and> s_blocks s' = s_blocks s"

lemma on_world_stats: "on_world f s = (r, s') \<Longrightarrow> same_stats s s'"
  by (auto simp: on_world_def same_stats_def split: prod.splits)

lemma same_stats_trans: "same_stats s s' \<Longrightarrow> same_stats s' s'' \<Longrightarrow> same_stats s s''"
  by (simp add: same_stats_def)

lemma if_ok_stats:
  assumes "same_stats s (snd m)" "\<And>x s1. same_stats s s1 \<Longrightarrow> same_stats s (snd (f x s1))"
  shows "same_stats s (snd (if_ok m f))"
  using assms by (cases m; cases "fst m") auto

lemma rootNodeKeyRing_stats: "same_stats s (snd (rootNodeKeyRing A s))"
proof -
  have share: "same_stats s (snd (shareKeyRing A s))"
    by (cases "on_world (api_GetShareKR A (s_shareID s) (s_addrKR s)) s"; cases "fst (on_world (api_GetShareKR A (s_shareID s) (s_addrKR s)) s)")
       (auto simp: shareKeyRing_def same_stats_def dest: on_world_stats split: option.split)
  have key: "same_stats s (snd (case GetKeyRing A rootLink shareKR (s_addrKR s2) of
      Inl e \<Rightarrow> (Inl e, s2) | Inr kr \<Rightarrow> (Inr kr, s2\<lparr>s_nodeKRs := (s_nodeKRs s2)(s_rootID s2 \<mapsto> kr)\<rparr>)))"
    if "same_stats s s2" for rootLink shareKR s2
    using that by (auto simp: same_stats_def split: sum.split)
  have link: "same_stats s (snd (on_world f s1))" if "same_stats s s1" for f s1
    using same_stats_trans [OF that on_world_stats [OF surjective_pairing]] .
  show ?thesis
    unfolding rootNodeKeyRing_def
    by (auto simp: same_stats_def [of s s] intro!: if_ok_stats share key link split: option.split)
qed

lemma resolve_parts_stats: "same_stats s (snd (resolve_parts A p parts i kr cur s))"
proof (induction parts arbitrary: i kr cur s)
  case (Cons part parts)
  obtain r s1 where s1: "on_world (api_ListChildren A (s_shareID s) i) s = (r, s1)"
    by fastforce
  show ?case
  proof (cases r)
    case (Inr children)
    obtain now s2 where s2: "on_world (time_Now A) s1 = (now, s2)"
      by fastforce
    define s3 where "s3 = s2\<lparr>s_meta := SetList now cur (children, kr) (s_meta s2)\<rparr>"
    have s3: "same_stats s s3"
      using on_world_stats [OF s1] on_world_stats [OF s2] by (simp add: same_stats_def s3_def meta_simps)
    have step: "same_stats s (snd (resolve_parts A p parts j kr' cur'
        (s3\<lparr>s_nodeKRs := f, s_linkPaths := g, s_pathLinks := h\<rparr>)))" for j kr' cur' f g h
      using s3 Cons.IH [of "s3\<lparr>s_nodeKRs := f, s_linkPaths := g, s_pathLinks := h\<rparr>" j kr' cur'] by (simp add: same_stats_def)
    have rhs: "resolve_parts A p (part # parts) i kr cur s =
        (case named_child A kr (s_addrKR s3) part children of
          None \<Rightarrow> (Inl (Errorf (''not found: '' @ p)), s3)
        | Some child \<Rightarrow>
            (case GetKeyRing A child kr (s_addrKR s3) of
               Inl e \<Rightarrow> (Inl e, s3)
             | Inr childKR \<Rightarrow>
                 (let i = lk_LinkID child; cur = (if cur = [slash] then slash # part else cur @ slash # part)
                  in resolve_parts A p parts i childKR cur
                       (s3\<lparr>s_nodeKRs := (s_nodeKRs s3)(i \<mapsto> childKR), s_linkPaths := (s_linkPaths s3)(i \<mapsto> cur),
                          s_pathLinks := (s_pathLinks s3)(cur \<mapsto> i)\<rparr>))))"
      by (simp only: resolve_parts.simps s1 Inr if_ok_simps s2 prod.case Let_def s3_def)
    show ?thesis
      unfolding rhs using s3 step by (auto simp only: Let_def snd_conv split: option.split sum.split)
  qed (use s1 on_world_stats [OF s1] in simp)
qed (simp add: same_stats_def)

lemma resolvePath_stats: "same_stats s (snd (resolvePath A p s))"
proof -
  let ?s1 = "s\<lparr>s_linkPaths := (s_linkPaths s)(s_rootID s \<mapsto> [slash])\<rparr>"
  have "same_stats s (snd (rootNodeKeyRing A ?s1))"
    using rootNodeKeyRing_stats [of ?s1 A] by (simp add: same_stats_def)
  moreover have "same_stats s (snd (resolve_parts A q parts i kr cur (s1\<lparr>s_pathLinks := f\<rparr>)))"
    if "same_stats s s1" for q parts i kr cur s1 f
    using that resolve_parts_stats [of "s1\<lparr>s_pathLinks := f\<rparr>" A q parts i kr cur] by (simp add: same_stats_def)
  ultimately have "same_stats s (snd (if_ok (rootNodeKeyRing A ?s1) (\<lambda>kr s.
      resolve_parts A (path_Clean (slash # p)) (splitPath (path_Clean (slash # p))) (s_rootID s) kr [slash]
        (s\<lparr>s_pathLinks := (s_pathLinks s)([slash] \<mapsto> s_rootID s)\<rparr>))))"
    by (rule if_ok_stats)
  then show ?thesis
    by (auto simp: resolvePath_def Let_def same_stats_def split: option.split)
qed

lemma stale_or_session [simp]: "snd (stale_or err v s) = s"
  by (simp add: stale_or_def split: option.split)

lemma ListChildren_stats: "same_stats s (snd (ListChildren A p s))"
proof -
  obtain now s1 where s1: "on_world (time_Now A) s = (now, s1)"
    by fastforce
  obtain r2 s2 where s2: "resolvePath A p s1 = (r2, s2)"
    by fastforce
  have k2: "same_stats s s2"
    using on_world_stats [OF s1] resolvePath_stats [of s1 A p] s2 by (auto intro: same_stats_trans)
  show ?thesis
  proof (cases "GetList now p (s_meta s1)")
    case None
    show ?thesis
    proof (cases r2)
      case (Inl e)
      then show ?thesis
        using None s1 s2 k2 by (simp add: ListChildren_def)
    next
      case (Inr at)
      obtain r3 s3 where s3: "on_world (api_ListChildren A (s_shareID s2) (fst at)) s2 = (r3, s3)"
        by fastforce
      obtain now' s4 where s4: "on_world (time_Now A) s3 = (now', s4)"
        by fastforce
      have k3: "same_stats s s3"
        using same_stats_trans [OF k2 on_world_stats [OF s3]] .
      moreover have "same_stats s s4"
        using same_stats_trans [OF k3 on_world_stats [OF s4]] .
      then have "same_stats s (s4\<lparr>s_meta := SetList now' p v (s_meta s4)\<rparr>)" for v
        by (simp add: same_stats_def meta_simps)
      ultimately show ?thesis
        using None s1 s2 Inr s3 s4 by (cases at; cases r3) (simp_all add: ListChildren_def)
    qed
  qed (use s1 on_world_stats [OF s1] in \<open>auto simp: ListChildren_def\<close>)
qed

text \<open>A lookup leaves the disk alone.\<close>

lemma statUncached_stats: "same_stats s (snd (statUncached A p s))"
proof -
  have link: "same_stats s (snd (on_world f s1))" if "same_stats s s1" for f s1
    using same_stats_trans [OF that on_world_stats [OF surjective_pairing]] .
  have key: "same_stats s (snd (rootNodeKeyRing A s1))" if "same_stats s s1" for s1
    using same_stats_trans [OF that rootNodeKeyRing_stats] .
  have listing: "same_stats s (snd (ListChildren A q s1))" if "same_stats s s1" for q s1
    using same_stats_trans [OF that ListChildren_stats] .
  have parent: "same_stats s (snd (parentKRFor A p s))"
    unfolding parentKRFor_def by (rule if_ok_stats) (auto intro: resolvePath_stats)
  have "same_stats s (snd (if_ok (ListChildren A (path_Dir p) s1) (\<lambda>(children, _) s.
      case named_child A parentKR (s_addrKR s) (path_Base p) children of
        Some l \<Rightarrow> (Inr (l, parentKR), s) | None \<Rightarrow> (Inl (Errorf (''not found: '' @ p)), s))))"
    if "same_stats s s1" for parentKR s1
    by (rule if_ok_stats [OF listing [OF that]]) (auto split: option.split)
  moreover have "same_stats s (snd (if_ok (on_world (api_GetLink A (s_shareID s) (s_rootID s)) s) (\<lambda>link s.
      if_ok (rootNodeKeyRing A s) (\<lambda>kr s. (Inr (link, kr), s)))))"
    by (rule if_ok_stats [OF link], simp add: same_stats_def) (rule if_ok_stats [OF key], auto)
  ultimately show ?thesis
    by (cases "p = [slash]") (auto simp: statUncached_def intro!: if_ok_stats [OF parent])
qed

lemma Stat_disk: "s_disk (snd (Stat A p s)) = s_disk s \<and> s_blocks (snd (Stat A p s)) = s_blocks s"
proof -
  let ?p = "path_Clean (slash # p)"
  obtain now s1 where s1: "on_world (time_Now A) s = (now, s1)"
    by fastforce
  obtain r2 s2 where s2: "statUncached A ?p s1 = (r2, s2)"
    by fastforce
  obtain now' s3 where s3: "on_world (time_Now A) s2 = (now', s3)"
    by fastforce
  have k2: "same_stats s s2"
    using same_stats_trans [OF on_world_stats [OF s1] statUncached_stats [of s1 A ?p]] s2 by simp
  note k3 = same_stats_trans [OF k2 on_world_stats [OF s3]]
  show ?thesis
    using s1 s2 s3 k2 k3 on_world_stats [OF s1]
    by (cases "GetStat now ?p (s_meta s1)"; cases r2) (auto simp: Stat_def same_stats_def)
qed

text \<open>Whatever \<open>Stat\<close> returns is in the cache afterwards.\<close>

lemma Stat_cached:
  assumes "Stat A p s = (Inr v, s')"
  shows "\<exists>e. mc_stats (s_meta s') (abs_path (clean_names p)) = Some e \<and> v = (mse_link e, mse_parentKR e)"
proof -
  let ?p = "abs_path (clean_names p)"
  have found: "GetStatStale ?p (s_meta s') = Some v"
  proof -
    obtain now s1 where s1: "on_world (time_Now A) s = (now, s1)"
      by fastforce
    show ?thesis
    proof (cases "GetStat now ?p (s_meta s1)")
      case (Some u)
      then have "s' = s1" "v = u"
        using assms s1 by (auto simp: Stat_def path_Clean_slash)
      then show ?thesis
        using stat_cache.get_stale [OF Some] by simp
    next
      case None
      obtain r s2 where s2: "statUncached A ?p s1 = (r, s2)"
        by fastforce
      show ?thesis
      proof (cases r)
        case (Inl err)
        then have "stale_or err (GetStatStale ?p (s_meta s2)) s2 = (Inr v, s')"
          using assms s1 s2 None by (simp add: Stat_def path_Clean_slash)
        then show ?thesis
          by (auto simp: stale_or_def split: if_splits option.splits)
      next
        case (Inr u)
        obtain now' s3 where s3: "on_world (time_Now A) s2 = (now', s3)"
          by fastforce
        then have "v = u" "s' = s3\<lparr>s_meta := SetStat now' ?p u (s_meta s3)\<rparr>"
          using assms s1 s2 None Inr by (auto simp: Stat_def path_Clean_slash split: prod.splits)
        then show ?thesis
          by (simp add: stat_cache.stale_store)
      qed
    qed
  qed
  then show ?thesis
    by (auto simp: GetStatStale_def split: option.splits)
qed

section \<open>A sample drive\<close>

definition sample_children :: "string \<Rightarrow> link list" where
  "sample_children i =
     (if i = ''root'' then [sample_link ''A'' ''a'']
      else if i = ''A'' then [sample_link ''B'' ''b'', sample_link ''C'' ''c'']
      else [])"

definition sample_drive :: "unit drive" where
  "sample_drive =
     \<lparr>dr_shareID = ''share'', dr_rootID = ''root'', dr_addrKR = (), dr_shareKR = (), dr_rootKR = (),
      dr_rootLink = sample_link ''root'' [], dr_children = sample_children\<rparr>"

text \<open>The world is a clock; the API answers, or cannot be reached.\<close>

definition sample_api :: "bool \<Rightarrow> (int, unit) proton_api" where
  "sample_api up =
     \<lparr>api_GetLink = (\<lambda>sh i w. (if up then Inr (sample_link ''root'' []) else Inl (Net_Error ''unreachable''), w + 1)),
       api_ListChildren = (\<lambda>sh i w. (if up then Inr (sample_children i) else Inl (Net_Error ''unreachable''), w + 1)),
       api_GetShareKR = (\<lambda>sh kr w. (if up then Inr () else Inl (Net_Error ''unreachable''), w + 1)),
       api_GetRevision = (\<lambda>sh l r from size w. (Inl (Net_Error ''unreachable''), w)),
       api_GetBlock = (\<lambda>u t w. (Inl (Net_Error ''unreachable''), w)),
       api_GetLatestVolumeEventID = (\<lambda>v w. (Inl (Net_Error ''unreachable''), w)),
       api_GetVolumeEvent = (\<lambda>v e w. (Inl (Net_Error ''unreachable''), w)),
       api_TrashChildren = (\<lambda>sh p l w. (None, w)),
       api_DeleteChildren = (\<lambda>sh p l w. (None, w)),
       GetName = (\<lambda>l kr addr. Inr (lk_Name l)),
       GetKeyRing = (\<lambda>l kr addr. Inr ()),
       GetSessionKey = (\<lambda>l kr. Inr ()),
       Decrypt = (\<lambda>k bs. Inr bs),
       time_Now = (\<lambda>w. (w, w))\<rparr>"

definition sample_session :: "(int, unit) Session" where
  "sample_session =
     \<lparr>s_shareID = ''share'', s_volumeID = ''vol'', s_rootID = ''root'', s_account = ''me'',
      s_cacheBase = [], s_apiBase = [], s_auth = (''u'', ''t''), s_addrKR = (), s_addrEmail = ''me@x'', s_shareKR = None,
      s_nodeKRs = Map.empty, s_linkPaths = Map.empty, s_pathLinks = Map.empty, s_meta = NewMetaCache 0,
      s_blocks = None, s_world = 0,
      s_disk = \<lparr>dk_files = [], dk_refuses = (\<lambda>_. False), dk_short = (\<lambda>_. None)\<rparr>\<rparr>"

lemma sample_serves: "serves_drive (sample_api True) sample_drive"
  by (simp add: serves_drive_def sample_api_def sample_drive_def)

lemma sample_offline: "offline_api (sample_api False)" "same_crypto (sample_api True) (sample_api False)"
  by (simp_all add: offline_api_def sample_api_def same_crypto_def)

lemma sample_session_new: "session_run (sample_api True) sample_drive sample_session"
  by (rule session_run.new) (simp_all add: session_of_def sample_session_def sample_drive_def)

lemma sample_link_at: "link_at (sample_api True) sample_drive (clean_names ''/a/b'') = Some (sample_link ''B'' ''b'', ())"
  by code_simp

section \<open>Properties\<close>

text \<open>
  C14. Looking up paths is right whatever is cached: in any state that a session on an unchanging
  drive reaches (by lookups, invalidations, the passing of time and changes of the disk), \<open>Stat\<close>
  returns the link at the cleaned path with its parent's keyring and \<open>ListChildren\<close> the children
  of the folder with its keyring, as a walk from the root without any cache finds them, and both
  fail where the walk finds nothing.
\<close>

theorem lookups_match_walk:
  assumes "serves_drive A D" "session_run A D s"
  shows "(case link_at A D (clean_names p) of
      Some v \<Rightarrow> fst (Stat A p s) = Inr v | None \<Rightarrow> \<exists>e. fst (Stat A p s) = Inl e) \<and>
    (case walk A D (clean_names p) of
      Some (i, kr) \<Rightarrow> fst (ListChildren A p s) = Inr (dr_children D i, kr)
    | None \<Rightarrow> \<exists>e. fst (ListChildren A p s) = Inl e)"
  using Stat_answers [OF session_run_coherent [OF assms(2,1)], of p]
    ListChildren_answers [OF session_run_coherent [OF assms(2,1)], of p]
  by (simp add: answers_def split: option.splits prod.splits)

theorem lookups_match_walk_witness:
  "fst (Stat (sample_api True) ''/a/b'' (snd (Stat (sample_api True) ''/a'' sample_session))) =
     Inr (sample_link ''B'' ''b'', ())"
proof -
  have "session_run (sample_api True) sample_drive (snd (Stat (sample_api True) ''/a'' sample_session))"
    by (rule session_run.stat [OF sample_session_new, of "''/a''" "fst (Stat (sample_api True) ''/a'' sample_session)"]) simp
  from lookups_match_walk [OF sample_serves this, of "''/a/b''", unfolded sample_link_at] show ?thesis
    by simp
qed

text \<open>
  C29. Offline, the session goes on answering from its caches and never makes anything up: once the
  API cannot be reached, \<open>Stat\<close> and \<open>ListChildren\<close> return what the drive had or fail, and they do
  not fail for a path (a directory) that is still in the metadata cache, however old the entry.
\<close>

theorem offline_lookups:
  assumes "serves_drive A D" "session_run A D s" "offline_api B" "same_crypto A B"
  shows "(case fst (Stat B p s) of
      Inr v \<Rightarrow> link_at A D (clean_names p) = Some v
    | Inl e \<Rightarrow> GetStatStale (abs_path (clean_names p)) (s_meta s) = None) \<and>
    (case fst (ListChildren B p s) of
      Inr v \<Rightarrow> \<exists>i. walk A D (clean_names p) = Some (i, snd v) \<and> fst v = dr_children D i
    | Inl e \<Rightarrow> GetListStale p (s_meta s) = None \<and> isOfflineError e)"
proof -
  have cached: "caches_coherent B D s"
    using session_run_coherent [OF assms(2,1)] caches_coherent_same_crypto(1) [OF assms(4)]
    by (simp add: coherent_def)
  note listed = ListChildren_offline [OF assms(3) cached, of p]
  show ?thesis
    using Stat_offline [OF assms(3) cached, of p] listed(1) listed(2)
    by (cases "GetListStale p (s_meta s)")
       (auto simp: caches_coherent_same_crypto(2) [OF assms(4)] cached_or_offline_def listing_of_def
        walk_same_crypto [OF assms(4)] split: sum.splits)
qed

theorem offline_lookups_witness:
  "\<exists>s. session_run (sample_api True) sample_drive s \<and>
     (case fst (Stat (sample_api False) ''/a/b'' s) of
        Inr v \<Rightarrow> Some (sample_link ''B'' ''b'', ()) = Some v
      | Inl e \<Rightarrow> GetStatStale (abs_path (clean_names ''/a/b'')) (s_meta s) = None)"
  using sample_session_new conjunct1 [OF offline_lookups [OF sample_serves sample_session_new sample_offline,
      of "''/a/b''", unfolded sample_link_at]]
  by (intro exI [of _ sample_session] conjI)

text \<open>
  Invalidating a path forgets the path and everything below it: after \<open>InvalidatePath\<close> of a
  path other than the root, the resolved paths that are left are exactly those neither equal to it
  nor below it, and neither its metadata nor the listing of its directory is cached. For the root,
  the code looks for paths that start with two slashes: only the root itself is forgotten, all
  resolved paths below it stay.
\<close>

theorem invalidate_path_subtree:
  assumes "\<forall>n \<in> set ns. name_ok n" "\<forall>n \<in> set ms. name_ok n"
  shows "s_pathLinks (InvalidatePath (abs_path ns) s) (abs_path ms) =
      (if ns \<noteq> [] \<and> prefix ns ms \<or> ns = ms then None else s_pathLinks s (abs_path ms)) \<and>
    GetStatStale (abs_path ns) (s_meta (InvalidatePath (abs_path ns) s)) = None \<and>
    GetListStale (abs_path ns) (s_meta (InvalidatePath (abs_path ns) s)) = None \<and>
    (ns \<noteq> [] \<longrightarrow> GetListStale (abs_path (butlast ns)) (s_meta (InvalidatePath (abs_path ns) s)) = None)"
proof -
  have "\<not> prefix (abs_path [] @ [slash]) (abs_path ms)"
  proof (cases ms)
    case (Cons m ks)
    with assms(2) obtain c r where "m = c # r" "c \<noteq> slash"
      by (cases m) (auto simp: name_ok_def)
    then show ?thesis
      using Cons by (simp add: abs_path_def join_slash_Cons)
  qed (simp add: abs_path_def)
  moreover have "abs_path ms = abs_path ns \<longleftrightarrow> ns = ms"
    using abs_path_inj [OF assms(2,1)] by blast
  moreover have "ns \<noteq> [] \<Longrightarrow> prefix (abs_path ns @ [slash]) (abs_path ms) \<longleftrightarrow> prefix ns ms \<and> ns \<noteq> ms"
    using below_iff_prefix [OF assms] by (simp add: strict_prefix_def)
  ultimately have "abs_path ms = abs_path ns \<or> prefix (abs_path ns @ [slash]) (abs_path ms) \<longleftrightarrow>
      ns \<noteq> [] \<and> prefix ns ms \<or> ns = ms"
    by (cases "ns = []") blast+
  moreover have "abs_path ns \<noteq> []"
    by (simp add: abs_path_def)
  moreover have "ns \<noteq> [] \<Longrightarrow> path_Dir (abs_path ns) = abs_path (butlast ns)"
    using assms(1) by (intro abs_path_parts(1)) (simp_all add: names_ok_def)
  ultimately show ?thesis
    by (simp add: InvalidatePath_def GetStatStale_def GetListStale_def invalidate_lookups)
qed

theorem invalidate_path_subtree_witness:
  "s_pathLinks (InvalidatePath (abs_path []) (sample_session\<lparr>s_pathLinks := [''/a'' \<mapsto> ''A'']\<rparr>)) (abs_path [''a'']) = Some ''A''"
  using invalidate_path_subtree [of "[]" "[''a'']" "sample_session\<lparr>s_pathLinks := [''/a'' \<mapsto> ''A'']\<rparr>"]
  by (simp add: name_ok_def abs_path_def)

text \<open>
  A deleted file can still be found: \<open>Delete\<close> drops nothing from the metadata cache, so when it has
  succeeded the entry that its own \<open>Stat\<close> has used or made is still there, and \<open>Stat\<close> answers with
  the deleted link, without asking the API, until the entry's time to live has passed.
\<close>

theorem deleted_still_found:
  assumes "Delete A p trash s = (None, s')"
  shows "\<exists>e. fst (Stat A p s) = Inr (mse_link e, mse_parentKR e) \<and>
    mc_stats (s_meta s') (abs_path (clean_names p)) = Some e \<and>
    (\<forall>B. fst (time_Now B (s_world s')) - mse_cachedAt e < mc_ttl (s_meta s') \<longrightarrow>
       fst (Stat B p s') = Inr (mse_link e, mse_parentKR e))"
proof -
  obtain v s1 where s1: "Stat A p s = (Inr v, s1)"
    using assms by (cases "Stat A p s"; cases "fst (Stat A p s)") (auto simp: Delete_def)
  obtain e where e: "mc_stats (s_meta s1) (abs_path (clean_names p)) = Some e" "v = (mse_link e, mse_parentKR e)"
    using Stat_cached [OF s1] by blast
  obtain r s2 where s2: "resolvePath A (path_Dir (path_Clean (slash # p))) s1 = (r, s2)"
    by fastforce
  obtain parentID kr where r: "r = Inr (parentID, kr)"
    using assms s1 s2 by (cases r) (auto simp: Delete_def split: prod.splits)
  have "\<exists>f. on_world f s2 = (None :: drive_error option, s')"
    using assms s1 s2 r e(2) by (auto simp: Delete_def split: if_splits)
  then have "same_stats s1 s'"
    using resolvePath_stats [of s1 A "path_Dir (path_Clean (slash # p))"] s2 on_world_stats same_stats_trans by (metis snd_conv)
  then have kept: "mc_stats (s_meta s') (abs_path (clean_names p)) = Some e"
    using e(1) by (simp add: same_stats_def)
  have "fst (Stat B p s') = Inr (mse_link e, mse_parentKR e)"
    if "fst (time_Now B (s_world s')) - mse_cachedAt e < mc_ttl (s_meta s')" for B
    using kept that by (cases "time_Now B (s_world s')") (simp add: Stat_def path_Clean_slash Let_def on_world_def GetStat_def)
  then show ?thesis
    using s1 e(2) kept by auto
qed

theorem deleted_still_found_witness:
  "fst (Delete (sample_api True) ''/a/b'' True sample_session) = None \<and>
   (\<exists>e. mc_stats (s_meta (snd (Delete (sample_api True) ''/a/b'' True sample_session))) (abs_path (clean_names ''/a/b'')) = Some e)"
proof -
  have "fst (Delete (sample_api True) ''/a/b'' True sample_session) = None"
    by code_simp
  then have "Delete (sample_api True) ''/a/b'' True sample_session = (None, snd (Delete (sample_api True) ''/a/b'' True sample_session))"
    by (metis surjective_pairing)
  from deleted_still_found [OF this] show ?thesis
    using \<open>fst (Delete (sample_api True) ''/a/b'' True sample_session) = None\<close> by blast
qed

end
