(* ===== verification/Range_Reads.thy ===== *)
theory Range_Reads
  imports Drive_Session "HOL-Library.Signed_Division"
begin

text \<open>
  Reading a range of a file, from \<open>src/helper/drive/session.go\<close>: the blocks from the one that
  contains the offset on, each from the block cache or downloaded, decrypted and cached, and cut
  down to the range; without a network, the needed blocks from the cache alone. A nil slice is
  \<open>None\<close>; an \<open>int64\<close> is an integer, with the wrap-around written out where it can happen.
\<close>

section \<open>Definitions\<close>

definition protonBlockSize :: int where
  "protonBlockSize = 4 * 1024 * 1024"

definition wrap64 :: "int \<Rightarrow> int" where
  "wrap64 x = signed_take_bit 63 x"

definition sliceRange :: "byte list \<Rightarrow> int \<Rightarrow> int \<Rightarrow> int \<Rightarrow> byte list option" where
  "sliceRange buf startBlock0 offset len =
     (let blockStartByte = startBlock0 * protonBlockSize;
          trimStart = max 0 (offset - blockStartByte)
      in if trimStart \<ge> int (length buf) then None
         else (let buf = drop (nat trimStart) buf in
               Some (if len > 0 \<and> len < int (length buf) then take (nat len) buf else buf)))"

text \<open>\<open>BlockCache.GetBlock\<close> on the session's disk at the current time.\<close>

definition cache_GetBlock ::
  "('w, 'k) proton_api \<Rightarrow> BlockCache \<Rightarrow> string \<Rightarrow> string \<Rightarrow> int \<Rightarrow> ('w, 'k) Session \<Rightarrow> byte list option \<times> ('w, 'k) Session" where
  "cache_GetBlock A bc linkID revID idx s =
     (case on_world (time_Now A) s of (now, s) \<Rightarrow>
      case bc_GetBlock bc linkID revID idx now (s_disk s) of (r, d) \<Rightarrow> (r, s\<lparr>s_disk := d\<rparr>))"

definition cache_PutBlock ::
  "('w, 'k) proton_api \<Rightarrow> (cacheFile list \<Rightarrow> cacheFile list) \<Rightarrow> BlockCache \<Rightarrow> string \<Rightarrow> string \<Rightarrow> int \<Rightarrow> byte list
   \<Rightarrow> ('w, 'k) Session \<Rightarrow> ('w, 'k) Session" where
  "cache_PutBlock A sort_Slice bc linkID revID idx data s =
     (case on_world (time_Now A) s of (now, s) \<Rightarrow>
        s\<lparr>s_disk := snd (PutBlock sort_Slice bc linkID revID idx data now (s_disk s))\<rparr>)"

fun cached_blocks ::
  "('w, 'k) proton_api \<Rightarrow> BlockCache \<Rightarrow> string \<Rightarrow> string \<Rightarrow> int list \<Rightarrow> ('w, 'k) Session
   \<Rightarrow> (drive_error + byte list) \<times> ('w, 'k) Session" where
  "cached_blocks A bc linkID revID [] s = (Inr [], s)"
| "cached_blocks A bc linkID revID (idx # idxs) s =
     (case cache_GetBlock A bc linkID revID idx s of
        (None, s) \<Rightarrow> (Inl Drive_ErrOffline, s)
      | (Some data, s) \<Rightarrow>
          if_ok (cached_blocks A bc linkID revID idxs s) (\<lambda>buf s. (Inr (data @ buf), s)))"

definition readFromCache ::
  "('w, 'k) proton_api \<Rightarrow> string \<Rightarrow> string \<Rightarrow> int \<Rightarrow> int \<Rightarrow> int \<Rightarrow> ('w, 'k) Session
   \<Rightarrow> (drive_error + byte list option) \<times> ('w, 'k) Session" where
  "readFromCache A linkID revID fileSize offset len s =
     (case s_blocks s of
        None \<Rightarrow> (Inl Drive_ErrOffline, s)
      | Some bc \<Rightarrow>
          (let startBlock0 = offset sdiv protonBlockSize;
               endByte = (if len > 0 \<and> wrap64 (offset + len) < fileSize then wrap64 (offset + len) else fileSize);
               endBlock0 = (endByte - 1) sdiv protonBlockSize
           in if_ok (cached_blocks A bc linkID revID [startBlock0..endBlock0] s)
                (\<lambda>buf s. (Inr (sliceRange buf startBlock0 offset len), s))))"

text \<open>One block of the revision; an error of \<open>PutBlock\<close> is only logged.\<close>

definition fetch_block ::
  "('w, 'k) proton_api \<Rightarrow> (cacheFile list \<Rightarrow> cacheFile list) \<Rightarrow> 'k \<Rightarrow> string \<Rightarrow> string \<Rightarrow> api_block \<Rightarrow> ('w, 'k) Session
   \<Rightarrow> (drive_error + byte list) \<times> ('w, 'k) Session" where
  "fetch_block A sort_Slice sessionKey linkID revID block s =
     (let idx = bk_Index block - 1;
          (cached, s) = (case s_blocks s of
                           None \<Rightarrow> (None, s)
                         | Some bc \<Rightarrow> cache_GetBlock A bc linkID revID idx s)
      in case cached of
           Some data \<Rightarrow> (Inr data, s)
         | None \<Rightarrow>
             (case on_world (api_GetBlock A (bk_BareURL block) (bk_Token block)) s of
                (Inl err, s) \<Rightarrow> (Inl (if isOfflineError err then Drive_ErrOffline else err), s)
              | (Inr enc, s) \<Rightarrow>
                  (case Decrypt A sessionKey enc of
                     Inl err \<Rightarrow> (Inl err, s)
                   | Inr plainBytes \<Rightarrow>
                       (Inr plainBytes,
                        case s_blocks s of
                          None \<Rightarrow> s
                        | Some bc \<Rightarrow> cache_PutBlock A sort_Slice bc linkID revID idx plainBytes s))))"

fun fetch_blocks ::
  "('w, 'k) proton_api \<Rightarrow> (cacheFile list \<Rightarrow> cacheFile list) \<Rightarrow> 'k \<Rightarrow> string \<Rightarrow> string \<Rightarrow> api_block list \<Rightarrow> ('w, 'k) Session
   \<Rightarrow> (drive_error + byte list) \<times> ('w, 'k) Session" where
  "fetch_blocks A sort_Slice sessionKey linkID revID [] s = (Inr [], s)"
| "fetch_blocks A sort_Slice sessionKey linkID revID (block # blocks) s =
     if_ok (fetch_block A sort_Slice sessionKey linkID revID block s) (\<lambda>data s.
     if_ok (fetch_blocks A sort_Slice sessionKey linkID revID blocks s) (\<lambda>buf s. (Inr (data @ buf), s)))"

text \<open>A link without a revision is a nil dereference.\<close>

definition ReadFileContent ::
  "('w, 'k) proton_api \<Rightarrow> (cacheFile list \<Rightarrow> cacheFile list) \<Rightarrow> link \<Rightarrow> 'k \<Rightarrow> int \<Rightarrow> int \<Rightarrow> ('w, 'k) Session
   \<Rightarrow> ((drive_error + byte list option) \<times> ('w, 'k) Session) option" where
  "ReadFileContent A sort_Slice link parentKR offset len s =
     (let linkID = lk_LinkID link in
      case lk_ActiveRevision link of
        None \<Rightarrow> stuck
      | Some revision \<Rightarrow>
          Some (case GetKeyRing A link parentKR (s_addrKR s) of
             Inl err \<Rightarrow> (Inl err, s)
           | Inr nodeKR \<Rightarrow>
               (case GetSessionKey A link nodeKR of
                  Inl err \<Rightarrow> (Inl err, s)
                | Inr sessionKey \<Rightarrow>
                    (let startBlock0 = offset sdiv protonBlockSize; apiFromBlock = startBlock0 + 1 in
                     case on_world (api_GetRevision A (s_shareID s) linkID (rm_ID revision) apiFromBlock 500) s of
                       (Inl err, s) \<Rightarrow>
                         if \<not> isOfflineError err then (Inl err, s)
                         else readFromCache A linkID (rm_ID revision) (sint (lk_Size link)) offset len s
                     | (Inr blocks, s) \<Rightarrow>
                         if_ok (fetch_blocks A sort_Slice sessionKey linkID (rm_ID revision) blocks s)
                           (\<lambda>buf s. (Inr (sliceRange buf startBlock0 offset len), s))))))"

section \<open>Blocks of a file\<close>

definition block_len :: nat where
  "block_len = 4194304"

definition file_block :: "byte list \<Rightarrow> int \<Rightarrow> byte list" where
  "file_block content i = take block_len (drop (nat i * block_len) content)"

lemma block_len_pos [simp]: "0 < block_len"
  by (simp add: block_len_def)

lemma protonBlockSize_len: "protonBlockSize = int block_len"
  by (simp add: protonBlockSize_def block_len_def)

lemma sdiv_nonneg: "0 \<le> a \<Longrightarrow> a sdiv int n = a div int n"
  by (simp add: signed_divide_int_def sgn_if)

lemma concat_file_blocks:
  "concat (map (file_block content) (map int [k..<k + n])) = take (n * block_len) (drop (k * block_len) content)"
proof (induction n)
  case (Suc n)
  have "take (Suc n * block_len) (drop (k * block_len) content) =
      take (n * block_len + block_len) (drop (k * block_len) content)"
    by (simp add: add.commute)
  also have "\<dots> = take (n * block_len) (drop (k * block_len) content) @
      take block_len (drop (n * block_len) (drop (k * block_len) content))"
    by (rule take_add)
  finally show ?case
    using Suc by (simp add: file_block_def add_mult_distrib add.commute flip: of_nat_add)
qed simp

text \<open>What a range read should return: nil beyond the end, at most \<open>limit\<close> bytes in any case.\<close>

definition range_of :: "byte list \<Rightarrow> nat \<Rightarrow> int \<Rightarrow> nat \<Rightarrow> byte list option" where
  "range_of content off len limit =
     (let avail = take limit (drop off content) in
      if avail = [] then None else Some (if 0 < len then take (nat len) avail else avail))"

lemma sliceRange_blocks:
  "sliceRange (take m (drop (off div block_len * block_len) content)) (int (off div block_len)) (int off) len =
     range_of content off len (m - off mod block_len)"
proof -
  let ?buf = "take m (drop (off div block_len * block_len) content)"
  have trim: "int off - int (off div block_len) * protonBlockSize = int (off mod block_len)"
    by (simp add: protonBlockSize_len minus_div_mult_eq_mod flip: of_nat_mult of_nat_diff)
  have rest: "drop (off mod block_len) ?buf = take (m - off mod block_len) (drop off content)"
    by (simp add: drop_take add.commute)
  define avail where "avail = take (m - off mod block_len) (drop off content)"
  have "length ?buf \<le> off mod block_len \<longleftrightarrow> avail = []"
    using rest by (metis avail_def drop_eq_Nil)
  moreover have "(if 0 < len \<and> len < int (length avail) then take (nat len) avail else avail) =
      (if 0 < len then take (nat len) avail else avail)"
    by simp
  ultimately show ?thesis
    using rest trim by (simp only: sliceRange_def range_of_def Let_def flip: avail_def) simp
qed

section \<open>What the API and the cache are relied on for\<close>

definition block_count :: "byte list \<Rightarrow> nat" where
  "block_count content = (length content + block_len - 1) div block_len"

text \<open>
  The API lists the blocks of a revision in order, from the one asked for and at most a page of
  them, and what it delivers for a listed block decrypts to that part of the content.
\<close>

definition serves_revision ::
  "('w, 'k) proton_api \<Rightarrow> string \<Rightarrow> string \<Rightarrow> string \<Rightarrow> 'k \<Rightarrow> byte list \<Rightarrow> bool" where
  "serves_revision A shareID linkID revID sessionKey content \<longleftrightarrow>
     (\<forall>k size w. \<exists>blocks.
        fst (api_GetRevision A shareID linkID revID (int k + 1) size w) = Inr blocks \<and>
        map bk_Index blocks = map (\<lambda>i. int i + 1) [k..<min (k + size) (block_count content)] \<and>
        (\<forall>b \<in> set blocks. \<forall>w. \<exists>enc.
           fst (api_GetBlock A (bk_BareURL b) (bk_Token b) w) = Inr enc \<and>
           Decrypt A sessionKey enc = Inr (file_block content (bk_Index b - 1))))"

text \<open>The block cache holds nothing but pieces of the files' contents.\<close>

definition cache_faithful ::
  "(cacheFile list \<Rightarrow> cacheFile list) \<Rightarrow> (block_key \<Rightarrow> byte list) \<Rightarrow> ('w, 'k) Session \<Rightarrow> bool" where
  "cache_faithful sort_Slice contents s \<longleftrightarrow>
     (\<forall>bc. s_blocks s = Some bc \<longrightarrow>
        cache_ok sort_Slice bc (s_disk s) \<and>
        (\<forall>k v. key_ok k \<longrightarrow> look bc (s_disk s) k = Some v \<longrightarrow> v = contents k))"

lemma cache_faithful_holds:
  "cache_faithful sort_Slice contents s \<longleftrightarrow>
     (\<forall>bc. s_blocks s = Some bc \<longrightarrow> block_cache.holds_only bc sort_Slice contents (s_disk s))"
  by (simp add: cache_faithful_def block_cache.holds_only_def)

definition only_env :: "('w, 'k) Session \<Rightarrow> ('w, 'k) Session \<Rightarrow> bool" where
  "only_env s s' \<longleftrightarrow> s\<lparr>s_world := s_world s', s_disk := s_disk s'\<rparr> = s'"

lemma only_env_refl [simp]: "only_env s s"
  by (simp add: only_env_def)

lemma only_env_update: "only_env s s' \<Longrightarrow> only_env s (s'\<lparr>s_world := w\<rparr>) \<and> only_env s (s'\<lparr>s_disk := d\<rparr>)"
  by (cases s; cases s') (simp add: only_env_def)

lemma only_env_trans: "only_env s s' \<Longrightarrow> only_env s' s'' \<Longrightarrow> only_env s s''"
  by (cases s; cases s'; cases s'') (simp add: only_env_def)

lemma only_env_fields:
  "only_env s s' \<Longrightarrow> s_blocks s' = s_blocks s \<and> s_shareID s' = s_shareID s \<and> s_addrKR s' = s_addrKR s \<and>
     s_meta s' = s_meta s \<and> s_nodeKRs s' = s_nodeKRs s \<and> s_pathLinks s' = s_pathLinks s \<and> s_rootID s' = s_rootID s \<and>
     s_shareKR s' = s_shareKR s"
  by (cases s; cases s') (simp add: only_env_def)

lemma on_world_env: "on_world f s = (r, s') \<Longrightarrow> only_env s s' \<and> s_disk s' = s_disk s \<and> r = fst (f (s_world s))"
  by (auto simp: on_world_def only_env_def split: prod.splits)

lemma faithful_env: "cache_faithful sort_Slice contents s \<Longrightarrow> on_world f s = (r, s') \<Longrightarrow> cache_faithful sort_Slice contents s'"
  using on_world_env [of f s r s'] only_env_fields [of s s'] by (simp add: cache_faithful_def)

lemma cache_GetBlock_ok:
  assumes "cache_faithful sort_Slice contents s" "s_blocks s = Some bc" "key_ok (linkID, revID, idx)"
    and "cache_GetBlock A bc linkID revID idx s = (r, s')"
  shows "cache_faithful sort_Slice contents s'" "only_env s s'" "r = look bc (s_disk s) (linkID, revID, idx)"
    "r = Some v \<Longrightarrow> v = contents (linkID, revID, idx)" "look bc (s_disk s') k = look bc (s_disk s) k"
proof -
  obtain now s1 where s1: "on_world (time_Now A) s = (now, s1)" by fastforce
  note env = on_world_env [OF s1]
  let ?k = "(linkID, revID, idx)"
  have s': "r = fst (get_block bc ?k now (s_disk s))" "s' = s1\<lparr>s_disk := snd (get_block bc ?k now (s_disk s))\<rparr>"
    using assms(4) s1 env by (auto simp: cache_GetBlock_def split: prod.splits)
  have holds: "block_cache.holds_only bc sort_Slice contents (s_disk s)"
    using assms(1,2) by (simp add: cache_faithful_holds)
  have blocks: "s_blocks s' = Some bc"
    using s'(2) only_env_fields [of s s1] env assms(2) by simp
  show "cache_faithful sort_Slice contents s'"
    using blocks s'(2) block_cache.holds_only_get [OF holds] by (auto simp: cache_faithful_holds)
  show "only_env s s'"
    using env s'(2) by (simp add: only_env_update)
  show "r = look bc (s_disk s) ?k" "look bc (s_disk s') k = look bc (s_disk s) k"
    using s' get_block_look(1,2) [where bc = bc and k = ?k and now = now and d = "s_disk s"] by simp_all
  show "v = contents ?k" if "r = Some v"
    using block_cache.holds_only_hit [OF holds assms(3), where now = now and v = v] that s'(1) by simp
qed

lemma cache_PutBlock_ok:
  assumes "cache_faithful sort_Slice contents s" "s_blocks s = Some bc" "key_ok (linkID, revID, idx)"
    and "contents (linkID, revID, idx) = data"
  shows "cache_faithful sort_Slice contents (cache_PutBlock A sort_Slice bc linkID revID idx data s)"
    "only_env s (cache_PutBlock A sort_Slice bc linkID revID idx data s)"
proof -
  obtain now s1 where s1: "on_world (time_Now A) s = (now, s1)" by fastforce
  note env = on_world_env [OF s1]
  let ?k = "(linkID, revID, idx)"
  have s': "cache_PutBlock A sort_Slice bc linkID revID idx data s =
      s1\<lparr>s_disk := snd (put_block sort_Slice bc ?k data now (s_disk s))\<rparr>"
    using s1 env by (simp add: cache_PutBlock_def)
  have "block_cache.holds_only bc sort_Slice contents (s_disk s)"
    using assms(1,2) by (simp add: cache_faithful_holds)
  from block_cache.holds_only_put [OF this assms(3)]
  show "cache_faithful sort_Slice contents (cache_PutBlock A sort_Slice bc linkID revID idx data s)"
    using s' assms(2,4) only_env_fields [of s s1] env by (simp add: cache_faithful_holds)
  show "only_env s (cache_PutBlock A sort_Slice bc linkID revID idx data s)"
    using env s' by (simp add: only_env_update)
qed

section \<open>Fetching blocks\<close>

lemma fetch_block_ok:
  assumes "cache_faithful sort_Slice contents s" "key_ok (linkID, revID, bk_Index b - 1)"
    and "contents (linkID, revID, bk_Index b - 1) = data"
    and "\<And>w. \<exists>enc. fst (api_GetBlock A (bk_BareURL b) (bk_Token b) w) = Inr enc \<and> Decrypt A sessionKey enc = Inr data"
  shows "\<exists>s'. fetch_block A sort_Slice sessionKey linkID revID b s = (Inr data, s') \<and>
    cache_faithful sort_Slice contents s' \<and> only_env s s'"
proof -
  let ?i = "bk_Index b - 1"
  obtain cached s1 where s1: "(case s_blocks s of None \<Rightarrow> (None, s)
      | Some bc \<Rightarrow> cache_GetBlock A bc linkID revID ?i s) = (cached, s1)"
    by fastforce
  then have c: "cache_faithful sort_Slice contents s1" "only_env s s1"
    "\<And>v. cached = Some v \<Longrightarrow> v = data"
    using cache_GetBlock_ok [OF assms(1) _ assms(2)] assms(1,3) by (auto split: option.splits)
  show ?thesis
  proof (cases cached)
    case (Some v)
    then show ?thesis
      using s1 c by (simp add: fetch_block_def)
  next
    case None
    obtain r s2 where s2: "on_world (api_GetBlock A (bk_BareURL b) (bk_Token b)) s1 = (r, s2)" by fastforce
    note env = on_world_env [OF s2]
    obtain enc where enc: "r = Inr enc" "Decrypt A sessionKey enc = Inr data"
      using assms(4) [of "s_world s1"] env by auto
    have s2': "cache_faithful sort_Slice contents s2" "only_env s s2"
      using faithful_env [OF c(1) s2] env c(2) by (auto intro: only_env_trans)
    show ?thesis
    proof (cases "s_blocks s2")
      case no: None
      then show ?thesis
        using s1 s2 enc None s2' by (simp add: fetch_block_def)
    next
      case (Some bc)
      note put = cache_PutBlock_ok [OF s2'(1) Some assms(2,3), of A]
      then show ?thesis
        using s1 s2 enc None Some s2'(2) by (simp add: fetch_block_def) (blast intro: only_env_trans)
    qed
  qed
qed

lemma fetch_blocks_ok:
  assumes "cache_faithful sort_Slice contents s" "name_ok linkID" "name_ok revID"
    and "\<And>b. b \<in> set blocks \<Longrightarrow> contents (linkID, revID, bk_Index b - 1) = file_block content (bk_Index b - 1)"
    and "\<And>b w. b \<in> set blocks \<Longrightarrow> \<exists>enc. fst (api_GetBlock A (bk_BareURL b) (bk_Token b) w) = Inr enc \<and>
           Decrypt A sessionKey enc = Inr (file_block content (bk_Index b - 1))"
  shows "\<exists>s'. fetch_blocks A sort_Slice sessionKey linkID revID blocks s =
      (Inr (concat (map (\<lambda>b. file_block content (bk_Index b - 1)) blocks)), s') \<and>
    cache_faithful sort_Slice contents s' \<and> only_env s s'"
  using assms(1,4,5)
proof (induction blocks arbitrary: s)
  case (Cons b blocks)
  have "key_ok (linkID, revID, bk_Index b - 1)"
    using assms(2,3) by (simp add: key_ok_def)
  from fetch_block_ok [OF Cons.prems(1) this] Cons.prems(2,3) obtain s1 where
    s1: "fetch_block A sort_Slice sessionKey linkID revID b s = (Inr (file_block content (bk_Index b - 1)), s1)"
    "cache_faithful sort_Slice contents s1" "only_env s s1"
    by (metis list.set_intros(1))
  from Cons.IH [OF s1(2)] Cons.prems(2,3) obtain s2 where
    "fetch_blocks A sort_Slice sessionKey linkID revID blocks s1 =
      (Inr (concat (map (\<lambda>b. file_block content (bk_Index b - 1)) blocks)), s2)"
    "cache_faithful sort_Slice contents s2" "only_env s1 s2"
    by auto
  with s1 show ?case
    by (auto intro: only_env_trans)
qed simp

text \<open>A page of blocks is the next part of the file.\<close>

lemma block_count_covers: "length content \<le> block_count content * block_len"
proof -
  have "length content + block_len - 1 < block_count content * block_len + block_len"
    unfolding block_count_def by (metis add.commute block_len_pos dividend_less_div_times)
  then show ?thesis
    using block_len_pos by linarith
qed

lemma page_content:
  "take ((min (k + n) (block_count content) - k) * block_len) (drop (k * block_len) content) =
   take (n * block_len) (drop (k * block_len) content)"
proof (cases "k + n \<le> block_count content")
  case False
  then have "length content - k * block_len \<le> (block_count content - k) * block_len"
    using block_count_covers [of content] by (simp add: diff_mult_distrib)
  moreover have "(block_count content - k) * block_len \<le> n * block_len"
    using False by (intro mult_le_mono1) simp
  ultimately have "length content - k * block_len \<le> n * block_len"
    by linarith
  with \<open>length content - k * block_len \<le> (block_count content - k) * block_len\<close> show ?thesis
    using False by simp
qed simp

text \<open>The file that a read is about.\<close>

definition file_served ::
  "('w, 'k) proton_api \<Rightarrow> ('w, 'k) Session \<Rightarrow> link \<Rightarrow> 'k \<Rightarrow> byte list \<Rightarrow> bool" where
  "file_served A s link parentKR content \<longleftrightarrow>
     (\<exists>revision nodeKR sessionKey. lk_ActiveRevision link = Some revision \<and>
        GetKeyRing A link parentKR (s_addrKR s) = Inr nodeKR \<and> GetSessionKey A link nodeKR = Inr sessionKey \<and>
        name_ok (lk_LinkID link) \<and> name_ok (rm_ID revision) \<and>
        serves_revision A (s_shareID s) (lk_LinkID link) (rm_ID revision) sessionKey content)"

definition contents_of :: "link \<Rightarrow> byte list \<Rightarrow> (block_key \<Rightarrow> byte list) \<Rightarrow> bool" where
  "contents_of link content contents \<longleftrightarrow>
     (\<forall>revision. lk_ActiveRevision link = Some revision \<longrightarrow>
        (\<forall>i. contents (lk_LinkID link, rm_ID revision, i) = file_block content i))"

definition page_limit :: "nat \<Rightarrow> nat" where
  "page_limit off = 500 * block_len - off mod block_len"

lemma ReadFileContent_online:
  assumes "cache_faithful sort_Slice contents s" "contents_of link content contents"
    and "file_served A s link parentKR content"
  shows "\<exists>s'. ReadFileContent A sort_Slice link parentKR (int off) len s =
      Some (Inr (range_of content off len (page_limit off)), s') \<and>
    cache_faithful sort_Slice contents s' \<and> only_env s s'"
proof -
  obtain revision nodeKR sessionKey where f: "lk_ActiveRevision link = Some revision"
    "GetKeyRing A link parentKR (s_addrKR s) = Inr nodeKR" "GetSessionKey A link nodeKR = Inr sessionKey"
    "name_ok (lk_LinkID link)" "name_ok (rm_ID revision)"
    "serves_revision A (s_shareID s) (lk_LinkID link) (rm_ID revision) sessionKey content"
    using assms(3) by (auto simp: file_served_def)
  let ?k = "off div block_len"
  have start: "int off sdiv protonBlockSize = int ?k"
    by (simp add: protonBlockSize_len sdiv_nonneg zdiv_int)
  obtain r s1 where s1: "on_world (api_GetRevision A (s_shareID s) (lk_LinkID link) (rm_ID revision) (int ?k + 1) 500) s = (r, s1)"
    by fastforce
  note env = on_world_env [OF s1]
  obtain blocks where blocks: "r = Inr blocks"
    "map bk_Index blocks = map (\<lambda>i. int i + 1) [?k..<min (?k + 500) (block_count content)]"
    "\<And>b w. b \<in> set blocks \<Longrightarrow> \<exists>enc. fst (api_GetBlock A (bk_BareURL b) (bk_Token b) w) = Inr enc \<and>
       Decrypt A sessionKey enc = Inr (file_block content (bk_Index b - 1))"
    using f(6) env unfolding serves_revision_def by metis
  have contents: "contents (lk_LinkID link, rm_ID revision, i) = file_block content i" for i
    using assms(2) f(1) by (simp add: contents_of_def)
  obtain s2 where s2: "fetch_blocks A sort_Slice sessionKey (lk_LinkID link) (rm_ID revision) blocks s1 =
      (Inr (concat (map (\<lambda>b. file_block content (bk_Index b - 1)) blocks)), s2)"
    "cache_faithful sort_Slice contents s2" "only_env s1 s2"
    using fetch_blocks_ok [OF faithful_env [OF assms(1) s1] f(4,5), of blocks content A sessionKey] contents blocks(3) by blast
  have "map (\<lambda>b. file_block content (bk_Index b - 1)) blocks = map (\<lambda>i. file_block content (i - 1)) (map bk_Index blocks)"
    by simp
  also have "\<dots> = map (file_block content) (map int [?k..<min (?k + 500) (block_count content)])"
    by (simp add: blocks(2))
  finally have "concat (map (\<lambda>b. file_block content (bk_Index b - 1)) blocks) =
      concat (map (file_block content) (map int [?k..<?k + (min (?k + 500) (block_count content) - ?k)]))"
    by (cases "?k \<le> min (?k + 500) (block_count content)") simp_all
  then have buf: "concat (map (\<lambda>b. file_block content (bk_Index b - 1)) blocks) =
      take (500 * block_len) (drop (?k * block_len) content)"
    by (simp only: concat_file_blocks page_content)
  show ?thesis
    using f(1-3) start s1 blocks(1) s2 env sliceRange_blocks [of "500 * block_len" off content len]
    by (simp add: ReadFileContent_def buf page_limit_def) (blast intro: only_env_trans)
qed

section \<open>Reading from the cache alone\<close>

lemma wrap64_id: "0 \<le> x \<Longrightarrow> x < 2 ^ 63 \<Longrightarrow> wrap64 x = x"
  by (simp add: wrap64_def signed_take_bit_int_eq_self)

lemma cached_blocks_ok:
  assumes "cache_faithful sort_Slice contents s" "s_blocks s = Some bc" "name_ok linkID" "name_ok revID"
    and "\<And>i. contents (linkID, revID, i) = file_block content i"
  shows "\<exists>s'. cached_blocks A bc linkID revID idxs s =
      (if \<forall>i \<in> set idxs. look bc (s_disk s) (linkID, revID, i) \<noteq> None
       then Inr (concat (map (file_block content) idxs)) else Inl Drive_ErrOffline, s') \<and>
    cache_faithful sort_Slice contents s' \<and> only_env s s'"
  using assms(1,2)
proof (induction idxs arbitrary: s)
  case (Cons i idxs)
  obtain r s1 where s1: "cache_GetBlock A bc linkID revID i s = (r, s1)" by fastforce
  have "key_ok (linkID, revID, i)"
    using assms(3,4) by (simp add: key_ok_def)
  note got = cache_GetBlock_ok [OF Cons.prems this s1]
  show ?case
  proof (cases r)
    case None
    then show ?thesis
      using s1 got by auto
  next
    case (Some v)
    have "s_blocks s1 = Some bc"
      using only_env_fields [OF got(2)] Cons.prems(2) by simp
    from Cons.IH [OF got(1) this] obtain s2 where "cached_blocks A bc linkID revID idxs s1 =
      (if \<forall>i \<in> set idxs. look bc (s_disk s) (linkID, revID, i) \<noteq> None
       then Inr (concat (map (file_block content) idxs)) else Inl Drive_ErrOffline, s2)"
      "cache_faithful sort_Slice contents s2" "only_env s1 s2"
      by (auto simp: got(5))
    then show ?thesis
      using s1 Some got(2,3) got(4) [OF Some] assms(5) by (auto intro: only_env_trans)
  qed
qed simp

definition needed_end :: "nat \<Rightarrow> int \<Rightarrow> byte list \<Rightarrow> nat" where
  "needed_end off len content =
     (if 0 < len \<and> off + nat len < length content then off + nat len else length content)"

definition needed_blocks :: "nat \<Rightarrow> int \<Rightarrow> byte list \<Rightarrow> int list" where
  "needed_blocks off len content = map int [off div block_len..<(needed_end off len content - 1) div block_len + 1]"

lemma needed_content:
  assumes "off < length content" "0 \<le> len"
  shows "range_of content off len (((needed_end off len content - 1) div block_len + 1 - off div block_len) * block_len - off mod block_len) =
    Some (if 0 < len then take (nat len) (drop off content) else drop off content)"
proof -
  let ?e = "needed_end off len content"
  let ?limit = "((?e - 1) div block_len + 1 - off div block_len) * block_len - off mod block_len"
  have e: "off < ?e"
    using assms by (auto simp: needed_end_def)
  have "?e \<le> ((?e - 1) div block_len + 1) * block_len"
    using e dividend_less_div_times [OF block_len_pos, of "?e - 1"] by (simp add: algebra_simps)
  moreover have "off div block_len * block_len + off mod block_len = off"
    by simp
  ultimately have limit: "?e - off \<le> ?limit"
    by (simp add: diff_mult_distrib algebra_simps)
  have "take ?limit (drop off content) \<noteq> []"
    using limit e assms(1) by simp
  moreover have "take (nat len) (take ?limit (drop off content)) = take (nat len) (drop off content)" if "0 < len"
  proof (cases "off + nat len < length content")
    case True
    then have "nat len \<le> ?limit"
      using limit that by (simp add: needed_end_def)
    then show ?thesis by (simp add: min_def)
  next
    case False
    then have "length (drop off content) \<le> ?limit"
      using limit that by (simp add: needed_end_def)
    then show ?thesis by simp
  qed
  moreover have "take ?limit (drop off content) = drop off content" if "\<not> 0 < len"
    using limit that by (simp add: needed_end_def)
  ultimately show ?thesis
    by (simp add: range_of_def Let_def)
qed

lemma upto_map_int: "[int m..int n] = map int [m..<n + 1]"
  by (rule nth_equalityI) (auto simp: nth_append not_less simp del: upt_Suc)

lemma readFromCache_ok:
  assumes "cache_faithful sort_Slice contents s" "s_blocks s = Some bc" "name_ok linkID" "name_ok revID"
    and "\<And>i. contents (linkID, revID, i) = file_block content i"
    and "off < length content" "0 \<le> len" "int off + len < 2 ^ 63"
  shows "\<exists>s'. readFromCache A linkID revID (int (length content)) (int off) len s =
      (if \<forall>i \<in> set (needed_blocks off len content). look bc (s_disk s) (linkID, revID, i) \<noteq> None
       then Inr (Some (if 0 < len then take (nat len) (drop off content) else drop off content))
       else Inl Drive_ErrOffline, s') \<and>
    cache_faithful sort_Slice contents s' \<and> only_env s s'"
proof -
  let ?k = "off div block_len"
  let ?e = "needed_end off len content"
  have e: "off < ?e"
    using assms(6,7) by (auto simp: needed_end_def)
  have start: "int off sdiv protonBlockSize = int ?k"
    by (simp add: protonBlockSize_len sdiv_nonneg zdiv_int)
  have "(if 0 < len \<and> wrap64 (int off + len) < int (length content) then wrap64 (int off + len) else int (length content)) = int ?e"
    using assms(7,8) by (auto simp: needed_end_def wrap64_id)
  moreover have "(int ?e - 1) sdiv protonBlockSize = int ((?e - 1) div block_len)"
    using e by (simp add: protonBlockSize_len sdiv_nonneg zdiv_int of_nat_diff)
  ultimately have "[int off sdiv protonBlockSize..((if 0 < len \<and> wrap64 (int off + len) < int (length content)
      then wrap64 (int off + len) else int (length content)) - 1) sdiv protonBlockSize] = needed_blocks off len content"
    using start by (simp add: needed_blocks_def upto_map_int del: upt_Suc)
  moreover from cached_blocks_ok [OF assms(1-5), of A "needed_blocks off len content"] obtain s' where
    "cached_blocks A bc linkID revID (needed_blocks off len content) s =
      (if \<forall>i \<in> set (needed_blocks off len content). look bc (s_disk s) (linkID, revID, i) \<noteq> None
       then Inr (concat (map (file_block content) (needed_blocks off len content))) else Inl Drive_ErrOffline, s')"
    "cache_faithful sort_Slice contents s'" "only_env s s'"
    by blast
  moreover have "concat (map (file_block content) (needed_blocks off len content)) =
      take (((?e - 1) div block_len + 1 - ?k) * block_len) (drop (?k * block_len) content)"
  proof -
    have "?k \<le> (?e - 1) div block_len"
      using e by (intro div_le_mono) simp
    then show ?thesis
      using concat_file_blocks [of content ?k "(?e - 1) div block_len + 1 - ?k"]
      by (simp add: needed_blocks_def del: upt_Suc)
  qed
  ultimately show ?thesis
    using assms(2) start sliceRange_blocks [of "((?e - 1) div block_len + 1 - ?k) * block_len" off content len]
      needed_content [OF assms(6,7)]
    by (auto simp: readFromCache_def Let_def)
qed

section \<open>A sample file\<close>

definition sample_file :: link where
  "sample_file = (sample_link ''F'' ''f'')
     \<lparr>lk_Size := 3, lk_ActiveRevision := Some \<lparr>rm_ID = ''r'', rm_CreateTime = 5, rm_Thumbnail = False\<rparr>\<rparr>"

definition sample_content :: "byte list" where
  "sample_content = [7, 8, 9]"

definition sample_contents :: "block_key \<Rightarrow> byte list" where
  "sample_contents k = file_block sample_content (snd (snd k))"

definition sample_file_api :: "bool \<Rightarrow> (int, unit) proton_api" where
  "sample_file_api up = (sample_api up)
     \<lparr>api_GetRevision := (\<lambda>sh l r from n w.
        (if up then Inr (if from = 1 \<and> 0 < n then [\<lparr>bk_Index = 1, bk_BareURL = ''u'', bk_Token = ''t''\<rparr>] else [])
         else Inl (Net_Error ''unreachable''), w)),
      api_GetBlock := (\<lambda>u t w. (if up then Inr sample_content else Inl (Net_Error ''unreachable''), w))\<rparr>"

definition sample_file_session :: "(int, unit) Session" where
  "sample_file_session = sample_session
     \<lparr>s_blocks := Some sample_bc,
      s_disk := \<lparr>dk_files = [(key_path sample_bc (''F'', ''r'', 0), \<lparr>df_data = sample_content, df_mtime = 1\<rparr>)],
                dk_refuses = (\<lambda>_. False), dk_short = (\<lambda>_. None)\<rparr>\<rparr>"

lemma sample_file_block: "file_block sample_content 0 = sample_content" "block_count sample_content = 1"
  by (simp_all add: file_block_def block_count_def sample_content_def block_len_def)

lemma sample_faithful: "cache_faithful (sort_key cf_mtime) sample_contents sample_file_session"
proof -
  have "look sample_bc (s_disk sample_file_session) k =
      (if k = (''F'', ''r'', 0) then Some sample_content else None)" if "key_ok k" for k
    using key_path_inj [OF sample_bc_at that, of "(''F'', ''r'', 0)"]
    by (auto simp: sample_file_session_def os_ReadFile_def key_ok_def name_ok_def)
  moreover have "cache_ok (sort_key cf_mtime) sample_bc (s_disk sample_file_session)"
    using sorts_sort_key sample_bc_at by (auto simp: cache_ok_def sample_file_session_def disk_ok_def)
  ultimately show ?thesis
    by (auto simp: cache_faithful_def sample_file_session_def sample_contents_def sample_file_block)
qed

lemma sample_contents_of: "contents_of sample_file sample_content sample_contents"
  by (simp add: contents_of_def sample_contents_def)

lemma sample_served: "file_served (sample_file_api True) sample_file_session sample_file () sample_content"
proof -
  have "map (\<lambda>i. int i + 1) [k..<min (k + n) 1] = (if k = 0 \<and> 0 < n then [1] else [])" for k n :: nat
    by (cases k; cases n) simp_all
  then have "serves_revision (sample_file_api True) ''share'' ''F'' ''r'' () sample_content"
    by (auto simp: serves_revision_def sample_file_api_def sample_api_def sample_file_block)
  then show ?thesis
    by (simp add: file_served_def sample_file_def sample_link_def sample_file_api_def sample_api_def
        sample_file_session_def sample_session_def name_ok_def)
qed

section \<open>Properties\<close>

text \<open>
  C15. A read returns the bytes of the file, whatever part of it is cached: for a revision that the
  API serves block by block and a block cache that holds only pieces of files, the result is the
  range asked for, nil exactly if the offset is at or beyond the end, and the cache still holds only
  pieces of files. The range ends with the 500th block from the one of the offset, also where the
  length is 0, which should mean "to EOF".
\<close>

theorem read_returns_range:
  assumes "cache_faithful sort_Slice contents s" "contents_of link content contents"
    and "file_served A s link parentKR content"
  shows "\<exists>s'. ReadFileContent A sort_Slice link parentKR (int off) len s =
      Some (Inr (if length content \<le> off then None
                 else Some (take (if 0 < len then min (nat len) (page_limit off) else page_limit off)
                              (drop off content))), s') \<and>
    cache_faithful sort_Slice contents s'"
proof -
  have "off mod block_len < 500 * block_len"
    using mod_less_divisor [OF block_len_pos, of off] by linarith
  then have "page_limit off \<noteq> 0"
    by (simp add: page_limit_def)
  then have range: "range_of content off len (page_limit off) =
      (if length content \<le> off then None
       else Some (take (if 0 < len then min (nat len) (page_limit off) else page_limit off) (drop off content)))"
    by (auto simp: range_of_def Let_def)
  show ?thesis
    using ReadFileContent_online [OF assms, of off len] unfolding range by blast
qed

theorem read_returns_range_witness:
  "\<exists>s'. ReadFileContent (sample_file_api True) (sort_key cf_mtime) sample_file () (int 1) 10 sample_file_session =
     Some (Inr (Some [8, 9]), s')"
  using read_returns_range [OF sample_faithful sample_contents_of sample_served, of 1 10]
  by (simp add: sample_content_def page_limit_def block_len_def) (auto intro: exI)

text \<open>
  Without a network a read is served from the block cache or not at all: it returns exactly the
  range asked for if every block that overlaps it is cached, and ErrOffline otherwise, for any range
  that starts inside the file and whose end fits into an int64.
\<close>

theorem offline_read:
  assumes "cache_faithful sort_Slice contents s" "contents_of link content contents"
    and "s_blocks s = Some bc" "lk_ActiveRevision link = Some revision"
    and "name_ok (lk_LinkID link)" "name_ok (rm_ID revision)"
    and "GetKeyRing A link parentKR (s_addrKR s) = Inr nodeKR" "GetSessionKey A link nodeKR = Inr sessionKey"
    and "\<And>w. \<exists>e. fst (api_GetRevision A (s_shareID s) (lk_LinkID link) (rm_ID revision)
             (int (off div block_len) + 1) 500 w) = Inl e \<and> isOfflineError e"
    and "sint (lk_Size link) = int (length content)"
    and "off < length content" "0 \<le> len" "int off + len < 2 ^ 63"
  shows "\<exists>s'. ReadFileContent A sort_Slice link parentKR (int off) len s =
      Some (if \<forall>i \<in> set (needed_blocks off len content).
                 fst (bc_GetBlock bc (lk_LinkID link) (rm_ID revision) i 0 (s_disk s)) \<noteq> None
            then Inr (Some (if 0 < len then take (nat len) (drop off content) else drop off content))
            else Inl Drive_ErrOffline, s')"
proof -
  have start: "int off sdiv protonBlockSize = int (off div block_len)"
    by (simp add: protonBlockSize_len sdiv_nonneg zdiv_int)
  obtain r s1 where s1: "on_world (api_GetRevision A (s_shareID s) (lk_LinkID link) (rm_ID revision)
      (int (off div block_len) + 1) 500) s = (r, s1)"
    by fastforce
  note env = on_world_env [OF s1]
  obtain e where e: "r = Inl e" "isOfflineError e"
    using assms(9) [of "s_world s"] env by auto
  have s1': "s_blocks s1 = Some bc" "s_disk s1 = s_disk s"
    using only_env_fields [of s s1] env assms(3) by simp_all
  have look: "fst (bc_GetBlock bc (lk_LinkID link) (rm_ID revision) i 0 (s_disk s)) =
      look bc (s_disk s) (lk_LinkID link, rm_ID revision, i)" for i
    using get_block_look(1) [of bc "(lk_LinkID link, rm_ID revision, i)" 0 "s_disk s"] by simp
  have "\<And>i. contents (lk_LinkID link, rm_ID revision, i) = file_block content i"
    using assms(2,4) by (simp add: contents_of_def)
  from readFromCache_ok [OF faithful_env [OF assms(1) s1] s1'(1) assms(5,6) this assms(11-13), of A]
  show ?thesis
    using assms(4,7,8,10) start s1 e s1'(2) by (auto simp: ReadFileContent_def look)
qed

theorem offline_read_witness:
  "\<exists>s'. ReadFileContent (sample_file_api False) (sort_key cf_mtime) sample_file () (int 1) 1 sample_file_session =
     Some (Inr (Some [8]), s')"
proof -
  have blocks: "needed_blocks 1 1 sample_content = [0]"
    by (simp add: needed_blocks_def needed_end_def sample_content_def block_len_def)
  have hit: "fst (bc_GetBlock sample_bc ''F'' ''r'' 0 0 (s_disk sample_file_session)) = Some sample_content"
    by (simp add: bc_GetBlock_def sample_file_session_def os_ReadFile_def key_path_def Let_def)
  have "\<exists>s'. ReadFileContent (sample_file_api False) (sort_key cf_mtime) sample_file () (int 1) 1 sample_file_session =
      Some (if \<forall>i \<in> set (needed_blocks 1 1 sample_content).
                 fst (bc_GetBlock sample_bc (lk_LinkID sample_file) (rm_ID \<lparr>rm_ID = ''r'', rm_CreateTime = 5, rm_Thumbnail = False\<rparr>)
                   i 0 (s_disk sample_file_session)) \<noteq> None
            then Inr (Some (if 0 < (1 :: int) then take (nat 1) (drop 1 sample_content) else drop 1 sample_content))
            else Inl Drive_ErrOffline, s')"
    by (rule offline_read [OF sample_faithful sample_contents_of])
       (simp_all add: sample_file_session_def sample_file_def sample_link_def sample_file_api_def sample_api_def
          name_ok_def sample_content_def)
  then show ?thesis
    unfolding blocks by (simp add: hit sample_file_def sample_link_def) (simp add: sample_content_def)
qed

end
