(* ===== verification/Event_Poller.thy ===== *)
theory Event_Poller
  imports Range_Reads
begin

text \<open>
  The event poller of \<open>src/helper/drive/events.go\<close>: it reads the volume's event stream, drops what
  the session has cached about the links that changed, and queues at most 64 events for the C
  backend. The order in which Go ranges over a map is an argument, and a method that can
  dereference nil returns an \<open>option\<close>.
\<close>

section \<open>State and queue\<close>

datatype event_type = EventChanged | EventDeleted | EventCreated

record DriveEvent =
  de_Type :: event_type
  de_LinkID :: string
  de_Path :: string

record ('w, 'k) EventPoller =
  ep_s :: "('w, 'k) Session"
  ep_anchorPath :: string
  ep_queue :: "DriveEvent list"

text \<open>How Go ranges over the map of a directory's names and over the stat cache.\<close>

record 'k go_range =
  range_names :: "(string \<times> string) list \<Rightarrow> (string \<times> string) list"
  range_stats :: "'k MetaCache \<Rightarrow> string list"

definition range_ok :: "'k go_range \<Rightarrow> bool" where
  "range_ok R \<longleftrightarrow> (\<forall>m. mset (range_names R m) = mset m) \<and>
     (\<forall>c. finite (dom (mc_stats c)) \<longrightarrow> dom (mc_stats c) \<subseteq> set (range_stats R c))"

definition eventBufferSize :: nat where
  "eventBufferSize = 64"

definition enqueue :: "DriveEvent \<Rightarrow> ('w, 'k) EventPoller \<Rightarrow> ('w, 'k) EventPoller" where
  "enqueue ev p =
     (let q = (if length (ep_queue p) \<ge> eventBufferSize then tl (ep_queue p) else ep_queue p) in
      p\<lparr>ep_queue := q @ [ev]\<rparr>)"

definition Drain :: "('w, 'k) EventPoller \<Rightarrow> DriveEvent list \<times> ('w, 'k) EventPoller" where
  "Drain p = (if ep_queue p = [] then ([], p) else (ep_queue p, p\<lparr>ep_queue := []\<rparr>))"

section \<open>The anchor\<close>

text \<open>The white space of Unicode, each rune as the bytes of its UTF-8 encoding.\<close>

definition white_runes :: "string list" where
  "white_runes =
     [[CHR 0x09], [CHR 0x0A], [CHR 0x0B], [CHR 0x0C], [CHR 0x0D], [CHR 0x20], [CHR 0xC2, CHR 0x85], [CHR 0xC2, CHR 0xA0],
      [CHR 0xE1, CHR 0x9A, CHR 0x80]] @
     map (\<lambda>c. [CHR 0xE2, CHR 0x80, c])
       [CHR 0x80, CHR 0x81, CHR 0x82, CHR 0x83, CHR 0x84, CHR 0x85, CHR 0x86, CHR 0x87, CHR 0x88, CHR 0x89, CHR 0x8A,
        CHR 0xA8, CHR 0xA9, CHR 0xAF] @
     [[CHR 0xE2, CHR 0x81, CHR 0x9F], [CHR 0xE3, CHR 0x80, CHR 0x80]]"

function trim_runes :: "string list \<Rightarrow> string \<Rightarrow> string" where
  "trim_runes rs s =
     (case find (\<lambda>r. r \<noteq> [] \<and> take (length r) s = r) rs of
        None \<Rightarrow> s
      | Some r \<Rightarrow> trim_runes rs (drop (length r) s))"
  by pat_completeness auto
termination
proof (relation "measure (length \<circ> snd)")
  fix rs :: "string list" and s r
  assume "find (\<lambda>r. r \<noteq> [] \<and> take (length r) s = r) rs = Some r"
  then have "r \<noteq> []" "take (length r) s = r"
    by (auto simp: find_Some_iff)
  then have "s \<noteq> []"
    by auto
  with \<open>r \<noteq> []\<close> show "((rs, drop (length r) s), (rs, s)) \<in> measure (length \<circ> snd)"
    by simp
qed simp

declare trim_runes.simps [simp del]

definition TrimSpace :: "string \<Rightarrow> string" where
  "TrimSpace s = rev (trim_runes (map rev white_runes) (rev (trim_runes white_runes s)))"

definition loadAnchor :: "('w, 'k) EventPoller \<Rightarrow> string" where
  "loadAnchor p =
     (if ep_anchorPath p = [] then []
      else (case os_ReadFile (ep_anchorPath p) (s_disk (ep_s p)) of
              None \<Rightarrow> []
            | Some bytes \<Rightarrow> TrimSpace (map (char_of \<circ> unat) bytes)))"

text \<open>A write that fails is only logged.\<close>

definition saveAnchor :: "('w, 'k) proton_api \<Rightarrow> string \<Rightarrow> ('w, 'k) EventPoller \<Rightarrow> ('w, 'k) EventPoller" where
  "saveAnchor A eventID p =
     (if ep_anchorPath p = [] then p
      else if \<not> os_MkdirAll (path_Dir (ep_anchorPath p)) (s_disk (ep_s p)) then p
      else (case on_world (time_Now A) (ep_s p) of (now, s) \<Rightarrow>
              p\<lparr>ep_s := s\<lparr>s_disk := snd (os_WriteFile (ep_anchorPath p) (map (of_nat \<circ> of_char) eventID) now (s_disk s))\<rparr>\<rparr>))"

text \<open>The event to start from; \<open>None\<close> disables the polling.\<close>

definition start_anchor ::
  "('w, 'k) proton_api \<Rightarrow> ('w, 'k) EventPoller \<Rightarrow> string option \<times> ('w, 'k) EventPoller" where
  "start_anchor A p =
     (if loadAnchor p = [] then
        (case on_world (api_GetLatestVolumeEventID A (s_volumeID (ep_s p))) (ep_s p) of
           (Inl err, s) \<Rightarrow> (None, p\<lparr>ep_s := s\<rparr>)
         | (Inr eventID, s) \<Rightarrow> (Some eventID, p\<lparr>ep_s := s\<rparr>))
      else (Some (loadAnchor p), p))"

section \<open>Comparing listings\<close>

abbreviation on_session :: "(('w, 'k) Session \<Rightarrow> ('w, 'k) Session) \<Rightarrow> ('w, 'k) EventPoller \<Rightarrow> ('w, 'k) EventPoller" where
  "on_session f p \<equiv> p\<lparr>ep_s := f (ep_s p)\<rparr>"

text \<open>The map from decrypted names to link ids; a later link of the same name wins.\<close>

definition link_names :: "('w, 'k) proton_api \<Rightarrow> 'k \<Rightarrow> 'k \<Rightarrow> link list \<Rightarrow> (string \<times> string) list" where
  "link_names A dirKR addrKR links =
     fold (\<lambda>l m. case GetName A l dirKR addrKR of Inl e \<Rightarrow> m | Inr name \<Rightarrow> AList.update name (lk_LinkID l) m) links []"

definition child_path :: "string \<Rightarrow> string \<Rightarrow> string" where
  "child_path dirPath name = trim_right_slash dirPath @ slash # name"

definition note_paths :: "('w, 'k) proton_api \<Rightarrow> string \<Rightarrow> 'k \<Rightarrow> link list \<Rightarrow> ('w, 'k) Session \<Rightarrow> ('w, 'k) Session" where
  "note_paths A dirPath dirKR links s =
     fold (\<lambda>l s. case GetName A l dirKR (s_addrKR s) of
                   Inl e \<Rightarrow> s
                 | Inr name \<Rightarrow> s\<lparr>s_linkPaths := (s_linkPaths s)(lk_LinkID l \<mapsto> child_path dirPath name)\<rparr>) links s"

text \<open>One loop over a map: an event for each name that the other map does not have.\<close>

definition emit_missing ::
  "event_type \<Rightarrow> string \<Rightarrow> (string \<times> string) list \<Rightarrow> (string \<times> string) list \<Rightarrow> ('w, 'k) EventPoller \<Rightarrow> ('w, 'k) EventPoller" where
  "emit_missing type dirPath names others p =
     fold (\<lambda>(name, lid) p.
        if map_of others name = None
        then enqueue \<lparr>de_Type = type, de_LinkID = lid, de_Path = child_path dirPath name\<rparr> p
        else p) names p"

definition diffAndEmit ::
  "('w, 'k) proton_api \<Rightarrow> 'k go_range \<Rightarrow> string \<Rightarrow> string \<Rightarrow> 'k \<Rightarrow> link list \<Rightarrow> ('w, 'k) EventPoller
   \<Rightarrow> bool \<times> ('w, 'k) EventPoller" where
  "diffAndEmit A R dirPath dirLinkID dirKR oldLinks p =
     (let oldNames = link_names A dirKR (s_addrKR (ep_s p)) oldLinks in
      case on_world (api_ListChildren A (s_shareID (ep_s p)) dirLinkID) (ep_s p) of
        (Inl err, s) \<Rightarrow> (False, p\<lparr>ep_s := s\<rparr>)
      | (Inr newLinks, s) \<Rightarrow>
          (let newNames = link_names A dirKR (s_addrKR s) newLinks;
               s = note_paths A dirPath dirKR newLinks s
           in case on_world (time_Now A) s of (now, s) \<Rightarrow>
              (let p = p\<lparr>ep_s := s\<lparr>s_meta := SetList now dirPath (newLinks, dirKR) (s_meta s)\<rparr>\<rparr>;
                   p = emit_missing EventCreated dirPath (range_names R newNames) oldNames p;
                   p = emit_missing EventDeleted dirPath (range_names R oldNames) newNames p
               in (True, p))))"

section \<open>One event\<close>

definition linkPath :: "string \<Rightarrow> ('w, 'k) Session \<Rightarrow> string" where
  "linkPath linkID s = (case s_linkPaths s linkID of None \<Rightarrow> [] | Some p \<Rightarrow> p)"

definition drop_blocks :: "string \<Rightarrow> ('w, 'k) Session \<Rightarrow> ('w, 'k) Session option" where
  "drop_blocks linkID s =
     (case s_blocks s of None \<Rightarrow> stuck | Some bc \<Rightarrow> Some (s\<lparr>s_disk := InvalidateLink bc linkID (s_disk s)\<rparr>))"

definition handle_delete ::
  "'k go_range \<Rightarrow> string \<Rightarrow> string \<Rightarrow> ('w, 'k) EventPoller \<Rightarrow> ('w, 'k) EventPoller option" where
  "handle_delete R linkID parentID p = do {
     let path = linkPath linkID (ep_s p);
     let parentPath = linkPath parentID (ep_s p);
     let s = InvalidatePath path (ep_s p);
     let s = (if path = [] then invalidateLinkID (range_stats R (s_meta s)) parentID s else s);
     s \<leftarrow> drop_blocks linkID s;
     let p = p\<lparr>ep_s := s\<rparr>;
     Some (if path \<noteq> [] then enqueue \<lparr>de_Type = EventDeleted, de_LinkID = linkID, de_Path = path\<rparr> p
           else if parentPath \<noteq> [] then enqueue \<lparr>de_Type = EventChanged, de_LinkID = linkID, de_Path = parentPath\<rparr> p
           else p)
   }"

text \<open>The name of a new link: from the event, or from the full link where that fails.\<close>

definition created_name ::
  "('w, 'k) proton_api \<Rightarrow> link \<Rightarrow> 'k \<Rightarrow> ('w, 'k) Session \<Rightarrow> (drive_error + string) \<times> ('w, 'k) Session" where
  "created_name A l parentKR s =
     (case GetName A l parentKR (s_addrKR s) of
        Inr name \<Rightarrow> (Inr name, s)
      | Inl err \<Rightarrow>
          (case on_world (api_GetLink A (s_shareID s) (lk_LinkID l)) s of
             (Inr fullLink, s) \<Rightarrow> (GetName A fullLink parentKR (s_addrKR s), s)
           | (Inl ferr, s) \<Rightarrow> (Inl err, s)))"

text \<open>A difference is tried for a directory whose path, old listing and keyring are known.\<close>

definition try_diff ::
  "('w, 'k) proton_api \<Rightarrow> 'k go_range \<Rightarrow> string \<Rightarrow> string \<Rightarrow> (link list \<times> 'k) option \<Rightarrow> ('w, 'k) EventPoller
   \<Rightarrow> bool \<times> ('w, 'k) EventPoller" where
  "try_diff A R dirPath dirLinkID old p =
     (if dirPath \<noteq> [] then
        (case (old, s_nodeKRs (ep_s p) dirLinkID) of
           (Some (oldLinks, _), Some dirKR) \<Rightarrow> diffAndEmit A R dirPath dirLinkID dirKR oldLinks p
         | _ \<Rightarrow> (False, p))
      else (False, p))"

definition create_fallback ::
  "('w, 'k) proton_api \<Rightarrow> 'k go_range \<Rightarrow> string \<Rightarrow> string \<Rightarrow> string \<Rightarrow> (link list \<times> 'k) option \<Rightarrow> ('w, 'k) EventPoller
   \<Rightarrow> ('w, 'k) EventPoller" where
  "create_fallback A R linkID parentID parentPath old p =
     (case try_diff A R parentPath parentID old p of
        (True, p) \<Rightarrow> p
      | (False, p) \<Rightarrow>
          if parentPath \<noteq> [] then enqueue \<lparr>de_Type = EventChanged, de_LinkID = linkID, de_Path = parentPath\<rparr> p
          else p)"

definition handle_create ::
  "('w, 'k) proton_api \<Rightarrow> 'k go_range \<Rightarrow> link \<Rightarrow> ('w, 'k) EventPoller \<Rightarrow> ('w, 'k) EventPoller" where
  "handle_create A R l p =
     (let linkID = lk_LinkID l; parentID = lk_ParentLinkID l;
          parentPath = linkPath parentID (ep_s p);
          old = GetListStale parentPath (s_meta (ep_s p));
          s = (if parentPath \<noteq> [] then InvalidatePath parentPath (ep_s p)
               else invalidateLinkID (range_stats R (s_meta (ep_s p))) parentID (ep_s p))
      in case (if parentPath \<noteq> [] then s_nodeKRs s parentID else None) of
           None \<Rightarrow> create_fallback A R linkID parentID parentPath old (p\<lparr>ep_s := s\<rparr>)
         | Some parentKR \<Rightarrow>
             (case created_name A l parentKR s of (name, s) \<Rightarrow>
                (case name of
                   Inr (c # n) \<Rightarrow>
                     (let childPath = child_path parentPath (c # n) in
                      enqueue \<lparr>de_Type = EventCreated, de_LinkID = linkID, de_Path = childPath\<rparr>
                        (p\<lparr>ep_s := s\<lparr>s_linkPaths := (s_linkPaths s)(linkID \<mapsto> childPath)\<rparr>\<rparr>))
                 | _ \<Rightarrow> create_fallback A R linkID parentID parentPath old (p\<lparr>ep_s := s\<rparr>))))"

text \<open>Whether the API says that the link is in the trash or gone.\<close>

definition is_trashed ::
  "('w, 'k) proton_api \<Rightarrow> string \<Rightarrow> ('w, 'k) Session \<Rightarrow> bool \<times> ('w, 'k) Session" where
  "is_trashed A linkID s =
     (case on_world (api_GetLink A (s_shareID s) linkID) s of
        (Inl err, s) \<Rightarrow> (False, s)
      | (Inr link, s) \<Rightarrow> (lk_State link = LinkStateTrashed \<or> lk_State link = LinkStateDeleted, s))"

definition update_fallback ::
  "('w, 'k) proton_api \<Rightarrow> string \<Rightarrow> string \<Rightarrow> string \<Rightarrow> ('w, 'k) EventPoller \<Rightarrow> ('w, 'k) EventPoller" where
  "update_fallback A linkID path parentPath p =
     (case (if path \<noteq> [] then is_trashed A linkID (ep_s p) else (False, ep_s p)) of
        (True, s) \<Rightarrow>
          enqueue \<lparr>de_Type = EventDeleted, de_LinkID = linkID, de_Path = path\<rparr>
            (p\<lparr>ep_s := s\<lparr>s_linkPaths := map_delete linkID (s_linkPaths s)\<rparr>\<rparr>)
      | (False, s) \<Rightarrow>
          (let p = p\<lparr>ep_s := s\<rparr>; eventPath = (if path = [] then parentPath else path) in
           if eventPath \<noteq> [] then enqueue \<lparr>de_Type = EventChanged, de_LinkID = linkID, de_Path = eventPath\<rparr> p
           else p))"

definition handle_update ::
  "('w, 'k) proton_api \<Rightarrow> 'k go_range \<Rightarrow> string \<Rightarrow> string \<Rightarrow> ('w, 'k) EventPoller \<Rightarrow> ('w, 'k) EventPoller option" where
  "handle_update A R linkID parentID p = do {
     let path = linkPath linkID (ep_s p);
     let parentPath = linkPath parentID (ep_s p);
     let old = GetListStale path (s_meta (ep_s p));
     let oldParent = GetListStale parentPath (s_meta (ep_s p));
     let s = InvalidatePath path (ep_s p);
     let s = (if parentPath \<noteq> [] \<and> parentPath \<noteq> path then InvalidatePath parentPath s else s);
     let s = (if path = [] then invalidateLinkID (range_stats R (s_meta s)) parentID s else s);
     s \<leftarrow> drop_blocks linkID s;
     Some (case try_diff A R path linkID old (p\<lparr>ep_s := s\<rparr>) of
             (True, p) \<Rightarrow> p
           | (False, p) \<Rightarrow>
               (case try_diff A R parentPath parentID oldParent p of
                  (True, p) \<Rightarrow> p
                | (False, p) \<Rightarrow> update_fallback A linkID path parentPath p))
   }"

definition handle ::
  "('w, 'k) proton_api \<Rightarrow> 'k go_range \<Rightarrow> link_event \<Rightarrow> ('w, 'k) EventPoller \<Rightarrow> ('w, 'k) EventPoller option" where
  "handle A R le p =
     (let linkID = lk_LinkID (le_Link le); parentID = lk_ParentLinkID (le_Link le) in
      case le_EventType le of
        LinkEventDelete \<Rightarrow> handle_delete R linkID parentID p
      | LinkEventCreate \<Rightarrow> Some (handle_create A R (le_Link le) p)
      | _ \<Rightarrow> handle_update A R linkID parentID p)"

section \<open>One poll\<close>

fun handle_all ::
  "('w, 'k) proton_api \<Rightarrow> 'k go_range \<Rightarrow> link_event list \<Rightarrow> ('w, 'k) EventPoller \<Rightarrow> ('w, 'k) EventPoller option" where
  "handle_all A R [] p = Some p"
| "handle_all A R (le # les) p = do { p \<leftarrow> handle A R le p; handle_all A R les p }"

text \<open>Everything is out of date: the caches are cleared and the root is reported as changed.\<close>

definition refresh_all :: "('w, 'k) EventPoller \<Rightarrow> ('w, 'k) EventPoller" where
  "refresh_all p = enqueue \<lparr>de_Type = EventChanged, de_LinkID = [], de_Path = [slash]\<rparr> (on_session invalidateAll p)"

text \<open>The anchor of the next poll, and the poller.\<close>

definition poll ::
  "('w, 'k) proton_api \<Rightarrow> 'k go_range \<Rightarrow> string \<Rightarrow> ('w, 'k) EventPoller \<Rightarrow> (string \<times> ('w, 'k) EventPoller) option" where
  "poll A R eventID p =
     (case on_world (api_GetVolumeEvent A (s_volumeID (ep_s p)) eventID) (ep_s p) of
        (Inl err, s) \<Rightarrow> Some (eventID, p\<lparr>ep_s := s\<rparr>)
      | (Inr ev, s) \<Rightarrow>
          if ve_EventID ev = [] then
            (case on_world (api_GetLatestVolumeEventID A (s_volumeID s)) s of
               (Inl err, s) \<Rightarrow> Some (eventID, p\<lparr>ep_s := s\<rparr>)
             | (Inr newID, s) \<Rightarrow> Some (newID, saveAnchor A newID (refresh_all (p\<lparr>ep_s := s\<rparr>))))
          else if ve_Refresh ev then
            Some (ve_EventID ev, saveAnchor A (ve_EventID ev) (refresh_all (p\<lparr>ep_s := s\<rparr>)))
          else do {
            p \<leftarrow> handle_all A R (ve_Events ev) (p\<lparr>ep_s := s\<rparr>);
            Some (ve_EventID ev, saveAnchor A (ve_EventID ev) p)
          })"


section \<open>The queue\<close>

text \<open>The reference: of all events ever queued, the newest that fit.\<close>

definition newest :: "DriveEvent list \<Rightarrow> DriveEvent list" where
  "newest evs = drop (length evs - eventBufferSize) evs"

lemma newest_short: "length evs \<le> eventBufferSize \<Longrightarrow> newest evs = evs"
  by (simp add: newest_def)

lemma newest_length: "length (newest evs) \<le> eventBufferSize"
  by (simp add: newest_def)

lemma newest_snoc: "newest (newest evs @ [e]) = newest (evs @ [e])"
proof -
  have "newest evs @ [e] = drop (length evs - eventBufferSize) (evs @ [e])"
    by (simp add: newest_def)
  then have "newest (newest evs @ [e]) =
      drop (Suc (length evs - (length evs - eventBufferSize)) - eventBufferSize + (length evs - eventBufferSize)) (evs @ [e])"
    by (simp only: newest_def length_drop drop_drop length_append list.size) simp
  also have "Suc (length evs - (length evs - eventBufferSize)) - eventBufferSize + (length evs - eventBufferSize) =
      Suc (length evs) - eventBufferSize"
    by (simp add: eventBufferSize_def)
  finally show ?thesis
    by (simp add: newest_def)
qed

lemma newest_append: "newest (newest evs @ fs) = newest (evs @ fs)"
proof (induction fs rule: rev_induct)
  case Nil
  then show ?case
    using newest_short [OF newest_length, of evs] by simp
next
  case (snoc f fs)
  then show ?case
    by (metis append.assoc newest_snoc)
qed

lemma enqueue_newest:
  "length (ep_queue p) \<le> eventBufferSize \<Longrightarrow> enqueue ev p = p\<lparr>ep_queue := newest (ep_queue p @ [ev])\<rparr>"
  by (auto simp: enqueue_def newest_def eventBufferSize_def drop_Suc tl_append2 split: list.split)

definition queue_ok :: "('w, 'k) EventPoller \<Rightarrow> bool" where
  "queue_ok p \<longleftrightarrow> length (ep_queue p) \<le> eventBufferSize"

text \<open>\<open>queues p evs p'\<close>: between \<open>p\<close> and \<open>p'\<close> the events \<open>evs\<close> were queued, in this order.\<close>

definition queues :: "('w, 'k) EventPoller \<Rightarrow> DriveEvent list \<Rightarrow> ('w, 'k) EventPoller \<Rightarrow> bool" where
  "queues p evs p' \<longleftrightarrow> ep_queue p' = newest (ep_queue p @ evs) \<and> ep_anchorPath p' = ep_anchorPath p"

lemma queues_ok: "queues p evs p' \<Longrightarrow> queue_ok p'"
  by (simp add: queues_def queue_ok_def newest_length)

lemma queues_trans: "queues p evs p' \<Longrightarrow> queues p' fs p'' \<Longrightarrow> queues p (evs @ fs) p''"
  using newest_append [of "ep_queue p @ evs" fs] by (simp add: queues_def)

lemma queues_session [simp]:
  "queues p evs (p'\<lparr>ep_s := s\<rparr>) = queues p evs p'" "queues (p\<lparr>ep_s := s\<rparr>) evs p' = queues p evs p'"
  "queue_ok (p\<lparr>ep_s := s\<rparr>) = queue_ok p"
  by (simp_all add: queues_def queue_ok_def)

lemma queues_refl: "queue_ok p \<Longrightarrow> queues p [] p"
  by (simp add: queues_def queue_ok_def newest_short)

lemma queues_enqueue: "queue_ok p \<Longrightarrow> queues p [ev] (enqueue ev p)"
  by (simp add: queue_ok_def enqueue_newest queues_def)

lemma enqueue_session [simp]: "ep_s (enqueue ev p) = ep_s p" "ep_anchorPath (enqueue ev p) = ep_anchorPath p"
  by (simp_all add: enqueue_def Let_def)

lemma fold_enqueue:
  "queue_ok p \<Longrightarrow> queues p evs (fold enqueue evs p) \<and> ep_s (fold enqueue evs p) = ep_s p"
proof (induction evs arbitrary: p)
  case (Cons e evs)
  note one = queues_enqueue [OF Cons.prems, of e]
  with Cons.IH [OF queues_ok [OF one]] show ?case
    using queues_trans [OF one] by fastforce
qed (simp add: queues_refl)


section \<open>What a comparison reports\<close>

text \<open>The reference: the link known by a name in a listing, which is the last one that has it.\<close>

definition named :: "('w, 'k) proton_api \<Rightarrow> 'k \<Rightarrow> 'k \<Rightarrow> link list \<Rightarrow> string \<Rightarrow> string option" where
  "named A dirKR addrKR links n =
     map_option lk_LinkID (List.find (\<lambda>l. GetName A l dirKR addrKR = Inr n) (rev links))"

lemma link_names_snoc:
  "link_names A dirKR addrKR (links @ [l]) =
     (case GetName A l dirKR addrKR of
        Inl e \<Rightarrow> link_names A dirKR addrKR links
      | Inr n \<Rightarrow> AList.update n (lk_LinkID l) (link_names A dirKR addrKR links))"
  by (simp add: link_names_def split: sum.split)

lemma link_names_named:
  "map_of (link_names A dirKR addrKR links) = named A dirKR addrKR links"
  "distinct (map fst (link_names A dirKR addrKR links))"
proof (induction links rule: rev_induct)
  case Nil
  {
    case 1
    show ?case by (simp add: link_names_def named_def fun_eq_iff)
  next
    case 2
    show ?case by (simp add: link_names_def)
  }
next
  case (snoc l links)
  {
    case 1
    then show ?case
      using snoc(1) by (auto simp: link_names_snoc named_def fun_eq_iff update_conv' split: sum.splits)
  next
    case 2
    then show ?case
      using snoc(2) by (simp add: link_names_snoc distinct_update split: sum.split)
  }
qed

definition diff_event :: "event_type \<Rightarrow> string \<Rightarrow> string \<times> string \<Rightarrow> DriveEvent" where
  "diff_event type dirPath e = \<lparr>de_Type = type, de_LinkID = snd e, de_Path = child_path dirPath (fst e)\<rparr>"

definition missing :: "(string \<times> string) list \<Rightarrow> string \<times> string \<Rightarrow> bool" where
  "missing others e \<longleftrightarrow> map_of others (fst e) = None"

lemma emit_missing_fold:
  "emit_missing type dirPath names others p =
     fold enqueue (map (diff_event type dirPath) (filter (missing others) names)) p"
  by (induction names arbitrary: p)
     (simp_all add: emit_missing_def diff_event_def missing_def case_prod_unfold)

lemma child_path_eq [simp]: "child_path d n = child_path d m \<longleftrightarrow> n = m"
  by (simp add: child_path_def)

lemma diff_event_eq [simp]: "diff_event t d e = diff_event u d f \<longleftrightarrow> t = u \<and> e = f"
  by (auto simp: diff_event_def prod_eq_iff)

text \<open>The events for the entries that one listing has and the other has not.\<close>

definition appeared :: "event_type \<Rightarrow> string \<Rightarrow> (string \<Rightarrow> string option) \<Rightarrow> (string \<Rightarrow> string option) \<Rightarrow> DriveEvent set" where
  "appeared type dirPath new old =
     {diff_event type dirPath (n, i) | n i. new n = Some i \<and> old n = None}"

lemma emitted_events:
  assumes "range_ok R" "distinct (map fst names)"
    and evs_def: "evs = map (diff_event type dirPath) (filter (missing others) (range_names R names))"
  shows "distinct evs" "set evs = appeared type dirPath (map_of names) (map_of others)"
proof -
  have m: "mset (range_names R names) = mset names"
    using assms(1) by (simp add: range_ok_def)
  have "distinct names"
    using assms(2) by (simp add: distinct_map)
  then have "distinct (range_names R names)"
    using m by (metis mset_eq_imp_distinct_iff)
  then show "distinct evs"
    by (simp add: evs_def distinct_map inj_on_def)
  have "set (range_names R names) = set names"
    using m by (rule mset_eq_setD)
  then show "set evs = appeared type dirPath (map_of names) (map_of others)"
    using assms(2) by (auto simp: evs_def appeared_def missing_def image_def)
qed

lemma note_paths_fields:
  "\<exists>lp. note_paths A dirPath dirKR links s = s\<lparr>s_linkPaths := lp\<rparr>"
proof (induction links rule: rev_induct)
  case Nil
  show ?case
    by (intro exI [of _ "s_linkPaths s"]) (simp add: note_paths_def)
next
  case (snoc l links)
  then show ?case
    by (auto simp: note_paths_def split: sum.split intro: exI)
qed

lemma note_paths_path:
  assumes "distinct (map lk_LinkID links)" "l \<in> set links" "GetName A l dirKR (s_addrKR s) = Inr n"
  shows "s_linkPaths (note_paths A dirPath dirKR links s) (lk_LinkID l) = Some (child_path dirPath n)"
  using assms(1,2)
proof (induction links rule: rev_induct)
  case (snoc k links)
  obtain lp where lp: "note_paths A dirPath dirKR links s = s\<lparr>s_linkPaths := lp\<rparr>"
    using note_paths_fields [of A dirPath dirKR links s] by blast
  have "note_paths A dirPath dirKR (links @ [k]) s =
      (case GetName A k dirKR (s_addrKR s) of
         Inl e \<Rightarrow> s\<lparr>s_linkPaths := lp\<rparr>
       | Inr name \<Rightarrow> s\<lparr>s_linkPaths := lp(lk_LinkID k \<mapsto> child_path dirPath name)\<rparr>)"
    using lp by (auto simp: note_paths_def split: sum.split)
  moreover have "lp (lk_LinkID l) = Some (child_path dirPath n)" if "l \<in> set links"
    using snoc.IH [OF _ that] snoc.prems(1) lp by simp
  moreover have "l = k \<or> l \<in> set links \<and> lk_LinkID l \<noteq> lk_LinkID k"
    using snoc.prems by (auto simp: image_iff)
  ultimately show ?case
    using assms(3) by (auto split: sum.split)
qed simp

text \<open>The listing is compared, remembered and reported.\<close>

definition diff_done ::
  "('w, 'k) proton_api \<Rightarrow> string \<Rightarrow> 'k \<Rightarrow> link list \<Rightarrow> link list \<Rightarrow> ('w, 'k) EventPoller \<Rightarrow> DriveEvent list \<Rightarrow> ('w, 'k) EventPoller
   \<Rightarrow> bool" where
  "diff_done A dirPath dirKR old new p evs p' \<longleftrightarrow>
     (let names = named A dirKR (s_addrKR (ep_s p)) in
      queues p evs p' \<and> distinct evs \<and>
      set evs = appeared EventCreated dirPath (names new) (names old) \<union>
                appeared EventDeleted dirPath (names old) (names new)) \<and>
     GetListStale dirPath (s_meta (ep_s p')) = Some (new, dirKR) \<and>
     (distinct (map lk_LinkID new) \<longrightarrow>
        (\<forall>l \<in> set new. \<forall>n. GetName A l dirKR (s_addrKR (ep_s p)) = Inr n \<longrightarrow>
           linkPath (lk_LinkID l) (ep_s p') = child_path dirPath n))"

lemma diffAndEmit_done:
  assumes "range_ok R" "queue_ok p"
    and "fst (api_ListChildren A (s_shareID (ep_s p)) dirLinkID (s_world (ep_s p))) = Inr new"
  shows "\<exists>evs p'. diffAndEmit A R dirPath dirLinkID dirKR old p = (True, p') \<and> diff_done A dirPath dirKR old new p evs p'"
proof -
  obtain r s1 where s1: "on_world (api_ListChildren A (s_shareID (ep_s p)) dirLinkID) (ep_s p) = (r, s1)"
    by fastforce
  note env1 = on_world_env [OF s1]
  have addr: "s_addrKR s1 = s_addrKR (ep_s p)"
    using only_env_fields [of "ep_s p" s1] env1 by simp
  let ?old = "link_names A dirKR (s_addrKR (ep_s p)) old"
  let ?new = "link_names A dirKR (s_addrKR (ep_s p)) new"
  obtain now s2 where s2: "on_world (time_Now A) (note_paths A dirPath dirKR new s1) = (now, s2)"
    by fastforce
  define s3 where "s3 = s2\<lparr>s_meta := SetList now dirPath (new, dirKR) (s_meta s2)\<rparr>"
  define c where "c = map (diff_event EventCreated dirPath) (filter (missing ?old) (range_names R ?new))"
  define d where "d = map (diff_event EventDeleted dirPath) (filter (missing ?new) (range_names R ?old))"
  define p' where "p' = fold enqueue (c @ d) (p\<lparr>ep_s := s3\<rparr>)"
  have "diffAndEmit A R dirPath dirLinkID dirKR old p = (True, p')"
    using s1 env1 assms(3) addr s2
    by (simp add: diffAndEmit_def Let_def emit_missing_fold p'_def c_def d_def s3_def)
  moreover have "queues p (c @ d) p'" "ep_s p' = s3"
    using fold_enqueue [of "p\<lparr>ep_s := s3\<rparr>" "c @ d"] assms(2) by (simp_all add: p'_def)
  moreover note emitted_events [OF assms(1) link_names_named(2) [of A dirKR "s_addrKR (ep_s p)" new],
      OF c_def]
    emitted_events [OF assms(1) link_names_named(2) [of A dirKR "s_addrKR (ep_s p)" old],
      OF d_def]
  moreover have "appeared EventCreated dirPath (map_of ?new) (map_of ?old) \<inter> appeared EventDeleted dirPath (map_of ?old) (map_of ?new) = {}"
    by (auto simp: appeared_def)
  moreover have "GetListStale dirPath (s_meta s3) = Some (new, dirKR)"
    by (simp add: s3_def list_cache.stale_store)
  moreover have "linkPath (lk_LinkID l) s3 = child_path dirPath n"
    if "distinct (map lk_LinkID new)" "l \<in> set new" "GetName A l dirKR (s_addrKR (ep_s p)) = Inr n" for l n
  proof -
    have "s_linkPaths s3 = s_linkPaths (note_paths A dirPath dirKR new s1)"
      using on_world_env [OF s2] by (cases "note_paths A dirPath dirKR new s1"; cases s2) (auto simp: s3_def only_env_def)
    then show ?thesis
      using note_paths_path [OF that(1,2), of A dirKR s1 n dirPath] that(3) addr by (simp add: linkPath_def)
  qed
  ultimately show ?thesis
    by (intro exI [of _ "c @ d"] exI [of _ p']) (auto simp: diff_done_def Let_def link_names_named(1))
qed


section \<open>What an event drops\<close>

lemma InvalidatePath_fields [simp]:
  "s_shareID (InvalidatePath q s) = s_shareID s" "s_addrKR (InvalidatePath q s) = s_addrKR s"
  "s_nodeKRs (InvalidatePath q s) = s_nodeKRs s" "s_linkPaths (InvalidatePath q s) = s_linkPaths s"
  "s_world (InvalidatePath q s) = s_world s" "s_disk (InvalidatePath q s) = s_disk s"
  "s_blocks (InvalidatePath q s) = s_blocks s"
  by (simp_all add: InvalidatePath_def)

lemma invalidateLinkID_fields [simp]:
  "s_shareID (invalidateLinkID order i s) = s_shareID s" "s_addrKR (invalidateLinkID order i s) = s_addrKR s"
  "s_nodeKRs (invalidateLinkID order i s) = s_nodeKRs s" "s_linkPaths (invalidateLinkID order i s) = s_linkPaths s"
  "s_world (invalidateLinkID order i s) = s_world s" "s_disk (invalidateLinkID order i s) = s_disk s"
  "s_blocks (invalidateLinkID order i s) = s_blocks s"
  by (simp_all add: invalidateLinkID_def Let_def split: option.split)

lemma invalidateAll_fields [simp]:
  "s_world (invalidateAll s) = s_world s" "s_disk (invalidateAll s) = s_disk s" "s_blocks (invalidateAll s) = s_blocks s"
  by (simp_all add: invalidateAll_def)

lemma drop_blocks_Some:
  "drop_blocks i s = Some s' \<longleftrightarrow> (\<exists>bc. s_blocks s = Some bc \<and> s' = s\<lparr>s_disk := InvalidateLink bc i (s_disk s)\<rparr>)"
  by (auto simp: drop_blocks_def split: option.split)

text \<open>Every block of the link is gone, and no block of another link.\<close>

lemma InvalidateLink_look:
  assumes "cache_at bc rs" "key_ok k" "name_ok linkID"
    and "\<not> dk_refuses d (Os_remove (key_path bc k))"
  shows "look bc (InvalidateLink bc linkID d) k = (if fst k = linkID then None else look bc d k)"
proof -
  have rs: "rs \<noteq> []" "\<forall>x \<in> set rs. name_ok x" "bc_root bc = abs_path rs"
    using assms(1) by (simp_all add: cache_at_def)
  have dir: "filepath_Join [bc_root bc, linkID] = abs_path (rs @ [linkID])"
    using rs assms(3) filepath_Join_below [of rs "[linkID]"] by simp
  have "at_or_below (abs_path (rs @ [linkID])) (key_path bc k) \<longleftrightarrow> fst k = linkID"
    using rs assms(2,3) by (auto simp: key_path_abs [OF assms(1,2)] at_or_below_abs key_ok_def)
  then show ?thesis
    using assms(4) by (simp add: InvalidateLink_def RemoveAll_keep dir os_ReadFile_def)
qed

text \<open>After the invalidation, an event touches nothing of the session but listings and link paths.\<close>

definition only_listings :: "('w, 'k) Session \<Rightarrow> ('w, 'k) Session \<Rightarrow> bool" where
  "only_listings s s' \<longleftrightarrow>
     mc_stats (s_meta s') = mc_stats (s_meta s) \<and> mc_ttl (s_meta s') = mc_ttl (s_meta s) \<and>
     s_pathLinks s' = s_pathLinks s \<and> s_nodeKRs s' = s_nodeKRs s \<and>
     s_shareID s' = s_shareID s \<and> s_addrKR s' = s_addrKR s \<and>
     s_disk s' = s_disk s \<and> s_blocks s' = s_blocks s"

lemma only_listings_refl [simp]: "only_listings s s"
  by (simp add: only_listings_def)

lemma only_listings_trans: "only_listings s s' \<Longrightarrow> only_listings s' s'' \<Longrightarrow> only_listings s s''"
  by (simp add: only_listings_def)

lemma on_world_listings: "on_world f s = (r, s') \<Longrightarrow> only_listings s s'"
  by (auto simp: on_world_def only_listings_def split: prod.splits)

definition listings_and_queue :: "('w, 'k) EventPoller \<Rightarrow> ('w, 'k) EventPoller \<Rightarrow> bool" where
  "listings_and_queue p p' \<longleftrightarrow> (\<exists>evs. queues p evs p') \<and> only_listings (ep_s p) (ep_s p')"

lemma listings_and_queue_trans:
  "listings_and_queue p p' \<Longrightarrow> listings_and_queue p' p'' \<Longrightarrow> listings_and_queue p p''"
  unfolding listings_and_queue_def using queues_trans only_listings_trans by blast

lemma listings_and_queue_session:
  "queue_ok p \<Longrightarrow> only_listings (ep_s p) s \<Longrightarrow> listings_and_queue p (p\<lparr>ep_s := s\<rparr>)"
  using queues_refl [of p] by (auto simp: listings_and_queue_def)

lemma listings_and_queue_ok: "listings_and_queue p p' \<Longrightarrow> queue_ok p'"
  using queues_ok by (auto simp: listings_and_queue_def)

lemma listings_and_queue_enqueue:
  "listings_and_queue p p' \<Longrightarrow> listings_and_queue p (enqueue ev p')"
  using queues_trans [of p _ p', OF _ queues_enqueue [OF listings_and_queue_ok]]
  unfolding listings_and_queue_def enqueue_session by blast

lemma diffAndEmit_frame:
  assumes "queue_ok p" "diffAndEmit A R dirPath dirLinkID dirKR old p = (b, p')"
  shows "listings_and_queue p p'"
proof -
  obtain r s1 where s1: "on_world (api_ListChildren A (s_shareID (ep_s p)) dirLinkID) (ep_s p) = (r, s1)"
    by fastforce
  note frame1 = on_world_listings [OF s1]
  show ?thesis
  proof (cases r)
    case (Inl e)
    then show ?thesis
      using assms s1 listings_and_queue_session [OF assms(1) frame1] by (simp add: diffAndEmit_def Let_def)
  next
    case (Inr new)
    obtain lp where lp: "note_paths A dirPath dirKR new s1 = s1\<lparr>s_linkPaths := lp\<rparr>"
      using note_paths_fields [of A dirPath dirKR new s1] by blast
    obtain now s2 where s2: "on_world (time_Now A) (s1\<lparr>s_linkPaths := lp\<rparr>) = (now, s2)"
      by fastforce
    define s3 where "s3 = s2\<lparr>s_meta := SetList now dirPath (new, dirKR) (s_meta s2)\<rparr>"
    have "only_listings (ep_s p) s3"
      using frame1 on_world_listings [OF s2] by (simp add: only_listings_def s3_def meta_simps)
    moreover obtain evs fs where "p' = fold enqueue fs (fold enqueue evs (p\<lparr>ep_s := s3\<rparr>))"
      using assms(2) s1 Inr lp s2 by (auto simp: diffAndEmit_def Let_def emit_missing_fold s3_def)
    then have "p' = fold enqueue (evs @ fs) (p\<lparr>ep_s := s3\<rparr>)"
      by simp
    ultimately show ?thesis
      using fold_enqueue [of "p\<lparr>ep_s := s3\<rparr>" "evs @ fs"] assms(1) by (auto simp: listings_and_queue_def)
  qed
qed

lemma try_diff_frame:
  assumes "queue_ok p" "try_diff A R dirPath dirLinkID old p = (b, p')"
  shows "listings_and_queue p p'"
  using assms(2) listings_and_queue_session [OF assms(1) only_listings_refl] diffAndEmit_frame [OF assms(1)]
  by (auto simp: try_diff_def split: if_splits option.splits prod.splits)

lemma update_fallback_frame:
  assumes "queue_ok p"
  shows "listings_and_queue p (update_fallback A linkID path parentPath p)"
proof -
  obtain b s where s: "(if path \<noteq> [] then is_trashed A linkID (ep_s p) else (False, ep_s p)) = (b, s)"
    by fastforce
  have "only_listings (ep_s p) s"
    using s by (auto simp: is_trashed_def on_world_listings split: if_splits sum.splits prod.splits)
  then have "only_listings (ep_s p) s" "only_listings (ep_s p) (s\<lparr>s_linkPaths := m\<rparr>)" for m
    by (simp_all add: only_listings_def)
  then show ?thesis
    using s listings_and_queue_session [OF assms]
    by (auto simp: update_fallback_def Let_def intro!: listings_and_queue_enqueue split: bool.split)
qed

lemma create_fallback_frame:
  assumes "queue_ok p"
  shows "listings_and_queue p (create_fallback A R linkID parentID parentPath old p)"
  using try_diff_frame [OF assms, of A R parentPath parentID old]
  by (auto simp: create_fallback_def intro: listings_and_queue_enqueue split: prod.split bool.split)


text \<open>The session between the invalidation and the report.\<close>

definition invalidated :: "string \<Rightarrow> string \<Rightarrow> ('w, 'k) Session \<Rightarrow> ('w, 'k) Session \<Rightarrow> bool" where
  "invalidated linkID parentID s s' \<longleftrightarrow>
     (\<exists>bc. s_blocks s = Some bc \<and> s_disk s' = InvalidateLink bc linkID (s_disk s)) \<and> s_blocks s' = s_blocks s \<and>
     s_shareID s' = s_shareID s \<and> s_addrKR s' = s_addrKR s \<and> s_nodeKRs s' = s_nodeKRs s \<and>
     s_world s' = s_world s \<and>
     (linkPath linkID s \<noteq> [] \<longrightarrow> mc_stats (s_meta s') (linkPath linkID s) = None \<and>
        (\<forall>q. at_or_below (linkPath linkID s) q \<longrightarrow> s_pathLinks s' q = None)) \<and>
     mc_ttl (s_meta s') = mc_ttl (s_meta s) \<and>
     (linkPath linkID s = [] \<longrightarrow>
        (\<forall>q e. mc_stats (s_meta s) q = Some e \<longrightarrow> lk_LinkID (mse_link e) \<noteq> parentID \<longrightarrow> q \<noteq> linkPath parentID s \<longrightarrow>
           mc_stats (s_meta s') q = Some e))"

lemma invalidateLinkID_stats:
  "mc_stats (s_meta s) q = Some e \<Longrightarrow> lk_LinkID (mse_link e) \<noteq> i \<Longrightarrow>
     mc_stats (s_meta (invalidateLinkID order i s)) q = Some e"
  "mc_ttl (s_meta (invalidateLinkID order i s)) = mc_ttl (s_meta s)"
  by (cases rule: invalidateLinkID_cases [where order = order and i = i and c = "s_meta s"];
      auto simp: invalidateLinkID_def Let_def map_delete_def meta_simps split: option.split)+

lemma InvalidatePath_meta [simp]: "s_meta (InvalidatePath q s) = meta_InvalidatePath q (s_meta s)"
  by (simp add: InvalidatePath_def)

lemma InvalidatePath_forgets:
  "at_or_below q r \<Longrightarrow> s_pathLinks (InvalidatePath q s) r = None"
  "s_pathLinks s r = None \<Longrightarrow> s_pathLinks (InvalidatePath q s) r = None"
  by (auto simp: InvalidatePath_def at_or_below_def)

lemma handle_delete_invalidates:
  assumes "queue_ok p" "handle_delete R linkID parentID p = Some p'"
  shows "\<exists>s. invalidated linkID parentID (ep_s p) s \<and> listings_and_queue (p\<lparr>ep_s := s\<rparr>) p'"
proof -
  let ?path = "linkPath linkID (ep_s p)"
  let ?s1 = "InvalidatePath ?path (ep_s p)"
  let ?s2 = "if ?path = [] then invalidateLinkID (range_stats R (s_meta ?s1)) parentID ?s1 else ?s1"
  obtain bc where bc: "s_blocks (ep_s p) = Some bc"
    using assms(2) by (auto simp: handle_delete_def Let_def drop_blocks_Some bind_eq_Some_conv split: if_splits)
  let ?s = "?s2\<lparr>s_disk := InvalidateLink bc linkID (s_disk (ep_s p))\<rparr>"
  have "invalidated linkID parentID (ep_s p) ?s"
    using bc by (auto simp: invalidated_def meta_simps InvalidatePath_forgets invalidateLinkID_stats)
  moreover have "drop_blocks linkID ?s2 = Some ?s"
    using bc by (simp add: drop_blocks_def)
  then have "listings_and_queue (p\<lparr>ep_s := ?s\<rparr>) p'"
    using assms listings_and_queue_session [of "p\<lparr>ep_s := ?s\<rparr>" ?s]
    by (auto simp: handle_delete_def Let_def intro!: listings_and_queue_enqueue split: if_splits)
  ultimately show ?thesis
    by blast
qed

text \<open>What an update does before it compares listings.\<close>

definition update_invalidate ::
  "'k go_range \<Rightarrow> string \<Rightarrow> BlockCache \<Rightarrow> string \<Rightarrow> ('w, 'k) Session \<Rightarrow> ('w, 'k) Session" where
  "update_invalidate R linkID bc parentID s =
     (let path = linkPath linkID s; parentPath = linkPath parentID s;
          s = InvalidatePath path s;
          s = (if parentPath \<noteq> [] \<and> parentPath \<noteq> path then InvalidatePath parentPath s else s);
          s = (if path = [] then invalidateLinkID (range_stats R (s_meta s)) parentID s else s)
      in s\<lparr>s_disk := InvalidateLink bc linkID (s_disk s)\<rparr>)"

lemma update_invalidated:
  "s_blocks s = Some bc \<Longrightarrow> invalidated linkID parentID s (update_invalidate R linkID bc parentID s)"
  by (auto simp: invalidated_def update_invalidate_def Let_def meta_simps InvalidatePath_forgets invalidateLinkID_stats)

definition update_report ::
  "('w, 'k) proton_api \<Rightarrow> 'k go_range \<Rightarrow> string \<Rightarrow> string \<Rightarrow> ('w, 'k) EventPoller \<Rightarrow> ('w, 'k) EventPoller
   \<Rightarrow> ('w, 'k) EventPoller" where
  "update_report A R linkID parentID p0 p =
     (let path = linkPath linkID (ep_s p0); parentPath = linkPath parentID (ep_s p0) in
      case try_diff A R path linkID (GetListStale path (s_meta (ep_s p0))) p of
        (True, p) \<Rightarrow> p
      | (False, p) \<Rightarrow>
          (case try_diff A R parentPath parentID (GetListStale parentPath (s_meta (ep_s p0))) p of
             (True, p) \<Rightarrow> p
           | (False, p) \<Rightarrow> update_fallback A linkID path parentPath p))"

lemma handle_update_steps:
  "handle_update A R linkID parentID p =
     (case s_blocks (ep_s p) of
        None \<Rightarrow> stuck
      | Some bc \<Rightarrow>
          Some (update_report A R linkID parentID p (p\<lparr>ep_s := update_invalidate R linkID bc parentID (ep_s p)\<rparr>)))"
proof -
  let ?path = "linkPath linkID (ep_s p)"
  let ?parentPath = "linkPath parentID (ep_s p)"
  define s1 where "s1 = InvalidatePath ?path (ep_s p)"
  define s2 where "s2 = (if ?parentPath \<noteq> [] \<and> ?parentPath \<noteq> ?path then InvalidatePath ?parentPath s1 else s1)"
  define s3 where "s3 = (if ?path = [] then invalidateLinkID (range_stats R (s_meta s2)) parentID s2 else s2)"
  have s3: "s_blocks s3 = s_blocks (ep_s p)"
    by (simp add: s1_def s2_def s3_def)
  have "handle_update A R linkID parentID p =
      Option.bind (drop_blocks linkID s3) (\<lambda>s. Some (update_report A R linkID parentID p (p\<lparr>ep_s := s\<rparr>)))"
    by (simp only: handle_update_def update_report_def Let_def s1_def s2_def s3_def)
  moreover have "update_invalidate R linkID bc parentID (ep_s p) = s3\<lparr>s_disk := InvalidateLink bc linkID (s_disk s3)\<rparr>" for bc
    by (simp only: update_invalidate_def Let_def s1_def s2_def s3_def)
  ultimately show ?thesis
    by (simp add: drop_blocks_def s3 split: option.split)
qed

lemma update_report_frame:
  assumes "queue_ok p"
  shows "listings_and_queue p (update_report A R linkID parentID p0 p)"
proof -
  obtain b p1 where p1: "try_diff A R (linkPath linkID (ep_s p0)) linkID
      (GetListStale (linkPath linkID (ep_s p0)) (s_meta (ep_s p0))) p = (b, p1)"
    by fastforce
  note frame1 = try_diff_frame [OF assms p1]
  obtain c p2 where p2: "try_diff A R (linkPath parentID (ep_s p0)) parentID
      (GetListStale (linkPath parentID (ep_s p0)) (s_meta (ep_s p0))) p1 = (c, p2)"
    by fastforce
  note frame2 = listings_and_queue_trans [OF frame1 try_diff_frame [OF listings_and_queue_ok [OF frame1] p2]]
  note frame3 = listings_and_queue_trans [OF frame2 update_fallback_frame [OF listings_and_queue_ok [OF frame2]]]
  show ?thesis
    using frame1 frame2 frame3 by (simp add: update_report_def Let_def p1 p2 split: bool.split)
qed

lemma handle_update_invalidates:
  assumes "queue_ok p" "handle_update A R linkID parentID p = Some p'"
  shows "\<exists>s. invalidated linkID parentID (ep_s p) s \<and> listings_and_queue (p\<lparr>ep_s := s\<rparr>) p'"
proof -
  obtain bc where bc: "s_blocks (ep_s p) = Some bc"
    using assms(2) by (auto simp: handle_update_steps split: option.splits)
  then have "p' = update_report A R linkID parentID p (p\<lparr>ep_s := update_invalidate R linkID bc parentID (ep_s p)\<rparr>)"
    using assms(2) by (simp add: handle_update_steps)
  then show ?thesis
    using update_invalidated [OF bc] update_report_frame assms(1) queues_session(3) by metis
qed

lemma handle_invalidates:
  assumes "queue_ok p" "handle A R le p = Some p'" "le_EventType le \<noteq> LinkEventCreate"
  shows "\<exists>s. invalidated (lk_LinkID (le_Link le)) (lk_ParentLinkID (le_Link le)) (ep_s p) s \<and> listings_and_queue (p\<lparr>ep_s := s\<rparr>) p'"
  using assms handle_delete_invalidates [OF assms(1)] handle_update_invalidates [OF assms(1)]
  by (cases "le_EventType le") (auto simp: handle_def)

section \<open>What every poll keeps\<close>

definition poller_kept :: "('w, 'k) EventPoller \<Rightarrow> ('w, 'k) EventPoller \<Rightarrow> bool" where
  "poller_kept p p' \<longleftrightarrow>
     (\<exists>evs. queues p evs p') \<and> (\<exists>P. s_disk (ep_s p') = keep_files P (s_disk (ep_s p))) \<and>
     s_blocks (ep_s p') = s_blocks (ep_s p)"

lemma poller_kept_trans:
  assumes "poller_kept p p'" "poller_kept p' p''"
  shows "poller_kept p p''"
proof -
  obtain evs P where 1: "queues p evs p'" "s_disk (ep_s p') = keep_files P (s_disk (ep_s p))"
    using assms(1) by (auto simp: poller_kept_def)
  obtain fs Q where 2: "queues p' fs p''" "s_disk (ep_s p'') = keep_files Q (s_disk (ep_s p'))"
    using assms(2) by (auto simp: poller_kept_def)
  have "s_disk (ep_s p'') = keep_files (\<lambda>r. Q r \<and> P r) (s_disk (ep_s p))"
    using 1(2) 2(2) by simp
  then show ?thesis
    using queues_trans [OF 1(1) 2(1)] assms by (auto simp: poller_kept_def)
qed

lemma poller_kept_ok: "poller_kept p p' \<Longrightarrow> queue_ok p'"
  using queues_ok by (auto simp: poller_kept_def)

lemma poller_kept_listings: "listings_and_queue p p' \<Longrightarrow> poller_kept p p'"
  by (auto simp: listings_and_queue_def poller_kept_def only_listings_def intro: exI [of _ "\<lambda>_. True"])

lemma poller_kept_session:
  "queue_ok p \<Longrightarrow> s_disk s = keep_files P (s_disk (ep_s p)) \<Longrightarrow> s_blocks s = s_blocks (ep_s p) \<Longrightarrow>
     poller_kept p (p\<lparr>ep_s := s\<rparr>)"
  using queues_refl [of p] by (auto simp: poller_kept_def)

lemma poller_kept_enqueue: "poller_kept p p' \<Longrightarrow> poller_kept p (enqueue ev p')"
  using queues_trans [of p _ p', OF _ queues_enqueue [OF poller_kept_ok]]
  unfolding poller_kept_def enqueue_session by blast

lemma invalidated_disk: "invalidated i j s s' \<Longrightarrow> (\<exists>P. s_disk s' = keep_files P (s_disk s)) \<and> s_blocks s' = s_blocks s"
  by (auto simp: invalidated_def InvalidateLink_def RemoveAll_keep)

lemma handle_create_kept:
  assumes "queue_ok p"
  shows "poller_kept p (handle_create A R l p)"
proof -
  let ?parentID = "lk_ParentLinkID l"
  let ?parentPath = "linkPath ?parentID (ep_s p)"
  let ?old = "GetListStale ?parentPath (s_meta (ep_s p))"
  define s where "s = (if ?parentPath \<noteq> [] then InvalidatePath ?parentPath (ep_s p)
      else invalidateLinkID (range_stats R (s_meta (ep_s p))) ?parentID (ep_s p))"
  have s: "s_disk s = s_disk (ep_s p)" "s_blocks s = s_blocks (ep_s p)"
    by (simp_all add: s_def)
  have fallback: "poller_kept p (create_fallback A R (lk_LinkID l) ?parentID ?parentPath ?old (p\<lparr>ep_s := s'\<rparr>))"
    if "only_listings s s'" for s'
  proof (rule poller_kept_trans [OF _ poller_kept_listings [OF create_fallback_frame]])
    show "poller_kept p (p\<lparr>ep_s := s'\<rparr>)"
      using s that assms by (intro poller_kept_session [where P = "\<lambda>_. True"]) (simp_all add: only_listings_def)
  qed (use assms in simp)
  show ?thesis
  proof (cases "if ?parentPath \<noteq> [] then s_nodeKRs s ?parentID else None")
    case None
    then have "handle_create A R l p = create_fallback A R (lk_LinkID l) ?parentID ?parentPath ?old (p\<lparr>ep_s := s\<rparr>)"
      by (simp only: handle_create_def Let_def s_def [symmetric] option.case)
    then show ?thesis
      using fallback [of s] by simp
  next
    case (Some parentKR)
    obtain name s1 where s1: "created_name A l parentKR s = (name, s1)"
      by fastforce
    then have frame: "only_listings s s1"
      by (auto simp: created_name_def on_world_listings split: sum.splits prod.splits)
    have other: "handle_create A R l p =
        create_fallback A R (lk_LinkID l) ?parentID ?parentPath ?old (p\<lparr>ep_s := s1\<rparr>)" if "\<nexists>c n. name = Inr (c # n)"
      using Some that s1 by (simp only: handle_create_def Let_def s_def [symmetric] option.case prod.case)
        (auto split: sum.split list.split)
    have "poller_kept p (handle_create A R l p)" if "name = Inr (c # n)" for c n
    proof -
      let ?childPath = "child_path ?parentPath (c # n)"
      let ?p1 = "p\<lparr>ep_s := s1\<lparr>s_linkPaths := (s_linkPaths s1)(lk_LinkID l \<mapsto> ?childPath)\<rparr>\<rparr>"
      have "handle_create A R l p = enqueue \<lparr>de_Type = EventCreated, de_LinkID = lk_LinkID l, de_Path = ?childPath\<rparr> ?p1"
        using Some that s1 by (simp only: handle_create_def Let_def s_def [symmetric] option.case prod.case sum.case list.case)
      moreover have "poller_kept p ?p1"
        using s frame assms by (intro poller_kept_session [where P = "\<lambda>_. True"]) (simp_all add: only_listings_def)
      ultimately show ?thesis
        by (simp only: poller_kept_enqueue)
    qed
    then show ?thesis
      using other fallback [OF frame] by fastforce
  qed
qed

lemma handle_kept:
  assumes "queue_ok p" "handle A R le p = Some p'"
  shows "poller_kept p p'"
proof (cases "le_EventType le = LinkEventCreate")
  case True
  then show ?thesis
    using assms handle_create_kept [OF assms(1)] by (auto simp: handle_def)
next
  case False
  then obtain s where s: "invalidated (lk_LinkID (le_Link le)) (lk_ParentLinkID (le_Link le)) (ep_s p) s" "listings_and_queue (p\<lparr>ep_s := s\<rparr>) p'"
    using handle_invalidates [OF assms] by blast
  have "poller_kept p (p\<lparr>ep_s := s\<rparr>)"
    using invalidated_disk [OF s(1)] poller_kept_session [OF assms(1)] by blast
  then show ?thesis
    using poller_kept_trans poller_kept_listings [OF s(2)] by blast
qed

lemma handle_all_kept:
  "handle_all A R les p = Some p' \<Longrightarrow> queue_ok p \<Longrightarrow> poller_kept p p'"
proof (induction les arbitrary: p)
  case Nil
  then show ?case
    using poller_kept_session [of p "ep_s p" "\<lambda>_. True"] by simp
next
  case (Cons le les)
  then obtain p1 where p1: "handle A R le p = Some p1" "handle_all A R les p1 = Some p'"
    by (auto simp: bind_eq_Some_conv)
  note one = handle_kept [OF Cons.prems(2) p1(1)]
  show ?case
    using poller_kept_trans [OF one Cons.IH [OF p1(2) poller_kept_ok [OF one]]] .
qed


section \<open>Crashes and anchors\<close>

lemma handle_crash:
  "handle A R le p = None \<longleftrightarrow> s_blocks (ep_s p) = None \<and> le_EventType le \<noteq> LinkEventCreate"
proof -
  have "handle_delete R linkID parentID p = None \<longleftrightarrow> s_blocks (ep_s p) = None" for linkID parentID
    by (auto simp: handle_delete_def Let_def drop_blocks_def bind_eq_None_conv split: option.splits)
  then show ?thesis
    by (cases "le_EventType le") (auto simp: handle_def Let_def handle_update_steps split: option.splits)
qed

lemma handle_all_crash:
  "queue_ok p \<Longrightarrow>
     handle_all A R les p = None \<longleftrightarrow> s_blocks (ep_s p) = None \<and> (\<exists>le \<in> set les. le_EventType le \<noteq> LinkEventCreate)"
proof (induction les arbitrary: p)
  case (Cons le les)
  show ?case
  proof (cases "handle A R le p")
    case (Some p1)
    note one = handle_kept [OF Cons.prems Some]
    then have "s_blocks (ep_s p1) = s_blocks (ep_s p)"
      by (simp add: poller_kept_def)
    then show ?thesis
      using Some Cons.IH [OF poller_kept_ok [OF one]] handle_crash [of A R le p] by auto
  qed (use handle_crash [of A R le p] in auto)
qed simp

lemma anchor_bytes: "map (char_of \<circ> unat) (map (of_nat \<circ> of_char) s :: byte list) = s"
proof (induction s)
  case (Cons c s)
  have "(of_char c :: nat) < 256"
    by (rule nat_of_char_less_256)
  then have "unat (of_nat (of_char c) :: byte) = of_char c"
    by (simp add: unat_of_nat)
  with Cons show ?case
    by simp
qed simp

definition anchor_writable :: "('w, 'k) EventPoller \<Rightarrow> bool" where
  "anchor_writable p \<longleftrightarrow> ep_anchorPath p \<noteq> [] \<and> os_MkdirAll (path_Dir (ep_anchorPath p)) (s_disk (ep_s p)) \<and>
     dk_short (s_disk (ep_s p)) (ep_anchorPath p) = None \<and> \<not> dk_refuses (s_disk (ep_s p)) (Os_read (ep_anchorPath p))"

lemma anchor_writable_kept: "poller_kept p p' \<Longrightarrow> anchor_writable p \<Longrightarrow> anchor_writable p'"
  by (auto simp: poller_kept_def anchor_writable_def queues_def os_MkdirAll_def) (auto simp: keep_files_def)

lemma load_saved:
  assumes "anchor_writable p"
  shows "loadAnchor (saveAnchor A e p) = TrimSpace e" "ep_anchorPath (saveAnchor A e p) = ep_anchorPath p"
    "ep_queue (saveAnchor A e p) = ep_queue p"
proof -
  let ?a = "ep_anchorPath p"
  obtain now s1 where s1: "on_world (time_Now A) (ep_s p) = (now, s1)"
    by fastforce
  obtain ok d where d: "os_WriteFile ?a (map (of_nat \<circ> of_char) e) now (s_disk s1) = (ok, d)"
    by fastforce
  have disk: "s_disk s1 = s_disk (ep_s p)"
    using on_world_env [OF s1] by simp
  have save: "saveAnchor A e p = p\<lparr>ep_s := s1\<lparr>s_disk := d\<rparr>\<rparr>"
    using assms s1 d by (simp add: saveAnchor_def anchor_writable_def)
  have "os_ReadFile ?a d = Some (map (of_nat \<circ> of_char) e)"
    using WriteFile_files [OF d, of ?a] assms disk by (simp add: anchor_writable_def os_ReadFile_def)
  then show "loadAnchor (saveAnchor A e p) = TrimSpace e"
    using assms anchor_bytes [of e] by (simp add: save loadAnchor_def anchor_writable_def del: map_map)
  show "ep_anchorPath (saveAnchor A e p) = ep_anchorPath p" "ep_queue (saveAnchor A e p) = ep_queue p"
    by (simp_all add: save)
qed

lemma loadAnchor_session: "s_disk s = s_disk (ep_s p) \<Longrightarrow> loadAnchor (p\<lparr>ep_s := s\<rparr>) = loadAnchor p"
  by (simp add: loadAnchor_def)

lemma refresh_all_kept: "queue_ok p \<Longrightarrow> poller_kept p (refresh_all p)"
  unfolding refresh_all_def
  by (intro poller_kept_enqueue poller_kept_session [where P = "\<lambda>_. True"]) simp_all

text \<open>Either nothing has happened, or the poll ended with the new anchor being saved.\<close>

lemma poll_cases [consumes 2, case_names retained saved]:
  assumes "poll A R eventID p = Some (e, p')" "queue_ok p"
  obtains
    (retained) s where "e = eventID" "p' = p\<lparr>ep_s := s\<rparr>" "s_disk s = s_disk (ep_s p)"
  | (saved) p1 where "poller_kept p p1" "p' = saveAnchor A e p1"
proof -
  obtain r s1 where s1: "on_world (api_GetVolumeEvent A (s_volumeID (ep_s p)) eventID) (ep_s p) = (r, s1)"
    by fastforce
  note env1 = on_world_env [OF s1]
  have kept: "poller_kept p (p\<lparr>ep_s := s\<rparr>)" if "s_disk s = s_disk (ep_s p)" "s_blocks s = s_blocks (ep_s p)" for s
    using assms(2) that by (intro poller_kept_session [where P = "\<lambda>_. True"]) simp_all
  have kept1: "poller_kept p (p\<lparr>ep_s := s1\<rparr>)"
    using env1 only_env_fields [of "ep_s p" s1] by (intro kept) simp_all
  show thesis
  proof (cases r)
    case (Inl err)
    then show thesis
      using assms(1) s1 env1 retained [of s1] by (simp add: poll_def)
  next
    case (Inr ev)
    obtain r2 s2 where s2: "on_world (api_GetLatestVolumeEventID A (s_volumeID s1)) s1 = (r2, s2)"
      by fastforce
    note env2 = on_world_env [OF s2]
    have kept2: "poller_kept p (p\<lparr>ep_s := s2\<rparr>)"
      using env1 env2 only_env_fields [of "ep_s p" s1] only_env_fields [of s1 s2] by (intro kept) simp_all
    consider "ve_EventID ev = []" | "ve_EventID ev \<noteq> []" "ve_Refresh ev" | "ve_EventID ev \<noteq> []" "\<not> ve_Refresh ev"
      by blast
    then show thesis
    proof cases
      case 1
      have "s_disk s2 = s_disk (ep_s p)"
        using env1 env2 by simp
      note retained = retained [OF _ _ this]
      note saved = saved [OF poller_kept_trans [OF kept2 refresh_all_kept [OF poller_kept_ok [OF kept2]]]]
      show thesis
      proof (cases r2)
        case (Inl err)
        then show thesis
          using assms(1) s1 \<open>r = Inr ev\<close> s2 1 by (intro retained) (simp_all add: poll_def)
      next
        case (Inr newID)
        then show thesis
          using assms(1) s1 \<open>r = Inr ev\<close> s2 1 by (intro saved) (auto simp: poll_def)
      qed
    next
      case 2
      then show thesis
        using assms(1) s1 Inr saved [OF poller_kept_trans [OF kept1 refresh_all_kept [OF poller_kept_ok [OF kept1]]]]
        by (auto simp: poll_def)
    next
      case 3
      then obtain p2 where p2: "handle_all A R (ve_Events ev) (p\<lparr>ep_s := s1\<rparr>) = Some p2"
        "e = ve_EventID ev" "p' = saveAnchor A e p2"
        using assms(1) s1 Inr by (auto simp: poll_def bind_eq_Some_conv)
      show thesis
        using saved [OF poller_kept_trans [OF kept1 handle_all_kept [OF p2(1) poller_kept_ok [OF kept1]]] p2(3)] .
    qed
  qed
qed


section \<open>Samples for the witnesses\<close>

text \<open>Ranging over a map gives each entry once; over the stat cache, its keys.\<close>

definition key_range :: "'k go_range" where
  "key_range = \<lparr>range_names = (\<lambda>m. m), range_stats = (\<lambda>c. SOME ps. set ps = dom (mc_stats c))\<rparr>"

lemma key_range_ok: "range_ok key_range"
  by (auto simp: range_ok_def key_range_def dest!: someI_ex [OF finite_list])

definition sample_event :: "link_event_type \<Rightarrow> link_event" where
  "sample_event ty = \<lparr>le_EventType = ty, le_Link = (sample_link ''B'' ''b'')\<lparr>lk_ParentLinkID := ''A''\<rparr>\<rparr>"

text \<open>\<open>/a/b\<close> has been looked up; the folder's listing and the file's entry are cached.\<close>

definition sample_poller :: "(int, unit) EventPoller" where
  "sample_poller =
     \<lparr>ep_s = (snd (Stat (sample_api True) ''/a/b'' sample_session))\<lparr>s_blocks := Some sample_bc\<rparr>,
      ep_anchorPath = ''/c/anchor'', ep_queue = []\<rparr>"

lemma sample_queue_ok: "queue_ok sample_poller"
  by (simp add: queue_ok_def sample_poller_def)

text \<open>An update of a listed folder is answered by the difference of its listings, and by nothing else.\<close>

lemma listed_update:
  assumes "range_ok R" "queue_ok p" "le_EventType le \<in> {LinkEventUpdate, LinkEventUpdateMetadata}"
    and "linkPath (lk_LinkID (le_Link le)) (ep_s p) = dirPath" "dirPath \<noteq> []"
    and "GetListStale dirPath (s_meta (ep_s p)) = Some (old, kr)"
    and "s_nodeKRs (ep_s p) (lk_LinkID (le_Link le)) = Some dirKR" "s_blocks (ep_s p) = Some bc"
    and "fst (api_ListChildren A (s_shareID (ep_s p)) (lk_LinkID (le_Link le)) (s_world (ep_s p))) = Inr new"
  shows "\<exists>evs p'. handle A R le p = Some p' \<and>
    diffAndEmit A R dirPath (lk_LinkID (le_Link le)) dirKR old
      (p\<lparr>ep_s := update_invalidate R (lk_LinkID (le_Link le)) bc (lk_ParentLinkID (le_Link le)) (ep_s p)\<rparr>) = (True, p') \<and>
    diff_done A dirPath dirKR old new
      (p\<lparr>ep_s := update_invalidate R (lk_LinkID (le_Link le)) bc (lk_ParentLinkID (le_Link le)) (ep_s p)\<rparr>) evs p' \<and>
    s_addrKR (update_invalidate R (lk_LinkID (le_Link le)) bc (lk_ParentLinkID (le_Link le)) (ep_s p)) = s_addrKR (ep_s p)"
proof -
  let ?i = "lk_LinkID (le_Link le)" and ?j = "lk_ParentLinkID (le_Link le)"
  let ?s = "update_invalidate R ?i bc ?j (ep_s p)"
  note dropped = update_invalidated [OF assms(8), of ?i ?j R, unfolded invalidated_def]
  have s: "s_shareID ?s = s_shareID (ep_s p)" "s_addrKR ?s = s_addrKR (ep_s p)" "s_nodeKRs ?s = s_nodeKRs (ep_s p)"
    "s_world ?s = s_world (ep_s p)"
    using dropped by blast+
  have "handle A R le p = handle_update A R ?i ?j p"
    using assms(3) by (auto simp: handle_def)
  also have "\<dots> = Some (update_report A R ?i ?j p (p\<lparr>ep_s := ?s\<rparr>))"
    using assms(8) by (simp add: handle_update_steps)
  finally have handle: "handle A R le p = Some (update_report A R ?i ?j p (p\<lparr>ep_s := ?s\<rparr>))" .
  have "fst (api_ListChildren A (s_shareID ?s) ?i (s_world ?s)) = Inr new"
    using s assms(9) by simp
  then obtain evs p' where d: "diffAndEmit A R dirPath ?i dirKR old (p\<lparr>ep_s := ?s\<rparr>) = (True, p')"
    "diff_done A dirPath dirKR old new (p\<lparr>ep_s := ?s\<rparr>) evs p'"
    using diffAndEmit_done [OF assms(1), of "p\<lparr>ep_s := ?s\<rparr>" A ?i new dirPath dirKR old] assms(2) by auto
  have "update_report A R ?i ?j p (p\<lparr>ep_s := ?s\<rparr>) = p'"
    using assms(4-7) s d(1) by (simp add: update_report_def try_diff_def)
  then show ?thesis
    using handle d s(2) by blast
qed

section \<open>Properties\<close>

text \<open>
  C25. The event queue is bounded and in order: whatever is queued on a poller, draining it returns
  the newest 64 events of all that were queued since the last drain, oldest first, and leaves the
  queue empty and the session untouched.
\<close>

theorem drain_returns_newest:
  assumes "queue_ok p"
  shows "Drain (fold enqueue evs p) =
    (drop (length (ep_queue p @ evs) - 64) (ep_queue p @ evs), p\<lparr>ep_queue := []\<rparr>)"
proof -
  let ?q = "fold enqueue evs p"
  have q: "ep_queue ?q = newest (ep_queue p @ evs)" "ep_anchorPath ?q = ep_anchorPath p" "ep_s ?q = ep_s p"
    using fold_enqueue [OF assms, of evs] by (simp_all add: queues_def)
  have "Drain ?q = (ep_queue ?q, ?q\<lparr>ep_queue := []\<rparr>)"
    by (cases ?q) (simp add: Drain_def)
  also have "?q\<lparr>ep_queue := []\<rparr> = p\<lparr>ep_queue := []\<rparr>"
    using q(2,3) by (intro EventPoller.equality) simp_all
  finally show ?thesis
    by (simp add: q(1) newest_def eventBufferSize_def)
qed

theorem drain_returns_newest_witness:
  "map de_Path (fst (Drain (fold enqueue [\<lparr>de_Type = EventChanged, de_LinkID = [], de_Path = ''/a''\<rparr>,
     \<lparr>de_Type = EventDeleted, de_LinkID = [], de_Path = ''/b''\<rparr>] sample_poller))) = [''/a'', ''/b'']"
  using drain_returns_newest [OF sample_queue_ok, of "[\<lparr>de_Type = EventChanged, de_LinkID = [], de_Path = ''/a''\<rparr>,
     \<lparr>de_Type = EventDeleted, de_LinkID = [], de_Path = ''/b''\<rparr>]"]
  by (simp add: sample_poller_def)

text \<open>
  C22. A change of a folder that has been listed is reported entry by entry: the events queued are one
  "created" for every name that the new listing has and the old one has not, one "deleted" for every
  name that has gone, each once and with the link of that name, and no other; the new listing is
  cached, and the links in it are known by their new paths.
\<close>

theorem folder_change_reported:
  assumes "range_ok R" "queue_ok p" "le_EventType le \<in> {LinkEventUpdate, LinkEventUpdateMetadata}"
    and "linkPath (lk_LinkID (le_Link le)) (ep_s p) = dirPath" "dirPath \<noteq> []"
    and "GetListStale dirPath (s_meta (ep_s p)) = Some (old, kr)"
    and "s_nodeKRs (ep_s p) (lk_LinkID (le_Link le)) = Some dirKR" "s_blocks (ep_s p) = Some bc"
    and "fst (api_ListChildren A (s_shareID (ep_s p)) (lk_LinkID (le_Link le)) (s_world (ep_s p))) = Inr new"
  shows "\<exists>evs p'. handle A R le p = Some p' \<and> ep_queue p' = newest (ep_queue p @ evs) \<and> distinct evs \<and>
    set evs = appeared EventCreated dirPath (named A dirKR (s_addrKR (ep_s p)) new) (named A dirKR (s_addrKR (ep_s p)) old) \<union>
              appeared EventDeleted dirPath (named A dirKR (s_addrKR (ep_s p)) old) (named A dirKR (s_addrKR (ep_s p)) new) \<and>
    GetListStale dirPath (s_meta (ep_s p')) = Some (new, dirKR) \<and>
    (distinct (map lk_LinkID new) \<longrightarrow>
       (\<forall>l \<in> set new. \<forall>n. GetName A l dirKR (s_addrKR (ep_s p)) = Inr n \<longrightarrow>
          linkPath (lk_LinkID l) (ep_s p') = child_path dirPath n))"
proof -
  let ?p = "p\<lparr>ep_s := update_invalidate R (lk_LinkID (le_Link le)) bc (lk_ParentLinkID (le_Link le)) (ep_s p)\<rparr>"
  obtain evs p' where handle: "handle A R le p = Some p'" and diff: "diff_done A dirPath dirKR old new ?p evs p'"
      and addr: "s_addrKR (ep_s ?p) = s_addrKR (ep_s p)"
    using listed_update [OF assms] by auto
  from diff have "ep_queue p' = newest (ep_queue p @ evs)"
    by (simp add: diff_done_def Let_def queues_def)
  with handle diff [unfolded diff_done_def Let_def addr] show ?thesis
    by blast
qed

theorem folder_change_reported_witness:
  "\<exists>evs p'. handle (sample_api True) key_range
       \<lparr>le_EventType = LinkEventUpdate, le_Link = sample_link ''A'' ''a''\<rparr>
       (sample_poller\<lparr>ep_s := (ep_s sample_poller)\<lparr>s_meta :=
          SetList 5 ''/a'' ([sample_link ''B'' ''b'', sample_link ''D'' ''d''], ()) (NewMetaCache 0)\<rparr>\<rparr>) = Some p' \<and>
     distinct evs \<and> ep_queue p' = newest evs \<and>
     set evs = {\<lparr>de_Type = EventCreated, de_LinkID = ''C'', de_Path = ''/a/c''\<rparr>,
                \<lparr>de_Type = EventDeleted, de_LinkID = ''D'', de_Path = ''/a/d''\<rparr>}"
proof -
  let ?p = "sample_poller\<lparr>ep_s := (ep_s sample_poller)\<lparr>s_meta :=
      SetList 5 ''/a'' ([sample_link ''B'' ''b'', sample_link ''D'' ''d''], ()) (NewMetaCache 0)\<rparr>\<rparr>"
  let ?le = "\<lparr>le_EventType = LinkEventUpdate, le_Link = sample_link ''A'' ''a''\<rparr>"
  have facts: "linkPath ''A'' (ep_s ?p) = ''/a''" "s_nodeKRs (ep_s ?p) ''A'' = Some ()" "s_shareID (ep_s ?p) = ''share''"
    "s_addrKR (ep_s ?p) = ()" "ep_queue ?p = []" "s_blocks (ep_s ?p) = Some sample_bc"
    by code_simp+
  have names: "named (sample_api True) () () (sample_children ''A'') = [''b'' \<mapsto> ''B'', ''c'' \<mapsto> ''C'']"
    "named (sample_api True) () () [sample_link ''B'' ''b'', sample_link ''D'' ''d''] = [''b'' \<mapsto> ''B'', ''d'' \<mapsto> ''D'']"
    by (auto simp: named_def sample_api_def sample_children_def sample_link_def fun_eq_iff)
  have diff: "appeared EventCreated ''/a'' [''b'' \<mapsto> ''B'', ''c'' \<mapsto> ''C''] [''b'' \<mapsto> ''B'', ''d'' \<mapsto> ''D''] \<union>
      appeared EventDeleted ''/a'' [''b'' \<mapsto> ''B'', ''d'' \<mapsto> ''D''] [''b'' \<mapsto> ''B'', ''c'' \<mapsto> ''C''] =
      {\<lparr>de_Type = EventCreated, de_LinkID = ''C'', de_Path = ''/a/c''\<rparr>,
       \<lparr>de_Type = EventDeleted, de_LinkID = ''D'', de_Path = ''/a/d''\<rparr>}"
    by (auto simp: appeared_def diff_event_def child_path_def trim_right_slash_def split: if_splits)
  have listed: "fst (api_ListChildren (sample_api True) (s_shareID (ep_s ?p)) (lk_LinkID (le_Link ?le)) (s_world (ep_s ?p))) =
      Inr (sample_children ''A'')"
    by (simp add: sample_api_def sample_link_def)
  have cached: "GetListStale ''/a'' (s_meta (ep_s ?p)) = Some ([sample_link ''B'' ''b'', sample_link ''D'' ''d''], ())"
    by (simp add: list_cache.stale_store)
  have at: "linkPath (lk_LinkID (le_Link ?le)) (ep_s ?p) = ''/a''" "s_nodeKRs (ep_s ?p) (lk_LinkID (le_Link ?le)) = Some ()"
    using facts(1,2) by (simp_all add: sample_link_def)
  have "queue_ok ?p" "le_EventType ?le \<in> {LinkEventUpdate, LinkEventUpdateMetadata}" "''/a'' \<noteq> []"
    using sample_queue_ok by simp_all
  from folder_change_reported [OF key_range_ok this(1,2) at(1) this(3) cached at(2) facts(6) listed]
  obtain evs p' where e: "handle (sample_api True) key_range ?le ?p = Some p'" "ep_queue p' = newest (ep_queue ?p @ evs)"
    "distinct evs"
    "set evs = appeared EventCreated ''/a'' (named (sample_api True) () (s_addrKR (ep_s ?p)) (sample_children ''A''))
        (named (sample_api True) () (s_addrKR (ep_s ?p)) [sample_link ''B'' ''b'', sample_link ''D'' ''d'']) \<union>
      appeared EventDeleted ''/a'' (named (sample_api True) () (s_addrKR (ep_s ?p)) [sample_link ''B'' ''b'', sample_link ''D'' ''d''])
        (named (sample_api True) () (s_addrKR (ep_s ?p)) (sample_children ''A''))"
    by blast
  show ?thesis
    using e(1,3) e(2) [unfolded facts append_Nil] e(4) [unfolded facts names diff] by blast
qed


text \<open>
  C24. After a change or a deletion of a link whose path is known, nothing the session would look up
  for it is left: no resolved path at or below it, no cached metadata of it, and no block of it unless
  the disk refuses to remove the file. Blocks of other links stay.
\<close>

theorem changed_link_dropped:
  assumes "queue_ok p" "handle A R le p = Some p'" "le_EventType le \<noteq> LinkEventCreate"
    and "linkPath (lk_LinkID (le_Link le)) (ep_s p) = path" "path \<noteq> []"
    and "s_blocks (ep_s p) = Some bc" "cache_at bc rs" "name_ok (lk_LinkID (le_Link le))"
  shows "GetStatStale path (s_meta (ep_s p')) = None \<and>
    (\<forall>q. at_or_below path q \<longrightarrow> s_pathLinks (ep_s p') q = None) \<and>
    (\<forall>k. key_ok k \<longrightarrow> \<not> dk_refuses (s_disk (ep_s p)) (Os_remove (key_path bc k)) \<longrightarrow>
       look bc (s_disk (ep_s p')) k =
         (if fst k = lk_LinkID (le_Link le) then None else look bc (s_disk (ep_s p)) k))"
proof -
  obtain s where s: "invalidated (lk_LinkID (le_Link le)) (lk_ParentLinkID (le_Link le)) (ep_s p) s"
    "listings_and_queue (p\<lparr>ep_s := s\<rparr>) p'"
    using handle_invalidates [OF assms(1-3)] by blast
  have after: "mc_stats (s_meta (ep_s p')) = mc_stats (s_meta s)" "s_pathLinks (ep_s p') = s_pathLinks s"
    "s_disk (ep_s p') = s_disk s"
    using s(2) by (simp_all add: listings_and_queue_def only_listings_def)
  have drop: "mc_stats (s_meta s) path = None" "\<And>q. at_or_below path q \<Longrightarrow> s_pathLinks s q = None"
    "s_disk s = InvalidateLink bc (lk_LinkID (le_Link le)) (s_disk (ep_s p))"
    using s(1) assms(4-6) by (auto simp: invalidated_def)
  have blocks: "look bc (s_disk (ep_s p')) k =
      (if fst k = lk_LinkID (le_Link le) then None else look bc (s_disk (ep_s p)) k)"
    if "key_ok k" "\<not> dk_refuses (s_disk (ep_s p)) (Os_remove (key_path bc k))" for k
    unfolding after(3) drop(3) by (rule InvalidateLink_look [OF assms(7) that(1) assms(8) that(2)])
  show ?thesis
    using blocks drop(1,2) by (simp add: GetStatStale_def after(1,2))
qed

theorem changed_link_dropped_witness:
  "\<exists>p'. handle (sample_api True) key_range \<lparr>le_EventType = LinkEventDelete, le_Link = sample_link ''A'' ''a''\<rparr> sample_poller = Some p' \<and>
     s_pathLinks (ep_s p') ''/a'' = None"
proof -
  let ?le = "\<lparr>le_EventType = LinkEventDelete, le_Link = sample_link ''A'' ''a''\<rparr>"
  have facts: "linkPath ''A'' (ep_s sample_poller) = ''/a''" "s_blocks (ep_s sample_poller) = Some sample_bc"
    by code_simp+
  have "handle (sample_api True) key_range ?le sample_poller \<noteq> None"
    using handle_crash [of "sample_api True" key_range ?le sample_poller] facts(2) by simp
  then obtain p' where p': "handle (sample_api True) key_range ?le sample_poller = Some p'"
    by blast
  have "le_EventType ?le \<noteq> LinkEventCreate" "linkPath (lk_LinkID (le_Link ?le)) (ep_s sample_poller) = ''/a''"
    "''/a'' \<noteq> []" "name_ok (lk_LinkID (le_Link ?le))"
    using facts(1) by (simp_all add: sample_link_def name_ok_def)
  from changed_link_dropped [OF sample_queue_ok p' this(1-3) facts(2) sample_bc_at this(4)] p'
  show ?thesis
    by (auto simp: at_or_below_def)
qed

text \<open>
  A change of a file that the session only knows by \<open>Stat\<close> does not reach its metadata: where the
  link's own path is not known (resolving a path records the folders on the way only), an update
  or deletion drops entries of the parent, and \<open>Stat\<close> goes on answering with the old entry of the
  file, without asking the API, until the entry's time to live has passed.
\<close>

theorem unknown_path_stat_survives:
  assumes "queue_ok p" "handle A R le p = Some p'" "le_EventType le \<noteq> LinkEventCreate"
    and "linkPath (lk_LinkID (le_Link le)) (ep_s p) = []"
    and "names_ok ns" "mc_stats (s_meta (ep_s p)) (abs_path ns) = Some e"
    and "lk_LinkID (mse_link e) = lk_LinkID (le_Link le)" "lk_LinkID (le_Link le) \<noteq> lk_ParentLinkID (le_Link le)"
    and "abs_path ns \<noteq> linkPath (lk_ParentLinkID (le_Link le)) (ep_s p)"
    and "fst (time_Now B (s_world (ep_s p'))) - mse_cachedAt e < mc_ttl (s_meta (ep_s p))"
  shows "fst (Stat B (abs_path ns) (ep_s p')) = Inr (mse_link e, mse_parentKR e)"
proof -
  obtain s where s: "invalidated (lk_LinkID (le_Link le)) (lk_ParentLinkID (le_Link le)) (ep_s p) s"
    "listings_and_queue (p\<lparr>ep_s := s\<rparr>) p'"
    using handle_invalidates [OF assms(1-3)] by blast
  have "mc_stats (s_meta s) (abs_path ns) = Some e" "mc_ttl (s_meta s) = mc_ttl (s_meta (ep_s p))"
    using s(1) assms(4,6-9) by (simp_all add: invalidated_def)
  then have kept: "mc_stats (s_meta (ep_s p')) (abs_path ns) = Some e" "mc_ttl (s_meta (ep_s p')) = mc_ttl (s_meta (ep_s p))"
    using s(2) by (simp_all add: listings_and_queue_def only_listings_def)
  have "path_Clean (slash # abs_path ns) = abs_path ns"
    using assms(5) by (simp add: path_Clean_slash names_ok_def)
  moreover obtain now w where "time_Now B (s_world (ep_s p')) = (now, w)"
    by fastforce
  ultimately show ?thesis
    using kept assms(10) by (simp add: Stat_def Let_def on_world_def GetStat_def)
qed

theorem unknown_path_stat_survives_witness:
  "\<exists>p'. handle (sample_api True) key_range (sample_event LinkEventDelete) sample_poller = Some p' \<and>
     fst (Stat ((sample_api False)\<lparr>time_Now := (\<lambda>w. (20, w))\<rparr>) ''/a/b'' (ep_s p')) = Inr (sample_link ''B'' ''b'', ())"
proof -
  let ?le = "sample_event LinkEventDelete"
  have facts: "linkPath ''B'' (ep_s sample_poller) = []" "linkPath ''A'' (ep_s sample_poller) = ''/a''"
    "s_blocks (ep_s sample_poller) \<noteq> None" "mc_ttl (s_meta (ep_s sample_poller)) = 30000000000"
    by code_simp+
  have "map_option mse_link (mc_stats (s_meta (ep_s sample_poller)) ''/a/b'') = Some (sample_link ''B'' ''b'')"
    "map_option (\<lambda>e. 20 - mse_cachedAt e < 30000000000) (mc_stats (s_meta (ep_s sample_poller)) ''/a/b'') = Some True"
    by code_simp+
  then obtain e where e: "mc_stats (s_meta (ep_s sample_poller)) ''/a/b'' = Some e" "mse_link e = sample_link ''B'' ''b''"
    "20 - mse_cachedAt e < 30000000000"
    by auto
  have path: "abs_path [''a'', ''b''] = ''/a/b''" "names_ok [''a'', ''b'']"
    by (simp_all add: abs_path_def names_ok_def name_ok_def)
  have "handle (sample_api True) key_range ?le sample_poller \<noteq> None"
    using handle_crash [of "sample_api True" key_range ?le sample_poller] facts(3) by simp
  then obtain p' where p': "handle (sample_api True) key_range ?le sample_poller = Some p'"
    by blast
  have "fst (Stat ((sample_api False)\<lparr>time_Now := (\<lambda>w. (20, w))\<rparr>) (abs_path [''a'', ''b'']) (ep_s p')) =
      Inr (mse_link e, mse_parentKR e)"
    by (rule unknown_path_stat_survives [OF sample_queue_ok p'])
       (use facts e path in \<open>simp_all add: sample_event_def sample_link_def\<close>)
  then show ?thesis
    using p' path(1) e(2) by simp
qed

text \<open>
  C26. The anchor survives a restart: when a poll returns, either it has learnt nothing (the API
  failed; the anchor, the saved anchor and the queue are as before), or a poller started later on the
  same disk resumes from the anchor returned, with no call of the API, provided that the queue is within its bound, the
  anchor file can be written and the event id returned is not empty and has no surrounding white space. (The reference
  manual says otherwise: that every start fetches the anchor afresh, so that what happened while the
  helper was down is missed.)
\<close>

theorem anchor_survives_restart:
  assumes "poll A R eventID p = Some (e, p')" "queue_ok p" "anchor_writable p" "TrimSpace e = e" "e \<noteq> []"
  shows "e = eventID \<and> loadAnchor p' = loadAnchor p \<and> ep_queue p' = ep_queue p \<or>
    (\<forall>q. ep_anchorPath q = ep_anchorPath p' \<longrightarrow> s_disk (ep_s q) = s_disk (ep_s p') \<longrightarrow> start_anchor A q = (Some e, q))"
  using assms(1,2)
proof (cases rule: poll_cases)
  case (retained s)
  then show ?thesis
    using loadAnchor_session [of s p] by simp
next
  case (saved p1)
  have "loadAnchor p' = e"
    using load_saved(1) [OF anchor_writable_kept [OF saved(1) assms(3)]] assms(4) saved(2) by simp
  then have load: "loadAnchor q = e" if "ep_anchorPath q = ep_anchorPath p'" "s_disk (ep_s q) = s_disk (ep_s p')" for q
    using that by (simp only: loadAnchor_def)
  then have "start_anchor A q = (Some e, q)" if "ep_anchorPath q = ep_anchorPath p'" "s_disk (ep_s q) = s_disk (ep_s p')" for q
    using load [OF that] assms(5) by (simp add: start_anchor_def)
  then show ?thesis
    by blast
qed

definition event_api :: "volume_event \<Rightarrow> (int, unit) proton_api" where
  "event_api ev = (sample_api True)\<lparr>api_GetVolumeEvent := (\<lambda>v e w. (Inr ev, w))\<rparr>"

definition sample_volume_event :: volume_event where
  "sample_volume_event = \<lparr>ve_EventID = ''e7'', ve_Refresh = False, ve_Events = [sample_event LinkEventDelete]\<rparr>"

lemma sample_anchor_writable: "anchor_writable sample_poller"
proof -
  have "dk_files (s_disk (ep_s sample_poller)) = []"
    by code_simp
  moreover have "dk_refuses (s_disk (ep_s sample_poller)) c = False" "dk_short (s_disk (ep_s sample_poller)) r = None" for c r
    by code_simp+
  ultimately show ?thesis
    by (simp add: anchor_writable_def os_MkdirAll_def sample_poller_def)
qed

theorem anchor_survives_restart_witness:
  "\<exists>p'. poll (event_api sample_volume_event) key_range ''e6'' sample_poller = Some (''e7'', p') \<and>
     start_anchor (event_api sample_volume_event) (sample_poller\<lparr>ep_s := ep_s p', ep_queue := []\<rparr>) =
       (Some ''e7'', sample_poller\<lparr>ep_s := ep_s p', ep_queue := []\<rparr>)"
proof -
  let ?A = "event_api sample_volume_event"
  obtain s1 where s1: "on_world (api_GetVolumeEvent ?A (s_volumeID (ep_s sample_poller)) ''e6'') (ep_s sample_poller) =
      (Inr sample_volume_event, s1)" "s_blocks s1 = s_blocks (ep_s sample_poller)"
    by (simp add: on_world_def event_api_def)
  have "s_blocks (ep_s sample_poller) \<noteq> None"
    by code_simp
  then have "handle_all ?A key_range (ve_Events sample_volume_event) (sample_poller\<lparr>ep_s := s1\<rparr>) \<noteq> None"
    using handle_all_crash [of "sample_poller\<lparr>ep_s := s1\<rparr>"] sample_queue_ok s1(2) by simp
  then obtain p2 where "handle_all ?A key_range (ve_Events sample_volume_event) (sample_poller\<lparr>ep_s := s1\<rparr>) = Some p2"
    by blast
  moreover have "ve_EventID sample_volume_event = ''e7''" "\<not> ve_Refresh sample_volume_event"
    by (simp_all add: sample_volume_event_def)
  ultimately obtain p' where p': "poll ?A key_range ''e6'' sample_poller = Some (''e7'', p')"
    using s1(1) by (simp add: poll_def)
  have "TrimSpace ''e7'' = ''e7''"
    by code_simp
  have "\<not> ''e7'' = ''e6''"
    by simp
  moreover have "ep_anchorPath p' = ep_anchorPath sample_poller"
    using p' sample_queue_ok
  proof (cases rule: poll_cases)
    case (saved p1)
    then show ?thesis
      using load_saved(2) [OF anchor_writable_kept [OF saved(1) sample_anchor_writable]]
      by (auto simp: poller_kept_def queues_def)
  qed simp
  ultimately show ?thesis
    using anchor_survives_restart [OF p' sample_queue_ok sample_anchor_writable \<open>TrimSpace ''e7'' = ''e7''\<close>] p'
    by simp
qed

text \<open>
  A poll crashes without a block cache: where the cache could not be created (the session keeps nil
  and reads go without it), any volume event about a link that is not new dereferences nil in the
  poller; otherwise no poll crashes.
\<close>

theorem poll_crashes_without_cache:
  assumes "queue_ok p"
    and "fst (api_GetVolumeEvent A (s_volumeID (ep_s p)) eventID (s_world (ep_s p))) = Inr ev"
    and "ve_EventID ev \<noteq> []" "\<not> ve_Refresh ev"
  shows "poll A R eventID p = None \<longleftrightarrow>
    s_blocks (ep_s p) = None \<and> (\<exists>le \<in> set (ve_Events ev). le_EventType le \<noteq> LinkEventCreate)"
proof -
  obtain s1 where s1: "on_world (api_GetVolumeEvent A (s_volumeID (ep_s p)) eventID) (ep_s p) = (Inr ev, s1)"
    using assms(2) by (cases "api_GetVolumeEvent A (s_volumeID (ep_s p)) eventID (s_world (ep_s p))")
      (simp add: on_world_def)
  then have blocks: "s_blocks s1 = s_blocks (ep_s p)"
    using on_world_env [OF s1] only_env_fields by blast
  have "poll A R eventID p = None \<longleftrightarrow> handle_all A R (ve_Events ev) (p\<lparr>ep_s := s1\<rparr>) = None"
    using s1 assms(3,4) by (auto simp: poll_def bind_eq_None_conv)
  then show ?thesis
    using handle_all_crash [of "p\<lparr>ep_s := s1\<rparr>" A R "ve_Events ev"] assms(1) blocks by simp
qed

theorem poll_crashes_without_cache_witness:
  "poll (event_api sample_volume_event) key_range ''e6'' (sample_poller\<lparr>ep_s := (ep_s sample_poller)\<lparr>s_blocks := None\<rparr>\<rparr>) = None"
proof -
  let ?p = "sample_poller\<lparr>ep_s := (ep_s sample_poller)\<lparr>s_blocks := None\<rparr>\<rparr>"
  have "queue_ok ?p" "fst (api_GetVolumeEvent (event_api sample_volume_event) (s_volumeID (ep_s ?p)) ''e6'' (s_world (ep_s ?p))) =
      Inr sample_volume_event" "ve_EventID sample_volume_event \<noteq> []" "\<not> ve_Refresh sample_volume_event"
    using sample_queue_ok by (simp_all add: event_api_def sample_volume_event_def)
  from poll_crashes_without_cache [OF this, of key_range] show ?thesis
    by (simp add: sample_volume_event_def sample_event_def)
qed

end
