(* ===== verification/Session_Start.thy ===== *)
theory Session_Start
  imports Event_Poller
begin

text \<open>
  How a session comes to be, from \<open>src/helper/drive/session.go\<close>: logging in or resuming with stored
  credentials, unlocking the address key, finding the main share, making the caches, and starting
  the poller. The account side of the Proton library is the parameter \<open>proton_mgr\<close>; a client of the
  library is known by the authentication it was made with.
\<close>

section \<open>The library's accounts\<close>

record auth =
  au_UID :: string
  au_AccessToken :: string
  au_RefreshToken :: string

record user =
  us_Keys :: "string list" \<comment> \<open>the ids of the keys\<close>

record address =
  ad_ID :: string
  ad_Email :: string

datatype share_type = ShareTypeMain | ShareType_other nat

record share_meta =
  sh_ShareID :: string
  sh_VolumeID :: string
  sh_LinkID :: string
  sh_Type :: share_type

record ('w, 'k) proton_mgr =
  NewClientWithLogin :: "string \<Rightarrow> string \<Rightarrow> (string \<times> string list) option \<Rightarrow> 'w \<Rightarrow> (drive_error + auth) \<times> 'w"
    \<comment> \<open>the human verification's token and methods, if any\<close>
  NewClientWithRefresh :: "string \<Rightarrow> string \<Rightarrow> 'w \<Rightarrow> (drive_error + auth) \<times> 'w"
  GetHVDetails :: "drive_error \<Rightarrow> (string \<times> string list option) option"
    \<comment> \<open>of an error that asks for a human verification and tells its details\<close>
  GetUser :: "auth \<Rightarrow> 'w \<Rightarrow> (drive_error + user) \<times> 'w"
  GetSalts :: "auth \<Rightarrow> 'w \<Rightarrow> (drive_error + (string \<Rightarrow> string \<Rightarrow> drive_error + byte list)) \<times> 'w"
    \<comment> \<open>the salts, by their \<open>SaltForKey\<close>\<close>
  GetAddresses :: "auth \<Rightarrow> 'w \<Rightarrow> (drive_error + address list) \<times> 'w"
  Unlock :: "user \<Rightarrow> address list \<Rightarrow> byte list option \<Rightarrow> drive_error + (string \<Rightarrow> 'k option)"
  ListShares :: "auth \<Rightarrow> 'w \<Rightarrow> (drive_error + share_meta list) \<times> 'w"
  AuthDelete :: "auth \<Rightarrow> 'w \<Rightarrow> drive_error option \<times> 'w"
  mgr_GetCaptcha :: "string \<Rightarrow> 'w \<Rightarrow> (drive_error + string) \<times> 'w"
  SendVerificationCode :: "string \<Rightarrow> string \<Rightarrow> string \<Rightarrow> 'w \<Rightarrow> drive_error option \<times> 'w"
  os_UserCacheDir :: "drive_error + string"
  PathEscape :: "string \<Rightarrow> string"
  DefaultHostURL :: string

section \<open>Making a session\<close>

record SessionCredentials =
  sc_UID :: string
  sc_RefreshToken :: string
  sc_SaltedPassphrase :: "byte list option"

datatype login_error = HVRequiredError string "string list option" | Login_error drive_error

definition setAuth :: "string \<Rightarrow> string \<Rightarrow> ('w, 'k) Session \<Rightarrow> ('w, 'k) Session" where
  "setAuth uid accessToken s =
     s\<lparr>s_auth := (if uid \<noteq> [] then uid else fst (s_auth s),
                if accessToken \<noteq> [] then accessToken else snd (s_auth s))\<rparr>"

definition blockCacheBase :: "('w, 'k) proton_mgr \<Rightarrow> string \<Rightarrow> drive_error + string" where
  "blockCacheBase M account =
     (case os_UserCacheDir M of
        Inl err \<Rightarrow> Inl err
      | Inr base \<Rightarrow> Inr (filepath_Join [base, ''proton-drive'', PathEscape M account]))"

text \<open>
  The handler given to \<open>AddAuthHandler\<close> calls \<open>setAuth\<close> whenever the client has refreshed its token. It
  is a step of its own in the histories of \<open>Helper_Runs\<close>; a refresh in the middle of a request is not modelled.
\<close>

definition newSession ::
  "('w, 'k) proton_mgr \<Rightarrow> string \<Rightarrow> string \<Rightarrow> string \<Rightarrow> string \<Rightarrow> string \<Rightarrow> 'k \<Rightarrow> 'w \<Rightarrow> disk \<Rightarrow> ('w, 'k) Session" where
  "newSession M shareID volumeID rootID account addrEmail addrKR w d =
     \<lparr>s_shareID = shareID, s_volumeID = volumeID, s_rootID = rootID, s_account = account, s_cacheBase = [],
      s_apiBase = DefaultHostURL M, s_auth = ([], []), s_addrKR = addrKR, s_addrEmail = addrEmail,
      s_shareKR = None, s_nodeKRs = Map.empty, s_linkPaths = Map.empty, s_pathLinks = Map.empty,
      s_meta = NewMetaCache 0,
      s_blocks = (case blockCacheBase M account of Inl err \<Rightarrow> None | Inr base \<Rightarrow> NewBlockCache base 0 d),
      s_world = w, s_disk = d\<rparr>"

fun unlocked_address :: "(string \<Rightarrow> 'k option) \<Rightarrow> address list \<Rightarrow> ('k \<times> string) option" where
  "unlocked_address addrKRs [] = None"
| "unlocked_address addrKRs (addr # addrs) =
     (case addrKRs (ad_ID addr) of
        Some kr \<Rightarrow> Some (kr, ad_Email addr)
      | None \<Rightarrow> unlocked_address addrKRs addrs)"

definition unlockWithSaltedPassphrase ::
  "('w, 'k) proton_mgr \<Rightarrow> auth \<Rightarrow> byte list option \<Rightarrow> 'w \<Rightarrow> (drive_error + 'k \<times> string) \<times> 'w" where
  "unlockWithSaltedPassphrase M c saltedPass w =
     if_ok (GetUser M c w) (\<lambda>user w.
     if_ok (GetAddresses M c w) (\<lambda>addrs w.
       case Unlock M user addrs saltedPass of
         Inl err \<Rightarrow> (Inl err, w)
       | Inr addrKRs \<Rightarrow>
           (case unlocked_address addrKRs addrs of
              Some found \<Rightarrow> (Inr found, w)
            | None \<Rightarrow> (Inl (Errorf ''no address keyring found''), w))))"

text \<open>A user without a key is an index out of range.\<close>

definition unlockPrimaryAddress ::
  "('w, 'k) proton_mgr \<Rightarrow> auth \<Rightarrow> string \<Rightarrow> 'w \<Rightarrow> ((drive_error + 'k \<times> string \<times> byte list) \<times> 'w) option" where
  "unlockPrimaryAddress M c password w =
     (case GetUser M c w of
        (Inl err, w) \<Rightarrow> Some (Inl err, w)
      | (Inr user, w) \<Rightarrow>
          (case GetSalts M c w of
             (Inl err, w) \<Rightarrow> Some (Inl err, w)
           | (Inr SaltForKey, w) \<Rightarrow>
               (case us_Keys user of
                  [] \<Rightarrow> stuck
                | keyID # _ \<Rightarrow>
                    (case SaltForKey password keyID of
                       Inl err \<Rightarrow> Some (Inl err, w)
                     | Inr saltedPass \<Rightarrow>
                         Some (if_ok (unlockWithSaltedPassphrase M c (Some saltedPass) w)
                                 (\<lambda>(kr, email) w. (Inr (kr, email, saltedPass), w)))))))"

definition findMainShare ::
  "('w, 'k) proton_mgr \<Rightarrow> auth \<Rightarrow> 'w \<Rightarrow> (drive_error + string \<times> string \<times> string) \<times> 'w" where
  "findMainShare M c w =
     if_ok (ListShares M c w) (\<lambda>shares w.
       case List.find (\<lambda>sh. sh_Type sh = ShareTypeMain) shares of
         Some sh \<Rightarrow> (Inr (sh_ShareID sh, sh_VolumeID sh, sh_LinkID sh), w)
       | None \<Rightarrow> (Inl (Errorf ''no main Drive share found''), w))"

text \<open>The end of all three: the share, the credentials and the session; an error logs the client out.\<close>

definition drop_client :: "('w, 'k) proton_mgr \<Rightarrow> auth \<Rightarrow> drive_error \<Rightarrow> 'w \<Rightarrow> (drive_error + 'a) \<times> 'w" where
  "drop_client M c err w = (Inl err, snd (AuthDelete M c w))"

definition enter_share ::
  "('w, 'k) proton_mgr \<Rightarrow> auth \<Rightarrow> string \<Rightarrow> 'k \<Rightarrow> string \<Rightarrow> byte list option \<Rightarrow> disk \<Rightarrow> 'w
   \<Rightarrow> (drive_error + ('w, 'k) Session \<times> SessionCredentials) \<times> 'w" where
  "enter_share M c account addrKR addrEmail saltedPass d w =
     (case findMainShare M c w of
        (Inl err, w) \<Rightarrow> drop_client M c err w
      | (Inr (shareID, volumeID, rootID), w) \<Rightarrow>
          (Inr (setAuth (au_UID c) (au_AccessToken c) (newSession M shareID volumeID rootID account addrEmail addrKR w d),
                \<lparr>sc_UID = au_UID c, sc_RefreshToken = au_RefreshToken c, sc_SaltedPassphrase = saltedPass\<rparr>), w))"

definition ResumeSession ::
  "('w, 'k) proton_mgr \<Rightarrow> SessionCredentials \<Rightarrow> string \<Rightarrow> disk \<Rightarrow> 'w
   \<Rightarrow> (drive_error + ('w, 'k) Session \<times> SessionCredentials) \<times> 'w" where
  "ResumeSession M creds account d w =
     (case NewClientWithRefresh M (sc_UID creds) (sc_RefreshToken creds) w of
        (Inl err, w) \<Rightarrow> (Inl (Wrapped ''token refresh failed: '' err), w)
      | (Inr c, w) \<Rightarrow>
          (case unlockWithSaltedPassphrase M c (sc_SaltedPassphrase creds) w of
             (Inl err, w) \<Rightarrow> drop_client M c err w
           | (Inr (addrKR, addrEmail), w) \<Rightarrow>
               enter_share M c (if account = [] then sc_UID creds else account) addrKR addrEmail
                 (sc_SaltedPassphrase creds) d w))"

definition login ::
  "('w, 'k) proton_mgr \<Rightarrow> auth \<Rightarrow> string \<Rightarrow> string \<Rightarrow> disk \<Rightarrow> 'w
   \<Rightarrow> ((drive_error + ('w, 'k) Session \<times> SessionCredentials) \<times> 'w) option" where
  "login M c username password d w =
     (case unlockPrimaryAddress M c password w of
        None \<Rightarrow> stuck
      | Some (Inl err, w) \<Rightarrow> Some (drop_client M c err w)
      | Some (Inr (addrKR, addrEmail, saltedPass), w) \<Rightarrow>
          Some (enter_share M c username addrKR addrEmail (Some saltedPass) d w))"

definition with_login_error :: "(drive_error + 'a) \<times> 'w \<Rightarrow> (login_error + 'a) \<times> 'w" where
  "with_login_error m = (case m of (Inl err, w) \<Rightarrow> (Inl (Login_error err), w) | (Inr x, w) \<Rightarrow> (Inr x, w))"

definition NewSession ::
  "('w, 'k) proton_mgr \<Rightarrow> string \<Rightarrow> string \<Rightarrow> disk \<Rightarrow> 'w
   \<Rightarrow> ((login_error + ('w, 'k) Session \<times> SessionCredentials) \<times> 'w) option" where
  "NewSession M username password d w =
     (case NewClientWithLogin M username password None w of
        (Inl err, w) \<Rightarrow>
          Some (case Option.bind (api_error_ptr err) (GetHVDetails M) of
                  Some (tok, methods) \<Rightarrow> (Inl (HVRequiredError tok methods), w)
                | None \<Rightarrow> (Inl (Login_error err), w))
      | (Inr c, w) \<Rightarrow> map_option with_login_error (login M c username password d w))"

definition NewSessionWithHV ::
  "('w, 'k) proton_mgr \<Rightarrow> string \<Rightarrow> string \<Rightarrow> string \<Rightarrow> string \<Rightarrow> disk \<Rightarrow> 'w
   \<Rightarrow> ((drive_error + ('w, 'k) Session \<times> SessionCredentials) \<times> 'w) option" where
  "NewSessionWithHV M username password hvToken hvType d w =
     (case NewClientWithLogin M username password (Some (hvToken, [hvType])) w of
        (Inl err, w) \<Rightarrow> Some (Inl err, w)
      | (Inr c, w) \<Rightarrow> login M c username password d w)"

section \<open>The poller of a session\<close>

definition newEventPoller :: "('w, 'k) proton_mgr \<Rightarrow> ('w, 'k) Session \<Rightarrow> ('w, 'k) EventPoller" where
  "newEventPoller M s =
     \<lparr>ep_s = s,
      ep_anchorPath = (case blockCacheBase M (s_account s) of
                         Inl err \<Rightarrow> [] | Inr base \<Rightarrow> filepath_Join [base, ''anchor'']),
      ep_queue = []\<rparr>"

text \<open>The anchor that the polling begins with, if it begins, and the poller.\<close>

definition StartPoller ::
  "('w, 'k) proton_api \<Rightarrow> ('w, 'k) proton_mgr \<Rightarrow> ('w, 'k) Session \<Rightarrow> string option \<times> ('w, 'k) EventPoller" where
  "StartPoller A M s = start_anchor A (newEventPoller M s)"

end
