(* ===== verification/Thumbnails.thy ===== *)
theory Thumbnails
  imports Drive_Session Helper_Server
begin

text \<open>
  Thumbnails, from \<open>src/helper/drive/thumbnail.go\<close>: the image of a revision is downloaded once and
  kept as a file of the account's cache directory; an empty file stands for "there is none". HTTP
  and the decoding of JSON bodies are parameters.
\<close>

section \<open>HTTP\<close>

record http_request =
  rq_Method :: string
  rq_URL :: string
  rq_Header :: "(string \<times> string) list"
  rq_Body :: "json option"

text \<open>A response: its status and its body, which may end in an error.\<close>

record http_response =
  rs_StatusCode :: nat
  rs_Body :: "drive_error + byte list"

record 'w http_lib =
  http_NewRequest :: "http_request \<Rightarrow> drive_error option" \<comment> \<open>the error for a malformed URL\<close>
  http_Do :: "http_request \<Rightarrow> 'w \<Rightarrow> (drive_error + http_response) \<times> 'w"
  json_Decode :: "(drive_error + byte list) \<Rightarrow> drive_error + json"
  json_TypeError :: drive_error \<comment> \<open>of a document that does not fit the struct\<close>

definition http_call :: "'w http_lib \<Rightarrow> http_request \<Rightarrow> ('w, 'k) Session \<Rightarrow> (drive_error + http_response) \<times> ('w, 'k) Session" where
  "http_call H rq s =
     (case http_NewRequest H rq of Some err \<Rightarrow> (Inl err, s) | None \<Rightarrow> on_world (http_Do H rq) s)"

definition status_error :: "string \<Rightarrow> nat \<Rightarrow> drive_error" where
  "status_error what n = Errorf (what @ '': HTTP '' @ decimal n)"

section \<open>Decoding the two answers\<close>

fun members :: "json option \<Rightarrow> (string \<times> json) list option" where
  "members None = Some []"
| "members (Some JNull) = Some []"
| "members (Some (JObject ms)) = Some ms"
| "members (Some _) = None"

fun elements :: "json option \<Rightarrow> json list option" where
  "elements None = Some []"
| "elements (Some JNull) = Some []"
| "elements (Some (JArray js)) = Some js"
| "elements (Some _) = None"

fun int_field :: "json option \<Rightarrow> gint64 option" where
  "int_field None = Some 0"
| "int_field (Some JNull) = Some 0"
| "int_field (Some (JInt i)) = Some i"
| "int_field (Some _) = None"

fun traverse :: "('a \<Rightarrow> 'b option) \<Rightarrow> 'a list \<Rightarrow> 'b list option" where
  "traverse f [] = Some []"
| "traverse f (x # xs) = do { y \<leftarrow> f x; ys \<leftarrow> traverse f xs; Some (y # ys) }"

definition unmarshal_thumbnailRevisionResp :: "json \<Rightarrow> string list option" where
  "unmarshal_thumbnailRevisionResp j = do {
     ms \<leftarrow> members (Some j);
     revision \<leftarrow> members (go_field ms ''Revision'');
     thumbs \<leftarrow> elements (go_field revision ''Thumbnails'');
     traverse (\<lambda>t. do {
       ts \<leftarrow> members (Some t);
       thumbID \<leftarrow> string_field (go_field ts ''ThumbnailID'');
       ty \<leftarrow> int_field (go_field ts ''Type'');
       Some thumbID }) thumbs
   }"

record thumbnailBlockInfo =
  tb_ThumbnailID :: string
  tb_BareURL :: string
  tb_Token :: string

definition unmarshal_thumbnailBlocks :: "json \<Rightarrow> thumbnailBlockInfo list option" where
  "unmarshal_thumbnailBlocks j = do {
     ms \<leftarrow> members (Some j);
     thumbs \<leftarrow> elements (go_field ms ''Thumbnails'');
     traverse (\<lambda>t. do {
       ts \<leftarrow> members (Some t);
       thumbID \<leftarrow> string_field (go_field ts ''ThumbnailID'');
       bareURL \<leftarrow> string_field (go_field ts ''BareURL'');
       tok \<leftarrow> string_field (go_field ts ''Token'');
       Some \<lparr>tb_ThumbnailID = thumbID, tb_BareURL = bareURL, tb_Token = tok\<rparr> }) thumbs
   }"

text \<open>\<open>Decode\<close> into a struct.\<close>

definition decode_into ::
  "'w http_lib \<Rightarrow> (json \<Rightarrow> 'a option) \<Rightarrow> http_response \<Rightarrow> drive_error + 'a" where
  "decode_into H f resp =
     (case json_Decode H (rs_Body resp) of
        Inl err \<Rightarrow> Inl err
      | Inr j \<Rightarrow> (case f j of None \<Rightarrow> Inl (json_TypeError H) | Some x \<Rightarrow> Inr x))"

section \<open>Requests\<close>

definition setProtonHeaders :: "string \<times> string \<Rightarrow> (string \<times> string) list" where
  "setProtonHeaders auth =
     [(''x-pm-uid'', fst auth), (''Authorization'', ''Bearer '' @ snd auth), (''x-pm-appversion'', ''web-drive@5.0.0'')]"

definition revisionThumbnailIDs ::
  "'w http_lib \<Rightarrow> string \<Rightarrow> string \<Rightarrow> string \<times> string \<Rightarrow> ('w, 'k) Session \<Rightarrow> (drive_error + string list) \<times> ('w, 'k) Session" where
  "revisionThumbnailIDs H linkID revisionID auth s =
     (let url = s_apiBase s @ ''/drive/shares/'' @ s_shareID s @ ''/files/'' @ linkID @ ''/revisions/'' @ revisionID @
                ''?FromBlockIndex=1&PageSize=1''
      in if_ok (http_call H \<lparr>rq_Method = ''GET'', rq_URL = url, rq_Header = setProtonHeaders auth, rq_Body = None\<rparr> s)
           (\<lambda>resp s.
              if rs_StatusCode resp \<noteq> 200 then (Inl (status_error ''revision endpoint'' (rs_StatusCode resp)), s)
              else (decode_into H unmarshal_thumbnailRevisionResp resp, s)))"

definition thumbnailBlocks ::
  "'w http_lib \<Rightarrow> string list \<Rightarrow> string \<times> string \<Rightarrow> ('w, 'k) Session \<Rightarrow> (drive_error + thumbnailBlockInfo list) \<times> ('w, 'k) Session" where
  "thumbnailBlocks H thumbnailIDs auth s =
     (let body = JObject [(''ThumbnailIDs'', JArray (map JString thumbnailIDs))];
          url = s_apiBase s @ ''/drive/volumes/'' @ s_volumeID s @ ''/thumbnails''
      in if_ok (http_call H \<lparr>rq_Method = ''POST'', rq_URL = url,
                             rq_Header = (''Content-Type'', ''application/json'') # setProtonHeaders auth, rq_Body = Some body\<rparr> s)
           (\<lambda>resp s.
              if rs_StatusCode resp \<noteq> 200 then (Inl (status_error ''thumbnails endpoint'' (rs_StatusCode resp)), s)
              else (decode_into H unmarshal_thumbnailBlocks resp, s)))"

definition downloadThumbnailBlock ::
  "'w http_lib \<Rightarrow> thumbnailBlockInfo \<Rightarrow> ('w, 'k) Session \<Rightarrow> (drive_error + byte list) \<times> ('w, 'k) Session" where
  "downloadThumbnailBlock H block s =
     if_ok (http_call H \<lparr>rq_Method = ''GET'', rq_URL = tb_BareURL block @ slash # tb_Token block, rq_Header = [], rq_Body = None\<rparr> s)
       (\<lambda>resp s.
          if rs_StatusCode resp \<noteq> 200 then (Inl (status_error ''block storage'' (rs_StatusCode resp)), s)
          else (rs_Body resp, s))"

section \<open>The cached image\<close>

text \<open>\<open>base\<close> is what \<open>cacheBaseFor\<close> returns, or the empty text where that fails.\<close>

definition thumbnailCachePath :: "string \<Rightarrow> string \<Rightarrow> string \<Rightarrow> string" where
  "thumbnailCachePath base linkID revisionID = filepath_Join [base, ''thumbnails'', linkID, revisionID]"

definition writeThumbnailCache ::
  "('w, 'k) proton_api \<Rightarrow> string \<Rightarrow> byte list \<Rightarrow> ('w, 'k) Session \<Rightarrow> bool \<times> ('w, 'k) Session" where
  "writeThumbnailCache A path data s =
     (if \<not> os_MkdirAll (path_Dir path) (s_disk s) then (False, s)
      else (case on_world (time_Now A) s of (now, s) \<Rightarrow>
              (case os_WriteFile path data now (s_disk s) of (ok, d) \<Rightarrow> (ok, s\<lparr>s_disk := d\<rparr>))))"

definition FetchThumbnail ::
  "'w http_lib \<Rightarrow> ('w, 'k) proton_api \<Rightarrow> string \<Rightarrow> string \<Rightarrow> string \<Rightarrow> ('w, 'k) Session
   \<Rightarrow> (drive_error + string) \<times> ('w, 'k) Session" where
  "FetchThumbnail H A base linkID revisionID s =
     (if linkID = [] \<or> revisionID = [] then (Inr [], s)
      else
        let thumbPath = thumbnailCachePath base linkID revisionID in
        case file_at (s_disk s) thumbPath of
          Some info \<Rightarrow>
            if df_data info = [] then (Inr [], s)
            else (case on_world (time_Now A) s of (now, s) \<Rightarrow>
                    (Inr thumbPath, s\<lparr>s_disk := os_Chtimes thumbPath now (s_disk s)\<rparr>))
        | None \<Rightarrow>
            let auth = s_auth s in
            if fst auth = [] then (Inl (Errorf ''thumbnail fetch: no active auth token''), s)
            else (case revisionThumbnailIDs H linkID revisionID auth s of
                    (Inl err, s) \<Rightarrow> (Inl (Wrapped ''thumbnail fetch: revision IDs: '' err), s)
                  | (Inr ids, s) \<Rightarrow>
                      if ids = [] then (Inr [], snd (writeThumbnailCache A thumbPath [] s))
                      else (case thumbnailBlocks H ids auth s of
                              (Inl err, s) \<Rightarrow> (Inl (Wrapped ''thumbnail fetch: blocks: '' err), s)
                            | (Inr [], s) \<Rightarrow> (Inr [], s)
                            | (Inr (block # blocks), s) \<Rightarrow>
                                (case downloadThumbnailBlock H block s of
                                   (Inl err, s) \<Rightarrow> (Inl (Wrapped ''thumbnail fetch: download: '' err), s)
                                 | (Inr data, s) \<Rightarrow>
                                     (case writeThumbnailCache A thumbPath data s of
                                        (False, s) \<Rightarrow> (Inr [], s)
                                      | (True, s) \<Rightarrow> (Inr thumbPath, s))))))"


section \<open>Lemmas\<close>

definition world_only :: "('w, 'k) Session \<Rightarrow> ('w, 'k) Session \<Rightarrow> bool" where
  "world_only s s' \<longleftrightarrow> (\<exists>w. s' = s\<lparr>s_world := w\<rparr>)"

lemma world_only_refl: "world_only s s"
  by (cases s) (auto simp: world_only_def)

lemma world_only_trans: "world_only s s' \<Longrightarrow> world_only s' s'' \<Longrightarrow> world_only s s''"
  by (auto simp: world_only_def)

lemma world_only_disk: "world_only s s' \<Longrightarrow> s_disk s' = s_disk s \<and> s_auth s' = s_auth s"
  by (auto simp: world_only_def)

lemma on_world_world_only: "on_world f s = (r, s') \<Longrightarrow> world_only s s'"
  by (auto simp: on_world_def world_only_def split: prod.splits)

lemma http_call_world: "http_call H rq s = (r, s') \<Longrightarrow> world_only s s'"
  by (auto simp: http_call_def world_only_refl on_world_world_only split: option.splits)

lemma if_ok_http:
  assumes "if_ok (http_call H rq s) f = (r, s')" "\<And>resp s1. snd (f resp s1) = s1"
  shows "world_only s s'"
proof -
  obtain x s1 where call: "http_call H rq s = (x, s1)"
    by fastforce
  have "s' = s1"
    using assms(1) assms(2) [of _ s1] call by (cases x) (auto dest: arg_cong [of _ _ snd])
  then show ?thesis
    using http_call_world [OF call] by simp
qed

lemma requests_world:
  "revisionThumbnailIDs H linkID revisionID auth s = (r1, s') \<Longrightarrow> world_only s s'"
  "thumbnailBlocks H ids auth s = (r2, s') \<Longrightarrow> world_only s s'"
  "downloadThumbnailBlock H block s = (r3, s') \<Longrightarrow> world_only s s'"
  unfolding revisionThumbnailIDs_def thumbnailBlocks_def downloadThumbnailBlock_def Let_def
  by (erule if_ok_http; simp)+

lemma write_thumbnail:
  assumes "os_MkdirAll (path_Dir path) (s_disk s)"
  obtains s' where "writeThumbnailCache A path data s = (dk_short (s_disk s) path = None, s')"
    "map_option df_data (file_at (s_disk s') path) =
       Some (case dk_short (s_disk s) path of None \<Rightarrow> data | Some n \<Rightarrow> take n data)"
proof -
  obtain now s1 where s1: "on_world (time_Now A) s = (now, s1)"
    by fastforce
  then have disk: "s_disk s1 = s_disk s"
    using world_only_disk [OF on_world_world_only [OF s1]] by simp
  obtain ok d where d: "os_WriteFile path data now (s_disk s1) = (ok, d)"
    by fastforce
  show thesis
    using WriteFile_files [OF d, of path] assms s1 d disk
    by (intro that [of "s1\<lparr>s_disk := d\<rparr>"]) (simp_all add: writeThumbnailCache_def)
qed

text \<open>A file at the path answers every call, whatever HTTP does.\<close>

lemma FetchThumbnail_hit:
  assumes "linkID \<noteq> []" "revisionID \<noteq> []"
    and "map_option df_data (file_at (s_disk s) (thumbnailCachePath base linkID revisionID)) = Some data"
  shows "fst (FetchThumbnail H A base linkID revisionID s) =
    Inr (if data = [] then [] else thumbnailCachePath base linkID revisionID)"
  using assms by (auto simp: FetchThumbnail_def Let_def split: prod.split)

section \<open>Properties\<close>

text \<open>
  A thumbnail is downloaded once: after a download, every later call for the revision is answered
  from the disk, whatever the servers do. If the file was written in full, both calls return its path
  (an image of no bytes is from then on taken for "there is none"). If the write failed half-way,
  the call returns no path, but later calls return the truncated image, or, if nothing was written,
  that there is none.
\<close>

theorem thumbnail_downloaded_once:
  fixes s :: "('w, 'k) Session"
  assumes "linkID \<noteq> []" "revisionID \<noteq> []" "path = thumbnailCachePath base linkID revisionID"
    and "file_at (s_disk s) path = None" "os_MkdirAll (path_Dir path) (s_disk s)" "fst (s_auth s) \<noteq> []"
    and "revisionThumbnailIDs H linkID revisionID (s_auth s) s = (Inr (i # ids), s1)"
    and "thumbnailBlocks H (i # ids) (s_auth s) s1 = (Inr (block # blocks), s2)"
    and "downloadThumbnailBlock H block s2 = (Inr data, s3)"
    and "kept = (case dk_short (s_disk s) path of None \<Rightarrow> data | Some n \<Rightarrow> take n data)"
  shows "\<exists>s'. FetchThumbnail H A base linkID revisionID s =
      (Inr (if dk_short (s_disk s) path = None then path else []), s') \<and>
    map_option df_data (file_at (s_disk s') path) = Some kept \<and>
    (\<forall>(H' :: 'w http_lib) B. fst (FetchThumbnail H' B base linkID revisionID s') = Inr (if kept = [] then [] else path))"
proof -
  have "world_only s s3"
    using requests_world(1) [OF assms(7)] requests_world(2) [OF assms(8)] requests_world(3) [OF assms(9)]
    by (blast intro: world_only_trans)
  then have disk: "s_disk s3 = s_disk s"
    by (simp add: world_only_disk)
  obtain s' where s': "writeThumbnailCache A path data s3 = (dk_short (s_disk s) path = None, s')"
    "map_option df_data (file_at (s_disk s') path) = Some kept"
    using write_thumbnail [where s = s3 and path = path and data = data and A = A] assms(5,10) unfolding disk by blast
  have "FetchThumbnail H A base linkID revisionID s =
      (Inr (if dk_short (s_disk s) path = None then path else []), s')"
    using assms(1,2,4,6-9) s'(1)
    by (cases "dk_short (s_disk s) path = None") (auto simp: FetchThumbnail_def Let_def assms(3) [symmetric])
  then show ?thesis
    using s'(2) FetchThumbnail_hit [OF assms(1,2)] assms(3) by blast
qed

definition sample_http :: "int http_lib" where
  "sample_http =
     \<lparr>http_NewRequest = (\<lambda>rq. None),
      http_Do = (\<lambda>rq w. (Inr \<lparr>rs_StatusCode = 200,
         rs_Body = Inr (if rq_Method rq = ''POST'' then [2] else if rq_Header rq = [] then [7, 7, 7] else [1])\<rparr>, w)),
      json_Decode = (\<lambda>b.
         if b = Inr [1] then Inr (JObject [(''Revision'', JObject [(''Thumbnails'', JArray [JObject [(''ThumbnailID'', JString ''T'')]])])])
         else if b = Inr [2] then Inr (JObject [(''Thumbnails'', JArray [JObject [(''BareURL'', JString ''b''), (''Token'', JString ''t'')]])])
         else Inl (Errorf ''EOF'')),
      json_TypeError = Errorf ''type''\<rparr>"

theorem thumbnail_downloaded_once_witness:
  "\<exists>s'. FetchThumbnail sample_http (sample_api True) ''/c'' ''l'' ''r''
       (sample_session\<lparr>s_disk := (s_disk sample_session)\<lparr>dk_short := (\<lambda>_. Some 2)\<rparr>\<rparr>) = (Inr [], s') \<and>
     fst (FetchThumbnail sample_http (sample_api False) ''/c'' ''l'' ''r'' s') = Inr ''/c/thumbnails/l/r''"
proof -
  let ?s = "sample_session\<lparr>s_disk := (s_disk sample_session)\<lparr>dk_short := (\<lambda>_. Some 2)\<rparr>\<rparr>"
  let ?block = "\<lparr>tb_ThumbnailID = [], tb_BareURL = ''b'', tb_Token = ''t''\<rparr>"
  have path: "''/c/thumbnails/l/r'' = thumbnailCachePath ''/c'' ''l'' ''r''"
    by code_simp
  have "revisionThumbnailIDs sample_http ''l'' ''r'' (s_auth ?s) ?s = (Inr [''T''], ?s)"
    "thumbnailBlocks sample_http [''T''] (s_auth ?s) ?s = (Inr [?block], ?s)"
    "downloadThumbnailBlock sample_http ?block ?s = (Inr [7, 7, 7], ?s)"
    by (simp_all add: revisionThumbnailIDs_def thumbnailBlocks_def downloadThumbnailBlock_def Let_def http_call_def
        sample_http_def on_world_def decode_into_def unmarshal_thumbnailRevisionResp_def unmarshal_thumbnailBlocks_def
        field_defs sample_session_def setProtonHeaders_def)
  note calls = this
  have "file_at (s_disk ?s) ''/c/thumbnails/l/r'' = None" "os_MkdirAll (path_Dir ''/c/thumbnails/l/r'') (s_disk ?s)"
    "fst (s_auth ?s) \<noteq> []"
    by (simp_all add: sample_session_def os_MkdirAll_def)
  from thumbnail_downloaded_once [OF _ _ path this calls refl, of "sample_api True"]
  obtain s' where s': "FetchThumbnail sample_http (sample_api True) ''/c'' ''l'' ''r'' ?s = (Inr [], s')"
    "\<forall>(H' :: int http_lib) B. fst (FetchThumbnail H' B ''/c'' ''l'' ''r'' s') = Inr ''/c/thumbnails/l/r''"
    by auto
  then show ?thesis
    by blast
qed

end
