(* ===== verification/Make_Dir.thy ===== *)
theory Make_Dir
  imports Drive_Session
begin

text \<open>
  Creating a folder, from \<open>src/helper/drive/session.go\<close>: the parent is looked up, a node key is made
  and locked with a random passphrase, everything is encrypted for the parent, and the request is sent.
  The cryptography is the parameter \<open>crypto_lib\<close>; its keys have the type \<open>'n\<close>, its messages and
  signatures the type \<open>'m\<close>.
\<close>

section \<open>Definitions\<close>

record CreateFolderReq =
  cf_ParentLinkID :: string
  cf_Name :: string
  cf_Hash :: string
  cf_NodeKey :: string
  cf_NodeHashKey :: string
  cf_NodePassphrase :: string
  cf_NodePassphraseSignature :: string
  cf_SignatureAddress :: string

record ('w, 'k, 'n, 'm) crypto_lib =
  GetHashKey :: "link \<Rightarrow> 'k \<Rightarrow> drive_error + byte list"
  GenerateKey :: "string \<Rightarrow> string \<Rightarrow> 'w \<Rightarrow> (drive_error + 'n) \<times> 'w"
  rand_Read :: "nat \<Rightarrow> 'w \<Rightarrow> (drive_error + byte list) \<times> 'w"
  base64_EncodeToString :: "byte list \<Rightarrow> string"
  Lock :: "'n \<Rightarrow> byte list \<Rightarrow> 'w \<Rightarrow> (drive_error + 'n) \<times> 'w"
  Armor :: "'n \<Rightarrow> drive_error + string"
  Encrypt :: "'k \<Rightarrow> byte list \<Rightarrow> 'k option \<Rightarrow> 'w \<Rightarrow> (drive_error + 'm) \<times> 'w"
  SignDetached :: "'k \<Rightarrow> byte list \<Rightarrow> 'w \<Rightarrow> (drive_error + 'm) \<times> 'w"
  GetArmored :: "'m \<Rightarrow> drive_error + string"
  NewKeyRing :: "'n \<Rightarrow> drive_error + 'k"
  hmac_sha256 :: "byte list \<Rightarrow> byte list \<Rightarrow> byte list"
  hex_EncodeToString :: "byte list \<Rightarrow> string"
  CreateFolder :: "string \<Rightarrow> CreateFolderReq \<Rightarrow> 'w \<Rightarrow> drive_error option \<times> 'w"
  open_message :: "'k \<Rightarrow> string \<Rightarrow> drive_error + byte list" \<comment> \<open>how other clients read an armored message\<close>
  open_key :: "string \<Rightarrow> byte list \<Rightarrow> drive_error + 'n" \<comment> \<open>and unlock an armored key\<close>

definition go_string_bytes :: "string \<Rightarrow> byte list" where
  "go_string_bytes s = map (of_nat \<circ> of_char) s"

definition nodeKeyRing :: "link \<Rightarrow> ('w, 'k) Session \<Rightarrow> drive_error + 'k" where
  "nodeKeyRing link s =
     (case s_nodeKRs s (lk_LinkID link) of
        Some kr \<Rightarrow> Inr kr
      | None \<Rightarrow> Inl (Errorf (''node keyring not cached for link '' @ lk_LinkID link)))"

text \<open>\<open>fmt.Errorf("MakeDir: ...: %w", err)\<close>.\<close>

definition make_dir_step :: "string \<Rightarrow> (drive_error + 'a) \<times> 's \<Rightarrow> (drive_error + 'a) \<times> 's" where
  "make_dir_step what m =
     (case m of (Inl err, s) \<Rightarrow> (Inl (Wrapped (''MakeDir: '' @ what @ '': '') err), s) | (Inr x, s) \<Rightarrow> (Inr x, s))"

definition folder_request ::
  "('w, 'k, 'n, 'm) crypto_lib \<Rightarrow> link \<Rightarrow> 'k \<Rightarrow> string \<Rightarrow> ('w, 'k) Session
   \<Rightarrow> (drive_error + CreateFolderReq) \<times> ('w, 'k) Session" where
  "folder_request C parentLink parentKR name s =
     if_ok (make_dir_step ''hash key'' (GetHashKey C parentLink parentKR, s)) (\<lambda>hashKey s.
     if_ok (make_dir_step ''generate node key'' (on_world (GenerateKey C (s_addrEmail s) (s_addrEmail s)) s)) (\<lambda>nodeKey s.
     if_ok (make_dir_step ''generate passphrase'' (on_world (rand_Read C 32) s)) (\<lambda>rawPass s.
     let passB64 = base64_EncodeToString C rawPass in
     if_ok (make_dir_step ''lock node key'' (on_world (Lock C nodeKey (go_string_bytes passB64)) s)) (\<lambda>lockedKey s.
     if_ok (make_dir_step ''armor node key'' (Armor C lockedKey, s)) (\<lambda>armoredNodeKey s.
     if_ok (make_dir_step ''encrypt passphrase'' (on_world (Encrypt C parentKR (go_string_bytes passB64) None) s)) (\<lambda>encPass s.
     if_ok (make_dir_step ''armor passphrase'' (GetArmored C encPass, s)) (\<lambda>armoredPass s.
     if_ok (make_dir_step ''sign passphrase'' (on_world (SignDetached C (s_addrKR s) (go_string_bytes passB64)) s)) (\<lambda>passSig s.
     if_ok (make_dir_step ''armor passphrase sig'' (GetArmored C passSig, s)) (\<lambda>armoredPassSig s.
     if_ok (make_dir_step ''new node keyring'' (NewKeyRing C nodeKey, s)) (\<lambda>nodeKR s.
     if_ok (make_dir_step ''generate hash key'' (on_world (rand_Read C 32) s)) (\<lambda>rawHashKey s.
     if_ok (make_dir_step ''encrypt hash key'' (on_world (Encrypt C nodeKR rawHashKey (Some (s_addrKR s))) s)) (\<lambda>encHashKey s.
     if_ok (make_dir_step ''armor hash key'' (GetArmored C encHashKey, s)) (\<lambda>armoredHashKey s.
     if_ok (make_dir_step ''encrypt name'' (on_world (Encrypt C parentKR (go_string_bytes name) (Some (s_addrKR s))) s)) (\<lambda>encName s.
     if_ok (make_dir_step ''armor name'' (GetArmored C encName, s)) (\<lambda>armoredName s.
       (Inr \<lparr>cf_ParentLinkID = lk_LinkID parentLink, cf_Name = armoredName,
             cf_Hash = hex_EncodeToString C (hmac_sha256 C hashKey (go_string_bytes name)),
             cf_NodeKey = armoredNodeKey, cf_NodeHashKey = armoredHashKey, cf_NodePassphrase = armoredPass,
             cf_NodePassphraseSignature = armoredPassSig, cf_SignatureAddress = s_addrEmail s\<rparr>, s))))))))))))))))"

definition MakeDir ::
  "('w, 'k) proton_api \<Rightarrow> ('w, 'k, 'n, 'm) crypto_lib \<Rightarrow> string \<Rightarrow> ('w, 'k) Session
   \<Rightarrow> drive_error option \<times> ('w, 'k) Session" where
  "MakeDir A C p s =
     (let parent = path_Dir p; name = path_Base p in
      case Stat A parent s of
        (Inl err, s) \<Rightarrow> (Some err, s)
      | (Inr (parentLink, _), s) \<Rightarrow>
          (case make_dir_step ''parent keyring'' (nodeKeyRing parentLink s, s) of
             (Inl err, s) \<Rightarrow> (Some err, s)
           | (Inr parentKR, s) \<Rightarrow>
               (case folder_request C parentLink parentKR name s of
                  (Inl err, s) \<Rightarrow> (Some err, s)
                | (Inr req, s) \<Rightarrow>
                    (case on_world (CreateFolder C (s_shareID s) req) s of
                       (err, s) \<Rightarrow>
                         (let s = s\<lparr>s_meta := meta_InvalidatePath parent (s_meta s)\<rparr> in
                          case err of
                            None \<Rightarrow> (None, s)
                          | Some e \<Rightarrow>
                              if isAlreadyExistsError e then (Some Drive_ErrAlreadyExists, s)
                              else (Some (Wrapped ''MakeDir: API: '' e), s))))))"

section \<open>The request\<close>

text \<open>What is encrypted for a keyring is read with it; a locked key is unlocked with its passphrase.\<close>

definition crypto_ok :: "('w, 'k, 'n, 'm) crypto_lib \<Rightarrow> bool" where
  "crypto_ok C \<longleftrightarrow>
     (\<forall>kr plain signer w msg w' a. Encrypt C kr plain signer w = (Inr msg, w') \<longrightarrow> GetArmored C msg = Inr a \<longrightarrow>
        open_message C kr a = Inr plain) \<and>
     (\<forall>key pass w locked w' a. Lock C key pass w = (Inr locked, w') \<longrightarrow> Armor C locked = Inr a \<longrightarrow>
        open_key C a pass = Inr key)"

lemma make_dir_stepE:
  assumes "if_ok (make_dir_step what m) f = (Inr y, s')"
  obtains x s1 where "m = (Inr x, s1)" "f x s1 = (Inr y, s')"
  using assms by (cases m; cases "fst m") (auto simp: make_dir_step_def)

lemma on_world_Inr: "on_world f s = (x, s1) \<longleftrightarrow> (\<exists>w. f (s_world s) = (x, w) \<and> s1 = s\<lparr>s_world := w\<rparr>)"
  by (auto simp: on_world_def split: prod.splits)

section \<open>Whose keyring a lookup leaves out\<close>

text \<open>
  Resolving a path stores the keyrings of the links on the way to it, of no other: \<open>avoids A D j ns\<close>
  says that the link \<open>j\<close> is not on the way to \<open>ns\<close>.
\<close>

definition avoids :: "('w, 'k) proton_api \<Rightarrow> 'k drive \<Rightarrow> string \<Rightarrow> string list \<Rightarrow> bool" where
  "avoids A D j ns \<longleftrightarrow> (\<forall>ms kr. prefix ms ns \<longrightarrow> walk A D ms \<noteq> Some (j, kr))"

lemma on_world_KRs: "on_world f s = (r, s') \<Longrightarrow> s_nodeKRs s' = s_nodeKRs s"
  by (auto simp: on_world_def split: prod.splits)

lemma shareKeyRing_KRs: "s_nodeKRs (snd (shareKeyRing A s)) = s_nodeKRs s"
proof (cases "s_shareKR s")
  case None
  obtain r s1 where s1: "on_world (api_GetShareKR A (s_shareID s) (s_addrKR s)) s = (r, s1)"
    by fastforce
  then show ?thesis
    using None on_world_KRs [OF s1] by (cases r) (simp_all add: shareKeyRing_def)
qed (simp add: shareKeyRing_def)

lemma rootNodeKeyRing_lacks:
  assumes "coherent A D s" "s_nodeKRs s j = None" "j \<noteq> dr_rootID D"
  shows "s_nodeKRs (snd (rootNodeKeyRing A s)) j = None"
proof (cases "s_nodeKRs s (s_rootID s)")
  case None
  obtain r1 s1 where s1: "shareKeyRing A s = (r1, s1)"
    by fastforce
  have k1: "s_nodeKRs s1 j = None"
    using shareKeyRing_KRs [of A s] s1 assms(2) by simp
  obtain r2 s2 where s2: "on_world (api_GetLink A (s_shareID s1) (s_rootID s1)) s1 = (r2, s2)"
    by fastforce
  have k2: "s_nodeKRs s2 j = None"
    using on_world_KRs [OF s2] k1 by simp
  have "coherent A D s1"
    using shareKeyRing_answers [OF assms(1)] s1 by (simp add: answers_def)
  then have "s_rootID s2 = dr_rootID D"
    using on_world_coherent [OF s2] coherent_session(2) by blast
  then show ?thesis
    using None s1 k1 s2 k2 assms(3)
    by (cases r1; cases r2) (auto simp: rootNodeKeyRing_def split: sum.split)
qed (use assms(2) in \<open>simp add: rootNodeKeyRing_def\<close>)

lemma resolve_parts_lacks:
  "coherent A D s \<Longrightarrow> names_ok (ns @ parts) \<Longrightarrow> walk A D ns = Some (i, kr) \<Longrightarrow> avoids A D j (ns @ parts) \<Longrightarrow>
     s_nodeKRs s j = None \<Longrightarrow> s_nodeKRs (snd (resolve_parts A p parts i kr (abs_path ns) s)) j = None"
proof (induction parts arbitrary: ns i kr s)
  case (Cons part parts)
  obtain s1 where s1: "on_world (api_ListChildren A (s_shareID s) i) s = (Inr (dr_children D i), s1)" "coherent A D s1"
    using on_world_answers [OF Cons.prems(1), of "api_ListChildren A (s_shareID s) i" "dr_children D i"]
      coherent_session(1) [OF Cons.prems(1)] coherent_serves [OF Cons.prems(1)]
    by (auto simp: answers_Some serves_drive_def)
  obtain now s2 where s2: "on_world (time_Now A) s1 = (now, s2)"
    by fastforce
  let ?s = "s2\<lparr>s_meta := SetList now (abs_path ns) (dr_children D i, kr) (s_meta s2)\<rparr>"
  have ns: "names_ok ns" "names_ok (ns @ [part])"
    using Cons.prems(2) by (simp_all add: names_ok_def)
  have s: "coherent A D ?s" "s_nodeKRs ?s j = None"
    using Cons.prems(3,5) ns(1) on_world_KRs [OF s1(1)] on_world_KRs [OF s2]
    by (auto intro!: coherent_list on_world_coherent [OF s2 s1(2)] simp: names_ok_def)
  show ?case
  proof (cases "named_child A kr (dr_addrKR D) part (dr_children D i)")
    case None
    then show ?thesis
      using s1(1) s2 s coherent_session [OF s(1)] by (simp add: Let_def)
  next
    case (Some c)
    show ?thesis
    proof (cases "GetKeyRing A c kr (dr_addrKR D)")
      case (Inl e)
      then show ?thesis
        using s1(1) s2 s Some coherent_session [OF s(1)] by (simp add: Let_def)
    next
      case (Inr ckr)
      have at: "walk A D (ns @ [part]) = Some (lk_LinkID c, ckr)"
        using Cons.prems(3) Some Inr by (simp add: walk_append)
      then have "lk_LinkID c \<noteq> j"
        using Cons.prems(4) by (auto simp: avoids_def)
      then show ?thesis
        using Cons.IH [OF coherent_step [OF s(1) ns(2) at] _ at] Cons.prems(2,4) s1(1) s2 s(2) Some Inr
          coherent_session [OF s(1)] child_abs_path [OF ns(1), of part]
        by (simp add: Let_def)
    qed
  qed
qed simp

lemma avoids_root: "avoids A D j ns \<Longrightarrow> j \<noteq> dr_rootID D"
  unfolding avoids_def by (metis Nil_prefix walk_from.simps(1))

lemma resolvePath_lacks:
  assumes "coherent A D s" "avoids A D j (clean_names p)" "s_nodeKRs s j = None"
  shows "s_nodeKRs (snd (resolvePath A p s)) j = None"
proof (cases "Option.bind (s_pathLinks s (abs_path (clean_names p))) (\<lambda>i. map_option (Pair i) (s_nodeKRs s i))")
  case None
  have ok: "names_ok (clean_names p)"
    using clean_names_ok by (auto simp: names_ok_def)
  let ?s = "s\<lparr>s_linkPaths := (s_linkPaths s)(s_rootID s \<mapsto> [slash])\<rparr>"
  from rootNodeKeyRing_answers [OF coherent_linkPaths [OF assms(1)]] obtain s1 where
    s1: "rootNodeKeyRing A ?s = (Inr (dr_rootKR D), s1)" "coherent A D s1"
    unfolding answers_Some by blast
  have "s_nodeKRs s1 j = None"
    using rootNodeKeyRing_lacks [OF coherent_linkPaths [OF assms(1)], where j = j and f1 = "(s_linkPaths s)(s_rootID s \<mapsto> [slash])"]
      assms(3) avoids_root [OF assms(2)] s1(1) by simp
  moreover have "coherent A D (s1\<lparr>s_pathLinks := (s_pathLinks s1)(abs_path [] \<mapsto> dr_rootID D)\<rparr>)"
    by (rule coherent_pathLink [OF s1(2)]) simp
  ultimately have "s_nodeKRs (snd (resolve_parts A (abs_path (clean_names p)) (clean_names p) (dr_rootID D) (dr_rootKR D) (abs_path [])
      (s1\<lparr>s_pathLinks := (s_pathLinks s1)(abs_path [] \<mapsto> dr_rootID D)\<rparr>))) j = None"
    using ok assms(2) by (intro resolve_parts_lacks) simp_all
  moreover have "splitPath (abs_path (clean_names p)) = clean_names p"
    using ok by (simp add: splitPath_clean names_ok_def)
  ultimately show ?thesis
    using None s1 ok coherent_session [OF s1(2)]
    by (simp add: resolvePath_def path_Clean_slash Let_def) (simp add: abs_path_def)
next
  case (Some v)
  then show ?thesis
    using assms(3) by (cases v) (simp add: resolvePath_def path_Clean_slash)
qed

lemma stale_or_KRs [simp]: "s_nodeKRs (snd (stale_or err v s)) = s_nodeKRs s"
  by (simp add: stale_or_def split: option.split)

lemma ListChildren_lacks:
  assumes "coherent A D s" "avoids A D j (clean_names p)" "s_nodeKRs s j = None"
  shows "s_nodeKRs (snd (ListChildren A p s)) j = None"
proof -
  obtain now s1 where s1: "on_world (time_Now A) s = (now, s1)" "coherent A D s1" "s_nodeKRs s1 j = None"
    using on_world_coherent [OF _ assms(1)] on_world_KRs assms(3) by (metis surj_pair)
  obtain r s2 where s2: "resolvePath A p s1 = (r, s2)"
    by fastforce
  have k2: "s_nodeKRs s2 j = None"
    using resolvePath_lacks [OF s1(2) assms(2) s1(3)] s2 by simp
  show ?thesis
  proof (cases "GetList now p (s_meta s1)")
    case None
    show ?thesis
    proof (cases r)
      case (Inl e)
      then show ?thesis
        using None s1(1) s2 k2 by (simp add: ListChildren_def)
    next
      case (Inr at)
      obtain r3 s3 where s3: "on_world (api_ListChildren A (s_shareID s2) (fst at)) s2 = (r3, s3)"
        by fastforce
      obtain now' s4 where s4: "on_world (time_Now A) s3 = (now', s4)"
        by fastforce
      show ?thesis
        using None s1(1) s2 Inr s3 s4 k2 on_world_KRs [OF s3] on_world_KRs [OF s4]
        by (cases at; cases r3) (simp_all add: ListChildren_def)
    qed
  qed (use s1 in \<open>auto simp: ListChildren_def\<close>)
qed

lemma Stat_lacks:
  assumes "coherent A D s" "names_ok ns" "ns \<noteq> []" "avoids A D j (butlast ns)" "s_nodeKRs s j = None"
  shows "s_nodeKRs (snd (Stat A (abs_path ns) s)) j = None"
proof -
  note parts = abs_path_parts [OF assms(2,3)]
  have root: "abs_path ns \<noteq> [slash]"
    using assms(2,3) by (simp add: names_ok_def abs_path_root)
  obtain now s1 where s1: "on_world (time_Now A) s = (now, s1)" "coherent A D s1" "s_nodeKRs s1 j = None"
    using on_world_coherent [OF _ assms(1)] on_world_KRs assms(5) by (metis surj_pair)
  have avoid: "avoids A D j (clean_names (abs_path (butlast ns)))"
    using assms(4) by (simp only: parts)
  have uncached: "s_nodeKRs (snd (statUncached A (abs_path ns) s1)) j = None"
  proof -
    obtain r2 s2 where s2: "resolvePath A (abs_path (butlast ns)) s1 = (r2, s2)"
      by fastforce
    have c2: "coherent A D s2" "s_nodeKRs s2 j = None"
      using resolvePath_answers [OF s1(2), of "abs_path (butlast ns)"] resolvePath_lacks [OF s1(2) avoid s1(3)] s2
      by (simp_all add: answers_def)
    obtain r3 s3 where s3: "ListChildren A (abs_path (butlast ns)) s2 = (r3, s3)"
      by fastforce
    have "s_nodeKRs s3 j = None"
      using ListChildren_lacks [OF c2(1) avoid c2(2)] s3 by simp
    then show ?thesis
      using root s2 c2(2) s3 by (cases r2; cases r3) (auto simp: statUncached_def parentKRFor_def parts split: option.split)
  qed
  obtain r2 s2 where s2: "statUncached A (abs_path ns) s1 = (r2, s2)"
    by fastforce
  obtain now' s3 where s3: "on_world (time_Now A) s2 = (now', s3)"
    by fastforce
  show ?thesis
    using s1 s2 s3 uncached on_world_KRs [OF s3]
    by (cases "GetStat now (abs_path ns) (s_meta s1)"; cases r2) (auto simp: Stat_def parts)
qed

section \<open>Properties\<close>

text \<open>
  C33. A created folder can be opened: if the request is made, then whoever has the parent's keyring
  reads the folder's name from it, and a passphrase that unlocks the folder's key; the keyring of
  that key reads the folder's hash key; and the hash by which the server finds name clashes is the
  keyed hash of the name under the parent's hash key.
\<close>

theorem created_folder_opens:
  assumes "crypto_ok C" "folder_request C parentLink parentKR name s = (Inr req, s')"
  shows "open_message C parentKR (cf_Name req) = Inr (go_string_bytes name) \<and>
    (\<exists>pass key nodeKR hashKey. open_message C parentKR (cf_NodePassphrase req) = Inr pass \<and>
       open_key C (cf_NodeKey req) pass = Inr key \<and> NewKeyRing C key = Inr nodeKR \<and>
       open_message C nodeKR (cf_NodeHashKey req) = Inr hashKey) \<and>
    (\<exists>hashKey. GetHashKey C parentLink parentKR = Inr hashKey \<and>
       cf_Hash req = hex_EncodeToString C (hmac_sha256 C hashKey (go_string_bytes name))) \<and>
    cf_ParentLinkID req = lk_LinkID parentLink"
proof -
  have enc: "open_message C kr a = Inr plain"
    if "on_world (Encrypt C kr plain signer) t = (Inr msg, t')" "GetArmored C msg = Inr a" for kr plain signer t t' msg a
    using assms(1) that unfolding crypto_ok_def on_world_Inr by blast
  have lock: "open_key C a pass = Inr key"
    if "on_world (Lock C key pass) t = (Inr locked, t')" "Armor C locked = Inr a" for key pass t t' locked a
    using assms(1) that unfolding crypto_ok_def on_world_Inr by blast
  from assms(2) show ?thesis
    unfolding folder_request_def Let_def
  proof (elim make_dir_stepE, goal_cases)
    case (1 hk s1 nodeKey s2 rawPass s3 locked s4 ank s5 encPass s6 ap s7 sig s8 asig s9 nodeKR s10 rawHash s11 encHash s12
        ah s13 encName s14 an s15)
    then have req: "cf_Name req = an" "cf_NodePassphrase req = ap" "cf_NodeKey req = ank" "cf_NodeHashKey req = ah"
      "cf_Hash req = hex_EncodeToString C (hmac_sha256 C hk (go_string_bytes name))" "cf_ParentLinkID req = lk_LinkID parentLink"
      by auto
    have pure: "GetHashKey C parentLink parentKR = Inr hk" "Armor C locked = Inr ank" "GetArmored C encPass = Inr ap"
      "NewKeyRing C nodeKey = Inr nodeKR" "GetArmored C encHash = Inr ah" "GetArmored C encName = Inr an"
      using 1 by auto
    have "open_message C parentKR an = Inr (go_string_bytes name)"
      using enc [OF 1(14) pure(6)] .
    moreover have "open_message C parentKR ap = Inr (go_string_bytes (base64_EncodeToString C rawPass))"
      using enc [OF 1(6) pure(3)] .
    moreover have "open_key C ank (go_string_bytes (base64_EncodeToString C rawPass)) = Inr nodeKey"
      using lock [OF 1(4) pure(2)] .
    moreover have "open_message C nodeKR ah = Inr rawHash"
      using enc [OF 1(12) pure(5)] .
    ultimately show ?case
      using pure(1,4) unfolding req by blast
  qed
qed

definition sample_crypto :: "(int, unit, string, string) crypto_lib" where
  "sample_crypto =
     \<lparr>GetHashKey = (\<lambda>l kr. Inr [1]), GenerateKey = (\<lambda>n e w. (Inr ''key'', w)),
      rand_Read = (\<lambda>n w. (Inr (replicate n 5), w)), base64_EncodeToString = map (char_of \<circ> unat),
      Lock = (\<lambda>key pass w. (Inr key, w)), Armor = Inr,
      Encrypt = (\<lambda>kr plain signer w. (Inr (map (char_of \<circ> unat) plain), w)),
      SignDetached = (\<lambda>kr plain w. (Inr ''sig'', w)), GetArmored = Inr, NewKeyRing = (\<lambda>key. Inr ()),
      hmac_sha256 = (\<lambda>key msg. key @ msg), hex_EncodeToString = map (char_of \<circ> unat),
      CreateFolder = (\<lambda>sh req w. (None, w)), open_message = (\<lambda>kr a. Inr (go_string_bytes a)),
      open_key = (\<lambda>a pass. Inr a)\<rparr>"

lemma bytes_of_chars: "go_string_bytes (map (char_of \<circ> unat) bs) = bs"
  by (induction bs) (simp_all add: go_string_bytes_def byte_mod)

theorem created_folder_opens_witness:
  "\<exists>req s'. folder_request sample_crypto (sample_link ''A'' ''a'') () ''n'' sample_session = (Inr req, s') \<and>
     open_message sample_crypto () (cf_Name req) = Inr (go_string_bytes ''n'')"
proof -
  have ok: "crypto_ok sample_crypto"
    using bytes_of_chars by (auto simp: crypto_ok_def sample_crypto_def)
  obtain req s' where req: "folder_request sample_crypto (sample_link ''A'' ''a'') () ''n'' sample_session = (Inr req, s')"
    by (simp add: folder_request_def sample_crypto_def make_dir_step_def on_world_def Let_def)
  from conjunct1 [OF created_folder_opens [OF ok req]] req show ?thesis
    by blast
qed

text \<open>
  A folder cannot be created in a folder that has not been listed or passed: on a session of a drive
  (in any state that its lookups lead to), \<open>MakeDir\<close> finds the parent by \<open>Stat\<close>, which stores the keyrings
  of the folders on the way to the parent but not the parent's own; unless an earlier call has stored
  that, the call fails, without a request, although parent and drive are as they should be.
\<close>

theorem mkdir_in_unlisted_folder_fails:
  assumes "session_run A D s" "serves_drive A D" "names_ok (ns @ [n])" "ns \<noteq> []"
    and "link_at A D ns = Some (link, kr)" "s_nodeKRs s (lk_LinkID link) = None"
    and "\<forall>ms kr'. strict_prefix ms ns \<longrightarrow> walk A D ms \<noteq> Some (lk_LinkID link, kr')"
  shows "\<exists>s'. MakeDir A C (abs_path (ns @ [n])) s =
      (Some (Wrapped ''MakeDir: parent keyring: '' (Errorf (''node keyring not cached for link '' @ lk_LinkID link))), s')"
proof -
  have coherent: "coherent A D s"
    using assms(1,2) by (rule session_run_coherent)
  have ns: "names_ok ns"
    using assms(3) by (simp add: names_ok_def)
  have parent: "path_Dir (abs_path (ns @ [n])) = abs_path ns"
    using abs_path_parts(1) [OF assms(3)] by simp
  have names: "clean_names (abs_path ns) = ns"
    using ns by (simp add: names_ok_def)
  have "avoids A D (lk_LinkID link) (butlast ns)"
    unfolding avoids_def
  proof (intro allI impI)
    fix ms kr'
    assume "prefix ms (butlast ns)"
    then have "strict_prefix ms ns"
      using assms(4) by (metis append_butlast_last_id prefix_order.le_less_trans strict_prefix_simps(2) strict_prefixI'
          prefix_snoc prefix_order.less_le not_Cons_self2 same_append_eq append_Nil2 append.assoc prefix_def)
    then show "walk A D ms \<noteq> Some (lk_LinkID link, kr')"
      using assms(7) by blast
  qed
  from Stat_lacks [OF coherent ns assms(4) this assms(6)] Stat_answers [OF coherent, of "abs_path ns"] assms(5)
  obtain s1 where s1: "Stat A (abs_path ns) s = (Inr (link, kr), s1)" "s_nodeKRs s1 (lk_LinkID link) = None"
    by (auto simp: names answers_Some)
  then show ?thesis
    by (simp add: MakeDir_def parent nodeKeyRing_def make_dir_step_def)
qed

theorem mkdir_in_unlisted_folder_fails_witness:
  "\<exists>s'. MakeDir (sample_api True) sample_crypto ''/a/n'' sample_session =
     (Some (Wrapped ''MakeDir: parent keyring: '' (Errorf (''node keyring not cached for link A''))), s')"
proof -
  have at: "link_at (sample_api True) sample_drive [''a''] = Some (sample_link ''A'' ''a'', ())"
    by code_simp
  have names: "names_ok ([''a''] @ [''n''])" "abs_path ([''a''] @ [''n'']) = ''/a/n''"
    by (simp_all add: names_ok_def name_ok_def abs_path_def)
  have "\<forall>ms kr'. strict_prefix ms [''a''] \<longrightarrow> walk (sample_api True) sample_drive ms \<noteq> Some (''A'', kr')"
    by (auto simp: strict_prefix_def prefix_Cons sample_drive_def)
  then show ?thesis
    using mkdir_in_unlisted_folder_fails [OF sample_session_new sample_serves names(1) _ at, of sample_crypto] names(2)
    by (simp add: sample_session_def sample_link_def)
qed

end
