(* ===== verification/Helper_Main.thy ===== *)
theory Helper_Main
  imports Session_Start Thumbnails Make_Dir Mount
begin

text \<open>
  The helper's main program, \<open>src/helper/main.go\<close>: the request handlers over one session, with the
  poller's ticks between them. Everything outside the repository is a field of \<open>helper_lib\<close>.
\<close>

section \<open>State\<close>

text \<open>
  The session with its poller, if there is one, and the anchor of the next poll, if the poller runs.
  The world and the disk are the session's; before there is one they are kept here.
\<close>

record ('w, 'k) helper =
  h_session :: "('w, 'k) EventPoller option"
  h_anchor :: "string option"
  h_world :: 'w
  h_disk :: disk

record ('w, 'k, 'n, 'm) helper_lib =
  hl_api :: "('w, 'k) proton_api"
  hl_mgr :: "('w, 'k) proton_mgr"
  hl_crypto :: "('w, 'k, 'n, 'm) crypto_lib"
  hl_http :: "'w http_lib"
  hl_json :: go_json
  hl_range :: "'k go_range"
  hl_sort :: "cacheFile list \<Rightarrow> cacheFile list"
  base64_DecodeString :: "string \<Rightarrow> byte list option"
  unmarshal_error :: "json option \<Rightarrow> string"

definition world_of :: "('w, 'k) helper \<Rightarrow> 'w \<times> disk" where
  "world_of h = (case h_session h of None \<Rightarrow> (h_world h, h_disk h) | Some p \<Rightarrow> (s_world (ep_s p), s_disk (ep_s p)))"

definition set_world :: "'w \<Rightarrow> ('w, 'k) helper \<Rightarrow> ('w, 'k) helper" where
  "set_world w h =
     (case h_session h of
        None \<Rightarrow> h\<lparr>h_world := w\<rparr>
      | Some p \<Rightarrow> h\<lparr>h_session := Some (p\<lparr>ep_s := (ep_s p)\<lparr>s_world := w\<rparr>\<rparr>)\<rparr>)"

section \<open>Errors and parameters\<close>

definition rpc_error_of :: "gint64 \<Rightarrow> string \<Rightarrow> go_error" where
  "rpc_error_of code msg = Rpc_err \<lparr>re_Code = code, re_Message = msg, re_Details = None\<rparr>"

definition NotFound :: "string \<Rightarrow> go_error" where
  "NotFound msg = rpc_error_of ErrNotFound msg"

definition NotAuth :: go_error where
  "NotAuth = rpc_error_of ErrNotAuthed ''not authenticated''"

definition Offline :: "string \<Rightarrow> go_error" where
  "Offline msg = rpc_error_of ErrOffline msg"

text \<open>\<open>json.Unmarshal\<close> into a struct of parameters; without parameters there is no document.\<close>

definition unmarshal_params ::
  "('w, 'k, 'n, 'm) helper_lib \<Rightarrow> ((string \<times> json) list \<Rightarrow> 'p option) \<Rightarrow> json option \<Rightarrow> go_error + 'p" where
  "unmarshal_params L f raw =
     (case (case raw of None \<Rightarrow> None | Some j \<Rightarrow> Option.bind (members (Some j)) f) of
        None \<Rightarrow> Inl (rpc_error_of ErrInvalidArg (unmarshal_error L raw))
      | Some p \<Rightarrow> Inr p)"

fun bool_field :: "json option \<Rightarrow> bool option" where
  "bool_field None = Some False"
| "bool_field (Some JNull) = Some False"
| "bool_field (Some (JBool b)) = Some b"
| "bool_field (Some _) = None"

fun bytes_field :: "(string \<Rightarrow> byte list option) \<Rightarrow> json option \<Rightarrow> byte list option option" where
  "bytes_field decode None = Some None"
| "bytes_field decode (Some JNull) = Some None"
| "bytes_field decode (Some (JString s)) = map_option Some (decode s)"
| "bytes_field decode (Some _) = None"

definition path_param :: "(string \<times> json) list \<Rightarrow> string option" where
  "path_param ms = string_field (go_field ms ''path'')"

definition read_param :: "(string \<times> json) list \<Rightarrow> (string \<times> gint64 \<times> gint64) option" where
  "read_param ms = do {
     path \<leftarrow> string_field (go_field ms ''path'');
     offset \<leftarrow> int_field (go_field ms ''offset'');
     len \<leftarrow> int_field (go_field ms ''length'');
     Some (path, offset, len)
   }"

definition thumbnail_param :: "(string \<times> json) list \<Rightarrow> (string \<times> string) option" where
  "thumbnail_param ms = do {
     linkID \<leftarrow> string_field (go_field ms ''link_id'');
     revisionID \<leftarrow> string_field (go_field ms ''revision_id'');
     Some (linkID, revisionID)
   }"

definition delete_param :: "(string \<times> json) list \<Rightarrow> (string \<times> bool) option" where
  "delete_param ms = do {
     path \<leftarrow> string_field (go_field ms ''path'');
     trash \<leftarrow> bool_field (go_field ms ''trash'');
     Some (path, trash)
   }"

definition move_param :: "(string \<times> json) list \<Rightarrow> (string \<times> string) option" where
  "move_param ms = do {
     src \<leftarrow> string_field (go_field ms ''src'');
     dst \<leftarrow> string_field (go_field ms ''dst'');
     Some (src, dst)
   }"

definition resume_param ::
  "('w, 'k, 'n, 'm) helper_lib \<Rightarrow> (string \<times> json) list \<Rightarrow> (string \<times> SessionCredentials) option" where
  "resume_param L ms = do {
     username \<leftarrow> string_field (go_field ms ''username'');
     uid \<leftarrow> string_field (go_field ms ''uid'');
     refresh \<leftarrow> string_field (go_field ms ''refresh_token'');
     salted \<leftarrow> bytes_field (base64_DecodeString L) (go_field ms ''salted_passphrase'');
     Some (username, \<lparr>sc_UID = uid, sc_RefreshToken = refresh, sc_SaltedPassphrase = salted\<rparr>)
   }"

definition auth_param :: "(string \<times> json) list \<Rightarrow> (string \<times> string) option" where
  "auth_param ms = do {
     username \<leftarrow> string_field (go_field ms ''username'');
     password \<leftarrow> string_field (go_field ms ''password'');
     Some (username, password)
   }"

definition hv_param :: "(string \<times> json) list \<Rightarrow> (string \<times> string) option" where
  "hv_param ms = do {
     tok \<leftarrow> string_field (go_field ms ''hv_token'');
     ty \<leftarrow> string_field (go_field ms ''type'');
     Some (tok, ty)
   }"

definition send_code_param :: "(string \<times> json) list \<Rightarrow> (string \<times> string \<times> string) option" where
  "send_code_param ms = do {
     username \<leftarrow> string_field (go_field ms ''username'');
     ty \<leftarrow> string_field (go_field ms ''type'');
     addr \<leftarrow> string_field (go_field ms ''address'');
     Some (username, ty, addr)
   }"

section \<open>Logging in\<close>

definition auth_result_of :: "SessionCredentials \<Rightarrow> auth_result" where
  "auth_result_of c =
     \<lparr>ar_UID = sc_UID c, ar_RefreshToken = sc_RefreshToken c, ar_SaltedPassphrase = sc_SaltedPassphrase c\<rparr>"

text \<open>\<open>session = s; session.StartPoller(ctx)\<close>, and the answer.\<close>

definition adopt_session ::
  "('w, 'k, 'n, 'm) helper_lib \<Rightarrow> ('w, 'k) Session \<Rightarrow> SessionCredentials \<Rightarrow> ('w, 'k) helper
   \<Rightarrow> (go_error + json option) \<times> ('w, 'k) helper" where
  "adopt_session L s creds h =
     (case StartPoller (hl_api L) (hl_mgr L) s of
        (anchor, p) \<Rightarrow>
          (Inr (Some (marshal_AuthResult (hl_json L) (auth_result_of creds))),
           h\<lparr>h_session := Some p, h_anchor := anchor\<rparr>))"

definition handle_Auth :: "('w, 'k, 'n, 'm) helper_lib \<Rightarrow> json option \<Rightarrow> ('w, 'k) helper
   \<Rightarrow> ((go_error + json option) \<times> ('w, 'k) helper) option" where
  "handle_Auth L raw h =
     (case unmarshal_params L auth_param raw of
        Inl err \<Rightarrow> Some (Inl err, h)
      | Inr (username, password) \<Rightarrow>
          (case world_of h of (w, d) \<Rightarrow>
             (case NewSession (hl_mgr L) username password d w of
                None \<Rightarrow> stuck
              | Some (Inl (HVRequiredError tok methods), w) \<Rightarrow>
                  Some (Inl (Rpc_err \<lparr>re_Code = ErrHVRequired, re_Message = ''human verification required'',
                          re_Details = Some (JObject [(''token'', JString tok), (''methods'', marshal_strings methods)])\<rparr>),
                        set_world w h)
              | Some (Inl (Login_error err), w) \<Rightarrow> Some (Inl (rpc_error_of ErrAuthFailed (Error err)), set_world w h)
              | Some (Inr (s, creds), w) \<Rightarrow> Some (adopt_session L s creds h))))"

definition handle_GetCaptcha :: "('w, 'k, 'n, 'm) helper_lib \<Rightarrow> ('w, 'k) helper handler" where
  "handle_GetCaptcha L raw h =
     (case unmarshal_params L (\<lambda>ms. string_field (go_field ms ''hv_token'')) raw of
        Inl err \<Rightarrow> (Inl err, h)
      | Inr tok \<Rightarrow>
          (case mgr_GetCaptcha (hl_mgr L) tok (fst (world_of h)) of
             (Inl err, w) \<Rightarrow> (Inl (rpc_error_of ErrInternal (Error err)), set_world w h)
           | (Inr html, w) \<Rightarrow> (Inr (Some (JObject [(''html'', JString html)])), set_world w h)))"

definition handle_AuthWithHV :: "('w, 'k, 'n, 'm) helper_lib \<Rightarrow> json option \<Rightarrow> ('w, 'k) helper
   \<Rightarrow> ((go_error + json option) \<times> ('w, 'k) helper) option" where
  "handle_AuthWithHV L raw h =
     (case unmarshal_params L (\<lambda>ms. Option.bind (auth_param ms) (\<lambda>a. map_option (Pair a) (hv_param ms))) raw of
        Inl err \<Rightarrow> Some (Inl err, h)
      | Inr ((username, password), (tok, ty)) \<Rightarrow>
          (let hvType = (if ty = [] then ''captcha'' else ty) in
           case world_of h of (w, d) \<Rightarrow>
             (case NewSessionWithHV (hl_mgr L) username password tok hvType d w of
                None \<Rightarrow> stuck
              | Some (Inl err, w) \<Rightarrow> Some (Inl (rpc_error_of ErrAuthFailed (Error err)), set_world w h)
              | Some (Inr (s, creds), w) \<Rightarrow> Some (adopt_session L s creds h))))"

definition handle_SendCode :: "('w, 'k, 'n, 'm) helper_lib \<Rightarrow> ('w, 'k) helper handler" where
  "handle_SendCode L raw h =
     (case unmarshal_params L send_code_param raw of
        Inl err \<Rightarrow> (Inl err, h)
      | Inr (username, ty, addr) \<Rightarrow>
          (case SendVerificationCode (hl_mgr L) username ty addr (fst (world_of h)) of
             (Some err, w) \<Rightarrow> (Inl (rpc_error_of ErrInternal (Error err)), set_world w h)
           | (None, w) \<Rightarrow> (Inr (Some (JObject [(''ok'', JBool True)])), set_world w h)))"

definition handle_ResumeSession :: "('w, 'k, 'n, 'm) helper_lib \<Rightarrow> ('w, 'k) helper handler" where
  "handle_ResumeSession L raw h =
     (case unmarshal_params L (resume_param L) raw of
        Inl err \<Rightarrow> (Inl err, h)
      | Inr (username, creds) \<Rightarrow>
          (let resumeAccount = (if username = [] then sc_UID creds else username) in
           case world_of h of (w, d) \<Rightarrow>
             (case ResumeSession (hl_mgr L) creds resumeAccount d w of
                (Inl err, w) \<Rightarrow> (Inl (rpc_error_of ErrAuthFailed (Error err)), set_world w h)
              | (Inr (s, creds), w) \<Rightarrow> adopt_session L s creds h)))"

section \<open>Files\<close>

definition linkToEntry :: "link \<Rightarrow> string \<Rightarrow> entry" where
  "linkToEntry l name =
     (let mtime = (if lk_CreateTime l \<noteq> 0 then lk_CreateTime l else lk_ModifyTime l);
          (revID, mtime, hasThumb) =
            (case lk_ActiveRevision l of
               None \<Rightarrow> ([], mtime, False)
             | Some revision \<Rightarrow>
                 (rm_ID revision, if rm_CreateTime revision \<noteq> 0 then rm_CreateTime revision else mtime,
                  rm_Thumbnail revision))
      in \<lparr>en_Name = name, en_IsDir = (lk_Type l = LinkTypeFolder), en_Size = lk_Size l, en_MTime = mtime,
          en_LinkID = lk_LinkID l, en_RevisionID = revID, en_HasThumbnail = hasThumb\<rparr>)"

definition requireSession :: "('w, 'k) helper \<Rightarrow> go_error + ('w, 'k) EventPoller" where
  "requireSession h = (case h_session h of None \<Rightarrow> Inl NotAuth | Some p \<Rightarrow> Inr p)"

text \<open>The common start of the handlers below: the session, then the parameters.\<close>

definition with_session ::
  "('w, 'k, 'n, 'm) helper_lib \<Rightarrow> ((string \<times> json) list \<Rightarrow> 'p option) \<Rightarrow>
   ('p \<Rightarrow> ('w, 'k) Session \<Rightarrow> (go_error + json option) \<times> ('w, 'k) Session) \<Rightarrow> ('w, 'k) helper handler" where
  "with_session L decode body raw h =
     (case requireSession h of
        Inl err \<Rightarrow> (Inl err, h)
      | Inr p \<Rightarrow>
          (case unmarshal_params L decode raw of
             Inl err \<Rightarrow> (Inl err, h)
           | Inr params \<Rightarrow>
               (case body params (ep_s p) of (r, s) \<Rightarrow> (r, h\<lparr>h_session := Some (p\<lparr>ep_s := s\<rparr>)\<rparr>))))"

definition event_type_text :: "event_type \<Rightarrow> string" where
  "event_type_text ty =
     (case ty of EventChanged \<Rightarrow> ''changed'' | EventDeleted \<Rightarrow> ''deleted'' | EventCreated \<Rightarrow> ''created'')"

definition event_of :: "DriveEvent \<Rightarrow> event" where
  "event_of e = \<lparr>evt_Type = event_type_text (de_Type e), evt_LinkID = de_LinkID e, evt_Path = de_Path e\<rparr>"

definition handle_GetEvents :: "('w, 'k) helper handler" where
  "handle_GetEvents raw h =
     (case requireSession h of
        Inl err \<Rightarrow> (Inl err, h)
      | Inr p \<Rightarrow>
          (case Drain p of (drained, p) \<Rightarrow>
             (Inr (Some (marshal_GetEventsResult (map event_of drained))), h\<lparr>h_session := Some p\<rparr>)))"

fun list_entries :: "('w, 'k) proton_api \<Rightarrow> 'k \<Rightarrow> 'k \<Rightarrow> link list \<Rightarrow> entry list" where
  "list_entries A parentKR addrKR [] = []"
| "list_entries A parentKR addrKR (l # links) =
     (if lk_State l \<noteq> LinkStateActive then list_entries A parentKR addrKR links
      else (case GetName A l parentKR addrKR of
              Inl err \<Rightarrow> list_entries A parentKR addrKR links
            | Inr name \<Rightarrow> linkToEntry l name # list_entries A parentKR addrKR links))"

definition list_body ::
  "('w, 'k, 'n, 'm) helper_lib \<Rightarrow> string \<Rightarrow> ('w, 'k) Session \<Rightarrow> (go_error + json option) \<times> ('w, 'k) Session" where
  "list_body L path s =
     (case ListChildren (hl_api L) path s of
        (Inl err, s) \<Rightarrow> (Inl (Plain_err (Error err)), s)
      | (Inr (links, parentKR), s) \<Rightarrow>
          (Inr (Some (marshal_ListDirResult (list_entries (hl_api L) parentKR (s_addrKR s) links))), s))"

definition handle_ListDir :: "('w, 'k, 'n, 'm) helper_lib \<Rightarrow> ('w, 'k) helper handler" where
  "handle_ListDir L = with_session L path_param (list_body L)"

text \<open>A name that cannot be decrypted is the empty text.\<close>

definition stat_body ::
  "('w, 'k, 'n, 'm) helper_lib \<Rightarrow> string \<Rightarrow> ('w, 'k) Session \<Rightarrow> (go_error + json option) \<times> ('w, 'k) Session" where
  "stat_body L path s =
     (case Stat (hl_api L) path s of
        (Inl err, s) \<Rightarrow> (Inl (NotFound (Error err)), s)
      | (Inr (link, parentKR), s) \<Rightarrow>
          (let name = (case GetName (hl_api L) link parentKR (s_addrKR s) of Inl err \<Rightarrow> [] | Inr name \<Rightarrow> name) in
           (Inr (Some (marshal_Entry (linkToEntry link name))), s)))"

definition handle_Stat :: "('w, 'k, 'n, 'm) helper_lib \<Rightarrow> ('w, 'k) helper handler" where
  "handle_Stat L = with_session L path_param (stat_body L)"

text \<open>A file without a revision ends the helper.\<close>

definition read_body ::
  "('w, 'k, 'n, 'm) helper_lib \<Rightarrow> string \<times> gint64 \<times> gint64 \<Rightarrow> ('w, 'k) Session
   \<Rightarrow> ((go_error + json option) \<times> ('w, 'k) Session) option" where
  "read_body L = (\<lambda>(path, offset, len) s.
     (case Stat (hl_api L) path s of
        (Inl err, s) \<Rightarrow> Some (Inl (NotFound (Error err)), s)
      | (Inr (link, parentKR), s) \<Rightarrow>
          if lk_Type link \<noteq> LinkTypeFile then Some (Inl (rpc_error_of ErrInvalidArg ''not a file''), s)
          else (case ReadFileContent (hl_api L) (hl_sort L) link parentKR (sint offset) (sint len) s of
                  None \<Rightarrow> stuck
                | Some (Inl err, s) \<Rightarrow>
                    Some (Inl (if is_ErrOffline err then Offline ''network unreachable and file not in cache''
                               else Plain_err (Error err)), s)
                | Some (Inr data, s) \<Rightarrow>
                    Some (Inr (Some (marshal_ReadResult (hl_json L)
                            \<lparr>rr_Data = data,
                             rr_EOF = (len = 0 \<or> int (length (go_bytes data)) < sint len)\<rparr>)), s))))"

definition handle_ReadFile ::
  "('w, 'k, 'n, 'm) helper_lib \<Rightarrow> json option \<Rightarrow> ('w, 'k) helper \<Rightarrow> ((go_error + json option) \<times> ('w, 'k) helper) option" where
  "handle_ReadFile L raw h =
     (case requireSession h of
        Inl err \<Rightarrow> Some (Inl err, h)
      | Inr p \<Rightarrow>
          (case unmarshal_params L read_param raw of
             Inl err \<Rightarrow> Some (Inl err, h)
           | Inr params \<Rightarrow>
               map_option (\<lambda>(r, s). (r, h\<lparr>h_session := Some (p\<lparr>ep_s := s\<rparr>)\<rparr>)) (read_body L params (ep_s p))))"

definition cacheBaseFor :: "('w, 'k) proton_mgr \<Rightarrow> ('w, 'k) Session \<Rightarrow> string" where
  "cacheBaseFor M s =
     (if s_cacheBase s \<noteq> [] then s_cacheBase s
      else (case blockCacheBase M (s_account s) of Inl err \<Rightarrow> [] | Inr base \<Rightarrow> base))"

definition handle_FetchThumbnail :: "('w, 'k, 'n, 'm) helper_lib \<Rightarrow> ('w, 'k) helper handler" where
  "handle_FetchThumbnail L = with_session L thumbnail_param (\<lambda>(linkID, revisionID) s.
     (case FetchThumbnail (hl_http L) (hl_api L) (cacheBaseFor (hl_mgr L) s) linkID revisionID s of
        (Inl err, s) \<Rightarrow> (Inr (Some (marshal_FetchThumbnailResult [])), s)
      | (Inr thumbPath, s) \<Rightarrow> (Inr (Some (marshal_FetchThumbnailResult thumbPath)), s)))"

definition handle_Mkdir :: "('w, 'k, 'n, 'm) helper_lib \<Rightarrow> ('w, 'k) helper handler" where
  "handle_Mkdir L = with_session L path_param (\<lambda>path s.
     (case MakeDir (hl_api L) (hl_crypto L) path s of
        (Some err, s) \<Rightarrow>
          (Inl (if is_ErrAlreadyExists err then rpc_error_of ErrAlreadyExists (Error err) else Plain_err (Error err)), s)
      | (None, s) \<Rightarrow> (Inr None, s)))"

definition plain_outcome :: "drive_error option \<times> 's \<Rightarrow> (go_error + json option) \<times> 's" where
  "plain_outcome m = (case m of (Some err, s) \<Rightarrow> (Inl (Plain_err (Error err)), s) | (None, s) \<Rightarrow> (Inr None, s))"

definition handle_Delete :: "('w, 'k, 'n, 'm) helper_lib \<Rightarrow> ('w, 'k) helper handler" where
  "handle_Delete L = with_session L delete_param (\<lambda>(path, trash) s. plain_outcome (Delete (hl_api L) path trash s))"

definition handle_Move :: "('w, 'k, 'n, 'm) helper_lib \<Rightarrow> ('w, 'k) helper handler" where
  "handle_Move L = with_session L move_param (\<lambda>(src, dst) s. plain_outcome (Move src dst s))"

section \<open>The server\<close>

text \<open>
  A request that ends the helper has no answer; what the model makes of it is the argument \<open>crash\<close>,
  about which nothing is assumed.
\<close>

definition or_crash ::
  "(('w, 'k) helper \<Rightarrow> (go_error + json option) \<times> ('w, 'k) helper)
   \<Rightarrow> (json option \<Rightarrow> ('w, 'k) helper \<Rightarrow> ((go_error + json option) \<times> ('w, 'k) helper) option) \<Rightarrow> ('w, 'k) helper handler" where
  "or_crash crash f raw h = (case f raw h of None \<Rightarrow> crash h | Some r \<Rightarrow> r)"

definition helper_handlers ::
  "('w, 'k, 'n, 'm) helper_lib \<Rightarrow> (('w, 'k) helper \<Rightarrow> (go_error + json option) \<times> ('w, 'k) helper)
   \<Rightarrow> ('w, 'k) helper handlers" where
  "helper_handlers L crash =
     fold (\<lambda>(m, h) s. Register s m h)
       [(''Auth'', or_crash crash (handle_Auth L)), (''GetCaptcha'', handle_GetCaptcha L),
        (''AuthWithHV'', or_crash crash (handle_AuthWithHV L)), (''SendCode'', handle_SendCode L),
        (''ResumeSession'', handle_ResumeSession L), (''GetEvents'', handle_GetEvents),
        (''ListDir'', handle_ListDir L), (''Stat'', handle_Stat L),
        (''ReadFile'', or_crash crash (handle_ReadFile L)), (''FetchThumbnail'', handle_FetchThumbnail L),
        (''Mkdir'', handle_Mkdir L), (''Delete'', handle_Delete L), (''Move'', handle_Move L)]
       NewServer"

text \<open>The poller's ticker: a poll from the current anchor; \<open>None\<close> if it ends the helper.\<close>

definition helper_tick :: "('w, 'k, 'n, 'm) helper_lib \<Rightarrow> ('w, 'k) helper \<Rightarrow> ('w, 'k) helper option" where
  "helper_tick L h =
     (case (h_session h, h_anchor h) of
        (Some p, Some eventID) \<Rightarrow>
          map_option (\<lambda>(eventID, p). h\<lparr>h_session := Some p, h_anchor := Some eventID\<rparr>)
            (poll (hl_api L) (hl_range L) eventID p)
      | _ \<Rightarrow> Some h)"

section \<open>Lemmas\<close>

lemma helper_handlers_lookup:
  "helper_handlers L crash ''ResumeSession'' = Some (handle_ResumeSession L)"
  "helper_handlers L crash ''GetEvents'' = Some handle_GetEvents"
  "helper_handlers L crash ''ListDir'' = Some (handle_ListDir L)"
  "helper_handlers L crash ''Stat'' = Some (handle_Stat L)"
  "helper_handlers L crash ''ReadFile'' = Some (or_crash crash (handle_ReadFile L))"
  "helper_handlers L crash ''FetchThumbnail'' = Some (handle_FetchThumbnail L)"
  "helper_handlers L crash ''Mkdir'' = Some (handle_Mkdir L)"
  "helper_handlers L crash ''Delete'' = Some (handle_Delete L)"
  "helper_handlers L crash ''Move'' = Some (handle_Move L)"
  by (simp_all add: helper_handlers_def Register_def NewServer_def)

lemma unmarshal_path [simp]:
  "unmarshal_params L path_param (Some (JObject [(''path'', JString path)])) = Inr path"
  by (simp add: unmarshal_params_def path_param_def field_defs)

lemma unmarshal_read [simp]: "unmarshal_params L read_param (read_params path offset len) = Inr (path, offset, len)"
  by (simp add: unmarshal_params_def read_param_def read_params_def field_defs)

lemma unmarshal_resume:
  "base64_DecodeString L (g_base64_encode J sp) = Some sp \<Longrightarrow>
     unmarshal_params L (resume_param L) (resume_params J uid token sp) =
       Inr ([], \<lparr>sc_UID = uid, sc_RefreshToken = token, sc_SaltedPassphrase = Some sp\<rparr>)"
  by (simp add: unmarshal_params_def resume_param_def resume_params_def field_defs)

text \<open>A handler that needs the session, with and without one.\<close>

lemma with_session_none: "h_session h = None \<Longrightarrow> with_session L f body raw h = (Inl NotAuth, h)"
  by (simp add: with_session_def requireSession_def)

lemma with_session_some:
  "h_session h = Some p \<Longrightarrow> unmarshal_params L f raw = Inr params \<Longrightarrow> body params (ep_s p) = (r, s) \<Longrightarrow>
     with_session L f body raw h = (r, h\<lparr>h_session := Some (p\<lparr>ep_s := s\<rparr>)\<rparr>)"
  by (simp add: with_session_def requireSession_def)

end
