(* ===== verification/End_To_End.thy ===== *)
theory End_To_End
  imports Helper_Main
begin

text \<open>
  The two programs together: the C client and the jobs of the backend on one side of the link, the
  helper's handlers, session and caches on the other. What the properties of the backend assumed of
  a helper is proved here of the one in \<open>src/helper\<close>.
\<close>

section \<open>A file on the drive\<close>

text \<open>
  The path leads to a file of the drive; the API delivers its content, and the block cache holds
  pieces of files only.
\<close>

definition file_on_drive ::
  "('w, 'k, 'n, 'm) helper_lib \<Rightarrow> 'k drive \<Rightarrow> string \<Rightarrow> link \<Rightarrow> 'k \<Rightarrow> byte list \<Rightarrow> (block_key \<Rightarrow> byte list) \<Rightarrow> bool" where
  "file_on_drive L D path link kr content contents \<longleftrightarrow>
     link_at (hl_api L) D (clean_names path) = Some (link, kr) \<and> lk_Type link = LinkTypeFile \<and>
     contents_of link content contents \<and>
     (\<forall>s :: ('w, 'k) Session. session_of D s \<longrightarrow> file_served (hl_api L) s link kr content)"

definition drive_session ::
  "('w, 'k, 'n, 'm) helper_lib \<Rightarrow> 'k drive \<Rightarrow> (block_key \<Rightarrow> byte list) \<Rightarrow> ('w, 'k) helper \<Rightarrow> bool" where
  "drive_session L D contents h \<longleftrightarrow>
     (\<exists>p. h_session h = Some p \<and> coherent (hl_api L) D (ep_s p) \<and> cache_faithful (hl_sort L) contents (ep_s p))"

lemma coherent_of_env: "coherent A D s \<Longrightarrow> only_env s s' \<Longrightarrow> coherent A D s'"
proof -
  assume s: "coherent A D s" "only_env s s'"
  then have "s' = s\<lparr>s_world := s_world s', s_disk := s_disk s'\<rparr>"
    by (simp add: only_env_def)
  moreover have "coherent A D (s\<lparr>s_world := w, s_disk := d\<rparr>)" for w d
    using s(1) by (simp add: coherent_def caches_coherent_def session_of_def)
  ultimately show "coherent A D s'"
    by metis
qed

lemma coherent_session_of: "coherent A D s \<Longrightarrow> session_of D s"
  by (simp add: coherent_def caches_coherent_def)

text \<open>Half a page of the API is at most 499 blocks, from wherever the range starts.\<close>

definition read_limit :: nat where
  "read_limit = 499 * block_len"

lemma read_limit_page: "read_limit < page_limit off"
  using mod_less_divisor [OF block_len_pos, of off] unfolding read_limit_def page_limit_def by linarith

lemma range_of_page:
  assumes "len \<le> read_limit"
  shows "take len (go_bytes (range_of content off (int len) (page_limit off))) = take len (drop off content)"
    and "length (go_bytes (range_of content off (int len) (page_limit off))) \<le> length content"
proof -
  have "len \<le> page_limit off"
    using assms read_limit_page [of off] by simp
  then show "take len (go_bytes (range_of content off (int len) (page_limit off))) = take len (drop off content)"
    by (auto simp: range_of_def go_bytes_def Let_def min_def dest: arg_cong [where f = "take len"])
  show "length (go_bytes (range_of content off (int len) (page_limit off))) \<le> length content"
    by (auto simp: range_of_def go_bytes_def Let_def)
qed

lemma handle_ReadFile_serves:
  assumes "file_on_drive L D path link kr content contents" "length content < 2 ^ 63"
  shows "serves_content (hl_json L) (helper_handlers L crash) (drive_session L D contents) read_limit path content"
  unfolding serves_content_def
proof (intro allI impI)
  fix off len :: nat and h
  assume h: "drive_session L D contents h" and "off \<le> length content" "len \<le> read_limit"
  then have small: "off < 2 ^ 63" "len < 2 ^ 63"
    using assms(2) by (auto simp: read_limit_def block_len_def)
  then have s: "sint (of_nat off :: gint64) = int off" "sint (of_nat len :: gint64) = int len"
    by (simp_all only: sint_of_nat_small)
  obtain p where p: "h_session h = Some p" "coherent (hl_api L) D (ep_s p)" "cache_faithful (hl_sort L) contents (ep_s p)"
    using h by (auto simp: drive_session_def)
  obtain s1 where s1: "Stat (hl_api L) path (ep_s p) = (Inr (link, kr), s1)" "coherent (hl_api L) D s1"
    using Stat_answers [OF p(2), of path] assms(1) by (auto simp: file_on_drive_def answers_Some)
  have c1: "cache_faithful (hl_sort L) contents s1"
    using p(3) Stat_disk [of "hl_api L" path "ep_s p"] s1(1) by (simp add: cache_faithful_def)
  have "contents_of link content contents" "file_served (hl_api L) s1 link kr content"
    using assms(1) coherent_session_of [OF s1(2)] by (simp_all add: file_on_drive_def)
  from ReadFileContent_online [OF c1 this, of off "int len"] obtain s2 where
    s2: "ReadFileContent (hl_api L) (hl_sort L) link kr (int off) (int len) s1 =
      Some (Inr (range_of content off (int len) (page_limit off)), s2)"
    "cache_faithful (hl_sort L) contents s2" "only_env s1 s2"
    by blast
  let ?data = "range_of content off (int len) (page_limit off)"
  let ?r = "\<lparr>rr_Data = ?data, rr_EOF = ((of_nat len :: gint64) = 0 \<or> int (length (go_bytes ?data)) < int len)\<rparr>"
  let ?h = "h\<lparr>h_session := Some (p\<lparr>ep_s := s2\<rparr>)\<rparr>"
  have "handle_ReadFile L (read_params path (of_nat off) (of_nat len)) h =
      Some (Inr (Some (marshal_ReadResult (hl_json L) ?r)), ?h)"
    using p(1) s1(1) s2(1) assms(1)
    by (simp add: handle_ReadFile_def requireSession_def read_body_def s file_on_drive_def)
  then have "served (helper_handlers L crash) ''ReadFile'' (read_params path (of_nat off) (of_nat len)) h
      (Inr (Some (marshal_ReadResult (hl_json L) ?r))) ?h"
    by (simp add: served_def helper_handlers_lookup or_crash_def)
  moreover have "drive_session L D contents ?h"
    using s2(2) coherent_of_env [OF s1(2) s2(3)] by (simp add: drive_session_def)
  moreover have "length (go_bytes ?data) < 2 ^ 63"
    using range_of_page(2) [OF \<open>len \<le> read_limit\<close>, of content off] assms(2) by simp
  ultimately show "\<exists>r st'. served (helper_handlers L crash) ''ReadFile'' (read_params path (of_nat off) (of_nat len)) h
        (Inr (Some (marshal_ReadResult (hl_json L) r))) st' \<and> drive_session L D contents st' \<and>
      take len (go_bytes (rr_Data r)) = take len (drop off content) \<and> length (go_bytes (rr_Data r)) < 2 ^ 63"
    using range_of_page(1) [OF \<open>len \<le> read_limit\<close>, of content off]
    by (intro exI [of _ ?r] exI [of _ ?h]) (simp only: read_result.select_convs simp_thms)
qed

text \<open>A connected backend, as for \<open>read_ready\<close>, without what is assumed of the helper.\<close>

definition backend_connected ::
  "json_lib \<Rightarrow> go_json \<Rightarrow> 'h handlers \<Rightarrow> string \<Rightarrow> cancellable \<Rightarrow> nat \<Rightarrow> backend \<Rightarrow> 'h net \<Rightarrow> bool" where
  "backend_connected J G s path k n self w \<longleftrightarrow>
     json_access_ok J \<and> json_text_ok J \<and> wire_ok J G s \<and> base64_wire_ok J G \<and> null_decodes_empty J \<and>
     \<not> is_cancelled k w \<and>
     (\<forall>i off len. 0 \<le> sint i \<longrightarrow> sendable J i ''ReadFile'' (read_params path off len)) \<and>
     (\<exists>rpc c. be_rpc self = Some rpc \<and> connected rpc c w \<and> unat (rpc_next_id rpc) + n < 2 ^ 63)"

text \<open>What an enumeration shows of the listed links.\<close>

lemma listed_infos:
  "map (\<lambda>info. (fi_name info, fi_file_type info, fi_id_file info))
     (map (\<lambda>e. fill_file_info X g_file_info_new (entry_received e)) (list_entries A kr addr links)) =
   concat (map (\<lambda>l. if lk_State l \<noteq> LinkStateActive then []
                    else (case GetName A l kr addr of
                            Inl err \<Rightarrow> []
                          | Inr name \<Rightarrow>
                              [(Some name, Some (if lk_Type l = LinkTypeFolder then G_FILE_TYPE_DIRECTORY
                                                 else G_FILE_TYPE_REGULAR), Some (lk_LinkID l))])) links)"
proof -
  have "(fi_name (fill_file_info X g_file_info_new (entry_received e)),
      fi_file_type (fill_file_info X g_file_info_new (entry_received e)),
      fi_id_file (fill_file_info X g_file_info_new (entry_received e))) =
    (Some (en_Name e), Some (if en_IsDir e then G_FILE_TYPE_DIRECTORY else G_FILE_TYPE_REGULAR), Some (en_LinkID e))" for e
    using fill_new_info(1,3,5) [OF refl, of X e] by simp
  note shown = this
  show ?thesis
    by (induction links) (auto simp: shown linkToEntry_def Let_def split: sum.split option.split)
qed

lemma reads_through:
  assumes "file_on_drive L D path link kr content contents" "drive_session L D contents (net_helper w)"
    and "backend_connected J (hl_json L) (helper_handlers L crash) path k (length ns) self w"
    and "length content < 2 ^ 63" "\<forall>n \<in> set ns. n \<le> 499 * 4194304"
  shows "\<exists>st. read_jobs (read_job J (hl_json L) (helper_handlers L crash) k) \<lparr>ph_path = path, ph_offset = 0\<rparr> ns (self, w) =
    Some (take (sum_list ns) content,
          \<lparr>ph_path = path, ph_offset = of_nat (min (sum_list ns) (length content))\<rparr>, st)"
proof -
  have "read_limit = 499 * 4194304"
    by (simp add: read_limit_def block_len_def)
  then have n: "\<forall>n \<in> set ns. n \<le> read_limit" and l: "read_limit < 2 ^ 63"
    using assms(5) by simp_all
  have "read_ready J (hl_json L) (helper_handlers L crash) (drive_session L D contents) read_limit path content k
      (length ns) (self, w)"
    using assms(2-4) handle_ReadFile_serves [OF assms(1,4)] l by (simp add: read_ready_def backend_connected_def)
  from rs.read_jobs_content [OF this _ n, of 0] show ?thesis
    by simp
qed

section \<open>Samples for the witnesses\<close>

definition helper_net :: "'h \<Rightarrow> 'h net" where
  "helper_net h = \<lparr>net_listening = (\<lambda>_. True), net_next = 6, net_conns = (\<lambda>_. closed_conn)(5 := fresh_conn),
                  net_helper = h, net_cancelled = (\<lambda>i. i = 0)\<rparr>"

lemma helper_net_connected: "connected sample_rpc 5 (helper_net h)"
  by (simp add: connected_def sample_rpc_def helper_net_def)

lemma helper_net_link:
  assumes "0 \<le> sint (rpc_next_id sample_rpc) \<Longrightarrow> sendable sample_json (rpc_next_id sample_rpc) m p"
  shows "link_ready sample_json sample_go s sample_rpc 5 None (helper_net h) m p"
  using assms
  by (simp add: link_ready_def sample_access_ok sample_text_ok sample_wire_ok helper_net_connected is_cancelled_def)
     (simp add: sample_rpc_def)

text \<open>A drive with one file of three bytes in its root.\<close>

definition root_folder :: link where
  "root_folder = (sample_link ''root'' [])\<lparr>lk_Type := LinkTypeFolder\<rparr>"

definition file_drive :: "unit drive" where
  "file_drive = sample_drive
     \<lparr>dr_rootLink := root_folder, dr_children := (\<lambda>i. if i = ''root'' then [sample_file] else [])\<rparr>"

definition file_api :: "(int, unit) proton_api" where
  "file_api = (sample_file_api True)
     \<lparr>api_ListChildren := (\<lambda>sh i w. (Inr (dr_children file_drive i), w + 1)),
      api_GetLink := (\<lambda>sh i w. (Inr root_folder, w + 1))\<rparr>"

definition sample_mgr :: "(int, unit) proton_mgr" where
  "sample_mgr =
     \<lparr>NewClientWithLogin = (\<lambda>u p hv w. (Inl DeadlineExceeded, w)),
      NewClientWithRefresh = (\<lambda>u t w. (Inr \<lparr>au_UID = u, au_AccessToken = ''at'', au_RefreshToken = ''r2''\<rparr>, w)),
      GetHVDetails = (\<lambda>e. None), GetUser = (\<lambda>c w. (Inr \<lparr>us_Keys = [''k'']\<rparr>, w)),
      GetSalts = (\<lambda>c w. (Inl DeadlineExceeded, w)), GetAddresses = (\<lambda>c w. (Inr [\<lparr>ad_ID = ''a'', ad_Email = ''me@x''\<rparr>], w)),
      Unlock = (\<lambda>u a sp. Inr (\<lambda>i. Some ())),
      ListShares = (\<lambda>c w. (Inr [\<lparr>sh_ShareID = ''share'', sh_VolumeID = ''vol'', sh_LinkID = ''root'', sh_Type = ShareTypeMain\<rparr>], w)),
      AuthDelete = (\<lambda>c w. (None, w + 100)), mgr_GetCaptcha = (\<lambda>t w. (Inr [], w)), SendVerificationCode = (\<lambda>u t a w. (None, w)),
      os_UserCacheDir = Inr ''/c'', PathEscape = (\<lambda>a. a), DefaultHostURL = ''https''\<rparr>"

definition sample_lib :: "(int, unit, string, string) helper_lib" where
  "sample_lib =
     \<lparr>hl_api = file_api, hl_mgr = sample_mgr, hl_crypto = sample_crypto, hl_http = sample_http, hl_json = sample_go,
      hl_range = key_range, hl_sort = sort_key cf_mtime, base64_DecodeString = (\<lambda>s. Some (go_string_bytes s)),
      unmarshal_error = (\<lambda>raw. ''bad parameters'')\<rparr>"

definition helper_of :: "(int, unit) Session \<Rightarrow> (int, unit) helper" where
  "helper_of s = \<lparr>h_session = Some \<lparr>ep_s = s, ep_anchorPath = ''/c/anchor'', ep_queue = []\<rparr>, h_anchor = Some ''e6'',
                  h_world = 0, h_disk = s_disk s\<rparr>"

definition no_crash :: "('w, 'k) helper \<Rightarrow> (go_error + json option) \<times> ('w, 'k) helper" where
  "no_crash h = (Inl (Plain_err ''EOF''), h)"

lemma file_serves: "serves_drive file_api file_drive"
  by (simp add: serves_drive_def file_api_def file_drive_def sample_drive_def sample_file_api_def sample_api_def)

lemma file_session: "session_run file_api file_drive sample_file_session"
  by (rule session_run.new)
     (simp_all add: session_of_def sample_file_session_def sample_session_def file_drive_def sample_drive_def)

lemma sample_drive_session: "drive_session sample_lib file_drive sample_contents (helper_of sample_file_session)"
  using session_run_coherent [OF file_session file_serves] sample_faithful
  by (simp add: drive_session_def helper_of_def sample_lib_def)

lemma sample_file_on_drive: "file_on_drive sample_lib file_drive ''/f'' sample_file () Range_Reads.sample_content sample_contents"
proof -
  have at: "link_at file_api file_drive (clean_names ''/f'') = Some (sample_file, ())"
    by code_simp
  have "serves_revision file_api ''share'' ''F'' ''r'' () Range_Reads.sample_content"
    using sample_served
    by (auto simp: file_served_def serves_revision_def file_api_def sample_file_session_def sample_session_def
        sample_file_def sample_link_def)
  then have "file_served file_api s sample_file () Range_Reads.sample_content" if "session_of file_drive s" for s
    using that
    by (simp add: file_served_def session_of_def file_drive_def sample_drive_def sample_file_def sample_link_def
        file_api_def sample_file_api_def sample_api_def name_ok_def)
  then show ?thesis
    using at sample_contents_of by (simp add: file_on_drive_def sample_lib_def) (simp add: sample_file_def sample_link_def)
qed

lemma sample_backend_connected:
  "backend_connected sample_json sample_go s ''/f'' None 3 (g_vfs_backend_proton_init\<lparr>be_rpc := Some sample_rpc\<rparr>) (helper_net h)"
proof -
  have "0 \<le> sint i \<Longrightarrow> sendable sample_json i ''ReadFile'' (read_params ''/f'' off len)" for i off len
    by (simp add: sendable_sample read_params_def)
  moreover have "\<exists>c. connected sample_rpc c (helper_net h)"
    by (intro exI) (rule helper_net_connected)
  moreover have "unat (rpc_next_id sample_rpc) = 1"
    by (simp add: sample_rpc_def)
  ultimately show ?thesis
    by (simp add: backend_connected_def sample_access_ok sample_text_ok sample_wire_ok sample_base64_wire_ok
        sample_null_decodes_empty is_cancelled_def)
qed

section \<open>Properties\<close>

text \<open>
  C1. A file is read correctly through both programs: for a file of the drive and a session whose
  caches agree with it (whatever they hold), consecutive read jobs of the backend, with buffers of
  up to 499 blocks of 4 MiB, report exactly the first bytes of the file's content, as many as the
  buffers hold, in order, and the handle's offset follows. Path lookup, metadata cache, block
  download and cache, range cutting, base64, framing and the buffer copy are all in between.
\<close>

theorem file_read_end_to_end:
  assumes "file_on_drive L D path link kr content contents" "drive_session L D contents (net_helper w)"
    and "backend_connected J (hl_json L) (helper_handlers L crash) path k (length ns) self w"
    and "length content < 2 ^ 63" "\<forall>n \<in> set ns. n \<le> 499 * 4194304"
  shows "\<exists>st. read_jobs (read_job J (hl_json L) (helper_handlers L crash) k) \<lparr>ph_path = path, ph_offset = 0\<rparr> ns (self, w) =
    Some (take (sum_list ns) content,
          \<lparr>ph_path = path, ph_offset = of_nat (min (sum_list ns) (length content))\<rparr>, st)"
  by (rule reads_through [OF assms])

theorem file_read_end_to_end_witness:
  "\<exists>st. read_jobs (read_job sample_json sample_go (helper_handlers sample_lib no_crash) None)
      \<lparr>ph_path = ''/f'', ph_offset = 0\<rparr> [2, 2, 2]
      (g_vfs_backend_proton_init\<lparr>be_rpc := Some sample_rpc\<rparr>, helper_net (helper_of sample_file_session)) =
    Some ([7, 8, 9], \<lparr>ph_path = ''/f'', ph_offset = 3\<rparr>, st)"
proof -
  have s: "drive_session sample_lib file_drive sample_contents (net_helper (helper_net (helper_of sample_file_session)))"
    using sample_drive_session by (simp add: helper_net_def)
  have G: "hl_json sample_lib = sample_go"
    by (simp add: sample_lib_def)
  have "backend_connected sample_json (hl_json sample_lib) (helper_handlers sample_lib no_crash) ''/f'' None (length [2, 2, 2 :: nat])
      (g_vfs_backend_proton_init\<lparr>be_rpc := Some sample_rpc\<rparr>) (helper_net (helper_of sample_file_session))"
    using sample_backend_connected unfolding G by (simp add: numeral_3_eq_3)
  from file_read_end_to_end [OF sample_file_on_drive s this] show ?thesis
    unfolding G by (simp add: Range_Reads.sample_content_def)
qed

text \<open>
  C2. A folder is listed correctly through both programs: on a session that agrees with its drive,
  an enumeration of a path that leads to a folder shows one info for every active child whose name
  can be decrypted, under that name, as a directory or a file, in the API's order, and no other; for
  a path that leads nowhere the job fails. The session agrees with the drive afterwards.
\<close>

theorem folder_listed_end_to_end:
  fixes w :: "('w, 'k) helper net"
  assumes "h_session (net_helper w) = Some p" "coherent (hl_api L) D (ep_s p)"
    and "be_rpc self = Some rpc"
    and "link_ready J (hl_json L) (helper_handlers L crash) rpc c k w ''ListDir'' (path_params path)"
  shows "\<exists>job infos self' w' p'. do_enumerate (net_ops (hl_json L) (helper_handlers L crash)) J X self path k w =
      Some (job, infos, job = Job_succeeded, self', w') \<and>
    h_session (net_helper w') = Some p' \<and> coherent (hl_api L) D (ep_s p') \<and>
    (case walk (hl_api L) D (clean_names path) of
       None \<Rightarrow> job \<noteq> Job_succeeded
     | Some (i, kr) \<Rightarrow> job = Job_succeeded \<and>
         map (\<lambda>info. (fi_name info, fi_file_type info, fi_id_file info)) infos =
         concat (map (\<lambda>l. if lk_State l \<noteq> LinkStateActive then []
                          else (case GetName (hl_api L) l kr (dr_addrKR D) of
                                  Inl err \<Rightarrow> []
                                | Inr name \<Rightarrow>
                                    [(Some name, Some (if lk_Type l = LinkTypeFolder then G_FILE_TYPE_DIRECTORY
                                                       else G_FILE_TYPE_REGULAR), Some (lk_LinkID l))]))
                     (dr_children D i)))"
proof -
  let ?s = "helper_handlers L crash"
  obtain r s1 where s1: "ListChildren (hl_api L) path (ep_s p) = (r, s1)"
    by fastforce
  note answers = ListChildren_answers [OF assms(2), of path, unfolded s1]
  then have c1: "coherent (hl_api L) D s1"
    by (simp add: answers_def)
  obtain x where x: "list_body L path (ep_s p) = (x, s1)"
    using s1 by (cases r) (auto simp: list_body_def)
  let ?h = "(net_helper w)\<lparr>h_session := Some (p\<lparr>ep_s := s1\<rparr>)\<rparr>"
  have served: "served ?s ''ListDir'' (path_params path) (net_helper w) x ?h"
    using with_session_some [OF assms(1) unmarshal_path, where body = "list_body L"] x by (simp add: served_def helper_handlers_lookup handle_ListDir_def)
  have session: "h_session (net_helper (w\<lparr>net_helper := ?h\<rparr>)) = Some (p\<lparr>ep_s := s1\<rparr>)" "coherent (hl_api L) D (ep_s (p\<lparr>ep_s := s1\<rparr>))"
    using c1 by simp_all
  show ?thesis
  proof (cases "walk (hl_api L) D (clean_names path)")
    case None
    then obtain e where "r = Inl e"
      using answers by (auto simp: answers_None)
    then have "x = Inl (Plain_err (Error e))"
      using s1 x by (simp add: list_body_def)
    from call_refused [OF assms(4) served [unfolded this]] have
      "do_enumerate (net_ops (hl_json L) ?s) J X self path k w =
        Some (Job_failed (Some (Io_error G_IO_ERROR_FAILED (Error e))), [], False,
              self\<lparr>be_rpc := Some (after_call rpc)\<rparr>, w\<lparr>net_helper := ?h\<rparr>)"
      by (simp add: do_enumerate_def with_rpc_def assms(3) proton_rpc_list_dir_def)
    then show ?thesis
      using session None by (auto simp: \<open>x = _\<close> intro!: exI)
  next
    case (Some at)
    then obtain i kr where at: "walk (hl_api L) D (clean_names path) = Some (i, kr)" "r = Inr (dr_children D i, kr)"
      using answers by (cases at) (auto simp: answers_Some)
    let ?entries = "list_entries (hl_api L) kr (dr_addrKR D) (dr_children D i)"
    have "x = Inr (Some (marshal_ListDirResult ?entries))"
      using s1 x at(2) coherent_session(3) [OF c1] by (simp add: list_body_def)
    from list_dir_served [OF assms(4) served [unfolded this]] have
      job: "do_enumerate (net_ops (hl_json L) ?s) J X self path k w =
        Some (Job_succeeded, map (\<lambda>e. fill_file_info X g_file_info_new (entry_received e)) ?entries, True,
              self\<lparr>be_rpc := Some (after_call rpc)\<rparr>, w\<lparr>net_helper := ?h\<rparr>)"
      by (simp add: do_enumerate_def with_rpc_def assms(3) comp_def)
    note infos = listed_infos [of X "hl_api L" kr "dr_addrKR D" "dr_children D i"]
    show ?thesis
      using job session infos at(1) by (intro exI conjI) (assumption | simp)+
  qed
qed

theorem folder_listed_end_to_end_witness:
  "\<exists>infos self' w'. do_enumerate (net_ops sample_go (helper_handlers sample_lib no_crash)) sample_json
      \<lparr>g_content_type_guess = (\<lambda>_. None), g_content_type_get_icon = (\<lambda>_. None),
       g_content_type_get_symbolic_icon = (\<lambda>_. None), g_date_time_new_from_unix_utc = Some\<rparr>
      (g_vfs_backend_proton_init\<lparr>be_rpc := Some sample_rpc\<rparr>) ''/'' None (helper_net (helper_of sample_file_session)) =
     Some (Job_succeeded, infos, True, self', w') \<and> map fi_name infos = [Some ''f'']"
proof -
  let ?X = "\<lparr>g_content_type_guess = (\<lambda>_. None), g_content_type_get_icon = (\<lambda>_. None),
       g_content_type_get_symbolic_icon = (\<lambda>_. None), g_date_time_new_from_unix_utc = Some\<rparr> :: gio_lib"
  let ?w = "helper_net (helper_of sample_file_session)"
  let ?p = "\<lparr>ep_s = sample_file_session, ep_anchorPath = ''/c/anchor'', ep_queue = []\<rparr>"
  let ?self = "g_vfs_backend_proton_init\<lparr>be_rpc := Some sample_rpc\<rparr>"
  have L: "hl_json sample_lib = sample_go" "hl_api sample_lib = file_api"
    by (simp_all add: sample_lib_def)
  have p: "h_session (net_helper ?w) = Some ?p"
    by (simp add: helper_net_def helper_of_def)
  have c: "coherent (hl_api sample_lib) file_drive (ep_s ?p)"
    using session_run_coherent [OF file_session file_serves] by (simp add: L)
  have self: "be_rpc ?self = Some sample_rpc"
    by simp
  have ready: "link_ready sample_json (hl_json sample_lib) (helper_handlers sample_lib no_crash) sample_rpc 5 None ?w ''ListDir'' (path_params ''/'')"
    unfolding L by (rule helper_net_link) (simp add: sendable_sample)
  have walk: "walk file_api file_drive (clean_names ''/'') = Some (''root'', ())"
    by code_simp
  have names: "GetName file_api sample_file () () = Inr ''f''" "dr_children file_drive ''root'' = [sample_file]"
    "lk_State sample_file = LinkStateActive" "lk_LinkID sample_file = ''F''" "lk_Type sample_file = LinkTypeFile"
    by (simp_all add: file_api_def sample_file_api_def sample_api_def sample_file_def sample_link_def file_drive_def)
  from folder_listed_end_to_end [OF p c self ready, where X = ?X, unfolded L walk]
  obtain infos self' w' where e: "do_enumerate (net_ops sample_go (helper_handlers sample_lib no_crash)) sample_json ?X ?self ''/'' None ?w =
      Some (Job_succeeded, infos, True, self', w')"
    "map (\<lambda>info. (fi_name info, fi_file_type info, fi_id_file info)) infos = [(Some ''f'', Some G_FILE_TYPE_REGULAR, Some ''F'')]"
    by (auto simp: names)
  from e(2) have "map fst (map (\<lambda>info. (fi_name info, fi_file_type info, fi_id_file info)) infos) = [Some ''f'']"
    by simp
  with e(1) show ?thesis
    by (auto simp: comp_def)
qed

text \<open>
  Nothing is answered without a login: before a session has been resumed or opened, every request
  about files or events is refused, whatever its parameters, the caller gets NOT_INITIALIZED, and
  the helper is unchanged.
\<close>

theorem session_required:
  fixes w :: "('w, 'k) helper net"
  assumes "h_session (net_helper w) = None"
    and "m \<in> {''GetEvents'', ''ListDir'', ''Stat'', ''ReadFile'', ''FetchThumbnail'', ''Mkdir'', ''Delete'', ''Move''}"
    and "link_ready J (hl_json L) (helper_handlers L crash) rpc c k w m params"
  shows "call (net_ops (hl_json L) (helper_handlers L crash)) J rpc m params k w =
    Some (Fail (Some (Io_error G_IO_ERROR_NOT_INITIALIZED ''not authenticated'')), after_call rpc, w)"
proof -
  have "served (helper_handlers L crash) m params (net_helper w) (Inl NotAuth) (net_helper w)"
    using assms(1,2)
    by (auto simp: served_def helper_handlers_lookup handle_ListDir_def handle_Stat_def handle_FetchThumbnail_def
        handle_Mkdir_def handle_Delete_def handle_Move_def with_session_none or_crash_def handle_ReadFile_def
        handle_GetEvents_def requireSession_def)
  from call_refused [OF assms(3) this] show ?thesis
    by (simp add: NotAuth_def rpc_error_of_def Err_defs)
qed

theorem session_required_witness:
  "call (net_ops sample_go (helper_handlers sample_lib no_crash)) sample_json sample_rpc ''Stat'' stat_root None
     (helper_net ((helper_of sample_file_session)\<lparr>h_session := None\<rparr>)) =
   Some (Fail (Some (Io_error G_IO_ERROR_NOT_INITIALIZED ''not authenticated'')), after_call sample_rpc,
         helper_net ((helper_of sample_file_session)\<lparr>h_session := None\<rparr>))"
proof -
  have L: "hl_json sample_lib = sample_go"
    by (simp add: sample_lib_def)
  have "link_ready sample_json (hl_json sample_lib) (helper_handlers sample_lib no_crash) sample_rpc 5 None
      (helper_net ((helper_of sample_file_session)\<lparr>h_session := None\<rparr>)) ''Stat'' stat_root"
    unfolding L by (rule helper_net_link) (simp add: sendable_sample)
  from session_required [OF _ _ this] show ?thesis
    by (simp add: helper_net_def L)
qed

end
