(* ===== verification/Session_Life.thy ===== *)
theory Session_Life
  imports End_To_End
begin

text \<open>
  The life of a session seen from the backend: its resumption by a mount, with both outcomes, and
  the way of a remote change from the API's event stream through the poller's tick, the queue and
  the next poll of the backend to the monitors.
\<close>

section \<open>Resuming\<close>

lemma ResumeSession_ok:
  assumes "NewClientWithRefresh M (sc_UID creds) (sc_RefreshToken creds) w = (Inr c, w1)"
    and "unlockWithSaltedPassphrase M c (sc_SaltedPassphrase creds) w1 = (Inr (kr, email), w2)"
    and "findMainShare M c w2 = (Inr (shareID, volumeID, rootID), w3)"
  shows "ResumeSession M creds (sc_UID creds) d w =
    (Inr (setAuth (au_UID c) (au_AccessToken c) (newSession M shareID volumeID rootID (sc_UID creds) email kr w3 d),
          \<lparr>sc_UID = au_UID c, sc_RefreshToken = au_RefreshToken c, sc_SaltedPassphrase = sc_SaltedPassphrase creds\<rparr>), w3)"
  using assms by (simp add: ResumeSession_def enter_share_def)

lemma ResumeSession_dropped:
  assumes "NewClientWithRefresh M (sc_UID creds) (sc_RefreshToken creds) w = (Inr c, w1)"
    and "unlockWithSaltedPassphrase M c (sc_SaltedPassphrase creds) w1 = (Inl err, w2) \<or>
      (\<exists>kr email w1'. unlockWithSaltedPassphrase M c (sc_SaltedPassphrase creds) w1 = (Inr (kr, email), w1') \<and>
         findMainShare M c w1' = (Inl err, w2))"
  shows "ResumeSession M creds account d w = (Inl err, snd (AuthDelete M c w2))"
  using assms by (auto simp: ResumeSession_def enter_share_def drop_client_def)

text \<open>A new session knows nothing yet, so it agrees with every drive that has its identifiers.\<close>

lemma new_session_coherent:
  assumes "serves_drive A D" "dr_shareID D = shareID" "dr_rootID D = rootID" "dr_addrKR D = kr"
  shows "coherent A D (setAuth uid tok (newSession M shareID volumeID rootID account email kr w d))"
  using assms by (intro session_run_coherent session_run.new) (simp_all add: session_of_def setAuth_def newSession_def)

lemma start_anchor_env:
  "start_anchor A p = (a, p') \<Longrightarrow>
     only_env (ep_s p) (ep_s p') \<and> s_disk (ep_s p') = s_disk (ep_s p) \<and> ep_queue p' = ep_queue p"
  using on_world_env [of "api_GetLatestVolumeEventID A (s_volumeID (ep_s p))" "ep_s p"]
  by (auto simp: start_anchor_def split: if_splits prod.splits sum.splits)

lemma handle_ResumeSession_ok:
  assumes "base64_DecodeString L (g_base64_encode J sp) = Some sp" "world_of h = (w, d)"
    and "NewClientWithRefresh (hl_mgr L) uid token w = (Inr c, w1)"
    and "unlockWithSaltedPassphrase (hl_mgr L) c (Some sp) w1 = (Inr (kr, email), w2)"
    and "findMainShare (hl_mgr L) c w2 = (Inr (shareID, volumeID, rootID), w3)"
    and "s = setAuth (au_UID c) (au_AccessToken c) (newSession (hl_mgr L) shareID volumeID rootID uid email kr w3 d)"
  shows "\<exists>anchor p. handle_ResumeSession L (resume_params J uid token sp) h =
      (Inr (Some (marshal_AuthResult (hl_json L)
          \<lparr>ar_UID = au_UID c, ar_RefreshToken = au_RefreshToken c, ar_SaltedPassphrase = Some sp\<rparr>)),
       h\<lparr>h_session := Some p, h_anchor := anchor\<rparr>) \<and>
    only_env s (ep_s p) \<and> s_disk (ep_s p) = s_disk s \<and> ep_queue p = []"
proof -
  let ?creds = "\<lparr>sc_UID = uid, sc_RefreshToken = token, sc_SaltedPassphrase = Some sp\<rparr>"
  obtain anchor p where p: "StartPoller (hl_api L) (hl_mgr L) s = (anchor, p)"
    by fastforce
  have r: "ResumeSession (hl_mgr L) ?creds uid d w =
      (Inr (s, \<lparr>sc_UID = au_UID c, sc_RefreshToken = au_RefreshToken c, sc_SaltedPassphrase = Some sp\<rparr>), w3)"
    using ResumeSession_ok [where creds = ?creds, of "hl_mgr L" w c w1 kr email w2 shareID volumeID rootID w3 d] assms(3-6)
    by simp
  have "only_env s (ep_s p) \<and> s_disk (ep_s p) = s_disk s \<and> ep_queue p = []"
    using start_anchor_env [OF p [unfolded StartPoller_def]] by (simp add: newEventPoller_def)
  moreover have "handle_ResumeSession L (resume_params J uid token sp) h =
      (Inr (Some (marshal_AuthResult (hl_json L)
          \<lparr>ar_UID = au_UID c, ar_RefreshToken = au_RefreshToken c, ar_SaltedPassphrase = Some sp\<rparr>)),
       h\<lparr>h_session := Some p, h_anchor := anchor\<rparr>)"
    by (simp add: handle_ResumeSession_def unmarshal_resume [OF assms(1)] assms(2) r adopt_session_def p auth_result_of_def)
  ultimately show ?thesis
    by blast
qed

lemma handle_ResumeSession_dropped:
  assumes "base64_DecodeString L (g_base64_encode J sp) = Some sp" "world_of h = (w, d)"
    and "NewClientWithRefresh (hl_mgr L) uid token w = (Inr c, w1)"
    and "unlockWithSaltedPassphrase (hl_mgr L) c (Some sp) w1 = (Inl err, w2) \<or>
      (\<exists>kr email w1'. unlockWithSaltedPassphrase (hl_mgr L) c (Some sp) w1 = (Inr (kr, email), w1') \<and>
         findMainShare (hl_mgr L) c w1' = (Inl err, w2))"
  shows "handle_ResumeSession L (resume_params J uid token sp) h =
    (Inl (rpc_error_of ErrAuthFailed (Error err)), set_world (snd (AuthDelete (hl_mgr L) c w2)) h)"
proof -
  let ?creds = "\<lparr>sc_UID = uid, sc_RefreshToken = token, sc_SaltedPassphrase = Some sp\<rparr>"
  have "ResumeSession (hl_mgr L) ?creds uid d w = (Inl err, snd (AuthDelete (hl_mgr L) c w2))"
    using ResumeSession_dropped [where creds = ?creds, of "hl_mgr L" w c w1 err w2 uid d] assms(3,4) by simp
  then show ?thesis
    by (simp add: handle_ResumeSession_def unmarshal_resume [OF assms(1)] assms(2))
qed

lemma mount_refused:
  assumes "json_access_ok J" "json_text_ok J" "wire_ok J G s"
    and "net_listening w (socket_path_of (getuid Y w) acc)" "acc \<noteq> []"
    and "\<And>field w. g_spawn_sync Y (lookup_argv acc field) w = (None, Some (cred field), w)"
    and "p = resume_params J (g_strchomp (cred ''uid'')) (g_strchomp (cred ''refresh_token''))
           (g_base64_decode J (Some (g_strchomp (cred ''salted_passphrase''))))"
    and "sendable J 1 ''ResumeSession'' p"
    and "served s ''ResumeSession'' p (net_helper w) (Inl (Rpc_err e)) st"
  shows "\<exists>self' w'. do_mount (net_ops G s) J Y libexecdir self (Some acc) h w =
      Some ([Job_done (Job_failed (Some (Io_error (gio_code (re_Code e)) (re_Message e))))], self', h, w') \<and>
    net_helper w' = st"
proof -
  obtain rpc w1 where m: "connected rpc (net_next w) w1" "rpc_next_id rpc = 1" "net_helper w1 = net_helper w"
    and mount: "do_mount (net_ops G s) J Y libexecdir self (Some acc) h w = do {
      (res, rpc, w) \<leftarrow> proton_rpc_resume_session (net_ops G s) J rpc (g_strchomp (cred ''uid''))
         (g_strchomp (cred ''refresh_token'')) (g_base64_decode J (Some (g_strchomp (cred ''salted_passphrase'')))) w1;
      case res of
        Fail error \<Rightarrow> Some ([Job_done (Job_failed error)], self\<lparr>be_rpc := Some rpc\<rparr>, h, w)
      | Ok (u, t) \<Rightarrow> do {
          (log, w) \<leftarrow> store_tokens Y acc u t w;
          case g_timeout_add_seconds Y 5 w of
            (i, w) \<Rightarrow> Some (log @ [Described acc (''Proton Drive ('' @ acc @ '')''), Job_done Job_succeeded, Timer_started i],
                         self\<lparr>be_rpc := Some rpc, be_poll_id := i\<rparr>, h\<lparr>gh_sources := i # gh_sources h\<rparr>, w)
        }
    }"
    using mount_connected [OF assms(4-6)] by blast
  note l = connected_ready [OF assms(1-3) m(1,2) assms(8)]
  have "served s ''ResumeSession'' p (net_helper w1) (Inl (Rpc_err e)) st"
    using assms(9) m(3) by simp
  note res = resume_refused [OF l [unfolded assms(7)] this [unfolded assms(7)]]
  show ?thesis
    by (simp add: mount res)
qed

section \<open>Remote deletions\<close>

text \<open>What the poller reports of a deletion: the path if it is known, else the folder's.\<close>

definition deletion_reported :: "('w, 'k) Session \<Rightarrow> link_event \<Rightarrow> DriveEvent list" where
  "deletion_reported s le =
     (let linkID = lk_LinkID (le_Link le);
          path = linkPath linkID s; parentPath = linkPath (lk_ParentLinkID (le_Link le)) s
      in if path \<noteq> [] then [\<lparr>de_Type = EventDeleted, de_LinkID = linkID, de_Path = path\<rparr>]
         else if parentPath \<noteq> [] then [\<lparr>de_Type = EventChanged, de_LinkID = linkID, de_Path = parentPath\<rparr>]
         else [])"

lemma deletion_reported_cong: "s_linkPaths s' = s_linkPaths s \<Longrightarrow> deletion_reported s' = deletion_reported s"
  by (simp add: deletion_reported_def linkPath_def fun_eq_iff)

lemma handle_deletion:
  assumes "queue_ok p" "s_blocks (ep_s p) = Some bc" "le_EventType le = LinkEventDelete"
  shows "\<exists>p'. handle A R le p = Some p' \<and> ep_queue p' = newest (ep_queue p @ deletion_reported (ep_s p) le) \<and>
    s_linkPaths (ep_s p') = s_linkPaths (ep_s p) \<and> s_blocks (ep_s p') = Some bc"
  using assms newest_short [of "ep_queue p"]
  by (auto simp: handle_def handle_delete_def deletion_reported_def Let_def drop_blocks_def enqueue_newest queue_ok_def
      InvalidatePath_fields invalidateLinkID_fields)

lemma handle_all_deletions:
  assumes "queue_ok p" "s_blocks (ep_s p) = Some bc" "\<forall>le \<in> set les. le_EventType le = LinkEventDelete"
  shows "\<exists>p'. handle_all A R les p = Some p' \<and>
    ep_queue p' = newest (ep_queue p @ concat (map (deletion_reported (ep_s p)) les))"
  using assms
proof (induction les arbitrary: p)
  case Nil
  then show ?case
    using newest_short [of "ep_queue p"] by (simp add: queue_ok_def)
next
  case (Cons le les)
  obtain p1 where p1: "handle A R le p = Some p1" "ep_queue p1 = newest (ep_queue p @ deletion_reported (ep_s p) le)"
    "s_linkPaths (ep_s p1) = s_linkPaths (ep_s p)" "s_blocks (ep_s p1) = Some bc"
    using handle_deletion [OF Cons.prems(1,2), of le A R] Cons.prems(3) by auto
  have "queue_ok p1"
    using p1(2) newest_length by (simp add: queue_ok_def)
  from Cons.IH [OF this p1(4)] Cons.prems(3) obtain p2 where
    "handle_all A R les p1 = Some p2" "ep_queue p2 = newest (ep_queue p1 @ concat (map (deletion_reported (ep_s p1)) les))"
    by auto
  then show ?case
    using p1(1) by (simp add: p1(2) deletion_reported_cong [OF p1(3)] newest_append)
qed

lemma tick_deletions:
  assumes "h_session h = Some p" "h_anchor h = Some eventID" "ep_queue p = []" "s_blocks (ep_s p) = Some bc"
    and "fst (api_GetVolumeEvent (hl_api L) (s_volumeID (ep_s p)) eventID (s_world (ep_s p))) = Inr ev"
    and "ve_EventID ev \<noteq> []" "\<not> ve_Refresh ev" "\<forall>le \<in> set (ve_Events ev). le_EventType le = LinkEventDelete"
  shows "\<exists>p'. helper_tick L h = Some (h\<lparr>h_session := Some p', h_anchor := Some (ve_EventID ev)\<rparr>) \<and>
    ep_queue p' = newest (concat (map (deletion_reported (ep_s p)) (ve_Events ev)))"
proof -
  obtain s1 where s1: "on_world (api_GetVolumeEvent (hl_api L) (s_volumeID (ep_s p)) eventID) (ep_s p) = (Inr ev, s1)"
      "s_linkPaths s1 = s_linkPaths (ep_s p)" "s_blocks s1 = Some bc"
    using assms(4,5) by (cases "api_GetVolumeEvent (hl_api L) (s_volumeID (ep_s p)) eventID (s_world (ep_s p))") (simp add: on_world_def)
  have "queue_ok (p\<lparr>ep_s := s1\<rparr>)"
    using assms(3) by (simp add: queue_ok_def)
  from handle_all_deletions [OF this _ assms(8), of bc "hl_api L" "hl_range L"] s1(3) obtain p1 where
    "handle_all (hl_api L) (hl_range L) (ve_Events ev) (p\<lparr>ep_s := s1\<rparr>) = Some p1"
    "ep_queue p1 = newest (concat (map (deletion_reported (ep_s p)) (ve_Events ev)))"
    using assms(3) by (auto simp: deletion_reported_cong [OF s1(2)])
  moreover have "ep_queue (saveAnchor A i q) = ep_queue q" for A :: "('a, 'b) proton_api" and i q
    by (auto simp: saveAnchor_def split: prod.split)
  ultimately show ?thesis
    using assms(1,2,6,7) s1(1) by (auto simp: helper_tick_def poll_def)
qed

section \<open>From the queue to the monitors\<close>

definition notified :: "(monitor_id \<times> string) list \<Rightarrow> DriveEvent \<Rightarrow> emission list" where
  "notified watchers e =
     map (\<lambda>(m, p). (m, case de_Type e of
                          EventChanged \<Rightarrow> G_FILE_MONITOR_EVENT_CHANGED
                        | EventDeleted \<Rightarrow> G_FILE_MONITOR_EVENT_DELETED
                        | EventCreated \<Rightarrow> G_FILE_MONITOR_EVENT_CREATED, de_Path e))
         (filter (\<lambda>(m, p). path_matches p (de_Path e) = Some True) watchers)"

lemma told_notified:
  "de_Path e \<noteq> [] \<Longrightarrow>
     told ws (the (event_kind (ev_type (event_received (event_of e))))) (ev_path (event_received (event_of e))) = notified ws e"
  by (cases "de_Type e")
     (simp_all add: told_def notified_def event_received_def event_of_def event_kind_def event_type_text_def)

lemma queue_reaches_monitors:
  assumes "table_ok (be_monitors self) hp" "\<forall>(m, q) \<in> set (live_watchers hp (be_monitors self)). q \<noteq> []"
    and "be_rpc self = Some rpc" "link_ready J (hl_json L) (helper_handlers L crash) rpc c None w ''GetEvents'' None"
    and "h_session (net_helper w) = Some p" "\<forall>e \<in> set (ep_queue p). de_Path e \<noteq> []"
  shows "poll_events_cb (net_ops (hl_json L) (helper_handlers L crash)) J hp self w =
    Some (True, concat (map (notified (live_watchers hp (be_monitors self))) (ep_queue p)),
          self\<lparr>be_rpc := Some (after_call rpc)\<rparr>,
          w\<lparr>net_helper := (net_helper w)\<lparr>h_session := Some (p\<lparr>ep_queue := []\<rparr>)\<rparr>\<rparr>)"
proof -
  have "Drain p = (ep_queue p, p\<lparr>ep_queue := []\<rparr>)"
    by (cases p) (simp add: Drain_def)
  then have "served (helper_handlers L crash) ''GetEvents'' None (net_helper w)
      (Inr (Some (marshal_GetEventsResult (map event_of (ep_queue p)))))
      ((net_helper w)\<lparr>h_session := Some (p\<lparr>ep_queue := []\<rparr>)\<rparr>)"
    using assms(5) by (simp add: served_def helper_handlers_lookup handle_GetEvents_def requireSession_def)
  note received = get_events_served [OF assms(4) this]
  have "\<forall>ev \<in> set (map event_received (map event_of (ep_queue p))). ev_type ev \<noteq> None"
    by (simp add: event_received_def)
  note sent = dispatch_events_Some [OF assms(1,2) this]
  show ?thesis
    unfolding poll_events_cb_def assms(3) using received sent assms(6)
    by (simp add: comp_def told_notified cong: map_cong)
qed

text \<open>A session resumed through both programs.\<close>

lemma resume_through:
  fixes w :: "('w, 'k) helper net"
  assumes "link_ready J (hl_json L) (helper_handlers L crash) rpc conn None w ''ResumeSession'' (resume_params J uid token sp)"
    and "base64_DecodeString L (g_base64_encode J sp) = Some sp" "world_of (net_helper w) = (w0, d)"
    and "NewClientWithRefresh (hl_mgr L) uid token w0 = (Inr c, w1)"
    and "unlockWithSaltedPassphrase (hl_mgr L) c (Some sp) w1 = (Inr (kr, email), w2)"
    and "findMainShare (hl_mgr L) c w2 = (Inr (shareID, volumeID, rootID), w3)"
    and "serves_drive (hl_api L) D" "dr_shareID D = shareID" "dr_rootID D = rootID" "dr_addrKR D = kr"
    and "cache_faithful (hl_sort L) contents (newSession (hl_mgr L) shareID volumeID rootID uid email kr w3 d)"
    and "au_UID c \<noteq> []" "au_AccessToken c \<noteq> []"
  shows "\<exists>h' p. proton_rpc_resume_session (net_ops (hl_json L) (helper_handlers L crash)) J rpc uid token sp w =
      Some (Ok (Some (au_UID c), Some (au_RefreshToken c)), after_call rpc, w\<lparr>net_helper := h'\<rparr>) \<and>
    h_session h' = Some p \<and> ep_queue p = [] \<and> s_account (ep_s p) = uid \<and>
    s_auth (ep_s p) = (au_UID c, au_AccessToken c) \<and> drive_session L D contents h'"
proof -
  let ?s = "setAuth (au_UID c) (au_AccessToken c) (newSession (hl_mgr L) shareID volumeID rootID uid email kr w3 d)"
  obtain anchor p where p: "handle_ResumeSession L (resume_params J uid token sp) (net_helper w) =
      (Inr (Some (marshal_AuthResult (hl_json L)
          \<lparr>ar_UID = au_UID c, ar_RefreshToken = au_RefreshToken c, ar_SaltedPassphrase = Some sp\<rparr>)),
       (net_helper w)\<lparr>h_session := Some p, h_anchor := anchor\<rparr>)"
    "only_env ?s (ep_s p)" "s_disk (ep_s p) = s_disk ?s" "ep_queue p = []"
    using handle_ResumeSession_ok [OF assms(2-6) refl] by blast
  let ?h = "(net_helper w)\<lparr>h_session := Some p, h_anchor := anchor\<rparr>"
  have "served (helper_handlers L crash) ''ResumeSession'' (resume_params J uid token sp) (net_helper w)
      (Inr (Some (marshal_AuthResult (hl_json L)
          \<lparr>ar_UID = au_UID c, ar_RefreshToken = au_RefreshToken c, ar_SaltedPassphrase = Some sp\<rparr>))) ?h"
    by (simp add: served_def helper_handlers_lookup p(1))
  note call = resume_served [OF assms(1) this]
  have "s_account (ep_s p) = uid" "s_auth (ep_s p) = (au_UID c, au_AccessToken c)" "s_blocks (ep_s p) = s_blocks ?s"
    using p(2) assms(12,13) by (simp_all add: only_env_def setAuth_def newSession_def) (metis Session.select_convs Session.update_convs)+
  moreover have "coherent (hl_api L) D (ep_s p)"
    by (rule coherent_of_env [OF new_session_coherent [OF assms(7-10)] p(2)])
  moreover have "cache_faithful (hl_sort L) contents (ep_s p)"
    using assms(11) p(3) \<open>s_blocks (ep_s p) = s_blocks ?s\<close> by (simp add: cache_faithful_def setAuth_def)
  ultimately show ?thesis
    using call p(4) by (intro exI [of _ ?h] exI [of _ p]) (simp add: drive_session_def)
qed

section \<open>Samples for the witnesses\<close>

definition fresh_helper :: "(int, unit) helper" where
  "fresh_helper = \<lparr>h_session = None, h_anchor = None, h_world = 0, h_disk = s_disk sample_session\<rparr>"

lemma sample_base64_bytes: "base64_DecodeString sample_lib (g_base64_encode sample_json sp) = Some sp"
  using bytes_of_chars [of sp] by (simp add: sample_lib_def sample_json_def comp_def)

lemma fresh_cache_faithful:
  "cache_faithful (sort_key cf_mtime) contents
     (newSession sample_mgr ''share'' ''vol'' ''root'' uid email () n (s_disk sample_session))"
proof -
  have d: "dk_files (s_disk sample_session) = []" "dk_short (s_disk sample_session) p = None" for p
    by (simp_all add: sample_session_def)
  have "\<exists>b. filepath_Join [''/c'', ''proton-drive'', uid] = slash # b"
  proof (cases "uid = []")
    case False
    then show ?thesis
      by (simp add: filepath_Join_def path_Clean_slash Go_Path.abs_path_def)
  qed (simp add: filepath_Join_def path_Clean_slash Go_Path.abs_path_def)
  then have "\<exists>rs. cache_at bc rs"
    if "NewBlockCache (filepath_Join [''/c'', ''proton-drive'', uid]) 0 (s_disk sample_session) = Some bc" for bc
    using NewBlockCache_at [OF that] by blast
  then show ?thesis
    using sorts_sort_key
    by (auto simp: cache_faithful_def newSession_def cache_ok_def disk_ok_def d os_ReadFile_def blockCacheBase_def sample_mgr_def
        split: option.splits sum.splits)
qed

text \<open>A system with the three credentials in its keyring, and a Proton that fails after the refresh.\<close>

definition helper_system :: "(int, unit) helper net system" where
  "helper_system =
     \<lparr>getuid = (\<lambda>_. 0), g_file_test_exists = (\<lambda>_ w. True), g_file_test_is_executable = (\<lambda>_ _. True),
      g_find_program_in_path = (\<lambda>_ _. None), g_usleep = (\<lambda>_ w. w),
      os_unlink = (\<lambda>_ w. w), g_spawn_async = (\<lambda>_ w. (None, w)),
      g_spawn_sync = (\<lambda>argv w. (None, Some (last argv @ [CHR 0x0A]), w)),
      g_subprocess_newv = (\<lambda>_ w. (Ok 0, w)), g_subprocess_communicate_utf8 = (\<lambda>_ _ w. (None, w)),
      g_timeout_add_seconds = (\<lambda>_ w. (7, w))\<rparr>"

definition failing_lib :: "(int, unit, string, string) helper_lib" where
  "failing_lib = sample_lib\<lparr>hl_mgr := sample_mgr\<lparr>ListShares := (\<lambda>c w. (Inl (Net_Error ''timeout''), w))\<rparr>\<rparr>"

definition event_lib :: "(int, unit, string, string) helper_lib" where
  "event_lib = sample_lib\<lparr>hl_api := event_api sample_volume_event\<rparr>"

definition polling_helper :: "(int, unit) helper" where
  "polling_helper = \<lparr>h_session = Some sample_poller, h_anchor = Some ''e6'', h_world = 0, h_disk = s_disk sample_session\<rparr>"

section \<open>Properties\<close>

text \<open>
  A stored session is resumed through both programs: where Proton accepts the stored uid, refresh
  token and passphrase and the account has a main share, the call returns the rotated uid and token
  (which the mount then stores), and the helper has a new session on that share, with the rotated
  access token, an empty event queue and, since the client sends no user name, the uid as its
  account; this session agrees with the drive, so that the properties on reading and listing hold of
  it, provided that the block cache left on the disk holds only pieces of files.
\<close>

theorem resume_end_to_end:
  fixes w :: "('w, 'k) helper net"
  assumes "link_ready J (hl_json L) (helper_handlers L crash) rpc conn None w ''ResumeSession'' (resume_params J uid token sp)"
    and "base64_DecodeString L (g_base64_encode J sp) = Some sp" "world_of (net_helper w) = (w0, d)"
    and "NewClientWithRefresh (hl_mgr L) uid token w0 = (Inr c, w1)"
    and "unlockWithSaltedPassphrase (hl_mgr L) c (Some sp) w1 = (Inr (kr, email), w2)"
    and "findMainShare (hl_mgr L) c w2 = (Inr (shareID, volumeID, rootID), w3)"
    and "serves_drive (hl_api L) D" "dr_shareID D = shareID" "dr_rootID D = rootID" "dr_addrKR D = kr"
    and "cache_faithful (hl_sort L) contents (newSession (hl_mgr L) shareID volumeID rootID uid email kr w3 d)"
    and "au_UID c \<noteq> []" "au_AccessToken c \<noteq> []"
  shows "\<exists>h' p. proton_rpc_resume_session (net_ops (hl_json L) (helper_handlers L crash)) J rpc uid token sp w =
      Some (Ok (Some (au_UID c), Some (au_RefreshToken c)), after_call rpc, w\<lparr>net_helper := h'\<rparr>) \<and>
    h_session h' = Some p \<and> ep_queue p = [] \<and> s_account (ep_s p) = uid \<and>
    s_auth (ep_s p) = (au_UID c, au_AccessToken c) \<and> drive_session L D contents h'"
  by (rule resume_through [OF assms])

theorem resume_end_to_end_witness:
  "\<exists>h' p. proton_rpc_resume_session (net_ops sample_go (helper_handlers sample_lib no_crash)) sample_json sample_rpc
      ''u'' ''r'' [7] (helper_net fresh_helper) =
     Some (Ok (Some ''u'', Some ''r2''), after_call sample_rpc, (helper_net fresh_helper)\<lparr>net_helper := h'\<rparr>) \<and>
   h_session h' = Some p \<and> s_account (ep_s p) = ''u'' \<and> drive_session sample_lib file_drive sample_contents h'"
proof -
  let ?c = "\<lparr>au_UID = ''u'', au_AccessToken = ''at'', au_RefreshToken = ''r2''\<rparr>"
  have L: "hl_json sample_lib = sample_go" "hl_api sample_lib = file_api" "hl_mgr sample_lib = sample_mgr"
      "hl_sort sample_lib = sort_key cf_mtime"
    by (simp_all add: sample_lib_def)
  have ready: "link_ready sample_json (hl_json sample_lib) (helper_handlers sample_lib no_crash) sample_rpc 5 None
      (helper_net fresh_helper) ''ResumeSession'' (resume_params sample_json ''u'' ''r'' [7])"
    unfolding L by (rule helper_net_link) (simp add: sendable_sample resume_params_def)
  have "world_of (net_helper (helper_net fresh_helper)) = (0, s_disk sample_session)"
    by (simp add: world_of_def helper_net_def fresh_helper_def)
  moreover have "NewClientWithRefresh (hl_mgr sample_lib) ''u'' ''r'' 0 = (Inr ?c, 0)"
    "unlockWithSaltedPassphrase (hl_mgr sample_lib) ?c (Some [7]) 0 = (Inr ((), ''me@x''), 0)"
    "findMainShare (hl_mgr sample_lib) ?c 0 = (Inr (''share'', ''vol'', ''root''), 0)"
    unfolding L by (simp_all add: sample_mgr_def unlockWithSaltedPassphrase_def findMainShare_def)
  moreover have "serves_drive (hl_api sample_lib) file_drive"
    unfolding L by (rule file_serves)
  moreover have "dr_shareID file_drive = ''share''"
    "dr_rootID file_drive = ''root''" "dr_addrKR file_drive = ()"
    by (simp_all add: file_drive_def sample_drive_def)
  ultimately show ?thesis
    using resume_end_to_end [OF ready sample_base64_bytes, of 0 "s_disk sample_session" ?c 0 "()" "''me@x''" 0
        "''share''" "''vol''" "''root''" 0 file_drive sample_contents] fresh_cache_faithful
    unfolding L by auto
qed

text \<open>
  C5. A resumption that fails half way loses the account: when Proton has accepted the stored token and
  replaced it, and then unlocking the keys or looking up the share fails (for whatever reason, a
  network error included), the helper logs the new client out and reports an authentication
  failure; the mount fails with PERMISSION_DENIED and stores nothing, so the keyring keeps the
  token that has been replaced.
\<close>

theorem failed_resume_loses_tokens:
  fixes w :: "('w, 'k) helper net"
  assumes "json_access_ok J" "json_text_ok J" "wire_ok J (hl_json L) (helper_handlers L crash)"
    and "net_listening w (socket_path_of (getuid Y w) acc)" "acc \<noteq> []"
    and "\<And>field w. g_spawn_sync Y (lookup_argv acc field) w = (None, Some (cred field), w)"
    and "uid = g_strchomp (cred ''uid'')" "token = g_strchomp (cred ''refresh_token'')"
    and "sp = g_base64_decode J (Some (g_strchomp (cred ''salted_passphrase'')))"
    and "sendable J 1 ''ResumeSession'' (resume_params J uid token sp)"
    and "base64_DecodeString L (g_base64_encode J sp) = Some sp" "world_of (net_helper w) = (w0, d)"
    and "NewClientWithRefresh (hl_mgr L) uid token w0 = (Inr c, w1)"
    and "unlockWithSaltedPassphrase (hl_mgr L) c (Some sp) w1 = (Inl err, w2) \<or>
      (\<exists>kr email w1'. unlockWithSaltedPassphrase (hl_mgr L) c (Some sp) w1 = (Inr (kr, email), w1') \<and>
         findMainShare (hl_mgr L) c w1' = (Inl err, w2))"
  shows "\<exists>self' w'. do_mount (net_ops (hl_json L) (helper_handlers L crash)) J Y libexecdir self (Some acc) h w =
      Some ([Job_done (Job_failed (Some (Io_error G_IO_ERROR_PERMISSION_DENIED (Error err))))], self', h, w') \<and>
    net_helper w' = set_world (snd (AuthDelete (hl_mgr L) c w2)) (net_helper w)"
proof -
  have "handle_ResumeSession L (resume_params J uid token sp) (net_helper w) =
      (Inl (rpc_error_of ErrAuthFailed (Error err)), set_world (snd (AuthDelete (hl_mgr L) c w2)) (net_helper w))"
    by (rule handle_ResumeSession_dropped [OF assms(11-14)])
  then have "served (helper_handlers L crash) ''ResumeSession'' (resume_params J uid token sp) (net_helper w)
      (Inl (Rpc_err \<lparr>re_Code = ErrAuthFailed, re_Message = Error err, re_Details = None\<rparr>))
      (set_world (snd (AuthDelete (hl_mgr L) c w2)) (net_helper w))"
    by (simp add: served_def helper_handlers_lookup rpc_error_of_def)
  from mount_refused [OF assms(1-6) _ assms(10) this] assms(7-9) show ?thesis
    by (simp add: Err_defs)
qed

theorem failed_resume_loses_tokens_witness:
  "\<exists>self' w'. do_mount (net_ops sample_go (helper_handlers failing_lib no_crash)) sample_json helper_system ''/usr/libexec''
      g_vfs_backend_proton_init (Some ''me'') empty_heap (helper_net fresh_helper) =
     Some ([Job_done (Job_failed (Some (Io_error G_IO_ERROR_PERMISSION_DENIED ''timeout'')))], self', empty_heap, w') \<and>
   net_helper w' = fresh_helper\<lparr>h_world := 100\<rparr>"
proof -
  let ?c = "\<lparr>au_UID = ''uid'', au_AccessToken = ''at'', au_RefreshToken = ''r2''\<rparr>"
  let ?sp = "g_base64_decode sample_json (Some (g_strchomp (''salted_passphrase'' @ [CHR 0x0A])))"
  let ?w = "helper_net fresh_helper"
  have L: "hl_json failing_lib = sample_go" "hl_mgr failing_lib = sample_mgr\<lparr>ListShares := (\<lambda>c w. (Inl (Net_Error ''timeout''), w))\<rparr>"
      "base64_DecodeString failing_lib = base64_DecodeString sample_lib"
    by (simp_all add: failing_lib_def sample_lib_def)
  have listening: "net_listening ?w p" for p
    by (simp add: helper_net_def)
  have spawn: "g_spawn_sync helper_system (lookup_argv ''me'' field) w = (None, Some (field @ [CHR 0x0A]), w)" for field w
    by (simp add: helper_system_def lookup_argv_def)
  have world: "world_of (net_helper ?w) = (0, s_disk sample_session)"
    by (simp add: world_of_def helper_net_def fresh_helper_def)
  have refresh: "NewClientWithRefresh (hl_mgr failing_lib) (g_strchomp (''uid'' @ [CHR 0x0A]))
      (g_strchomp (''refresh_token'' @ [CHR 0x0A])) 0 = (Inr ?c, 0)"
    unfolding L chomp_newline sample_chomp by (simp add: sample_mgr_def)
  have share: "unlockWithSaltedPassphrase (hl_mgr failing_lib) ?c (Some ?sp) 0 = (Inr ((), ''me@x''), 0)"
    "findMainShare (hl_mgr failing_lib) ?c 0 = (Inl (Net_Error ''timeout''), 0)"
    unfolding L by (simp_all add: sample_mgr_def unlockWithSaltedPassphrase_def findMainShare_def)
  have dropped: "unlockWithSaltedPassphrase (hl_mgr failing_lib) ?c (Some ?sp) 0 = (Inl (Net_Error ''timeout''), 0) \<or>
      (\<exists>kr email w1'. unlockWithSaltedPassphrase (hl_mgr failing_lib) ?c (Some ?sp) 0 = (Inr (kr, email), w1') \<and>
         findMainShare (hl_mgr failing_lib) ?c w1' = (Inl (Net_Error ''timeout''), 0))"
    using share by blast
  have "set_world (snd (AuthDelete (hl_mgr failing_lib) ?c 0)) (net_helper ?w) = fresh_helper\<lparr>h_world := 100\<rparr>"
    by (simp add: L sample_mgr_def set_world_def helper_net_def fresh_helper_def)
  moreover have "wire_ok sample_json (hl_json failing_lib) (helper_handlers failing_lib no_crash)"
    unfolding L by (rule sample_wire_ok)
  moreover have "base64_DecodeString failing_lib (g_base64_encode sample_json ?sp) = Some ?sp"
    unfolding L by (rule sample_base64_bytes)
  ultimately show ?thesis
    using failed_resume_loses_tokens [OF sample_access_ok sample_text_ok _ listening _ spawn refl refl refl
        sample_resume_sendable _ world refresh dropped, of no_crash "''/usr/libexec''" g_vfs_backend_proton_init empty_heap]
    unfolding L by simp
qed

text \<open>
  C3. A deletion on the server reaches the monitors: when the poller's tick finds deletions, the next
  poll of the backend emits, for each of them in the server's order (for the newest 64, if there are
  more), one notification to every live monitor at or above the path: "deleted" with the link's
  path where the session knows it, else "changed" with the path of the folder it was in, if that is
  known. The anchor has moved on, and nothing is left in the queue.
\<close>

theorem deletions_notified_end_to_end:
  fixes w :: "('w, 'k) helper net"
  assumes "h_session (net_helper w) = Some p" "h_anchor (net_helper w) = Some eventID" "ep_queue p = []"
    and "s_blocks (ep_s p) = Some bc"
    and "fst (api_GetVolumeEvent (hl_api L) (s_volumeID (ep_s p)) eventID (s_world (ep_s p))) = Inr ev"
    and "ve_EventID ev \<noteq> []" "\<not> ve_Refresh ev" "\<forall>le \<in> set (ve_Events ev). le_EventType le = LinkEventDelete"
    and "keeps_reference set_monitor" "backend_run set_monitor self hp" "be_rpc self = Some rpc"
    and "\<forall>(m, q) \<in> set (live_watchers hp (be_monitors self)). q \<noteq> []"
    and "link_ready J (hl_json L) (helper_handlers L crash) rpc c None w ''GetEvents'' None"
  shows "\<exists>h' p' self' w'. helper_tick L (net_helper w) = Some h' \<and>
    poll_events_cb (net_ops (hl_json L) (helper_handlers L crash)) J hp self (w\<lparr>net_helper := h'\<rparr>) =
      Some (True, concat (map (notified (live_watchers hp (be_monitors self)))
                    (newest (concat (map (deletion_reported (ep_s p)) (ve_Events ev))))), self', w') \<and>
    h_anchor (net_helper w') = Some (ve_EventID ev) \<and> h_session (net_helper w') = Some p' \<and> ep_queue p' = []"
proof -
  let ?evs = "newest (concat (map (deletion_reported (ep_s p)) (ve_Events ev)))"
  obtain p' where p': "helper_tick L (net_helper w) =
      Some ((net_helper w)\<lparr>h_session := Some p', h_anchor := Some (ve_EventID ev)\<rparr>)" "ep_queue p' = ?evs"
    using tick_deletions [OF assms(1-8)] by blast
  let ?w = "w\<lparr>net_helper := (net_helper w)\<lparr>h_session := Some p', h_anchor := Some (ve_EventID ev)\<rparr>\<rparr>"
  have table: "table_ok (be_monitors self) hp"
    using backend_run_ok [OF assms(9,10)] by simp
  have ready: "link_ready J (hl_json L) (helper_handlers L crash) rpc c None ?w ''GetEvents'' None"
    using assms(13) by (simp add: link_ready_def connected_def is_cancelled_def)
  have "\<forall>e \<in> set ?evs. de_Path e \<noteq> []"
    by (auto simp: newest_def deletion_reported_def Let_def split: if_splits dest!: in_set_dropD)
  from queue_reaches_monitors [OF table assms(12,11) ready, of p'] this p' show ?thesis
    by simp
qed

theorem deletions_notified_end_to_end_witness:
  "\<exists>h' self' w'. helper_tick event_lib polling_helper = Some h' \<and>
     poll_events_cb (net_ops sample_go (helper_handlers event_lib no_crash)) sample_json one_watcher_heap
       (one_watcher\<lparr>be_rpc := Some sample_rpc\<rparr>) (helper_net h') =
     Some (True, [(0, G_FILE_MONITOR_EVENT_CHANGED, ''/a'')], self', w')"
proof -
  let ?w = "helper_net polling_helper"
  let ?self = "one_watcher\<lparr>be_rpc := Some sample_rpc\<rparr>"
  have L: "hl_json event_lib = sample_go" "hl_api event_lib = event_api sample_volume_event"
    by (simp_all add: event_lib_def sample_lib_def)
  have h: "net_helper ?w = polling_helper" "h_session polling_helper = Some sample_poller" "h_anchor polling_helper = Some ''e6''"
    by (simp_all add: helper_net_def polling_helper_def)
  have p: "ep_queue sample_poller = []" "s_blocks (ep_s sample_poller) = Some sample_bc"
    by (simp_all add: sample_poller_def)
  have ev: "fst (api_GetVolumeEvent (hl_api event_lib) (s_volumeID (ep_s sample_poller)) ''e6'' (s_world (ep_s sample_poller))) =
      Inr sample_volume_event"
    by (simp add: L event_api_def)
  have events: "ve_EventID sample_volume_event \<noteq> []" "\<not> ve_Refresh sample_volume_event"
    "\<forall>le \<in> set (ve_Events sample_volume_event). le_EventType le = LinkEventDelete"
    by (simp_all add: sample_volume_event_def sample_event_def)
  have rpc: "be_rpc ?self = Some sample_rpc"
    by simp
  have watchers: "live_watchers one_watcher_heap (be_monitors ?self) = [(0, ''/'')]"
    by (simp add: live_watchers_def one_watcher_heap_def registered_def empty_heap_def one_watcher_def)
  then have named: "\<forall>(m, q) \<in> set (live_watchers one_watcher_heap (be_monitors ?self)). q \<noteq> []"
    by simp
  have ready: "link_ready sample_json (hl_json event_lib) (helper_handlers event_lib no_crash) sample_rpc 5 None ?w ''GetEvents'' None"
    unfolding L by (rule helper_net_link) (simp add: sendable_sample)
  have "newest (concat (map (deletion_reported (ep_s sample_poller)) (ve_Events sample_volume_event))) =
      [\<lparr>de_Type = EventChanged, de_LinkID = ''B'', de_Path = ''/a''\<rparr>]"
    by code_simp
  moreover have "notified [(0, ''/'')] \<lparr>de_Type = EventChanged, de_LinkID = ''B'', de_Path = ''/a''\<rparr> =
      [(0, G_FILE_MONITOR_EVENT_CHANGED, ''/a'')]"
    by (simp add: notified_def path_matches_nonempty)
  moreover have "?w\<lparr>net_helper := h'\<rparr> = helper_net h'" for h'
    by (simp add: helper_net_def)
  ultimately show ?thesis
    using deletions_notified_end_to_end [where w = ?w, unfolded h(1), OF h(2,3) p ev events own_reference_keeps
        backend_run.run_rpc [OF one_watcher_run] rpc named ready]
    unfolding L watchers by auto
qed

end
