(* ===== verification/Helper_Runs.thy ===== *)
theory Helper_Runs
  imports Session_Life
begin

text \<open>
  Histories of the helper: whatever lookups, listings, reads, thumbnails, drained events and quiet
  ticks of the poller have gone before, in any order and also with malformed parameters, the session
  agrees with an unchanging drive and the block cache holds only pieces of its files. Between them the
  client may have refreshed its token.
\<close>

section \<open>Writes outside the block cache\<close>

definition outside_blocks :: "('w, 'k) Session \<Rightarrow> string \<Rightarrow> bool" where
  "outside_blocks s p \<longleftrightarrow> (\<forall>bc k. s_blocks s = Some bc \<longrightarrow> key_ok k \<longrightarrow> key_path bc k \<noteq> p)"

lemma faithful_write:
  assumes "cache_faithful sort_Slice contents s" "outside_blocks s p"
  shows "cache_faithful sort_Slice contents (s\<lparr>s_disk := snd (os_WriteFile p data now (s_disk s))\<rparr>)"
proof -
  obtain ok d where d: "os_WriteFile p data now (s_disk s) = (ok, d)"
    by fastforce
  note w = WriteFile_files [OF d]
  have "look bc d k = look bc (s_disk s) k" if "s_blocks s = Some bc" "key_ok k" for bc k
  proof -
    have "key_path bc k \<noteq> p"
      using assms(2) that unfolding outside_blocks_def by blast
    then show ?thesis
      using w [of "key_path bc k"] by (simp add: os_ReadFile_def)
  qed
  then show ?thesis
    using assms(1) w by (auto simp: cache_faithful_def cache_ok_def d)
qed

lemma faithful_Chtimes:
  "cache_faithful sort_Slice contents s \<Longrightarrow> cache_faithful sort_Slice contents (s\<lparr>s_disk := os_Chtimes p now (s_disk s)\<rparr>)"
  by (simp add: cache_faithful_def cache_ok_def os_ReadFile_def)

lemma faithful_same: "cache_faithful sort_Slice contents s \<Longrightarrow> s_disk s' = s_disk s \<Longrightarrow> s_blocks s' = s_blocks s \<Longrightarrow>
    cache_faithful sort_Slice contents s'"
  by (simp add: cache_faithful_def)

section \<open>The invariant\<close>

definition session_good ::
  "('w, 'k, 'n, 'm) helper_lib \<Rightarrow> 'k drive \<Rightarrow> (block_key \<Rightarrow> byte list) \<Rightarrow> ('w, 'k) Session \<Rightarrow> bool" where
  "session_good L D contents s \<longleftrightarrow> coherent (hl_api L) D s \<and> cache_faithful (hl_sort L) contents s"

definition helper_good ::
  "('w, 'k, 'n, 'm) helper_lib \<Rightarrow> 'k drive \<Rightarrow> (block_key \<Rightarrow> byte list) \<Rightarrow> ('w, 'k) helper \<Rightarrow> bool" where
  "helper_good L D contents h \<longleftrightarrow>
     (\<exists>p. h_session h = Some p \<and> session_good L D contents (ep_s p) \<and> outside_blocks (ep_s p) (ep_anchorPath p))"

lemma helper_good_drive: "helper_good L D contents h \<Longrightarrow> drive_session L D contents h"
  by (auto simp: helper_good_def drive_session_def session_good_def)

text \<open>Every regular file of the drive can be downloaded; the block cache holds pieces of these files.\<close>

definition drive_files :: "('w, 'k, 'n, 'm) helper_lib \<Rightarrow> 'k drive \<Rightarrow> (block_key \<Rightarrow> byte list) \<Rightarrow> bool" where
  "drive_files L D contents \<longleftrightarrow>
     (\<forall>path link kr. link_at (hl_api L) D (clean_names path) = Some (link, kr) \<longrightarrow> lk_Type link = LinkTypeFile \<longrightarrow>
        (\<exists>content. file_on_drive L D path link kr content contents))"

section \<open>Each step keeps it\<close>

lemma Stat_good:
  assumes "session_good L D contents s" "Stat (hl_api L) p s = (r, s')"
  shows "session_good L D contents s'" "s_blocks s' = s_blocks s"
    and "\<And>v. r = Inr v \<Longrightarrow> link_at (hl_api L) D (clean_names p) = Some v"
proof -
  have a: "answers (hl_api L) D (link_at (hl_api L) D (clean_names p)) (r, s')"
    using Stat_answers [of "hl_api L" D s p] assms by (simp add: session_good_def)
  have d: "s_disk s' = s_disk s" "s_blocks s' = s_blocks s"
    using Stat_disk [of "hl_api L" p s] assms(2) by simp_all
  show "session_good L D contents s'"
    using assms(1) answers_coherent [OF a] faithful_same [OF _ d] by (simp add: session_good_def)
  show "s_blocks s' = s_blocks s"
    by (rule d(2))
  show "link_at (hl_api L) D (clean_names p) = Some v" if "r = Inr v" for v
    using a that by (auto simp: answers_def split: option.splits)
qed

lemma ListChildren_good:
  assumes "session_good L D contents s" "ListChildren (hl_api L) p s = (r, s')"
  shows "session_good L D contents s'" "s_blocks s' = s_blocks s"
proof -
  have a: "coherent (hl_api L) D s'"
    using ListChildren_answers [of "hl_api L" D s p] assms by (auto simp: session_good_def answers_def)
  have d: "s_disk s' = s_disk s" "s_blocks s' = s_blocks s"
    using ListChildren_stats [of s "hl_api L" p] assms(2) by (simp_all add: same_stats_def)
  show "session_good L D contents s'" "s_blocks s' = s_blocks s"
    using assms(1) a d faithful_same [OF _ d] by (simp_all add: session_good_def)
qed

lemma read_body_good:
  assumes "drive_files L D contents" "session_good L D contents s" "0 \<le> sint off"
    and "read_body L (path, off, len) s = x"
  shows "\<exists>r s'. x = Some (r, s') \<and> session_good L D contents s' \<and> s_blocks s' = s_blocks s"
proof -
  obtain r s1 where s1: "Stat (hl_api L) path s = (r, s1)"
    by fastforce
  note good = Stat_good [OF assms(2) s1]
  show ?thesis
  proof (cases "\<exists>link kr. r = Inr (link, kr) \<and> lk_Type link = LinkTypeFile")
    case False
    then show ?thesis
      using assms(4) s1 good(1,2) by (auto simp: read_body_def split: sum.splits)
  next
    case True
    then obtain link kr where link: "r = Inr (link, kr)" "lk_Type link = LinkTypeFile"
      by blast
    then obtain content where "file_on_drive L D path link kr content contents"
      using assms(1) good(3) unfolding drive_files_def by blast
    then have "contents_of link content contents" "file_served (hl_api L) s1 link kr content"
      using good(1) coherent_session_of [of "hl_api L" D s1] by (auto simp: file_on_drive_def session_good_def)
    moreover have "cache_faithful (hl_sort L) contents s1"
      using good(1) by (simp add: session_good_def)
    ultimately obtain s2 where s2: "ReadFileContent (hl_api L) (hl_sort L) link kr (int (nat (sint off))) (sint len) s1 =
        Some (Inr (range_of content (nat (sint off)) (sint len) (page_limit (nat (sint off)))), s2)"
      "cache_faithful (hl_sort L) contents s2" "only_env s1 s2"
      using ReadFileContent_online [of "hl_sort L" contents s1 link content "hl_api L" kr "nat (sint off)" "sint len"] by blast
    have "session_good L D contents s2" "s_blocks s2 = s_blocks s"
      using good(1,2) s2(2,3) coherent_of_env [OF _ s2(3)] only_env_fields [OF s2(3)] by (auto simp: session_good_def)
    then show ?thesis
      using assms(3,4) s1 link s2(1) by (auto simp: read_body_def)
  qed
qed

lemma good_env:
  "session_good L D contents s \<Longrightarrow> only_env s s' \<Longrightarrow> cache_faithful (hl_sort L) contents s' \<Longrightarrow> session_good L D contents s'"
  using coherent_of_env [of "hl_api L" D s s'] by (simp add: session_good_def)

lemma good_on_world:
  assumes "session_good L D contents s" "on_world f s = (r, s')"
  shows "session_good L D contents s' \<and> s_blocks s' = s_blocks s"
  using assms good_env [OF assms(1), of s'] faithful_env [of "hl_sort L" contents s f r s'] on_world_env [OF assms(2)]
    only_env_fields [of s s']
  by (simp add: session_good_def)

lemma good_world_only: "session_good L D contents s \<Longrightarrow> world_only s s' \<Longrightarrow> session_good L D contents s' \<and> s_blocks s' = s_blocks s"
  by (auto simp: world_only_def session_good_def coherent_world cache_faithful_def)

lemma good_write:
  assumes "session_good L D contents s" "outside_blocks s p"
  shows "session_good L D contents (s\<lparr>s_disk := snd (os_WriteFile p data now (s_disk s))\<rparr>)"
  using good_env [OF assms(1) conjunct2 [OF only_env_update [OF only_env_refl]] faithful_write [OF _ assms(2)]] assms(1)
  by (simp add: session_good_def)

lemma outside_cong: "s_blocks s' = s_blocks s \<Longrightarrow> outside_blocks s' = outside_blocks s"
  by (simp add: outside_blocks_def fun_eq_iff)

lemma writeThumbnailCache_good:
  assumes "session_good L D contents s" "outside_blocks s p" "writeThumbnailCache A p data s = (ok, s')"
  shows "session_good L D contents s' \<and> s_blocks s' = s_blocks s"
proof (cases "os_MkdirAll (path_Dir p) (s_disk s)")
  case True
  obtain now s1 where s1: "on_world (time_Now A) s = (now, s1)"
    by fastforce
  note g = good_on_world [OF assms(1) s1]
  obtain b d where d: "os_WriteFile p data now (s_disk s1) = (b, d)"
    by fastforce
  show ?thesis
    using assms(3) True s1 g d good_write [of L D contents s1 p data now] assms(2) outside_cong [of s1 s]
    by (auto simp: writeThumbnailCache_def)
qed (use assms in \<open>simp add: writeThumbnailCache_def\<close>)

lemma FetchThumbnail_good:
  assumes "session_good L D contents s" "outside_blocks s (thumbnailCachePath base linkID revisionID)"
    and "FetchThumbnail H A base linkID revisionID s = (r, s')"
  shows "session_good L D contents s' \<and> s_blocks s' = s_blocks s"
proof (cases "file_at (s_disk s) (thumbnailCachePath base linkID revisionID)")
  case (Some info)
  obtain now s1 where s1: "on_world (time_Now A) s = (now, s1)"
    by fastforce
  note g = good_on_world [OF assms(1) s1]
  have "session_good L D contents (s1\<lparr>s_disk := os_Chtimes p now (s_disk s1)\<rparr>)" for p
    using g by (intro good_env [OF conjunct1 [OF g] conjunct2 [OF only_env_update [OF only_env_refl]] faithful_Chtimes])
      (simp add: session_good_def)
  then show ?thesis
    using assms(1,3) Some s1 g by (auto simp: FetchThumbnail_def Let_def split: if_splits)
next
  case None
  note w = writeThumbnailCache_good [where L = L and D = D and contents = contents and p = "thumbnailCachePath base linkID revisionID"]
  have good: "session_good L D contents t \<and> s_blocks t = s_blocks s \<and> outside_blocks t (thumbnailCachePath base linkID revisionID)"
    if "world_only s t" for t
    using good_world_only [OF assms(1) that] assms(2) outside_cong [of t s] by simp
  let ?path = "thumbnailCachePath base linkID revisionID"
  obtain r1 s1 where s1: "revisionThumbnailIDs H linkID revisionID (s_auth s) s = (r1, s1)"
    by fastforce
  note only1 = requests_world(1) [OF s1]
  show ?thesis
  proof (cases "linkID = [] \<or> revisionID = [] \<or> fst (s_auth s) = [] \<or> (\<exists>e. r1 = Inl e)")
    case True
    then show ?thesis
      using assms(1,3) None s1 good [OF only1] by (auto simp: FetchThumbnail_def Let_def split: if_splits)
  next
    case False
    then obtain ids where ids: "r1 = Inr ids"
      by (cases r1) auto
    obtain r2 s2 where s2: "thumbnailBlocks H ids (s_auth s) s1 = (r2, s2)"
      by fastforce
    note only2 = world_only_trans [OF only1 requests_world(2) [OF s2]]
    show ?thesis
    proof (cases "ids = [] \<or> (\<exists>e. r2 = Inl e) \<or> r2 = Inr []")
      case True
      obtain ok t where t: "writeThumbnailCache A ?path [] s1 = (ok, t)"
        by fastforce
      show ?thesis
        using True False assms(3) None s1 s2 ids t good [OF only1] good [OF only2] w [OF _ _ t]
        by (auto simp: FetchThumbnail_def Let_def split: if_splits)
    next
      case blocks: False
      then obtain block blocks where "r2 = Inr (block # blocks)"
        by (cases r2) (auto simp: neq_Nil_conv)
      moreover obtain r3 s3 where s3: "downloadThumbnailBlock H block s2 = (r3, s3)"
        by fastforce
      note only3 = world_only_trans [OF only2 requests_world(3) [OF s3]]
      moreover obtain ok t where t: "writeThumbnailCache A ?path (projr r3) s3 = (ok, t)"
        by fastforce
      ultimately show ?thesis
        using False blocks assms(3) None s1 s2 s3 ids good [OF only3] w [OF _ _ t]
        by (cases r3; cases ok) (auto simp: FetchThumbnail_def Let_def)
    qed
  qed
qed

text \<open>The poller on a drive that does not change: the events have no links, or say that all is out of date.\<close>

definition quiet :: "('w, 'k) proton_api \<Rightarrow> string \<Rightarrow> ('w, 'k) Session \<Rightarrow> bool" where
  "quiet A eventID s \<longleftrightarrow>
     (case fst (api_GetVolumeEvent A (s_volumeID s) eventID (s_world s)) of
        Inl err \<Rightarrow> True
      | Inr ev \<Rightarrow> ve_Events ev = [])"

definition poller_good ::
  "('w, 'k, 'n, 'm) helper_lib \<Rightarrow> 'k drive \<Rightarrow> (block_key \<Rightarrow> byte list) \<Rightarrow> ('w, 'k) EventPoller \<Rightarrow> bool" where
  "poller_good L D contents p \<longleftrightarrow> session_good L D contents (ep_s p) \<and> outside_blocks (ep_s p) (ep_anchorPath p)"

lemma poller_good_session:
  "poller_good L D contents p \<Longrightarrow> session_good L D contents s \<Longrightarrow> s_blocks s = s_blocks (ep_s p) \<Longrightarrow>
     poller_good L D contents (p\<lparr>ep_s := s\<rparr>)"
  using outside_cong [of s "ep_s p"] by (simp add: poller_good_def)

lemma saveAnchor_good:
  assumes "poller_good L D contents p"
  shows "poller_good L D contents (saveAnchor A eventID p)"
proof -
  obtain now s1 where s1: "on_world (time_Now A) (ep_s p) = (now, s1)"
    by fastforce
  have g: "session_good L D contents s1 \<and> s_blocks s1 = s_blocks (ep_s p)"
    using assms good_on_world [of L D contents, OF _ s1] by (simp add: poller_good_def)
  then have "outside_blocks s1 (ep_anchorPath p)"
    using assms outside_cong [of s1 "ep_s p"] by (simp add: poller_good_def)
  from good_write [OF _ this] g show ?thesis
    using assms s1 by (auto simp: saveAnchor_def intro!: poller_good_session)
qed

lemma refresh_all_good: "poller_good L D contents p \<Longrightarrow> poller_good L D contents (refresh_all p)"
  using poller_good_session [of L D contents p "invalidateAll (ep_s p)"] coherent_invalidateAll [of "hl_api L" D "ep_s p"]
    faithful_same [of "hl_sort L" contents "ep_s p" "invalidateAll (ep_s p)"]
  by (simp add: refresh_all_def poller_good_def session_good_def)

lemma poll_good:
  assumes "poller_good L D contents p" "quiet (hl_api L) eventID (ep_s p)"
    and "poll (hl_api L) R eventID p = Some (e, p')"
  shows "poller_good L D contents p'"
proof -
  obtain r s1 where s1: "on_world (api_GetVolumeEvent (hl_api L) (s_volumeID (ep_s p)) eventID) (ep_s p) = (r, s1)"
    by fastforce
  obtain r2 s2 where s2: "on_world (api_GetLatestVolumeEventID (hl_api L) (s_volumeID s1)) s1 = (r2, s2)"
    by fastforce
  have g1: "session_good L D contents s1 \<and> s_blocks s1 = s_blocks (ep_s p)"
    using assms(1) good_on_world [of L D contents, OF _ s1] by (simp add: poller_good_def)
  then have g2: "session_good L D contents s2 \<and> s_blocks s2 = s_blocks (ep_s p)"
    using good_on_world [of L D contents, OF _ s2] by simp
  have p: "poller_good L D contents (p\<lparr>ep_s := s1\<rparr>)" "poller_good L D contents (p\<lparr>ep_s := s2\<rparr>)"
    using poller_good_session [OF assms(1)] g1 g2 by simp_all
  have r: "\<And>ev. r = Inr ev \<Longrightarrow> ve_Events ev = []"
    using assms(2) on_world_env [OF s1] by (simp add: quiet_def)
  show ?thesis
    using assms(3) s1 s2 p r
    by (auto simp: poll_def split: sum.splits if_splits intro!: saveAnchor_good refresh_all_good)
qed

section \<open>Histories\<close>

text \<open>
  The requests: listings, lookups and draining the queue with any parameters, reads from an offset that
  is not negative, thumbnails whose file does not lie in the block cache; quiet ticks; and the client's
  auth handler, called with a new token.
\<close>

inductive helper_run ::
  "('w, 'k, 'n, 'm) helper_lib \<Rightarrow> (('w, 'k) helper \<Rightarrow> (go_error + json option) \<times> ('w, 'k) helper)
   \<Rightarrow> ('w, 'k) helper \<Rightarrow> ('w, 'k) helper \<Rightarrow> bool"
  for L :: "('w, 'k, 'n, 'm) helper_lib" and crash and h0 :: "('w, 'k) helper" where
  start: "helper_run L crash h0 h0"
| lookup: "helper_run L crash h0 h \<Longrightarrow> m \<in> {''ListDir'', ''Stat'', ''GetEvents''} \<Longrightarrow>
    helper_handlers L crash m = Some f \<Longrightarrow> f raw h = (r, h') \<Longrightarrow> helper_run L crash h0 h'"
| read: "helper_run L crash h0 h \<Longrightarrow> helper_handlers L crash ''ReadFile'' = Some f \<Longrightarrow>
    f (read_params path off len) h = (r, h') \<Longrightarrow> 0 \<le> sint off \<Longrightarrow> helper_run L crash h0 h'"
| thumbnail: "helper_run L crash h0 h \<Longrightarrow> helper_handlers L crash ''FetchThumbnail'' = Some f \<Longrightarrow>
    f raw h = (r, h') \<Longrightarrow>
    \<forall>p linkID revisionID. h_session h = Some p \<longrightarrow> unmarshal_params L thumbnail_param raw = Inr (linkID, revisionID) \<longrightarrow>
      outside_blocks (ep_s p) (thumbnailCachePath (cacheBaseFor (hl_mgr L) (ep_s p)) linkID revisionID) \<Longrightarrow>
    helper_run L crash h0 h'"
| tick: "helper_run L crash h0 h \<Longrightarrow>
    \<forall>p eventID. h_session h = Some p \<longrightarrow> h_anchor h = Some eventID \<longrightarrow> quiet (hl_api L) eventID (ep_s p) \<Longrightarrow>
    helper_tick L h = Some h' \<Longrightarrow> helper_run L crash h0 h'"
| refreshed: "helper_run L crash h0 h \<Longrightarrow> h_session h = Some p \<Longrightarrow>
    helper_run L crash h0 (h\<lparr>h_session := Some (p\<lparr>ep_s := setAuth uid accessToken (ep_s p)\<rparr>)\<rparr>)"

lemma helper_good_poller: "helper_good L D contents h \<longleftrightarrow> (\<exists>p. h_session h = Some p \<and> poller_good L D contents p)"
  by (simp add: helper_good_def poller_good_def)

lemma with_session_good:
  assumes "helper_good L D contents h" "with_session L f body raw h = (r, h')"
    and "\<And>p params r s'. h_session h = Some p \<Longrightarrow> session_good L D contents (ep_s p) \<Longrightarrow>
           unmarshal_params L f raw = Inr params \<Longrightarrow> body params (ep_s p) = (r, s') \<Longrightarrow>
           session_good L D contents s' \<and> s_blocks s' = s_blocks (ep_s p)"
  shows "helper_good L D contents h'"
proof -
  obtain p where p: "h_session h = Some p" "poller_good L D contents p"
    using assms(1) by (auto simp: helper_good_poller)
  show ?thesis
  proof (cases "unmarshal_params L f raw")
    case (Inl e)
    then show ?thesis
      using assms(1,2) p by (auto simp: with_session_def requireSession_def)
  next
    case (Inr params)
    obtain x s' where x: "body params (ep_s p) = (x, s')"
      by fastforce
    from assms(3) [OF p(1) _ Inr x] p(2) have "poller_good L D contents (p\<lparr>ep_s := s'\<rparr>)"
      by (intro poller_good_session) (simp_all add: poller_good_def)
    then show ?thesis
      using assms(2) with_session_some [where body = body, OF p(1) Inr x] by (auto simp: helper_good_poller)
  qed
qed

lemma GetEvents_good:
  assumes "helper_good L D contents h" "handle_GetEvents raw h = (r, h')"
  shows "helper_good L D contents h'"
proof -
  obtain p where p: "h_session h = Some p" "poller_good L D contents p"
    using assms(1) by (auto simp: helper_good_poller)
  have "poller_good L D contents (snd (Drain p))"
    using p(2) by (simp add: Drain_def poller_good_def)
  then show ?thesis
    using assms(2) p(1) by (auto simp: handle_GetEvents_def requireSession_def helper_good_poller split: prod.splits)
qed

lemma lookup_good:
  assumes "helper_good L D contents h" "m \<in> {''ListDir'', ''Stat'', ''GetEvents''}"
    and "helper_handlers L crash m = Some f" "f raw h = (r, h')"
  shows "helper_good L D contents h'"
proof -
  consider "m = ''ListDir''" "f = handle_ListDir L" | "m = ''Stat''" "f = handle_Stat L"
    | "m = ''GetEvents''" "f = handle_GetEvents"
    using assms(2,3) by (auto simp: helper_handlers_lookup)
  then show ?thesis
  proof cases
    case 1
    have "session_good L D contents s' \<and> s_blocks s' = s_blocks s"
      if "session_good L D contents s" "list_body L path s = (x, s')" for path s x s'
      using that ListChildren_good [OF that(1)] by (auto simp: list_body_def split: prod.splits sum.splits)
    then show ?thesis
      using with_session_good [OF assms(1) assms(4) [unfolded 1(2) handle_ListDir_def]] by blast
  next
    case 2
    have "session_good L D contents s' \<and> s_blocks s' = s_blocks s"
      if "session_good L D contents s" "stat_body L path s = (x, s')" for path s x s'
      using that Stat_good [OF that(1)] by (auto simp: stat_body_def Let_def split: prod.splits sum.splits)
    then show ?thesis
      using with_session_good [OF assms(1) assms(4) [unfolded 2(2) handle_Stat_def]] by blast
  next
    case 3
    then show ?thesis
      using GetEvents_good [OF assms(1)] assms(4) by blast
  qed
qed

lemma read_good:
  assumes "drive_files L D contents" "helper_good L D contents h" "0 \<le> sint off"
    and "or_crash crash (handle_ReadFile L) (read_params path off len) h = (r, h')"
  shows "helper_good L D contents h'"
proof -
  obtain p where p: "h_session h = Some p" "poller_good L D contents p"
    using assms(2) by (auto simp: helper_good_poller)
  then obtain x s' where s': "read_body L (path, off, len) (ep_s p) = Some (x, s')" "session_good L D contents s'"
      "s_blocks s' = s_blocks (ep_s p)"
    using read_body_good [OF assms(1) _ assms(3) refl, of "ep_s p" path len] by (auto simp: poller_good_def)
  then show ?thesis
    using assms(4) p poller_good_session [OF p(2) s'(2,3)]
    by (auto simp: or_crash_def handle_ReadFile_def requireSession_def helper_good_poller)
qed

lemma thumbnail_good:
  assumes "helper_good L D contents h" "handle_FetchThumbnail L raw h = (r, h')"
    and "\<forall>p linkID revisionID. h_session h = Some p \<longrightarrow> unmarshal_params L thumbnail_param raw = Inr (linkID, revisionID) \<longrightarrow>
      outside_blocks (ep_s p) (thumbnailCachePath (cacheBaseFor (hl_mgr L) (ep_s p)) linkID revisionID)"
  shows "helper_good L D contents h'"
proof (rule with_session_good [OF assms(1) assms(2) [unfolded handle_FetchThumbnail_def]])
  fix p params x s'
  assume h: "h_session h = Some p" and good: "session_good L D contents (ep_s p)"
    and params: "unmarshal_params L thumbnail_param raw = Inr params"
    and body: "(case params of (linkID, revisionID) \<Rightarrow> \<lambda>s.
         case FetchThumbnail (hl_http L) (hl_api L) (cacheBaseFor (hl_mgr L) s) linkID revisionID s of
           (Inl err, s) \<Rightarrow> (Inr (Some (marshal_FetchThumbnailResult [])), s)
         | (Inr thumbPath, s) \<Rightarrow> (Inr (Some (marshal_FetchThumbnailResult thumbPath)), s)) (ep_s p) = (x, s')"
  obtain linkID revisionID where ids: "params = (linkID, revisionID)"
    by (cases params)
  then have "outside_blocks (ep_s p) (thumbnailCachePath (cacheBaseFor (hl_mgr L) (ep_s p)) linkID revisionID)"
    using assms(3) h params by blast
  from FetchThumbnail_good [OF good this] show "session_good L D contents s' \<and> s_blocks s' = s_blocks (ep_s p)"
    using body ids by (auto split: prod.splits sum.splits)
qed

lemma tick_good:
  assumes "helper_good L D contents h" "helper_tick L h = Some h'"
    and "\<forall>p eventID. h_session h = Some p \<longrightarrow> h_anchor h = Some eventID \<longrightarrow> quiet (hl_api L) eventID (ep_s p)"
  shows "helper_good L D contents h'"
proof -
  obtain p where p: "h_session h = Some p" "poller_good L D contents p"
    using assms(1) by (auto simp: helper_good_poller)
  show ?thesis
    using assms p poll_good [OF p(2)]
    by (cases "h_anchor h") (auto simp: helper_tick_def helper_good_poller)
qed

lemma refreshed_good:
  assumes "helper_good L D contents h" "h_session h = Some p"
  shows "helper_good L D contents (h\<lparr>h_session := Some (p\<lparr>ep_s := setAuth uid accessToken (ep_s p)\<rparr>)\<rparr>)"
proof -
  have "session_good L D contents (setAuth uid accessToken (ep_s p))"
    using assms faithful_same [of "hl_sort L" contents "ep_s p" "setAuth uid accessToken (ep_s p)"]
    by (auto simp: helper_good_def session_good_def coherent_def caches_coherent_def session_of_def setAuth_def)
  moreover have "s_blocks (setAuth uid accessToken (ep_s p)) = s_blocks (ep_s p)"
    by (simp add: setAuth_def)
  ultimately show ?thesis
    using assms poller_good_session [of L D contents p] by (auto simp: helper_good_poller)
qed

lemma helper_run_good:
  assumes "helper_run L crash h0 h" "drive_files L D contents" "helper_good L D contents h0"
  shows "helper_good L D contents h"
  using assms(1)
proof induction
  case start
  show ?case by (rule assms(3))
next
  case (lookup h m f raw r h')
  then show ?case by (blast intro: lookup_good)
next
  case (read h f path off len r h')
  then show ?case using read_good [OF assms(2)] by (auto simp: helper_handlers_lookup)
next
  case (thumbnail h f raw r h')
  then show ?case using thumbnail_good by (auto simp: helper_handlers_lookup)
next
  case (tick h h')
  then show ?case by (blast intro: tick_good)
next
  case (refreshed h p uid accessToken)
  then show ?case using refreshed_good by blast
qed

section \<open>Properties\<close>

text \<open>
  C6. No history of the helper spoils a read: from a session that agrees with an unchanging drive (as
  a resumption leaves it), after any sequence of lookups, listings, reads, thumbnails, drained
  events, quiet ticks and refreshed tokens, whether they succeeded or not, the session still agrees with the drive, and
  consecutive read jobs of the backend on any file of the drive report exactly the first bytes of
  its content.
\<close>

theorem no_history_spoils_reads:
  assumes "drive_files L D contents" "helper_good L D contents h0" "helper_run L crash h0 (net_helper w)"
    and "file_on_drive L D path link kr content contents" "length content < 2 ^ 63"
    and "backend_connected J (hl_json L) (helper_handlers L crash) path k (length ns) self w"
    and "\<forall>n \<in> set ns. n \<le> 499 * 4194304"
  shows "drive_session L D contents (net_helper w) \<and>
    (\<exists>st. read_jobs (read_job J (hl_json L) (helper_handlers L crash) k) \<lparr>ph_path = path, ph_offset = 0\<rparr> ns (self, w) =
      Some (take (sum_list ns) content,
            \<lparr>ph_path = path, ph_offset = of_nat (min (sum_list ns) (length content))\<rparr>, st))"
proof -
  have session: "drive_session L D contents (net_helper w)"
    by (rule helper_good_drive [OF helper_run_good [OF assms(3,1,2)]])
  with reads_through [OF assms(4) session assms(6,5,7)] show ?thesis
    by blast
qed

lemma sample_drive_files: "drive_files sample_lib file_drive sample_contents"
  unfolding drive_files_def
proof (intro allI impI)
  fix path link kr
  assume at: "link_at (hl_api sample_lib) file_drive (clean_names path) = Some (link, kr)" and regular: "lk_Type link = LinkTypeFile"
  have child: "l = sample_file" if "named_child A k a n (dr_children file_drive i) = Some l" for A :: "(int, unit) proton_api" and k a n i l
    using that by (auto simp: named_child_def file_drive_def find_Some_iff split: if_splits)
  have "clean_names path \<noteq> []"
    using at regular by (auto simp: link_at_def file_drive_def root_folder_def)
  then have "link = sample_file"
    using at child by (auto simp: link_at_def split: option.splits)
  then show "\<exists>content. file_on_drive sample_lib file_drive path link kr content sample_contents"
    using sample_file_on_drive at by (auto simp: file_on_drive_def)
qed

lemma sample_helper_good: "helper_good sample_lib file_drive sample_contents (helper_of sample_file_session)"
proof -
  have "key_path sample_bc k \<noteq> ''/c/anchor''" if "key_ok k" for k
  proof -
    have "''/c/anchor'' = Go_Path.abs_path [''c'', ''anchor'']"
      by (simp add: Go_Path.abs_path_def)
    moreover have "key_path sample_bc k = Go_Path.abs_path ([''c''] @ [fst k, fst (snd k), Itoa (snd (snd k))])"
      by (rule key_path_abs [OF sample_bc_at that])
    ultimately show ?thesis
      using that Itoa_name by (auto simp: abs_path_inj key_ok_def name_ok_def)
  qed
  then have "outside_blocks sample_file_session ''/c/anchor''"
    by (simp add: outside_blocks_def sample_file_session_def)
  then show ?thesis
    using sample_drive_session
    by (auto simp: helper_good_def drive_session_def session_good_def helper_of_def)
qed

theorem no_history_spoils_reads_witness:
  "\<exists>st. read_jobs (read_job sample_json sample_go (helper_handlers sample_lib no_crash) None)
      \<lparr>ph_path = ''/f'', ph_offset = 0\<rparr> [2, 2, 2]
      (g_vfs_backend_proton_init\<lparr>be_rpc := Some sample_rpc\<rparr>,
       helper_net (snd (handle_ListDir sample_lib (path_params ''/'') (helper_of sample_file_session)))) =
    Some ([7, 8, 9], \<lparr>ph_path = ''/f'', ph_offset = 3\<rparr>, st)"
proof -
  let ?h = "snd (handle_ListDir sample_lib (path_params ''/'') (helper_of sample_file_session))"
  have G: "hl_json sample_lib = sample_go"
    by (simp add: sample_lib_def)
  have run: "helper_run sample_lib no_crash (helper_of sample_file_session) (net_helper (helper_net ?h))"
    using helper_run.lookup [OF helper_run.start, of "''ListDir''" sample_lib no_crash "handle_ListDir sample_lib"
        "path_params ''/''" "helper_of sample_file_session" "fst (handle_ListDir sample_lib (path_params ''/'') (helper_of sample_file_session))" ?h]
    by (simp add: helper_handlers_lookup helper_net_def)
  have "backend_connected sample_json (hl_json sample_lib) (helper_handlers sample_lib no_crash) ''/f'' None (length [2, 2, 2 :: nat])
      (g_vfs_backend_proton_init\<lparr>be_rpc := Some sample_rpc\<rparr>) (helper_net ?h)"
    using sample_backend_connected unfolding G by (simp add: numeral_3_eq_3)
  from conjunct2 [OF no_history_spoils_reads [OF sample_drive_files sample_helper_good run sample_file_on_drive _ this]] show ?thesis
    unfolding G by (simp add: Range_Reads.sample_content_def)
qed

end
