(* ===== verification/Drive_Changes.thy ===== *)
theory Drive_Changes
  imports Helper_Runs
begin

text \<open>
  A drive that changes: what the poller makes of an event when the session agrees with the drive as it
  was and the API answers from the drive as it is. Shown: after a refresh, and after the creation, the
  replacement or the deletion of a link that the session can place, the session agrees with the new
  drive; and what goes wrong where a folder itself is moved.
\<close>

section \<open>Changes of a drive\<close>

text \<open>The children of one folder change; the share and its keys stay.\<close>

definition same_elsewhere :: "'k drive \<Rightarrow> 'k drive \<Rightarrow> string set \<Rightarrow> bool" where
  "same_elsewhere D D' is \<longleftrightarrow>
     dr_shareID D' = dr_shareID D \<and> dr_rootID D' = dr_rootID D \<and> dr_addrKR D' = dr_addrKR D \<and>
     dr_shareKR D' = dr_shareKR D \<and> dr_rootKR D' = dr_rootKR D \<and> dr_rootLink D' = dr_rootLink D \<and>
     (\<forall>i. i \<notin> is \<longrightarrow> dr_children D' i = dr_children D i)"

text \<open>No two links of the folder have the same name, whoever reads it.\<close>

definition other_name :: "('w, 'k) proton_api \<Rightarrow> 'k \<Rightarrow> link \<Rightarrow> link \<Rightarrow> bool" where
  "other_name A addrKR l c \<longleftrightarrow> (\<forall>kr n. GetName A l kr addrKR = Inr n \<longrightarrow> GetName A c kr addrKR \<noteq> Inr n)"

text \<open>
  A link without children is put into the folder, with a name that was free; read the other way, it is
  removed.
\<close>

definition link_added :: "('w, 'k) proton_api \<Rightarrow> 'k drive \<Rightarrow> 'k drive \<Rightarrow> string \<Rightarrow> link \<Rightarrow> bool" where
  "link_added A D D' parentID l \<longleftrightarrow>
     same_elsewhere D D' {parentID} \<and> lk_LinkID l \<noteq> parentID \<and> dr_children D (lk_LinkID l) = [] \<and>
     (\<exists>xs ys. dr_children D parentID = xs @ ys \<and> dr_children D' parentID = xs @ l # ys \<and>
        (\<forall>c \<in> set (xs @ ys). other_name A (dr_addrKR D) l c \<and> other_name A (dr_addrKR D) c l))"

text \<open>A link is replaced by one with the same id, name and keys, as when a file has a new revision.\<close>

definition link_replaced :: "('w, 'k) proton_api \<Rightarrow> 'k drive \<Rightarrow> 'k drive \<Rightarrow> string \<Rightarrow> link \<Rightarrow> link \<Rightarrow> bool" where
  "link_replaced A D D' parentID l l' \<longleftrightarrow>
     same_elsewhere D D' {parentID} \<and> lk_LinkID l' = lk_LinkID l \<and>
     (\<forall>kr. GetName A l' kr (dr_addrKR D) = GetName A l kr (dr_addrKR D) \<and>
           GetKeyRing A l' kr (dr_addrKR D) = GetKeyRing A l kr (dr_addrKR D)) \<and>
     (\<exists>xs ys. dr_children D parentID = xs @ l # ys \<and> dr_children D' parentID = xs @ l' # ys)"

section \<open>Lookups before and after\<close>

lemma named_child_insert:
  assumes "\<forall>c \<in> set (xs @ ys). other_name A addrKR c l"
  shows "named_child A kr addrKR n (xs @ ys) = Some c \<Longrightarrow> named_child A kr addrKR n (xs @ l # ys) = Some c"
    and "named_child A kr addrKR n (xs @ l # ys) = Some c \<Longrightarrow> c \<noteq> l \<Longrightarrow> named_child A kr addrKR n (xs @ ys) = Some c"
proof -
  have find: "List.find P (us @ vs) = (case List.find P us of None \<Rightarrow> List.find P vs | Some x \<Rightarrow> Some x)" for P :: "link \<Rightarrow> bool" and us vs
    by (induction us) auto
  show "named_child A kr addrKR n (xs @ l # ys) = Some c" if "named_child A kr addrKR n (xs @ ys) = Some c"
  proof -
    have "c \<in> set zs \<and> GetName A c kr addrKR = Inr n" if "List.find (\<lambda>c. GetName A c kr addrKR = Inr n) zs = Some c" for zs
      using that by (induction zs) (auto split: if_splits)
    then have "c \<in> set (xs @ ys)" "GetName A c kr addrKR = Inr n"
      using that unfolding named_child_def by blast+
    then have "GetName A l kr addrKR \<noteq> Inr n"
      using assms unfolding other_name_def by blast
    then show ?thesis
      using that by (auto simp: named_child_def find split: option.splits)
  qed
  show "named_child A kr addrKR n (xs @ ys) = Some c" if "named_child A kr addrKR n (xs @ l # ys) = Some c" "c \<noteq> l"
    using that by (auto simp: named_child_def find split: option.splits if_splits)
qed

lemma named_child_replace:
  assumes "GetName A l' kr addrKR = GetName A l kr addrKR"
  shows "rel_option (\<lambda>c c'. c' = c \<or> c = l \<and> c' = l')
    (named_child A kr addrKR n (xs @ l # ys)) (named_child A kr addrKR n (xs @ l' # ys))"
proof (induction xs)
  case Nil
  have "rel_option (\<lambda>c c'. c' = c \<or> c = l \<and> c' = l') x x" for x
    by (cases x) auto
  with assms show ?case
    by (simp add: named_child_def)
qed (auto simp: named_child_def)

text \<open>Walks past an added link.\<close>

lemma link_addedD:
  assumes "link_added A D D' parentID l"
  shows "dr_rootID D' = dr_rootID D" "dr_addrKR D' = dr_addrKR D" "dr_shareKR D' = dr_shareKR D"
    "dr_rootKR D' = dr_rootKR D" "dr_rootLink D' = dr_rootLink D" "dr_shareID D' = dr_shareID D"
    "i \<noteq> parentID \<Longrightarrow> dr_children D' i = dr_children D i" "dr_children D' (lk_LinkID l) = []"
  using assms by (auto simp: link_added_def same_elsewhere_def)

lemma named_child_added:
  assumes "link_added A D D' parentID l"
  shows "named_child A kr (dr_addrKR D) n (dr_children D i) = Some c \<Longrightarrow>
      named_child A kr (dr_addrKR D) n (dr_children D' i) = Some c"
    and "named_child A kr (dr_addrKR D) n (dr_children D' i) = Some c \<Longrightarrow>
      c = l \<and> i = parentID \<or> named_child A kr (dr_addrKR D) n (dr_children D i) = Some c"
proof -
  from assms obtain xs ys where c: "dr_children D parentID = xs @ ys" "dr_children D' parentID = xs @ l # ys"
      "\<forall>c \<in> set (xs @ ys). other_name A (dr_addrKR D) c l"
    unfolding link_added_def by blast
  note insert = named_child_insert [OF c(3), of kr n c]
  show "named_child A kr (dr_addrKR D) n (dr_children D i) = Some c \<Longrightarrow>
      named_child A kr (dr_addrKR D) n (dr_children D' i) = Some c"
    using insert(1) link_addedD(7) [OF assms, of i] c by (cases "i = parentID") auto
  show "named_child A kr (dr_addrKR D) n (dr_children D' i) = Some c \<Longrightarrow>
      c = l \<and> i = parentID \<or> named_child A kr (dr_addrKR D) n (dr_children D i) = Some c"
    using insert(2) link_addedD(7) [OF assms, of i] c by (cases "i = parentID"; cases "c = l") auto
qed

lemma walk_added:
  assumes "link_added A D D' parentID l"
  shows "walk_from A D at ns = Some r \<Longrightarrow> walk_from A D' at ns = Some r"
proof (induction ns arbitrary: at)
  case (Cons n ns)
  then obtain c kr where "named_child A (snd at) (dr_addrKR D) n (dr_children D (fst at)) = Some c"
      "GetKeyRing A c (snd at) (dr_addrKR D) = Inr kr" "walk_from A D (lk_LinkID c, kr) ns = Some r"
    by (auto split: option.splits sum.splits)
  with Cons.IH [of "(lk_LinkID c, kr)"] named_child_added(1) [OF assms] show ?case
    by (simp add: link_addedD(2) [OF assms])
qed simp

lemma walk_added_back:
  assumes "link_added A D D' parentID l"
  shows "walk_from A D' at ns = Some r \<Longrightarrow> fst r = lk_LinkID l \<or> walk_from A D at ns = Some r"
proof (induction ns arbitrary: at)
  case (Cons n ns)
  note D' = link_addedD [OF assms]
  from Cons.prems obtain c kr where c: "named_child A (snd at) (dr_addrKR D) n (dr_children D' (fst at)) = Some c"
      "GetKeyRing A c (snd at) (dr_addrKR D) = Inr kr" "walk_from A D' (lk_LinkID c, kr) ns = Some r"
    by (auto simp: D'(2) split: option.splits sum.splits)
  show ?case
  proof (cases "c = l")
    case True
    with c(3) D'(8) have "fst r = lk_LinkID l"
      by (cases ns) (auto simp: named_child_def split: option.splits)
    then show ?thesis ..
  next
    case False
    with named_child_added(2) [OF assms c(1)] Cons.IH [OF c(3)] c(2) show ?thesis
      by auto
  qed
qed simp

lemma link_at_added:
  assumes "link_added A D D' parentID l"
  shows "link_at A D ns = Some v \<Longrightarrow> link_at A D' ns = Some v"
proof (cases "ns = []")
  case False
  note D' = link_addedD [OF assms]
  assume "link_at A D ns = Some v"
  with False obtain i kr c where c: "walk A D (butlast ns) = Some (i, kr)" "v = (c, kr)"
      "named_child A kr (dr_addrKR D) (last ns) (dr_children D i) = Some c"
    by (auto simp: link_at_def split: option.splits)
  from walk_added [OF assms c(1)] named_child_added(1) [OF assms c(3)] c(2) False show ?thesis
    by (simp add: link_at_def D')
qed (simp add: link_at_def link_addedD [OF assms])

text \<open>Walks through a replaced link.\<close>

lemma link_replacedD:
  assumes "link_replaced A D D' parentID l l'"
  shows "dr_rootID D' = dr_rootID D" "dr_addrKR D' = dr_addrKR D" "dr_shareKR D' = dr_shareKR D"
    "dr_rootKR D' = dr_rootKR D" "dr_rootLink D' = dr_rootLink D" "dr_shareID D' = dr_shareID D"
    "i \<noteq> parentID \<Longrightarrow> dr_children D' i = dr_children D i" "lk_LinkID l' = lk_LinkID l"
  using assms by (auto simp: link_replaced_def same_elsewhere_def)

lemma named_child_replaced:
  assumes "link_replaced A D D' parentID l l'"
  shows "rel_option (\<lambda>c c'. c' = c \<or> c = l \<and> c' = l' \<and> i = parentID)
    (named_child A kr (dr_addrKR D) n (dr_children D i)) (named_child A kr (dr_addrKR D) n (dr_children D' i))"
proof (cases "i = parentID")
  case True
  from assms obtain xs ys where "dr_children D parentID = xs @ l # ys" "dr_children D' parentID = xs @ l' # ys"
      "\<And>kr. GetName A l' kr (dr_addrKR D) = GetName A l kr (dr_addrKR D)"
    unfolding link_replaced_def by blast
  with True named_child_replace [of A l' kr "dr_addrKR D" l n xs ys] show ?thesis
    by simp
next
  case False
  have "rel_option (\<lambda>c c'. c' = c \<or> c = l \<and> c' = l' \<and> i = parentID) x x" for x
    by (cases x) auto
  with link_replacedD(7) [OF assms False] show ?thesis
    by simp
qed

lemma walk_replaced:
  assumes "link_replaced A D D' parentID l l'"
  shows "walk_from A D' at ns = walk_from A D at ns"
proof (induction ns arbitrary: at)
  case (Cons n ns)
  have kr: "GetKeyRing A l' kr (dr_addrKR D) = GetKeyRing A l kr (dr_addrKR D)" for kr
    using assms by (simp add: link_replaced_def)
  from named_child_replaced [OF assms, of "fst at" "snd at" n] Cons.IH show ?case
    by (auto simp: link_replacedD(2,8) [OF assms] kr rel_option_iff split: option.splits sum.splits)
qed simp

lemma link_at_replaced:
  assumes "link_replaced A D D' parentID l l'" "link_at A D ns = Some v"
    and "\<And>ms n. ns = ms @ [n] \<Longrightarrow> fst v = l \<Longrightarrow> (\<forall>kr. walk A D ms \<noteq> Some (parentID, kr))"
  shows "link_at A D' ns = Some v"
proof (cases "ns = []")
  case False
  note D' = link_replacedD [OF assms(1)]
  from assms(2) False obtain i kr c where c: "walk A D (butlast ns) = Some (i, kr)" "v = (c, kr)"
      "named_child A kr (dr_addrKR D) (last ns) (dr_children D i) = Some c"
    by (auto simp: link_at_def split: option.splits)
  have "\<not> (c = l \<and> i = parentID)"
    using assms(3) [of "butlast ns" "last ns"] False c by auto
  with named_child_replaced [OF assms(1), of i kr "last ns"] c
  have "named_child A kr (dr_addrKR D) (last ns) (dr_children D' i) = Some c"
    by (auto simp: rel_option_iff split: option.splits)
  with c False show ?thesis
    by (simp add: link_at_def D' walk_replaced [OF assms(1)])
qed (use assms(2) link_replacedD [OF assms(1)] in \<open>simp add: link_at_def\<close>)

section \<open>From the drive as it was to the drive as it is\<close>

text \<open>Everything that the caches hold is still so; the keys of a new drive only matter where it can be walked.\<close>

lemma coherent_transfer:
  assumes "caches_coherent A D s" "serves_drive A D'" "same_elsewhere D D' is" "keys_coherent A D' (s_nodeKRs s)"
    and "\<And>q i kr. s_pathLinks s q = Some i \<Longrightarrow> walk A D (clean_names q) = Some (i, kr) \<Longrightarrow>
      \<exists>kr'. walk A D' (clean_names q) = Some (i, kr')"
    and "\<And>q i v. GetListStale q (s_meta s) = Some v \<Longrightarrow> walk A D (clean_names q) = Some (i, snd v) \<Longrightarrow>
      walk A D' (clean_names q) = Some (i, snd v) \<and> dr_children D' i = dr_children D i"
    and "\<And>q v. GetStatStale q (s_meta s) = Some v \<Longrightarrow> link_at A D (clean_names q) = Some v \<Longrightarrow>
      link_at A D' (clean_names q) = Some v"
  shows "coherent A D' s"
proof -
  have "session_of D' s" "\<forall>kr. s_shareKR s = Some kr \<longrightarrow> kr = dr_shareKR D'"
    using assms(1,3) by (simp_all add: caches_coherent_def session_of_def same_elsewhere_def)
  moreover have "paths_coherent A D' (s_pathLinks s)"
    unfolding paths_coherent_def using assms(1,5) unfolding caches_coherent_def paths_coherent_def by blast
  moreover have "meta_coherent A D' (s_meta s)"
    unfolding meta_coherent_def
  proof (intro conjI allI impI)
    fix q v
    assume v: "GetListStale q (s_meta s) = Some v"
    with cached_list [OF assms(1)] obtain i where "walk A D (clean_names q) = Some (i, snd v)" "fst v = dr_children D i"
      by blast
    with assms(6) [OF v] show "\<exists>i. walk A D' (clean_names q) = Some (i, snd v) \<and> fst v = dr_children D' i"
      by auto
  next
    fix q v
    assume v: "GetStatStale q (s_meta s) = Some v"
    with assms(7) [OF v] cached_stat [OF assms(1)] show "link_at A D' (clean_names q) = Some v"
      by blast
  qed
  ultimately show ?thesis
    using assms(2,4) by (simp add: coherent_def caches_coherent_def)
qed

text \<open>Each link has one place in the drive, and the paths of the caches are clean.\<close>

definition one_place :: "('w, 'k) proton_api \<Rightarrow> 'k drive \<Rightarrow> bool" where
  "one_place A D \<longleftrightarrow> lk_LinkID (dr_rootLink D) = dr_rootID D \<and>
     (\<forall>ns ms c kr c' kr'. link_at A D ns = Some (c, kr) \<longrightarrow> link_at A D ms = Some (c', kr') \<longrightarrow>
        lk_LinkID c = lk_LinkID c' \<longrightarrow> ns = ms)"

definition clean_keys :: "('w, 'k) Session \<Rightarrow> bool" where
  "clean_keys s \<longleftrightarrow>
     (\<forall>q. s_pathLinks s q \<noteq> None \<or> GetListStale q (s_meta s) \<noteq> None \<or> GetStatStale q (s_meta s) \<noteq> None \<longrightarrow>
        q = Go_Path.abs_path (clean_names q))"

lemma link_of_walk:
  assumes "lk_LinkID (dr_rootLink D) = dr_rootID D" "walk A D ns = Some (i, kr)"
  shows "\<exists>c pkr. link_at A D ns = Some (c, pkr) \<and> lk_LinkID c = i"
proof (cases ns rule: rev_cases)
  case Nil
  with assms show ?thesis
    by (simp add: link_at_def)
next
  case (snoc ms n)
  have "walk A D (ms @ [n]) = Some (i, kr)"
    using assms(2) snoc by simp
  then obtain j kj where at: "walk A D ms = Some (j, kj)" "walk_from A D (j, kj) [n] = Some (i, kr)"
    unfolding walk_append by (auto simp del: walk_from.simps simp: bind_eq_Some_conv)
  then obtain c where c: "named_child A kj (dr_addrKR D) n (dr_children D j) = Some c" "lk_LinkID c = i"
    by (auto split: option.splits sum.splits)
  have "link_at A D (ms @ [n]) = Some (c, kj)"
    using at(1) c(1) by (simp add: link_at_def)
  with snoc c(2) show ?thesis
    by blast
qed

lemma one_placeD:
  assumes "one_place A D" "link_at A D ns = Some (l, pkr)"
  shows "link_at A D ms = Some (l, kr) \<Longrightarrow> ms = ns"
    and "walk A D ms = Some (lk_LinkID l, kr) \<Longrightarrow> ms = ns"
proof -
  have place: "ms = ns" if "link_at A D ms = Some (c, k)" "lk_LinkID c = lk_LinkID l" for c k
    using assms that unfolding one_place_def by blast
  show "link_at A D ms = Some (l, kr) \<Longrightarrow> ms = ns"
    by (rule place) simp_all
  show "walk A D ms = Some (lk_LinkID l, kr) \<Longrightarrow> ms = ns"
    using link_of_walk [of D A ms "lk_LinkID l" kr] assms(1) place by (auto simp: one_place_def)
qed

text \<open>What the session holds once a path has been dropped: all but the path, its folder's listing and what lies below.\<close>

lemma InvalidatePath_left:
  assumes "clean_keys s" "q = Go_Path.abs_path (ns @ [n])" "names_ok (ns @ [n])"
  shows "s_pathLinks (InvalidatePath q s) r = Some i \<Longrightarrow> s_pathLinks s r = Some i \<and> clean_names r \<noteq> ns @ [n]"
    and "GetListStale r (s_meta (InvalidatePath q s)) = Some vs \<Longrightarrow>
      GetListStale r (s_meta s) = Some vs \<and> clean_names r \<noteq> ns @ [n] \<and> clean_names r \<noteq> ns"
    and "GetStatStale r (s_meta (InvalidatePath q s)) = Some v \<Longrightarrow> GetStatStale r (s_meta s) = Some v \<and> clean_names r \<noteq> ns @ [n]"
proof -
  have dir: "path_Dir q = Go_Path.abs_path ns"
    using assms(2,3) path_Dir_abs [of ns n] by (simp add: names_ok_def)
  have q: "q \<noteq> []"
    by (simp add: assms(2) Go_Path.abs_path_def)
  have clean: "r = Go_Path.abs_path xs"
    if "s_pathLinks s r \<noteq> None \<or> GetListStale r (s_meta s) \<noteq> None \<or> GetStatStale r (s_meta s) \<noteq> None" "clean_names r = xs" for xs
    using assms(1) that unfolding clean_keys_def by blast
  show "s_pathLinks (InvalidatePath q s) r = Some i \<Longrightarrow> s_pathLinks s r = Some i \<and> clean_names r \<noteq> ns @ [n]"
    using clean [of "ns @ [n]"] by (auto simp: InvalidatePath_def assms(2) [symmetric] split: if_splits)
  have l: "GetListStale r (s_meta (InvalidatePath q s)) = (if r = q \<or> r = path_Dir q then None else GetListStale r (s_meta s))"
    and t: "GetStatStale r (s_meta (InvalidatePath q s)) = (if r = q then None else GetStatStale r (s_meta s))"
    using q by (simp_all add: GetListStale_def GetStatStale_def meta_simps)
  show "GetListStale r (s_meta (InvalidatePath q s)) = Some vs \<Longrightarrow>
      GetListStale r (s_meta s) = Some vs \<and> clean_names r \<noteq> ns @ [n] \<and> clean_names r \<noteq> ns"
    using clean [of "ns @ [n]"] clean [of ns] unfolding l by (simp add: assms(2) [symmetric] dir [symmetric] split: if_splits) blast
  show "GetStatStale r (s_meta (InvalidatePath q s)) = Some v \<Longrightarrow> GetStatStale r (s_meta s) = Some v \<and> clean_names r \<noteq> ns @ [n]"
    using clean [of "ns @ [n]"] unfolding t by (simp add: assms(2) [symmetric] split: if_splits) blast
qed

lemma caches_InvalidatePath: "caches_coherent A D s \<Longrightarrow> caches_coherent A D (InvalidatePath q s)"
  by (auto simp: caches_coherent_def session_of_def InvalidatePath_def paths_coherent_def meta_coherent_def
      GetListStale_def GetStatStale_def meta_simps split: option.splits)

lemma one_walk:
  assumes "one_place A D" "walk A D ns = Some (i, kr)" "walk A D ms = Some (i, kr')"
  shows "ms = ns"
proof -
  obtain c pkr where c: "link_at A D ns = Some (c, pkr)" "lk_LinkID c = i"
    using link_of_walk [OF _ assms(2)] assms(1) by (auto simp: one_place_def)
  with one_placeD(2) [OF assms(1) c(1)] assms(3) show ?thesis
    by simp
qed

section \<open>The events that the session can place\<close>

text \<open>
  A link whose folder the session knows is created; one whose path it knows has a new revision, or is
  deleted.
\<close>

inductive tracked ::
  "('w, 'k) proton_api \<Rightarrow> 'k drive \<Rightarrow> 'k drive \<Rightarrow> ('w, 'k) Session \<Rightarrow> link_event \<Rightarrow> bool"
  for A :: "('w, 'k) proton_api" and D D' :: "'k drive" and s :: "('w, 'k) Session" where
  created: "le_EventType le = LinkEventCreate \<Longrightarrow> lk_LinkID (le_Link le) = lk_LinkID l \<Longrightarrow>
    lk_ParentLinkID (le_Link le) = parentID \<Longrightarrow> link_added A D D' parentID l \<Longrightarrow>
    names_ok ns \<Longrightarrow> walk A D ns = Some (parentID, pkr) \<Longrightarrow> linkPath parentID s = Go_Path.abs_path ns \<Longrightarrow>
    s_nodeKRs s (lk_LinkID l) = None \<Longrightarrow> tracked A D D' s le"
| updated: "le_EventType le \<in> {LinkEventUpdate, LinkEventUpdateMetadata} \<Longrightarrow> lk_LinkID (le_Link le) = lk_LinkID l \<Longrightarrow>
    lk_ParentLinkID (le_Link le) = parentID \<Longrightarrow> link_replaced A D D' parentID l l' \<Longrightarrow>
    names_ok (ns @ [n]) \<Longrightarrow> walk A D ns = Some (parentID, pkr) \<Longrightarrow> linkPath parentID s \<in> {[], Go_Path.abs_path ns} \<Longrightarrow>
    link_at A D (ns @ [n]) = Some (l, pkr) \<Longrightarrow> walk A D (ns @ [n]) = Some (lk_LinkID l, kr) \<Longrightarrow>
    linkPath (lk_LinkID l) s = Go_Path.abs_path (ns @ [n]) \<Longrightarrow> tracked A D D' s le"
| deleted: "le_EventType le = LinkEventDelete \<Longrightarrow> lk_LinkID (le_Link le) = lk_LinkID l \<Longrightarrow>
    link_added A D' D parentID l \<Longrightarrow>
    names_ok (ns @ [n]) \<Longrightarrow> walk A D ns = Some (parentID, pkr) \<Longrightarrow> link_at A D (ns @ [n]) = Some (l, pkr) \<Longrightarrow>
    linkPath (lk_LinkID l) s = Go_Path.abs_path (ns @ [n]) \<Longrightarrow> tracked A D D' s le"

text \<open>In each case, dropping the path is enough.\<close>

lemma created_coherent:
  assumes "caches_coherent A D s" "serves_drive A D'" "one_place A D" "clean_keys s"
    and "link_added A D D' parentID l" "names_ok ns" "walk A D ns = Some (parentID, pkr)" "s_nodeKRs s (lk_LinkID l) = None"
  shows "coherent A D' (InvalidatePath (Go_Path.abs_path ns) s)"
proof (rule coherent_transfer [OF caches_InvalidatePath [OF assms(1)] assms(2)])
  show "same_elsewhere D D' {parentID}"
    using assms(5) by (simp add: link_added_def)
  show "keys_coherent A D' (s_nodeKRs (InvalidatePath (Go_Path.abs_path ns) s))"
    unfolding keys_coherent_def
  proof (intro allI impI)
    fix i kr ms kr'
    assume i: "s_nodeKRs (InvalidatePath (Go_Path.abs_path ns) s) i = Some kr" "walk A D' ms = Some (i, kr')"
    then have "i \<noteq> lk_LinkID l"
      using assms(8) by auto
    with walk_added_back [OF assms(5) i(2)] have "walk A D ms = Some (i, kr')"
      by (simp add: link_addedD [OF assms(5)])
    with i(1) assms(1) show "kr' = kr"
      by (auto simp: caches_coherent_def keys_coherent_def)
  qed
next
  fix q i kr
  assume "walk A D (clean_names q) = Some (i, kr)"
  with walk_added [OF assms(5)] show "\<exists>kr'. walk A D' (clean_names q) = Some (i, kr')"
    by (auto simp: link_addedD [OF assms(5)])
next
  fix q i v
  assume v: "GetListStale q (s_meta (InvalidatePath (Go_Path.abs_path ns) s)) = Some v" "walk A D (clean_names q) = Some (i, snd v)"
  have "Go_Path.abs_path ns \<noteq> []"
    by (simp add: Go_Path.abs_path_def)
  with v(1) have "q \<noteq> Go_Path.abs_path ns" "GetListStale q (s_meta s) \<noteq> None"
    by (auto simp: GetListStale_def meta_simps split: if_splits option.splits)
  then have "clean_names q \<noteq> ns"
    using assms(4) unfolding clean_keys_def by blast
  with one_walk [OF assms(3,7), of "clean_names q" "snd v"] v(2) have "i \<noteq> parentID"
    by blast
  with v(2) walk_added [OF assms(5) v(2)] show "walk A D' (clean_names q) = Some (i, snd v) \<and> dr_children D' i = dr_children D i"
    by (simp add: link_addedD [OF assms(5)])
next
  fix q v
  assume "link_at A D (clean_names q) = Some v"
  with link_at_added [OF assms(5)] show "link_at A D' (clean_names q) = Some v"
    by blast
qed

lemma updated_coherent:
  assumes "caches_coherent A D s" "serves_drive A D'" "one_place A D" "clean_keys s"
    and "link_replaced A D D' parentID l l'" "names_ok (ns @ [n])" "walk A D ns = Some (parentID, pkr)"
    and "link_at A D (ns @ [n]) = Some (l, pkr)"
  shows "coherent A D' (InvalidatePath (Go_Path.abs_path (ns @ [n])) s)"
proof (rule coherent_transfer [OF caches_InvalidatePath [OF assms(1)] assms(2)])
  note D' = link_replacedD [OF assms(5)] and left = InvalidatePath_left [OF assms(4) refl assms(6)]
  have walk: "walk A D' ms = walk A D ms" for ms
    by (simp add: walk_replaced [OF assms(5)] D')
  show "same_elsewhere D D' {parentID}"
    using assms(5) by (simp add: link_replaced_def)
  show "keys_coherent A D' (s_nodeKRs (InvalidatePath (Go_Path.abs_path (ns @ [n])) s))"
    using assms(1) by (simp add: keys_coherent_def caches_coherent_def walk)
  show "walk A D (clean_names q) = Some (i, kr) \<Longrightarrow> \<exists>kr'. walk A D' (clean_names q) = Some (i, kr')" for q i kr
    by (simp add: walk)
  show "walk A D' (clean_names q) = Some (i, snd v) \<and> dr_children D' i = dr_children D i"
    if "GetListStale q (s_meta (InvalidatePath (Go_Path.abs_path (ns @ [n])) s)) = Some v" "walk A D (clean_names q) = Some (i, snd v)" for q i v
    using left(2) [OF that(1)] that(2) one_walk [OF assms(3,7), of "clean_names q" "snd v"] D'(7) [of i]
    by (cases "i = parentID") (auto simp: walk)
  show "link_at A D' (clean_names q) = Some v"
    if "GetStatStale q (s_meta (InvalidatePath (Go_Path.abs_path (ns @ [n])) s)) = Some v" "link_at A D (clean_names q) = Some v" for q v
  proof (rule link_at_replaced [OF assms(5) that(2)])
    fix ms m
    assume "clean_names q = ms @ [m]" "fst v = l"
    with that(2) one_placeD(1) [OF assms(3,8), of "clean_names q" "snd v"] left(3) [OF that(1)]
    show "\<forall>kr. walk A D ms \<noteq> Some (parentID, kr)"
      by (cases v) simp
  qed
qed

lemma deleted_coherent:
  assumes "caches_coherent A D s" "serves_drive A D'" "one_place A D" "clean_keys s"
    and "link_added A D' D parentID l" "names_ok (ns @ [n])" "walk A D ns = Some (parentID, pkr)"
    and "link_at A D (ns @ [n]) = Some (l, pkr)"
  shows "coherent A D' (InvalidatePath (Go_Path.abs_path (ns @ [n])) s)"
proof (rule coherent_transfer [OF caches_InvalidatePath [OF assms(1)] assms(2)])
  note D' = link_addedD [OF assms(5)] and left = InvalidatePath_left [OF assms(4) refl assms(6)]
  have kept: "walk A D' ms = Some (i, kr)" if "walk A D ms = Some (i, kr)" "ms \<noteq> ns @ [n]" for ms i kr
    using walk_added_back [OF assms(5), of _ ms "(i, kr)"] that one_placeD(2) [OF assms(3,8), of ms kr] by (auto simp: D')
  show "same_elsewhere D D' {parentID}"
    using assms(5) by (auto simp: link_added_def same_elsewhere_def)
  show "keys_coherent A D' (s_nodeKRs (InvalidatePath (Go_Path.abs_path (ns @ [n])) s))"
    using assms(1) walk_added [OF assms(5)] by (fastforce simp: keys_coherent_def caches_coherent_def D')
  show "\<exists>kr'. walk A D' (clean_names q) = Some (i, kr')"
    if "s_pathLinks (InvalidatePath (Go_Path.abs_path (ns @ [n])) s) q = Some i" "walk A D (clean_names q) = Some (i, kr)" for q i kr
    using left(1) [OF that(1)] kept [OF that(2)] by blast
  show "walk A D' (clean_names q) = Some (i, snd v) \<and> dr_children D' i = dr_children D i"
    if "GetListStale q (s_meta (InvalidatePath (Go_Path.abs_path (ns @ [n])) s)) = Some v" "walk A D (clean_names q) = Some (i, snd v)" for q i v
    using left(2) [OF that(1)] that(2) kept [OF that(2)] one_walk [OF assms(3,7), of "clean_names q" "snd v"] D'(7) [of i]
    by (cases "i = parentID") auto
  show "link_at A D' (clean_names q) = Some v"
    if v: "GetStatStale q (s_meta (InvalidatePath (Go_Path.abs_path (ns @ [n])) s)) = Some v" "link_at A D (clean_names q) = Some v" for q v
  proof (cases "clean_names q = []")
    case True
    with v(2) show ?thesis
      by (simp add: link_at_def D')
  next
    case False
    then obtain i kr c where c: "walk A D (butlast (clean_names q)) = Some (i, kr)" "v = (c, kr)"
        "named_child A kr (dr_addrKR D) (last (clean_names q)) (dr_children D i) = Some c"
      using v(2) by (auto simp: link_at_def split: option.splits)
    have "c \<noteq> l"
      using one_placeD(1) [OF assms(3,8), of "clean_names q" kr] left(3) [OF v(1)] v(2) c(2) by auto
    with named_child_added(2) [OF assms(5), of kr "last (clean_names q)" i c] c(3)
    have child: "named_child A kr (dr_addrKR D') (last (clean_names q)) (dr_children D' i) = Some c"
      by (simp add: D')
    have "butlast (clean_names q) \<noteq> ns @ [n]"
    proof
      assume "butlast (clean_names q) = ns @ [n]"
      with c(1) link_of_walk [of D A "ns @ [n]" i kr] assms(3,8) have "i = lk_LinkID l"
        by (auto simp: one_place_def)
      with c(3) D'(8) show False
        by (simp add: named_child_def)
    qed
    with kept [OF c(1)] child c(2) False show ?thesis
      by (simp add: link_at_def)
  qed
qed

section \<open>One event\<close>

text \<open>A difference stores what the folder holds now, if the folder is still where the session has it.\<close>

lemma fold_enqueue_session: "ep_s (fold enqueue evs p) = ep_s p"
  by (induction evs arbitrary: p) simp_all

lemma diffAndEmit_coherent:
  assumes "coherent A D (ep_s p)" "walk A D (clean_names dirPath) = Some (dirLinkID, kr)"
    and "s_nodeKRs (ep_s p) dirLinkID = Some dirKR" "diffAndEmit A R dirPath dirLinkID dirKR old p = (b, p')"
  shows "coherent A D (ep_s p')"
proof -
  obtain r s1 where s1: "on_world (api_ListChildren A (s_shareID (ep_s p)) dirLinkID) (ep_s p) = (r, s1)"
    by fastforce
  have c1: "coherent A D s1"
    by (rule on_world_coherent [OF s1 assms(1)])
  have r: "r = Inr (dr_children D dirLinkID)"
    using s1 coherent_serves [OF assms(1)] coherent_session(1) [OF assms(1)]
    by (auto simp: serves_drive_def on_world_def split: prod.splits) (metis fst_conv)
  have kr: "dirKR = kr"
    using assms(1-3) unfolding coherent_def caches_coherent_def keys_coherent_def by blast
  obtain lp where lp: "note_paths A dirPath dirKR (dr_children D dirLinkID) s1 = s1\<lparr>s_linkPaths := lp\<rparr>"
    using note_paths_fields [of A dirPath dirKR "dr_children D dirLinkID" s1] by blast
  obtain now s2 where s2: "on_world (time_Now A) (s1\<lparr>s_linkPaths := lp\<rparr>) = (now, s2)"
    by fastforce
  have "coherent A D s2"
    by (rule on_world_coherent [OF s2 coherent_linkPaths [OF c1]])
  from coherent_list [OF this assms(2), of now] kr
  have "coherent A D (s2\<lparr>s_meta := SetList now dirPath (dr_children D dirLinkID, dirKR) (s_meta s2)\<rparr>)"
    by simp
  moreover have "ep_s p' = s2\<lparr>s_meta := SetList now dirPath (dr_children D dirLinkID, dirKR) (s_meta s2)\<rparr>"
    using assms(4) s1 r lp s2 by (auto simp: diffAndEmit_def Let_def emit_missing_fold fold_enqueue_session)
  ultimately show ?thesis
    by simp
qed

lemma try_diff_coherent:
  assumes "coherent A D (ep_s p)" "dirPath = [] \<or> (\<exists>kr. walk A D (clean_names dirPath) = Some (dirLinkID, kr))"
    and "try_diff A R dirPath dirLinkID old p = (b, p')"
  shows "coherent A D (ep_s p')"
  using assms diffAndEmit_coherent [OF assms(1)] by (auto simp: try_diff_def split: if_splits option.splits prod.splits)

lemma update_fallback_coherent:
  assumes "coherent A D (ep_s p)"
  shows "coherent A D (ep_s (update_fallback A linkID path parentPath p))"
proof -
  obtain b s where s: "(if path \<noteq> [] then is_trashed A linkID (ep_s p) else (False, ep_s p)) = (b, s)"
    by fastforce
  obtain r s1 where s1: "on_world (api_GetLink A (s_shareID (ep_s p)) linkID) (ep_s p) = (r, s1)"
    by fastforce
  have "s = s1 \<or> s = ep_s p"
    using s s1 by (cases r) (auto simp: is_trashed_def split: if_splits)
  then have "coherent A D s"
    using on_world_coherent [OF s1 assms] assms by blast
  with s show ?thesis
    by (auto simp: update_fallback_def Let_def intro: coherent_linkPaths split: bool.split)
qed

lemma update_report_coherent:
  assumes "coherent A D (ep_s p)"
    and "linkPath linkID (ep_s p0) = [] \<or> (\<exists>kr. walk A D (clean_names (linkPath linkID (ep_s p0))) = Some (linkID, kr))"
    and "linkPath parentID (ep_s p0) = [] \<or> (\<exists>kr. walk A D (clean_names (linkPath parentID (ep_s p0))) = Some (parentID, kr))"
  shows "coherent A D (ep_s (update_report A R linkID parentID p0 p))"
proof -
  obtain b p1 where p1: "try_diff A R (linkPath linkID (ep_s p0)) linkID
      (GetListStale (linkPath linkID (ep_s p0)) (s_meta (ep_s p0))) p = (b, p1)"
    by fastforce
  note c1 = try_diff_coherent [OF assms(1,2) p1]
  obtain c p2 where p2: "try_diff A R (linkPath parentID (ep_s p0)) parentID
      (GetListStale (linkPath parentID (ep_s p0)) (s_meta (ep_s p0))) p1 = (c, p2)"
    by fastforce
  note c2 = try_diff_coherent [OF c1 assms(3) p2]
  from c1 c2 update_fallback_coherent [OF c2] show ?thesis
    by (simp add: update_report_def Let_def p1 p2 split: bool.split)
qed

lemma create_fallback_coherent:
  assumes "coherent A D (ep_s p)"
    and "parentPath = [] \<or> (\<exists>kr. walk A D (clean_names parentPath) = Some (parentID, kr))"
  shows "coherent A D (ep_s (create_fallback A R linkID parentID parentPath old p))"
proof -
  obtain b p1 where p1: "try_diff A R parentPath parentID old p = (b, p1)"
    by fastforce
  from try_diff_coherent [OF assms p1] show ?thesis
    by (simp add: create_fallback_def p1 split: bool.split)
qed

lemma coherent_disk: "coherent A D s \<Longrightarrow> coherent A D (s\<lparr>s_disk := d\<rparr>)"
  by (simp add: coherent_def caches_coherent_def session_of_def)

lemma created_name_coherent:
  assumes "coherent A D s" "created_name A l parentKR s = (r, s')"
  shows "coherent A D s'"
  using assms on_world_coherent [OF _ assms(1)] by (auto simp: created_name_def split: sum.splits prod.splits)

lemma handle_coherent:
  assumes "tracked A D D' (ep_s p) le" "caches_coherent A D (ep_s p)" "serves_drive A D'" "one_place A D" "clean_keys (ep_s p)"
    and "handle A R le p = Some p'"
  shows "coherent A D' (ep_s p')"
  using assms(1)
proof cases
  case (created l parentID ns pkr)
  let ?s = "InvalidatePath (Go_Path.abs_path ns) (ep_s p)"
  have c: "coherent A D' ?s"
    by (rule created_coherent [OF assms(2-5) created(4-6,8)])
  have path: "Go_Path.abs_path ns \<noteq> []"
    by (simp add: Go_Path.abs_path_def)
  have "walk A D' (clean_names (Go_Path.abs_path ns)) = Some (parentID, pkr)"
    using walk_added [OF created(4,6)] created(5) by (simp add: names_ok_def link_addedD [OF created(4)])
  then have "Go_Path.abs_path ns = [] \<or> (\<exists>kr. walk A D' (clean_names (Go_Path.abs_path ns)) = Some (parentID, kr))"
    by blast
  note fallback = create_fallback_coherent [OF _ this]
  have fb: "coherent A D' (ep_s (create_fallback A R linkID parentID (Go_Path.abs_path ns) old (p\<lparr>ep_s := s\<rparr>)))"
    if "coherent A D' s" for linkID old s
    using fallback [of "p\<lparr>ep_s := s\<rparr>"] that by simp
  have p': "p' = handle_create A R (le_Link le) p"
    using assms(6) created(1) by (simp add: handle_def)
  show ?thesis
  proof (cases "s_nodeKRs (ep_s p) parentID")
    case None
    with fb [OF c] show ?thesis
      using path by (simp add: p' handle_create_def Let_def created(3,7))
  next
    case (Some kr)
    obtain r s' where s': "created_name A (le_Link le) kr ?s = (r, s')"
      by fastforce
    have c': "coherent A D' s'"
      by (rule created_name_coherent [OF c s'])
    consider e where "r = Inl e" | "r = Inr []" | x xs where "r = Inr (x # xs)"
      by (cases r; cases "projr r") auto
    then show ?thesis
      using fb [OF c'] coherent_linkPaths [OF c'] path s' Some
      by cases (simp_all add: p' handle_create_def Let_def created(3,7))
  qed
next
  case (updated l parentID l' ns n pkr kr)
  let ?path = "Go_Path.abs_path (ns @ [n])"
  have names: "clean_names ?path = ns @ [n]" "clean_names (Go_Path.abs_path ns) = ns"
    using updated(5) by (simp_all add: names_ok_def)
  have walk: "walk A D' ms = walk A D ms" for ms
    by (simp add: walk_replaced [OF updated(4)] link_replacedD [OF updated(4)])
  have "coherent A D' (InvalidatePath ?path (ep_s p))"
    by (rule updated_coherent [OF assms(2-5) updated(4-6,8)])
  then have c: "coherent A D' (update_invalidate R (lk_LinkID l) bc parentID (ep_s p))" for bc
    using updated(10) by (auto simp: update_invalidate_def Let_def Go_Path.abs_path_def intro!: coherent_disk coherent_InvalidatePath)
  from assms(6) updated(1) obtain bc where
    "p' = update_report A R (lk_LinkID l) parentID p (p\<lparr>ep_s := update_invalidate R (lk_LinkID l) bc parentID (ep_s p)\<rparr>)"
    by (auto simp: handle_def Let_def handle_update_steps updated(2,3) split: option.splits)
  moreover have "linkPath (lk_LinkID l) (ep_s p) = [] \<or>
      (\<exists>kr. walk A D' (clean_names (linkPath (lk_LinkID l) (ep_s p))) = Some (lk_LinkID l, kr))"
    using updated(9,10) names walk by auto
  moreover have "linkPath parentID (ep_s p) = [] \<or>
      (\<exists>kr. walk A D' (clean_names (linkPath parentID (ep_s p))) = Some (parentID, kr))"
    using updated(6,7) names walk by auto
  ultimately show ?thesis
    using update_report_coherent [of A D' "p\<lparr>ep_s := update_invalidate R (lk_LinkID l) bc parentID (ep_s p)\<rparr>"] c by simp
next
  case (deleted l parentID ns n pkr)
  let ?s = "InvalidatePath (Go_Path.abs_path (ns @ [n])) (ep_s p)"
  have c: "coherent A D' (?s\<lparr>s_disk := d\<rparr>)" for d
    by (rule coherent_disk [OF deleted_coherent [OF assms(2-5) deleted(3-6)]])
  have "Go_Path.abs_path (ns @ [n]) \<noteq> []"
    by (simp add: Go_Path.abs_path_def)
  with assms(6) deleted(1,7) obtain bc where "ep_s p' = ?s\<lparr>s_disk := InvalidateLink bc (lk_LinkID l) (s_disk (ep_s p))\<rparr>"
    by (auto simp: handle_def handle_delete_def Let_def deleted(2) drop_blocks_Some bind_eq_Some_conv)
  with c show ?thesis
    by simp
qed

section \<open>One poll\<close>

text \<open>
  What the API says next: that all is out of date, that the anchor is lost (and a new one is to be had),
  or a single event that the session can place.
\<close>

definition same_share :: "('w, 'k) proton_api \<Rightarrow> 'k drive \<Rightarrow> 'k drive \<Rightarrow> ('w, 'k) Session \<Rightarrow> bool" where
  "same_share A D D' s \<longleftrightarrow>
     dr_shareID D' = dr_shareID D \<and> dr_rootID D' = dr_rootID D \<and> dr_addrKR D' = dr_addrKR D \<and>
     dr_shareKR D' = dr_shareKR D \<and> keys_coherent A D' (s_nodeKRs s)"

definition told :: "('w, 'k) proton_api \<Rightarrow> 'k drive \<Rightarrow> 'k drive \<Rightarrow> string \<Rightarrow> ('w, 'k) Session \<Rightarrow> bool" where
  "told A D D' eventID s \<longleftrightarrow>
     (\<exists>ev w. api_GetVolumeEvent A (s_volumeID s) eventID (s_world s) = (Inr ev, w) \<and>
        (if ve_EventID ev = [] then
           (\<exists>newID. fst (api_GetLatestVolumeEventID A (s_volumeID s) w) = Inr newID) \<and> same_share A D D' s
         else if ve_Refresh ev then same_share A D D' s
         else one_place A D \<and> clean_keys s \<and> (\<exists>le. ve_Events ev = [le] \<and> tracked A D D' s le)))"

lemma refresh_coherent:
  assumes "caches_coherent A D s" "serves_drive A D'" "same_share A D D' s"
  shows "coherent A D' (invalidateAll s)"
proof -
  have "session_of D' s" "keys_coherent A D' (s_nodeKRs s)" "\<forall>kr. s_shareKR s = Some kr \<longrightarrow> kr = dr_shareKR D'"
    using assms(1,3) by (simp_all add: caches_coherent_def session_of_def same_share_def)
  with assms(2) show ?thesis
    by (simp add: coherent_def caches_coherent_def session_of_def invalidateAll_def paths_coherent_def meta_coherent_def
        GetListStale_def GetStatStale_def meta_simps)
qed

lemma caches_world: "caches_coherent A D s \<Longrightarrow> caches_coherent A D (s\<lparr>s_world := w\<rparr>)"
  by (simp add: caches_coherent_def session_of_def)

lemma same_share_world: "same_share A D D' s \<Longrightarrow> same_share A D D' (s\<lparr>s_world := w\<rparr>)"
  by (simp add: same_share_def)

lemma clean_keys_world: "clean_keys s \<Longrightarrow> clean_keys (s\<lparr>s_world := w\<rparr>)"
  by (simp add: clean_keys_def)

lemma linkPath_world [simp]: "linkPath i (s\<lparr>s_world := w\<rparr>) = linkPath i s"
  by (simp add: linkPath_def)

lemma tracked_world:
  assumes "tracked A D D' s le"
  shows "tracked A D D' (s\<lparr>s_world := w\<rparr>) le"
  using assms
proof cases
  case (created l parentID ns pkr)
  then show ?thesis by (intro tracked.created) simp_all
next
  case (updated l parentID l' ns n pkr kr)
  show ?thesis by (rule tracked.updated [OF updated(1-6) _ updated(8,9)]) (use updated(7,10) in simp_all)
next
  case (deleted l parentID ns n pkr)
  show ?thesis by (rule tracked.deleted [OF deleted(1-6)]) (use deleted(7) in simp)
qed

text \<open>The block cache only loses files until the anchor is saved.\<close>

lemma kept_faithful:
  assumes "poller_kept p p'" "cache_faithful sort_Slice contents (ep_s p)"
  shows "cache_faithful sort_Slice contents (ep_s p')"
proof -
  obtain P where P: "s_disk (ep_s p') = keep_files P (s_disk (ep_s p))" "s_blocks (ep_s p') = s_blocks (ep_s p)"
    using assms(1) by (auto simp: poller_kept_def)
  have look: "look bc (keep_files P d) k = Some v \<Longrightarrow> look bc d k = Some v" for bc d k v
    by (simp add: os_ReadFile_def split: if_splits)
  have ok: "cache_ok sort_Slice bc d \<Longrightarrow> cache_ok sort_Slice bc (keep_files P d)" for bc d
    by (simp add: cache_ok_def)
  show ?thesis
    unfolding cache_faithful_def P
  proof (intro allI impI conjI)
    fix bc
    assume bc: "s_blocks (ep_s p) = Some bc"
    note was = assms(2) [unfolded cache_faithful_def, rule_format, OF bc]
    from was ok show "cache_ok sort_Slice bc (keep_files P (s_disk (ep_s p)))"
      by blast
    fix k v
    assume "key_ok k" "look bc (keep_files P (s_disk (ep_s p))) k = Some v"
    with was look show "v = contents k"
      by blast
  qed
qed

lemma kept_outside: "poller_kept p p' \<Longrightarrow> outside_blocks (ep_s p) (ep_anchorPath p) \<Longrightarrow> outside_blocks (ep_s p') (ep_anchorPath p')"
  by (auto simp: poller_kept_def queues_def outside_blocks_def)

lemma poll_told:
  assumes "told (hl_api L) D D' eventID (ep_s p)" "caches_coherent (hl_api L) D (ep_s p)" "serves_drive (hl_api L) D'"
    and "cache_faithful (hl_sort L) contents (ep_s p)" "outside_blocks (ep_s p) (ep_anchorPath p)"
    and "queue_ok p" "s_blocks (ep_s p) \<noteq> None"
  shows "\<exists>e p'. poll (hl_api L) R eventID p = Some (e, p') \<and> poller_good L D' contents p'"
proof -
  let ?A = "hl_api L" and ?s = "ep_s p"
  obtain ev w where ev: "api_GetVolumeEvent ?A (s_volumeID ?s) eventID (s_world ?s) = (Inr ev, w)"
    and cases: "if ve_EventID ev = [] then
        (\<exists>newID. fst (api_GetLatestVolumeEventID ?A (s_volumeID ?s) w) = Inr newID) \<and> same_share ?A D D' ?s
      else if ve_Refresh ev then same_share ?A D D' ?s
      else one_place ?A D \<and> clean_keys ?s \<and> (\<exists>le. ve_Events ev = [le] \<and> tracked ?A D D' ?s le)"
    using assms(1) unfolding told_def by blast
  have saved: "poller_good L D' contents (saveAnchor ?A e p1)" if "poller_kept p p1" "coherent ?A D' (ep_s p1)" for e p1
    using that assms(4,5) kept_faithful [OF that(1)] kept_outside [OF that(1)]
    by (intro saveAnchor_good) (simp add: poller_good_def session_good_def)
  have kept: "poller_kept p (p\<lparr>ep_s := ?s\<lparr>s_world := u\<rparr>\<rparr>)" for u
    using assms(6) by (intro poller_kept_session [where P = "\<lambda>_. True"]) simp_all
  have refreshed: "poller_good L D' contents (saveAnchor ?A e (refresh_all (p\<lparr>ep_s := ?s\<lparr>s_world := u\<rparr>\<rparr>)))"
    if "same_share ?A D D' ?s" for e u
  proof (rule saved)
    show "poller_kept p (refresh_all (p\<lparr>ep_s := ?s\<lparr>s_world := u\<rparr>\<rparr>))"
      by (rule poller_kept_trans [OF kept refresh_all_kept [OF poller_kept_ok [OF kept]]])
    show "coherent ?A D' (ep_s (refresh_all (p\<lparr>ep_s := ?s\<lparr>s_world := u\<rparr>\<rparr>)))"
      using refresh_coherent [OF caches_world [OF assms(2)] assms(3) same_share_world [OF that]] by (simp add: refresh_all_def)
  qed
  consider newID u where "ve_EventID ev = []" "api_GetLatestVolumeEventID ?A (s_volumeID ?s) w = (Inr newID, u)" "same_share ?A D D' ?s"
    | "ve_EventID ev \<noteq> []" "ve_Refresh ev" "same_share ?A D D' ?s"
    | le where "ve_EventID ev \<noteq> []" "\<not> ve_Refresh ev" "one_place ?A D" "clean_keys ?s" "ve_Events ev = [le]" "tracked ?A D D' ?s le"
    using cases by (metis prod.collapse)
  then show ?thesis
  proof cases
    case 1
    with ev refreshed show ?thesis
      by (simp add: poll_def on_world_def)
  next
    case 2
    with ev refreshed show ?thesis
      by (simp add: poll_def on_world_def)
  next
    case 3
    let ?p = "p\<lparr>ep_s := ?s\<lparr>s_world := w\<rparr>\<rparr>"
    obtain p1 where p1: "handle ?A R le ?p = Some p1"
      using handle_crash [of ?A R le ?p] assms(6,7) by (cases "handle ?A R le ?p") auto
    have "coherent ?A D' (ep_s p1)"
      using tracked_world [OF 3(6)] caches_world [OF assms(2)] assms(3) 3(3) clean_keys_world [OF 3(4)] p1
      by (intro handle_coherent [of ?A D D' ?p le R]) simp_all
    moreover have "poller_kept p p1"
      by (rule poller_kept_trans [OF kept handle_kept [OF poller_kept_ok [OF kept] p1]])
    ultimately have "poller_good L D' contents (saveAnchor ?A (ve_EventID ev) p1)"
      by (rule saved [rotated])
    with ev 3(1,2,5) p1 show ?thesis
      by (simp add: poll_def on_world_def)
  qed
qed

section \<open>One tick\<close>

text \<open>The names and keys of links mean the same to both APIs; only the answers of the servers differ.\<close>

lemma tick_follows:
  assumes "helper_good L0 D contents h" "same_crypto (hl_api L0) (hl_api L)" "hl_sort L = hl_sort L0" "h_session h = Some p" "h_anchor h = Some eventID"
    and "queue_ok p" "s_blocks (ep_s p) \<noteq> None" "serves_drive (hl_api L) D'" "told (hl_api L) D D' eventID (ep_s p)"
  shows "\<exists>h'. helper_tick L h = Some h' \<and> helper_good L D' contents h'"
proof -
  have good: "caches_coherent (hl_api L) D (ep_s p)" "cache_faithful (hl_sort L) contents (ep_s p)"
      "outside_blocks (ep_s p) (ep_anchorPath p)"
    using assms(1,3,4) caches_coherent_same_crypto(1) [OF assms(2), of D "ep_s p"]
    by (auto simp: helper_good_def session_good_def coherent_def)
  from poll_told [OF assms(9) good(1) assms(8) good(2,3) assms(6,7)] obtain e p' where
    "poll (hl_api L) (hl_range L) eventID p = Some (e, p')" "poller_good L D' contents p'"
    by blast
  with assms(4,5) show ?thesis
    by (simp add: helper_tick_def helper_good_poller)
qed

section \<open>A folder that is itself moved\<close>


text \<open>
  What is cached below a deleted folder stays: its metadata is answered until it is out of date, although
  every resolved path below is forgotten.
\<close>

lemma deleted_folder_contents_stay:
  assumes "handle_delete R linkID parentID p = Some p'" "linkPath linkID (ep_s p) \<noteq> []" "q \<noteq> linkPath linkID (ep_s p)"
  shows "GetStatStale q (s_meta (ep_s p')) = GetStatStale q (s_meta (ep_s p))"
    and "q \<noteq> path_Dir (linkPath linkID (ep_s p)) \<Longrightarrow>
      GetListStale q (s_meta (ep_s p')) = GetListStale q (s_meta (ep_s p))"
    and "at_or_below (linkPath linkID (ep_s p)) q \<Longrightarrow> s_pathLinks (ep_s p') q = None"
proof -
  obtain bc where "ep_s p' = (InvalidatePath (linkPath linkID (ep_s p)) (ep_s p))\<lparr>s_disk := InvalidateLink bc linkID (s_disk (ep_s p))\<rparr>"
    using assms(1,2) by (auto simp: handle_delete_def Let_def drop_blocks_Some bind_eq_Some_conv)
  then show "GetStatStale q (s_meta (ep_s p')) = GetStatStale q (s_meta (ep_s p))"
    and "q \<noteq> path_Dir (linkPath linkID (ep_s p)) \<Longrightarrow>
      GetListStale q (s_meta (ep_s p')) = GetListStale q (s_meta (ep_s p))"
    and "at_or_below (linkPath linkID (ep_s p)) q \<Longrightarrow> s_pathLinks (ep_s p') q = None"
    using assms(2,3) by (simp_all add: GetStatStale_def GetListStale_def meta_simps InvalidatePath_forgets)
qed

section \<open>Properties\<close>

text \<open>
  C7. A changing drive is followed: where the session agrees with the drive as it was, after whatever
  history, and the API now answers from the drive as it is, one tick of the poller brings the session to
  agree with the new drive if the event stream reports one link that the session can place (created in a folder it knows,
  given a new revision, or deleted), says that everything is out of date, or has lost the anchor. Read jobs
  of the backend on any file of the new drive then report its content.
\<close>

theorem changes_are_followed:
  assumes "helper_good L0 D contents h" "same_crypto (hl_api L0) (hl_api L)" "hl_sort L = hl_sort L0" "h_session h = Some p" "h_anchor h = Some eventID"
    and "queue_ok p" "s_blocks (ep_s p) \<noteq> None" "serves_drive (hl_api L) D'" "told (hl_api L) D D' eventID (ep_s p)"
  shows "\<exists>h'. helper_tick L h = Some h' \<and> helper_good L D' contents h' \<and>
    (\<forall>path link kr content k ns self w.
       net_helper w = h' \<longrightarrow> file_on_drive L D' path link kr content contents \<longrightarrow> length content < 2 ^ 63 \<longrightarrow>
       backend_connected J (hl_json L) (helper_handlers L crash) path k (length ns) self w \<longrightarrow>
       (\<forall>n \<in> set ns. n \<le> 499 * 4194304) \<longrightarrow>
       (\<exists>st. read_jobs (read_job J (hl_json L) (helper_handlers L crash) k) \<lparr>ph_path = path, ph_offset = 0\<rparr> ns (self, w) =
          Some (take (sum_list ns) content,
                \<lparr>ph_path = path, ph_offset = of_nat (min (sum_list ns) (length content))\<rparr>, st)))"
proof -
  obtain h' where h': "helper_tick L h = Some h'" "helper_good L D' contents h'"
    using tick_follows [OF assms] by blast
  have "\<exists>st. read_jobs (read_job J (hl_json L) (helper_handlers L crash) k) \<lparr>ph_path = path, ph_offset = 0\<rparr> ns (self, w) =
      Some (take (sum_list ns) content,
            \<lparr>ph_path = path, ph_offset = of_nat (min (sum_list ns) (length content))\<rparr>, st)"
    if "net_helper w = h'" "file_on_drive L D' path link kr content contents" "length content < 2 ^ 63"
      "backend_connected J (hl_json L) (helper_handlers L crash) path k (length ns) self w" "\<forall>n \<in> set ns. n \<le> 499 * 4194304"
    for path link kr content k ns self w
  proof -
    have "drive_session L D' contents (net_helper w)"
      using helper_good_drive [OF h'(2)] that(1) by simp
    from reads_through [OF that(2) this that(4,3,5)] show ?thesis .
  qed
  with h' show ?thesis
    by blast
qed

text \<open>The drive was empty, and the empty listing of its root is cached; then \<open>/f\<close> is created.\<close>

definition empty_drive :: "unit drive" where
  "empty_drive = file_drive\<lparr>dr_children := (\<lambda>_. [])\<rparr>"

definition empty_lib :: "(int, unit, string, string) helper_lib" where
  "empty_lib = sample_lib\<lparr>hl_api := file_api\<lparr>api_ListChildren := (\<lambda>sh i w. (Inr [], w + 1))\<rparr>\<rparr>"

definition file_created :: link_event where
  "file_created = \<lparr>le_EventType = LinkEventCreate, le_Link = sample_file\<rparr>"

definition created_lib :: "(int, unit, string, string) helper_lib" where
  "created_lib = sample_lib\<lparr>hl_api := file_api\<lparr>api_GetVolumeEvent :=
     (\<lambda>v e w. (Inr \<lparr>ve_EventID = ''e7'', ve_Refresh = False, ve_Events = [file_created]\<rparr>, w + 1))\<rparr>\<rparr>"

definition listed_session :: "(int, unit) Session" where
  "listed_session = sample_file_session
     \<lparr>s_linkPaths := [''root'' \<mapsto> ''/''], s_meta := SetList 0 ''/'' ([], ()) (s_meta sample_file_session)\<rparr>"

lemma empty_serves: "serves_drive (hl_api empty_lib) empty_drive"
  by (simp add: serves_drive_def empty_lib_def empty_drive_def file_api_def file_drive_def sample_drive_def sample_file_api_def sample_api_def)

lemma created_serves: "serves_drive (hl_api created_lib) file_drive"
  by (simp add: serves_drive_def created_lib_def file_api_def file_drive_def sample_drive_def sample_file_api_def sample_api_def)

lemma listed_good: "helper_good empty_lib empty_drive sample_contents (helper_of listed_session)"
proof -
  have "session_of empty_drive sample_file_session"
    by (simp add: session_of_def sample_file_session_def sample_session_def empty_drive_def file_drive_def sample_drive_def)
  then have "coherent (hl_api empty_lib) empty_drive sample_file_session"
    using session_run_coherent [OF session_run.new empty_serves] by (simp add: sample_file_session_def sample_session_def)
  note noted = coherent_linkPaths [OF this, of "[''root'' \<mapsto> ''/'']"]
  have "clean_names ''/'' = []"
    by code_simp
  then have "walk (hl_api empty_lib) empty_drive (clean_names ''/'') = Some (''root'', ())"
    by (simp add: empty_drive_def file_drive_def sample_drive_def)
  from coherent_list [OF noted this, of 0] have "coherent (hl_api empty_lib) empty_drive listed_session"
    by (simp add: listed_session_def empty_drive_def)
  moreover have "cache_faithful (hl_sort empty_lib) sample_contents listed_session"
    using sample_faithful by (simp add: cache_faithful_def listed_session_def empty_lib_def sample_lib_def)
  moreover have "outside_blocks listed_session ''/c/anchor''"
    using sample_helper_good by (simp add: helper_good_def helper_of_def outside_blocks_def listed_session_def)
  ultimately show ?thesis
    by (simp add: helper_good_def session_good_def helper_of_def)
qed

lemma created_told: "told (hl_api created_lib) empty_drive file_drive ''e6'' listed_session"
proof -
  have id: "lk_LinkID sample_file = ''F''" "lk_ParentLinkID sample_file = ''root''" "lk_LinkID root_folder = ''root''"
    by (simp_all add: sample_file_def sample_link_def root_folder_def)
  have added: "link_added A empty_drive file_drive ''root'' sample_file" for A :: "(int, unit) proton_api"
    by (simp add: link_added_def same_elsewhere_def id empty_drive_def file_drive_def)
  have "link_at A empty_drive ns = Some (c, kr) \<Longrightarrow> ns = []" for A :: "(int, unit) proton_api" and ns c kr
    by (auto simp: link_at_def empty_drive_def named_child_def split: if_splits option.splits)
  moreover have "lk_LinkID (dr_rootLink empty_drive) = dr_rootID empty_drive"
    by (simp add: empty_drive_def file_drive_def sample_drive_def id)
  ultimately have "one_place A empty_drive" for A :: "(int, unit) proton_api"
    unfolding one_place_def by blast
  moreover have "clean_keys listed_session"
    by (auto simp: clean_keys_def listed_session_def sample_file_session_def sample_session_def NewMetaCache_def
        GetListStale_def GetStatStale_def SetList_def Go_Path.abs_path_def clean_names_def clean_step_def split: if_splits)
  moreover have "tracked (hl_api created_lib) empty_drive file_drive listed_session file_created"
    by (rule tracked.created [OF _ _ _ added, where ns = "[]" and pkr = "()"])
       (simp_all add: file_created_def id names_ok_def linkPath_def Go_Path.abs_path_def listed_session_def
         sample_file_session_def sample_session_def empty_drive_def file_drive_def sample_drive_def)
  ultimately show ?thesis
    by (simp add: told_def created_lib_def)
qed

text \<open>The other events can be placed as well: \<open>/f\<close> gets a new revision, or is deleted.\<close>

definition revised_file :: link where
  "revised_file = sample_file\<lparr>lk_ActiveRevision := Some \<lparr>rm_ID = ''r2'', rm_CreateTime = 9, rm_Thumbnail = False\<rparr>\<rparr>"

definition known_session :: "(int, unit) Session" where
  "known_session = sample_file_session\<lparr>s_linkPaths := [''root'' \<mapsto> ''/'', ''F'' \<mapsto> ''/f'']\<rparr>"

lemma file_at_f:
  "link_at file_api file_drive [''f''] = Some (sample_file, ())" "walk file_api file_drive [''f''] = Some (''F'', ())"
  by code_simp+

lemma known_F: "linkPath ''F'' known_session = Go_Path.abs_path [''f'']"
  by (simp add: linkPath_def known_session_def Go_Path.abs_path_def)

lemma revision_tracked:
  "tracked file_api file_drive (file_drive\<lparr>dr_children := (\<lambda>i. if i = ''root'' then [revised_file] else [])\<rparr>) known_session
     \<lparr>le_EventType = LinkEventUpdate, le_Link = revised_file\<rparr>"
proof (rule tracked.updated [where l = sample_file and l' = revised_file and parentID = "''root''" and ns = "[]" and n = "''f''"
      and pkr = "()" and kr = "()"])
  show "link_replaced file_api file_drive (file_drive\<lparr>dr_children := (\<lambda>i. if i = ''root'' then [revised_file] else [])\<rparr>) ''root''
      sample_file revised_file"
    unfolding link_replaced_def
  proof (intro conjI)
    show "\<exists>xs ys. dr_children file_drive ''root'' = xs @ sample_file # ys \<and>
        dr_children (file_drive\<lparr>dr_children := (\<lambda>i. if i = ''root'' then [revised_file] else [])\<rparr>) ''root'' = xs @ revised_file # ys"
      by (intro exI [of _ "[]"]) (simp add: file_drive_def)
  qed (simp_all add: same_elsewhere_def file_drive_def revised_file_def file_api_def sample_file_api_def sample_api_def)
qed (use file_at_f known_F in \<open>simp_all add: revised_file_def sample_file_def sample_link_def names_ok_def name_ok_def linkPath_def
    known_session_def Go_Path.abs_path_def file_drive_def sample_drive_def\<close>)

lemma deletion_tracked:
  "tracked file_api file_drive empty_drive known_session \<lparr>le_EventType = LinkEventDelete, le_Link = sample_file\<rparr>"
proof (rule tracked.deleted [where l = sample_file and parentID = "''root''" and ns = "[]" and n = "''f''" and pkr = "()"])
  show "link_added file_api empty_drive file_drive ''root'' sample_file"
    by (simp add: link_added_def same_elsewhere_def empty_drive_def file_drive_def sample_file_def sample_link_def)
qed (use file_at_f known_F in \<open>simp_all add: sample_file_def sample_link_def names_ok_def name_ok_def file_drive_def sample_drive_def\<close>)

theorem changes_are_followed_witness:
  "\<exists>h' st. helper_tick created_lib (helper_of listed_session) = Some h' \<and>
     read_jobs (read_job sample_json sample_go (helper_handlers created_lib no_crash) None) \<lparr>ph_path = ''/f'', ph_offset = 0\<rparr> [2, 2, 2]
      (g_vfs_backend_proton_init\<lparr>be_rpc := Some sample_rpc\<rparr>, helper_net h') =
    Some ([7, 8, 9], \<lparr>ph_path = ''/f'', ph_offset = 3\<rparr>, st)"
proof -
  let ?w = "helper_net :: (int, unit) helper \<Rightarrow> (int, unit) helper net"
  have libs: "same_crypto (hl_api empty_lib) (hl_api created_lib)" "hl_sort created_lib = hl_sort empty_lib" "hl_json created_lib = sample_go"
    by (simp_all add: same_crypto_def empty_lib_def created_lib_def sample_lib_def)
  let ?p = "\<lparr>ep_s = listed_session, ep_anchorPath = ''/c/anchor'', ep_queue = []\<rparr>"
  have h: "h_session (helper_of listed_session) = Some ?p" "h_anchor (helper_of listed_session) = Some ''e6''" "queue_ok ?p"
      "s_blocks (ep_s ?p) \<noteq> None" "told (hl_api created_lib) empty_drive file_drive ''e6'' (ep_s ?p)"
    using created_told by (simp_all add: helper_of_def queue_ok_def listed_session_def sample_file_session_def)
  have on_drive: "file_on_drive created_lib file_drive ''/f'' sample_file () Range_Reads.sample_content sample_contents"
    using sample_file_on_drive caches_coherent_same_crypto(2) [of "hl_api sample_lib" "hl_api created_lib" file_drive "clean_names ''/f''"]
    by (simp add: file_on_drive_def same_crypto_def created_lib_def sample_lib_def file_served_def serves_revision_def)
  obtain h' where tick: "helper_tick created_lib (helper_of listed_session) = Some h'"
    and reads: "\<And>path link kr content k ns self w.
       net_helper w = h' \<Longrightarrow> file_on_drive created_lib file_drive path link kr content sample_contents \<Longrightarrow> length content < 2 ^ 63 \<Longrightarrow>
       backend_connected sample_json (hl_json created_lib) (helper_handlers created_lib no_crash) path k (length ns) self w \<Longrightarrow>
       (\<forall>n \<in> set ns. n \<le> 499 * 4194304) \<Longrightarrow>
       (\<exists>st. read_jobs (read_job sample_json (hl_json created_lib) (helper_handlers created_lib no_crash) k) \<lparr>ph_path = path, ph_offset = 0\<rparr> ns (self, w) =
          Some (take (sum_list ns) content,
                \<lparr>ph_path = path, ph_offset = of_nat (min (sum_list ns) (length content))\<rparr>, st))"
    using changes_are_followed [OF listed_good libs(1,2) h(1,2) h(3,4) created_serves h(5), of sample_json no_crash] by blast
  have "backend_connected sample_json (hl_json created_lib) (helper_handlers created_lib no_crash) ''/f'' None (length [2, 2, 2 :: nat])
      (g_vfs_backend_proton_init\<lparr>be_rpc := Some sample_rpc\<rparr>) (helper_net h')"
    using sample_backend_connected unfolding libs(3) by (simp add: numeral_3_eq_3)
  from reads [OF _ on_drive _ this] tick show ?thesis
    unfolding libs(3) by (simp add: Range_Reads.sample_content_def helper_net_def)
qed



end
