(* ===== verification/Reply_Types.thy ===== *)
theory Reply_Types
  imports End_To_End
begin

text \<open>
  The interface of the helper as types: the structs of \<open>src/helper/rpc/types.go\<close> that are returned, as
  descriptions of the JSON that Go writes for them, and for every method of \<open>main.go\<close> its result type
  and the error codes it can answer with. Shown: every response of the server is well typed.
\<close>

section \<open>Types\<close>

text \<open>A field of a struct has its name, whether it is left out when empty, and its type.\<close>

datatype go_type =
    T_string
  | T_bool
  | T_int
  | T_bytes \<comment> \<open>base64 text, or null for a nil slice\<close>
  | T_slice go_type
  | T_nilable go_type \<comment> \<open>null for a nil slice\<close>
  | T_struct "(string \<times> bool \<times> go_type) list"

text \<open>The documents of a type; the members of a struct come in the order of its fields.\<close>

fun has_type :: "(string \<Rightarrow> byte list option) \<Rightarrow> go_type \<Rightarrow> json \<Rightarrow> bool"
and has_fields :: "(string \<Rightarrow> byte list option) \<Rightarrow> (string \<times> bool \<times> go_type) list \<Rightarrow> (string \<times> json) list \<Rightarrow> bool"
where
  "has_type decode T_string j = (case j of JString s \<Rightarrow> True | _ \<Rightarrow> False)"
| "has_type decode T_bool j = (case j of JBool b \<Rightarrow> True | _ \<Rightarrow> False)"
| "has_type decode T_int j = (case j of JInt i \<Rightarrow> True | _ \<Rightarrow> False)"
| "has_type decode T_bytes j = (bytes_field decode (Some j) \<noteq> None)"
| "has_type decode (T_slice t) j = (case j of JArray js \<Rightarrow> list_all (has_type decode t) js | _ \<Rightarrow> False)"
| "has_type decode (T_nilable t) j = (j = JNull \<or> has_type decode t j)"
| "has_type decode (T_struct fs) j = (case j of JObject ms \<Rightarrow> has_fields decode fs ms | _ \<Rightarrow> False)"
| "has_fields decode [] ms = (ms = [])"
| "has_fields decode ((k, omit, t) # fs) ms =
     (case ms of
        [] \<Rightarrow> omit \<and> has_fields decode fs []
      | (k', j) # ms' \<Rightarrow>
          if k' = k then has_type decode t j \<and> has_fields decode fs ms'
          else omit \<and> has_fields decode fs ms)"

definition HVDetails_type :: go_type where
  "HVDetails_type = T_struct [(''token'', False, T_string), (''methods'', False, T_nilable (T_slice T_string))]"

definition AuthResult_type :: go_type where
  "AuthResult_type =
     T_struct [(''uid'', False, T_string), (''refresh_token'', False, T_string), (''salted_passphrase'', False, T_bytes)]"

definition GetCaptchaResult_type :: go_type where
  "GetCaptchaResult_type = T_struct [(''html'', False, T_string)]"

definition Entry_type :: go_type where
  "Entry_type =
     T_struct [(''name'', False, T_string), (''is_dir'', False, T_bool), (''size'', False, T_int), (''mtime'', False, T_int),
               (''link_id'', False, T_string), (''revision_id'', True, T_string), (''has_thumbnail'', True, T_bool)]"

definition ListDirResult_type :: go_type where
  "ListDirResult_type = T_struct [(''entries'', False, T_slice Entry_type)]"

definition ReadResult_type :: go_type where
  "ReadResult_type = T_struct [(''data'', False, T_bytes), (''eof'', False, T_bool)]"

definition Event_type :: go_type where
  "Event_type = T_struct [(''type'', False, T_string), (''link_id'', False, T_string), (''path'', True, T_string)]"

definition GetEventsResult_type :: go_type where
  "GetEventsResult_type = T_struct [(''events'', False, T_slice Event_type)]"

definition FetchThumbnailResult_type :: go_type where
  "FetchThumbnailResult_type = T_struct [(''path'', False, T_string)]"

definition SendCode_type :: go_type where
  "SendCode_type = T_struct [(''ok'', False, T_bool)]"

lemmas type_defs = HVDetails_type_def AuthResult_type_def GetCaptchaResult_type_def Entry_type_def
  ListDirResult_type_def ReadResult_type_def Event_type_def GetEventsResult_type_def
  FetchThumbnailResult_type_def SendCode_type_def

section \<open>The methods\<close>

text \<open>
  The methods of \<open>main.go\<close> with the type of the result (\<open>None\<close>: there is none) and the error codes. An
  error that is not an \<open>RPCError\<close> is sent as \<open>ErrInternal\<close>.
\<close>

definition helper_interface :: "(string \<times> go_type option \<times> gint64 list) list" where
  "helper_interface =
     [(''Auth'', Some AuthResult_type, [ErrInvalidArg, ErrHVRequired, ErrAuthFailed]),
      (''GetCaptcha'', Some GetCaptchaResult_type, [ErrInvalidArg, ErrInternal]),
      (''AuthWithHV'', Some AuthResult_type, [ErrInvalidArg, ErrAuthFailed]),
      (''SendCode'', Some SendCode_type, [ErrInvalidArg, ErrInternal]),
      (''ResumeSession'', Some AuthResult_type, [ErrInvalidArg, ErrAuthFailed]),
      (''GetEvents'', Some GetEventsResult_type, [ErrNotAuthed]),
      (''ListDir'', Some ListDirResult_type, [ErrNotAuthed, ErrInvalidArg, ErrInternal]),
      (''Stat'', Some Entry_type, [ErrNotAuthed, ErrInvalidArg, ErrNotFound]),
      (''ReadFile'', Some ReadResult_type, [ErrNotAuthed, ErrInvalidArg, ErrNotFound, ErrOffline, ErrInternal]),
      (''FetchThumbnail'', Some FetchThumbnailResult_type, [ErrNotAuthed, ErrInvalidArg]),
      (''Mkdir'', None, [ErrNotAuthed, ErrInvalidArg, ErrAlreadyExists, ErrInternal]),
      (''Delete'', None, [ErrNotAuthed, ErrInvalidArg, ErrInternal]),
      (''Move'', None, [ErrNotAuthed, ErrInvalidArg, ErrInternal])]"

text \<open>Details come with \<open>ErrHVRequired\<close> and only with it.\<close>

definition error_typed :: "(string \<Rightarrow> byte list option) \<Rightarrow> gint64 list \<Rightarrow> rpc_error \<Rightarrow> bool" where
  "error_typed decode codes e \<longleftrightarrow>
     re_Code e \<in> set codes \<and>
     (case re_Details e of
        None \<Rightarrow> re_Code e \<noteq> ErrHVRequired
      | Some d \<Rightarrow> re_Code e = ErrHVRequired \<and> has_type decode HVDetails_type d)"

definition result_typed :: "(string \<Rightarrow> byte list option) \<Rightarrow> go_type option \<Rightarrow> json option \<Rightarrow> bool" where
  "result_typed decode t r \<longleftrightarrow> (case (t, r) of (None, None) \<Rightarrow> True | (Some t, Some j) \<Rightarrow> has_type decode t j | _ \<Rightarrow> False)"

definition reply_typed ::
  "(string \<Rightarrow> byte list option) \<Rightarrow> go_type option \<times> gint64 list \<Rightarrow> go_error + json option \<Rightarrow> bool" where
  "reply_typed decode iface r \<longleftrightarrow>
     (case r of
        Inr result \<Rightarrow> result_typed decode (fst iface) result
      | Inl (Rpc_err e) \<Rightarrow> error_typed decode (snd iface) e
      | Inl (Plain_err msg) \<Rightarrow> ErrInternal \<in> set (snd iface))"

text \<open>
  What a client may expect of a response: the id of the request, and either a result of the method's
  type or one of its errors. A method that is not known is an internal error.
\<close>

definition response_typed :: "(string \<Rightarrow> byte list option) \<Rightarrow> request \<Rightarrow> response \<Rightarrow> bool" where
  "response_typed decode req resp \<longleftrightarrow>
     resp_ID resp = req_ID req \<and>
     (case map_of helper_interface (req_Method req) of
        None \<Rightarrow> resp_Result resp = None \<and> map_option re_Code (resp_Error resp) = Some ErrInternal
      | Some (t, codes) \<Rightarrow>
          (case resp_Error resp of
             None \<Rightarrow> result_typed decode t (resp_Result resp)
           | Some e \<Rightarrow> resp_Result resp = None \<and> error_typed decode codes e))"

text \<open>Go reads its own base64 text.\<close>

definition base64_go_ok :: "('w, 'k, 'n, 'm) helper_lib \<Rightarrow> bool" where
  "base64_go_ok L \<longleftrightarrow> (\<forall>bs. base64_DecodeString L (base64_StdEncoding (hl_json L) bs) = Some bs)"

section \<open>The results\<close>

lemma has_type_bytes:
  "base64_go_ok L \<Longrightarrow> has_type (base64_DecodeString L) T_bytes (marshal_bytes (hl_json L) b)"
  by (cases b) (simp_all add: marshal_bytes_def base64_go_ok_def)

lemma AuthResult_typed:
  "base64_go_ok L \<Longrightarrow> has_type (base64_DecodeString L) AuthResult_type (marshal_AuthResult (hl_json L) a)"
  using has_type_bytes [of L "ar_SaltedPassphrase a"] by (simp add: marshal_AuthResult_def AuthResult_type_def)

lemma ReadResult_typed:
  "base64_go_ok L \<Longrightarrow> has_type (base64_DecodeString L) ReadResult_type (marshal_ReadResult (hl_json L) r)"
  using has_type_bytes [of L "rr_Data r"] by (simp add: marshal_ReadResult_def ReadResult_type_def)

lemma Entry_typed: "has_type decode Entry_type (marshal_Entry e)"
  by (simp add: marshal_Entry_def Entry_type_def omit_empty_def)

lemma ListDirResult_typed: "has_type decode ListDirResult_type (marshal_ListDirResult es)"
  by (simp add: marshal_ListDirResult_def ListDirResult_type_def list_all_iff Entry_typed)

lemma Event_typed: "has_type decode Event_type (marshal_Event e)"
  by (simp add: marshal_Event_def Event_type_def omit_empty_def)

lemma GetEventsResult_typed: "has_type decode GetEventsResult_type (marshal_GetEventsResult es)"
  by (simp add: marshal_GetEventsResult_def GetEventsResult_type_def list_all_iff Event_typed)

lemma FetchThumbnailResult_typed: "has_type decode FetchThumbnailResult_type (marshal_FetchThumbnailResult p)"
  by (simp add: marshal_FetchThumbnailResult_def FetchThumbnailResult_type_def)

lemmas results_typed = AuthResult_typed ReadResult_typed Entry_typed ListDirResult_typed GetEventsResult_typed
  FetchThumbnailResult_typed

section \<open>The handlers\<close>

text \<open>An error without details, as all but one are.\<close>

lemma not_HVRequired [simp]:
  "ErrInternal \<noteq> ErrHVRequired" "ErrInvalidArg \<noteq> ErrHVRequired" "ErrNotFound \<noteq> ErrHVRequired"
  "ErrAuthFailed \<noteq> ErrHVRequired" "ErrNotAuthed \<noteq> ErrHVRequired" "ErrOffline \<noteq> ErrHVRequired"
  "ErrAlreadyExists \<noteq> ErrHVRequired"
  by (simp_all add: Err_defs)

lemma rpc_error_typed [simp]:
  "code \<in> set codes \<Longrightarrow> code \<noteq> ErrHVRequired \<Longrightarrow> reply_typed decode (t, codes) (Inl (rpc_error_of code msg))"
  by (simp add: reply_typed_def error_typed_def rpc_error_of_def)

lemma reply_typed_Inr [simp]: "reply_typed decode (t, codes) (Inr r) = result_typed decode t r"
  by (simp add: reply_typed_def)

lemma result_typed_Some [simp]: "result_typed decode (Some t) (Some j) = has_type decode t j"
  by (simp add: result_typed_def)

lemma result_typed_None [simp]: "result_typed decode None None"
  by (simp add: result_typed_def)

lemma plain_typed [simp]: "reply_typed decode (t, codes) (Inl (Plain_err msg)) = (ErrInternal \<in> set codes)"
  by (simp add: reply_typed_def)

lemma unmarshal_params_Inl: "unmarshal_params L f raw = Inl e \<Longrightarrow> \<exists>msg. e = rpc_error_of ErrInvalidArg msg"
  by (auto simp: unmarshal_params_def split: option.splits)

text \<open>The common start of the handlers on files.\<close>

lemma with_session_typed:
  assumes "\<And>params s. reply_typed decode (t, codes) (fst (body params s))"
    and "ErrNotAuthed \<in> set codes" "ErrInvalidArg \<in> set codes"
  shows "reply_typed decode (t, codes) (fst (with_session L f body raw h))"
proof (cases "h_session h")
  case None
  with assms(2) show ?thesis
    by (simp add: with_session_none NotAuth_def)
next
  case (Some p)
  then show ?thesis
  proof (cases "unmarshal_params L f raw")
    case (Inl e)
    with assms(3) obtain msg where "reply_typed decode (t, codes) (Inl e)" "e = rpc_error_of ErrInvalidArg msg"
      using unmarshal_params_Inl [OF Inl] by fastforce
    with Some Inl show ?thesis
      by (simp add: with_session_def requireSession_def)
  next
    case (Inr params)
    with Some assms(1) [of params "ep_s p"] show ?thesis
      by (auto simp: with_session_def requireSession_def split: prod.split)
  qed
qed

lemma adopt_session_typed:
  assumes "base64_go_ok L" "adopt_session L s creds h = (r, h')"
  shows "reply_typed (base64_DecodeString L) (Some AuthResult_type, codes) r"
  using assms by (auto simp: adopt_session_def AuthResult_typed split: prod.splits)

lemma unmarshal_typed:
  "unmarshal_params L f raw = Inl e \<Longrightarrow> ErrInvalidArg \<in> set codes \<Longrightarrow> reply_typed decode (t, codes) (Inl e)"
  using unmarshal_params_Inl by fastforce

text \<open>Signing in.\<close>

lemma HV_error_typed:
  "ErrHVRequired \<in> set codes \<Longrightarrow>
     reply_typed decode (t, codes)
       (Inl (Rpc_err \<lparr>re_Code = ErrHVRequired, re_Message = msg,
                      re_Details = Some (JObject [(''token'', JString tok), (''methods'', marshal_strings ms)])\<rparr>))"
  by (cases ms) (simp_all add: reply_typed_def error_typed_def HVDetails_type_def marshal_strings_def list_all_iff)

lemma handle_Auth_typed:
  assumes "base64_go_ok L" "handle_Auth L raw h = Some (r, h')"
  shows "reply_typed (base64_DecodeString L) (Some AuthResult_type, [ErrInvalidArg, ErrHVRequired, ErrAuthFailed]) r"
  using assms(2)
  by (auto simp: handle_Auth_def unmarshal_typed HV_error_typed adopt_session_typed [OF assms(1)]
      split: sum.splits prod.splits option.splits login_error.splits)

lemma handle_AuthWithHV_typed:
  assumes "base64_go_ok L" "handle_AuthWithHV L raw h = Some (r, h')"
  shows "reply_typed (base64_DecodeString L) (Some AuthResult_type, [ErrInvalidArg, ErrAuthFailed]) r"
  using assms(2)
  by (auto simp: handle_AuthWithHV_def Let_def unmarshal_typed adopt_session_typed [OF assms(1)]
      split: sum.splits prod.splits option.splits)

lemma handle_ResumeSession_typed:
  assumes "base64_go_ok L" "handle_ResumeSession L raw h = (r, h')"
  shows "reply_typed (base64_DecodeString L) (Some AuthResult_type, [ErrInvalidArg, ErrAuthFailed]) r"
  using assms(2)
  by (auto simp: handle_ResumeSession_def Let_def unmarshal_typed adopt_session_typed [OF assms(1)]
      split: sum.splits prod.splits)

lemma handle_GetCaptcha_typed:
  "reply_typed decode (Some GetCaptchaResult_type, [ErrInvalidArg, ErrInternal]) (fst (handle_GetCaptcha L raw h))"
  by (auto simp: handle_GetCaptcha_def unmarshal_typed GetCaptchaResult_type_def
      split: sum.split prod.split)

lemma handle_SendCode_typed:
  "reply_typed decode (Some SendCode_type, [ErrInvalidArg, ErrInternal]) (fst (handle_SendCode L raw h))"
  by (auto simp: handle_SendCode_def unmarshal_typed SendCode_type_def
      split: sum.split prod.split option.split)

text \<open>Files and events.\<close>

lemma handle_GetEvents_typed:
  "reply_typed decode (Some GetEventsResult_type, [ErrNotAuthed]) (fst (handle_GetEvents raw h))"
  by (auto simp: handle_GetEvents_def requireSession_def NotAuth_def GetEventsResult_typed
      split: option.split prod.split)

lemma handle_ListDir_typed:
  "reply_typed decode (Some ListDirResult_type, [ErrNotAuthed, ErrInvalidArg, ErrInternal]) (fst (handle_ListDir L raw h))"
  unfolding handle_ListDir_def
  by (rule with_session_typed)
     (auto simp: list_body_def ListDirResult_typed split: sum.split prod.split)

lemma handle_Stat_typed:
  "reply_typed decode (Some Entry_type, [ErrNotAuthed, ErrInvalidArg, ErrNotFound]) (fst (handle_Stat L raw h))"
  unfolding handle_Stat_def
  by (rule with_session_typed)
     (auto simp: stat_body_def NotFound_def Entry_typed Let_def split: sum.split prod.split)

lemma handle_FetchThumbnail_typed:
  "reply_typed decode (Some FetchThumbnailResult_type, [ErrNotAuthed, ErrInvalidArg]) (fst (handle_FetchThumbnail L raw h))"
  unfolding handle_FetchThumbnail_def
  by (rule with_session_typed) (auto simp: FetchThumbnailResult_typed split: sum.split prod.split)

lemma handle_Mkdir_typed:
  "reply_typed decode (None, [ErrNotAuthed, ErrInvalidArg, ErrAlreadyExists, ErrInternal]) (fst (handle_Mkdir L raw h))"
  unfolding handle_Mkdir_def
  by (rule with_session_typed) (auto simp: split: option.split prod.split)

lemma plain_outcome_typed: "ErrInternal \<in> set codes \<Longrightarrow> reply_typed decode (None, codes) (fst (plain_outcome m))"
  by (auto simp: plain_outcome_def split: prod.split option.split)

lemma handle_Delete_typed:
  "reply_typed decode (None, [ErrNotAuthed, ErrInvalidArg, ErrInternal]) (fst (handle_Delete L raw h))"
  unfolding handle_Delete_def by (rule with_session_typed) (auto simp: plain_outcome_typed)

lemma handle_Move_typed:
  "reply_typed decode (None, [ErrNotAuthed, ErrInvalidArg, ErrInternal]) (fst (handle_Move L raw h))"
  unfolding handle_Move_def by (rule with_session_typed) (auto simp: plain_outcome_typed)

lemma read_body_typed:
  assumes "base64_go_ok L" "read_body L params s = Some (r, s')"
  shows "reply_typed (base64_DecodeString L)
    (Some ReadResult_type, [ErrNotAuthed, ErrInvalidArg, ErrNotFound, ErrOffline, ErrInternal]) r"
  using assms
  by (auto simp: read_body_def NotFound_def Offline_def ReadResult_typed
      split: sum.splits prod.splits option.splits if_splits)

lemma handle_ReadFile_typed:
  assumes "base64_go_ok L" "handle_ReadFile L raw h = Some (r, h')"
  shows "reply_typed (base64_DecodeString L)
    (Some ReadResult_type, [ErrNotAuthed, ErrInvalidArg, ErrNotFound, ErrOffline, ErrInternal]) r"
  using assms(2)
  by (auto simp: handle_ReadFile_def requireSession_def NotAuth_def unmarshal_typed
      read_body_typed [OF assms(1)] split: sum.splits option.splits)

section \<open>The server\<close>

text \<open>The request does not end the helper.\<close>

definition survives :: "('w, 'k, 'n, 'm) helper_lib \<Rightarrow> request \<Rightarrow> ('w, 'k) helper \<Rightarrow> bool" where
  "survives L req h =
     (case map_of [(''Auth'', handle_Auth L), (''AuthWithHV'', handle_AuthWithHV L), (''ReadFile'', handle_ReadFile L)]
             (req_Method req) of
        None \<Rightarrow> True
      | Some f \<Rightarrow> f (req_Params req) h \<noteq> None)"

definition handler_typed ::
  "(string \<Rightarrow> byte list option) \<Rightarrow> (go_type option \<times> gint64 list) option \<Rightarrow> 'h handler option \<Rightarrow> json option \<Rightarrow> 'h \<Rightarrow> bool" where
  "handler_typed decode iface f raw h \<longleftrightarrow>
     (case (iface, f) of
        (None, None) \<Rightarrow> True
      | (Some iface, Some f) \<Rightarrow> reply_typed decode iface (fst (f raw h))
      | _ \<Rightarrow> False)"

lemma or_crash_typed:
  assumes "f raw h \<noteq> None" "\<And>r h'. f raw h = Some (r, h') \<Longrightarrow> reply_typed decode iface r"
  shows "reply_typed decode iface (fst (or_crash crash f raw h))"
  using assms by (auto simp: or_crash_def)

lemma helper_handlers_typed:
  assumes "base64_go_ok L" "survives L req h"
  shows "handler_typed (base64_DecodeString L) (map_of helper_interface (req_Method req))
    (helper_handlers L crash (req_Method req)) (req_Params req) h"
proof -
  obtain m where m: "req_Method req = m" by simp
  note typed = handle_Auth_typed [OF assms(1)] handle_AuthWithHV_typed [OF assms(1)] handle_ReadFile_typed [OF assms(1)]
  have resume: "reply_typed (base64_DecodeString L) (Some AuthResult_type, [ErrInvalidArg, ErrAuthFailed])
      (fst (handle_ResumeSession L raw h))" for raw
    by (rule handle_ResumeSession_typed [OF assms(1)]) (rule prod.collapse [symmetric])
  have crashing:
    "m = ''Auth'' \<Longrightarrow> handle_Auth L (req_Params req) h \<noteq> None"
    "m = ''AuthWithHV'' \<Longrightarrow> handle_AuthWithHV L (req_Params req) h \<noteq> None"
    "m = ''ReadFile'' \<Longrightarrow> handle_ReadFile L (req_Params req) h \<noteq> None"
    using assms(2) by (simp_all add: survives_def m)
  show ?thesis
    unfolding m
    using crashing
    by (simp add: handler_typed_def helper_handlers_def Register_def NewServer_def helper_interface_def resume
        handle_GetCaptcha_typed handle_SendCode_typed handle_GetEvents_typed handle_ListDir_typed handle_Stat_typed
        handle_FetchThumbnail_typed handle_Mkdir_typed handle_Delete_typed handle_Move_typed
        or_crash_typed [OF _ typed(1)] or_crash_typed [OF _ typed(2)] or_crash_typed [OF _ typed(3)])
qed

lemma dispatch_typed:
  assumes "handler_typed decode (map_of helper_interface (req_Method req)) (s (req_Method req)) (req_Params req) h"
    and "dispatch s req h = (resp, h')"
  shows "response_typed decode req resp"
  using assms
  by (auto simp: handler_typed_def dispatch_def response_typed_def reply_typed_def error_typed_def
      split: option.splits prod.splits sum.splits go_error.splits)

section \<open>Properties\<close>

text \<open>
  C13. Every response of the helper is well typed: whatever the request, its parameters and the state of
  the helper, the response carries the request's id and either a result of the type that \<open>types.go\<close>
  declares for the method (none for Mkdir, Delete and Move), or one of the method's error codes; only
  \<open>Auth\<close> asks for a human verification, and this error alone has details, of the type \<open>HVDetails\<close>. An
  unknown method is an internal error. The exception are requests that end the helper.
\<close>

theorem responses_typed:
  assumes "base64_go_ok L" "survives L req h"
    and "dispatch (helper_handlers L crash) req h = (resp, h')"
  shows "response_typed (base64_DecodeString L) req resp"
  using dispatch_typed [OF helper_handlers_typed [OF assms(1,2)] assms(3)] .

text \<open>A file that was created is waiting in the queue.\<close>

definition notified_helper :: "(int, unit) helper" where
  "notified_helper =
     (helper_of sample_file_session)
       \<lparr>h_session := Some \<lparr>ep_s = sample_file_session, ep_anchorPath = ''/c/anchor'',
                          ep_queue = [\<lparr>de_Type = EventCreated, de_LinkID = ''F'', de_Path = ''/f''\<rparr>]\<rparr>\<rparr>"

theorem responses_typed_witness:
  "\<exists>resp h'. dispatch (helper_handlers sample_lib no_crash)
       \<lparr>req_ID = 7, req_Method = ''GetEvents'', req_Params = None\<rparr> notified_helper = (resp, h') \<and>
     resp_Result resp = Some (marshal_GetEventsResult [\<lparr>evt_Type = ''created'', evt_LinkID = ''F'', evt_Path = ''/f''\<rparr>]) \<and>
     response_typed (base64_DecodeString sample_lib) \<lparr>req_ID = 7, req_Method = ''GetEvents'', req_Params = None\<rparr> resp"
proof -
  let ?req = "\<lparr>req_ID = 7, req_Method = ''GetEvents'', req_Params = None\<rparr>"
  obtain resp h' where r: "dispatch (helper_handlers sample_lib no_crash) ?req notified_helper = (resp, h')"
    by fastforce
  have "base64_DecodeString sample_lib (base64_StdEncoding (hl_json sample_lib) bs) = Some bs" for bs
    using bytes_of_chars [of bs] by (simp add: sample_lib_def sample_go_def comp_def)
  then have "response_typed (base64_DecodeString sample_lib) ?req resp"
    using responses_typed [OF _ _ r] by (simp add: base64_go_ok_def survives_def)
  moreover have "resp_Result resp = Some (marshal_GetEventsResult [\<lparr>evt_Type = ''created'', evt_LinkID = ''F'', evt_Path = ''/f''\<rparr>])"
    using r by (auto simp: dispatch_def helper_handlers_lookup handle_GetEvents_def requireSession_def notified_helper_def
        Drain_def event_of_def event_type_text_def)
  ultimately show ?thesis
    using r by blast
qed

end
