(* ===== verification/Volume_Monitor.thy ===== *)
theory Volume_Monitor
  imports Prelude "HOL-Library.AList"
begin

text \<open>
  The volume monitor, \<open>src/volume-monitor\<close>: a daemon that shows every account of the keyring as a
  volume. The watcher (\<open>proton-account-watcher.vala\<close>) keeps the set of known accounts, from searches
  of the keyring and from signals of the setup assistant; the monitor
  (\<open>proton-remote-volume-monitor.vala\<close>) turns each transition into a D-Bus signal. Everything runs in
  one main loop, but a search yields, so that other callbacks run before its result is used: the
  daemon is a step relation. The keyring and GVariant are parameters. Shown: a client that follows the
  signals has exactly the volumes that \<open>List\<close> returns; a finished search reports the difference; what
  becomes of an account announced during a search.
\<close>

section \<open>Volumes\<close>

text \<open>\<open>g_uri_escape_string\<close> without reserved characters to keep and without UTF-8.\<close>

definition unreserved :: "char \<Rightarrow> bool" where
  "unreserved c =
     (let n = of_char c :: nat in
      48 \<le> n \<and> n \<le> 57 \<or> 65 \<le> n \<and> n \<le> 90 \<or> 97 \<le> n \<and> n \<le> 122 \<or> c \<in> set ''-._~'')"

definition hex_digit :: "nat \<Rightarrow> char" where
  "hex_digit n = ''0123456789ABCDEF'' ! n"

definition escape_char :: "char \<Rightarrow> string" where
  "escape_char c =
     (if unreserved c then [c]
      else (let n = of_char c in [CHR ''%'', hex_digit (n div 16), hex_digit (n mod 16)]))"

definition escape_string :: "string \<Rightarrow> string" where
  "escape_string s = concat (map escape_char s)"

record volume =
  vo_username :: string
  vo_id :: string
  vo_activation_uri :: string

definition volume_new :: "string \<Rightarrow> volume" where
  "volume_new username =
     \<lparr>vo_username = username, vo_id = ''proton-'' @ username,
      vo_activation_uri = ''proton://'' @ escape_string username @ ''/''\<rparr>"

text \<open>Variants, and \<open>GIcon.serialize\<close> of a themed icon, which may be null.\<close>

record 'v variant_lib =
  variant_string :: "string \<Rightarrow> 'v"
  variant_boolean :: "bool \<Rightarrow> 'v"
  icon_serialize :: "string \<Rightarrow> 'v option"

definition display_name :: "volume \<Rightarrow> string" where
  "display_name vol = ''Proton Drive ('' @ vo_username vol @ '')''"

definition icon_variant :: "'v variant_lib \<Rightarrow> 'v" where
  "icon_variant V =
     (case icon_serialize V ''proton-drive-symbolic'' of
        Some serial \<Rightarrow> serial
      | None \<Rightarrow> variant_string V ''proton-drive-symbolic'')"

definition to_variant :: "'v variant_lib \<Rightarrow> volume \<Rightarrow> (string \<times> 'v) list" where
  "to_variant V vol =
     [(''type'', variant_string V ''volume''),
      (''id'', variant_string V (vo_id vol)),
      (''name'', variant_string V (display_name vol)),
      (''gicon-serialized'', icon_variant V),
      (''uuid'', variant_string V (vo_id vol)),
      (''activation-uri'', variant_string V (vo_activation_uri vol)),
      (''can-mount'', variant_boolean V True),
      (''can-eject'', variant_boolean V False),
      (''should-automount'', variant_boolean V False)]"

section \<open>The remote volume monitor\<close>

datatype 'v volume_signal =
    Volume_added string "(string \<times> 'v) list"
  | Volume_removed string "(string \<times> 'v) list"

text \<open>
  The watcher's \<open>_known\<close> and the monitor's \<open>_volumes\<close>, both hash tables: the first as the list of its
  keys, the second as an association list. \<open>rm_signals\<close>: what was emitted on the bus.
\<close>

record 'v remote_monitor =
  rm_known :: "string list"
  rm_volumes :: "(string \<times> volume) list"
  rm_signals :: "'v volume_signal list"

definition remote_volume_monitor :: "'v remote_monitor" where
  "remote_volume_monitor = \<lparr>rm_known = [], rm_volumes = [], rm_signals = []\<rparr>"

definition on_account_added :: "'v variant_lib \<Rightarrow> string \<Rightarrow> 'v remote_monitor \<Rightarrow> 'v remote_monitor" where
  "on_account_added V username m =
     (let vol = volume_new username in
      m\<lparr>rm_volumes := AList.update username vol (rm_volumes m),
        rm_signals := rm_signals m @ [Volume_added (vo_id vol) (to_variant V vol)]\<rparr>)"

definition on_account_removed :: "'v variant_lib \<Rightarrow> string \<Rightarrow> 'v remote_monitor \<Rightarrow> 'v remote_monitor" where
  "on_account_removed V username m =
     (case map_of (rm_volumes m) username of
        None \<Rightarrow> m
      | Some vol \<Rightarrow>
          m\<lparr>rm_volumes := AList.delete username (rm_volumes m),
            rm_signals := rm_signals m @ [Volume_removed (vo_id vol) (to_variant V vol)]\<rparr>)"

text \<open>
  \<open>order\<close> is the order in which a hash table with these keys is iterated. \<open>List\<close> returns no drives and
  no mounts.
\<close>

definition list_volumes ::
  "'v variant_lib \<Rightarrow> (string list \<Rightarrow> string list) \<Rightarrow> 'v remote_monitor \<Rightarrow> (string \<times> 'v) list list" where
  "list_volumes V order m =
     map (to_variant V) (List.map_filter (map_of (rm_volumes m)) (order (map fst (rm_volumes m))))"

section \<open>The account watcher\<close>

text \<open>The setup assistant's signals.\<close>

definition on_dbus_account_added :: "'v variant_lib \<Rightarrow> string \<Rightarrow> 'v remote_monitor \<Rightarrow> 'v remote_monitor" where
  "on_dbus_account_added V username m =
     (if username \<in> set (rm_known m) then m
      else on_account_added V username (m\<lparr>rm_known := rm_known m @ [username]\<rparr>))"

definition on_dbus_account_removed :: "'v variant_lib \<Rightarrow> string \<Rightarrow> 'v remote_monitor \<Rightarrow> 'v remote_monitor" where
  "on_dbus_account_removed V username m =
     (if username \<notin> set (rm_known m) then m
      else on_account_removed V username (m\<lparr>rm_known := removeAll username (rm_known m)\<rparr>))"

text \<open>
  \<open>reload\<close> from where the search has answered: an item is given by its attributes.
\<close>

type_synonym item = "string \<rightharpoonup> string"

definition current_accounts :: "item list \<Rightarrow> string list" where
  "current_accounts items =
     foldl (\<lambda>current item_attrs.
              case item_attrs ''username'' of
                None \<Rightarrow> current
              | Some username \<Rightarrow> if username \<in> set current then current else current @ [username]) [] items"

definition reload_added :: "'v variant_lib \<Rightarrow> string list \<Rightarrow> 'v remote_monitor \<Rightarrow> 'v remote_monitor" where
  "reload_added V current m =
     foldl (\<lambda>m username.
              if username \<in> set (rm_known m) then m
              else on_account_added V username (m\<lparr>rm_known := rm_known m @ [username]\<rparr>)) m current"

definition reload_removed :: "'v variant_lib \<Rightarrow> string list \<Rightarrow> 'v remote_monitor \<Rightarrow> 'v remote_monitor" where
  "reload_removed V removed m =
     foldl (\<lambda>m username.
              on_account_removed V username (m\<lparr>rm_known := removeAll username (rm_known m)\<rparr>)) m removed"

definition reload ::
  "'v variant_lib \<Rightarrow> (string list \<Rightarrow> string list) \<Rightarrow> item list \<Rightarrow> 'v remote_monitor \<Rightarrow> 'v remote_monitor" where
  "reload V order items m =
     (let current = current_accounts items;
          m = reload_added V (order current) m;
          removed = filter (\<lambda>username. username \<notin> set current) (order (rm_known m)) in
      reload_removed V removed m)"

section \<open>The daemon\<close>

text \<open>
  Where the asynchronous \<open>start\<close> stands: opening the keyring service, waiting for the first search,
  waiting for the bus connection, all listeners armed. A search in flight waits for its answer or
  for its turn in the main loop.
\<close>

datatype search = Searching | Answered "item list"

datatype start_phase = Unregistered | Opening | Loading search | Getting_bus | Armed

record ('k, 'v) vm_daemon =
  vm_monitor :: "'v remote_monitor"
  vm_keyring :: 'k
  vm_phase :: start_phase
  vm_reloads :: "search list"
  vm_running :: bool

definition vm_main :: "'k \<Rightarrow> ('k, 'v) vm_daemon" where
  "vm_main k = \<lparr>vm_monitor = remote_volume_monitor, vm_keyring = k, vm_phase = Unregistered,
                vm_reloads = [], vm_running = True\<rparr>"

definition on_bus_acquired :: "bool \<Rightarrow> ('k, 'v) vm_daemon \<Rightarrow> ('k, 'v) vm_daemon" where
  "on_bus_acquired registered d =
     (if registered then d\<lparr>vm_phase := Opening\<rparr> else d\<lparr>vm_running := False\<rparr>)"

definition on_service_dbus_signal :: "string \<Rightarrow> ('k, 'v) vm_daemon \<Rightarrow> ('k, 'v) vm_daemon" where
  "on_service_dbus_signal signal_name d =
     (if signal_name = ''CollectionCreated'' \<or> signal_name = ''CollectionDeleted'' \<or>
         signal_name = ''CollectionChanged''
      then d\<lparr>vm_reloads := vm_reloads d @ [Searching]\<rparr> else d)"

text \<open>
  A step of the main loop or of the environment, with its label. \<open>found\<close> is what \<open>password_searchv\<close>
  finds in a keyring for the watcher's schema and \<open>field = uid\<close>. A failed \<open>start\<close> or a lost name
  quits the loop; a failed later search only warns.
\<close>

datatype vm_event =
    Keyring_changed | Announced_added string | Announced_removed string | Service_signal string | Reloaded | Internal

inductive vm_step ::
  "'v variant_lib \<Rightarrow> (string list \<Rightarrow> string list) \<Rightarrow> ('k \<Rightarrow> item list) \<Rightarrow>
    vm_event \<Rightarrow> ('k, 'v) vm_daemon \<Rightarrow> ('k, 'v) vm_daemon \<Rightarrow> bool"
  for V order found where
  keyring: "vm_step V order found Keyring_changed d (d\<lparr>vm_keyring := k\<rparr>)"
| bus: "vm_running d \<Longrightarrow> vm_phase d = Unregistered \<Longrightarrow>
    vm_step V order found Internal d (on_bus_acquired registered d)"
| name_lost: "vm_running d \<Longrightarrow> vm_step V order found Internal d (d\<lparr>vm_running := False\<rparr>)"
| opened: "vm_running d \<Longrightarrow> vm_phase d = Opening \<Longrightarrow>
    vm_step V order found Internal d (d\<lparr>vm_phase := Loading Searching\<rparr>)"
| first_answer: "vm_phase d = Loading Searching \<Longrightarrow>
    vm_step V order found Internal d (d\<lparr>vm_phase := Loading (Answered (found (vm_keyring d)))\<rparr>)"
| loaded: "vm_running d \<Longrightarrow> vm_phase d = Loading (Answered items) \<Longrightarrow>
    vm_step V order found Reloaded d
      (d\<lparr>vm_monitor := reload V order items (vm_monitor d), vm_phase := Getting_bus\<rparr>)"
| armed: "vm_running d \<Longrightarrow> vm_phase d = Getting_bus \<Longrightarrow>
    vm_step V order found Internal d (d\<lparr>vm_phase := Armed\<rparr>)"
| start_failed: "vm_running d \<Longrightarrow> vm_phase d \<in> {Opening, Loading Searching, Getting_bus} \<Longrightarrow>
    vm_step V order found Internal d (d\<lparr>vm_running := False\<rparr>)"
| service_signal: "vm_running d \<Longrightarrow> vm_phase d \<in> {Getting_bus, Armed} \<Longrightarrow>
    vm_step V order found (Service_signal signal_name) d (on_service_dbus_signal signal_name d)"
| answer: "vm_reloads d = xs @ Searching # ys \<Longrightarrow>
    vm_step V order found Internal d (d\<lparr>vm_reloads := xs @ Answered (found (vm_keyring d)) # ys\<rparr>)"
| search_failed: "vm_running d \<Longrightarrow> vm_reloads d = xs @ Searching # ys \<Longrightarrow>
    vm_step V order found Internal d (d\<lparr>vm_reloads := xs @ ys\<rparr>)"
| resumed: "vm_running d \<Longrightarrow> vm_reloads d = xs @ Answered items # ys \<Longrightarrow>
    vm_step V order found Reloaded d
      (d\<lparr>vm_monitor := reload V order items (vm_monitor d), vm_reloads := xs @ ys\<rparr>)"
| account_added: "vm_running d \<Longrightarrow> vm_phase d = Armed \<Longrightarrow>
    vm_step V order found (Announced_added username) d
      (d\<lparr>vm_monitor := on_dbus_account_added V username (vm_monitor d)\<rparr>)"
| account_removed: "vm_running d \<Longrightarrow> vm_phase d = Armed \<Longrightarrow>
    vm_step V order found (Announced_removed username) d
      (d\<lparr>vm_monitor := on_dbus_account_removed V username (vm_monitor d)\<rparr>)"

inductive_cases vm_stepE: "vm_step V order found e d d'"
inductive_cases service_signalE: "vm_step V order found (Service_signal name) d d'"

inductive vm_run ::
  "'v variant_lib \<Rightarrow> (string list \<Rightarrow> string list) \<Rightarrow> ('k \<Rightarrow> item list) \<Rightarrow>
    ('k, 'v) vm_daemon \<Rightarrow> vm_event list \<Rightarrow> ('k, 'v) vm_daemon \<Rightarrow> bool"
  for V order found d0 where
  vm_start: "vm_run V order found d0 [] d0"
| vm_more: "vm_run V order found d0 es d \<Longrightarrow> vm_step V order found e d d' \<Longrightarrow> vm_run V order found d0 (es @ [e]) d'"

section \<open>Following the signals\<close>

text \<open>
  What a client of the bus makes of the signals: a table of volumes by id. A volume added twice or
  removed without being there is a protocol error.
\<close>

fun follow ::
  "'v volume_signal list \<Rightarrow> (string \<rightharpoonup> (string \<times> 'v) list) \<Rightarrow> (string \<rightharpoonup> (string \<times> 'v) list) option" where
  "follow [] c = Some c"
| "follow (Volume_added i vol # sigs) c = (if c i = None then follow sigs (c(i \<mapsto> vol)) else None)"
| "follow (Volume_removed i vol # sigs) c = (if c i = None then None else follow sigs (c(i := None)))"

definition volume_of :: "'v variant_lib \<Rightarrow> string \<Rightarrow> (string \<times> 'v) list" where
  "volume_of V u = to_variant V (volume_new u)"

definition view :: "'v variant_lib \<Rightarrow> string set \<Rightarrow> string \<rightharpoonup> (string \<times> 'v) list" where
  "view V us i = (if \<exists>u\<in>us. i = ''proton-'' @ u then Some (volume_of V (drop 7 i)) else None)"

definition added :: "'v variant_lib \<Rightarrow> string \<Rightarrow> 'v volume_signal" where
  "added V u = Volume_added (''proton-'' @ u) (volume_of V u)"

definition removed :: "'v variant_lib \<Rightarrow> string \<Rightarrow> 'v volume_signal" where
  "removed V u = Volume_removed (''proton-'' @ u) (volume_of V u)"

lemma follow_append: "follow (a @ b) c = Option.bind (follow a c) (follow b)"
proof (induction a arbitrary: c)
  case (Cons sig a)
  then show ?case
    by (cases sig) (auto simp: fun_upd_def)
qed simp

lemma view_none: "u \<notin> us \<Longrightarrow> view V us (''proton-'' @ u) = None"
  by (auto simp: view_def)

lemma view_some: "u \<in> us \<Longrightarrow> view V us (''proton-'' @ u) = Some (volume_of V u)"
  by (auto simp: view_def)

lemma view_insert: "(view V us)(''proton-'' @ u \<mapsto> volume_of V u) = view V (insert u us)"
  by (rule ext) (auto simp: view_def)

lemma view_remove: "(view V us)(''proton-'' @ u := None) = view V (us - {u})"
  by (rule ext) (auto simp: view_def)

lemma follow_added: "u \<notin> us \<Longrightarrow> follow [added V u] (view V us) = Some (view V (insert u us))"
  by (simp add: added_def view_none view_insert del: append.simps)

lemma follow_removed: "u \<in> us \<Longrightarrow> follow [removed V u] (view V us) = Some (view V (us - {u}))"
  by (simp add: removed_def view_some view_remove del: append.simps)

text \<open>Different accounts have different activation URIs.\<close>

lemma hex_digit_inj: "a < 16 \<Longrightarrow> b < 16 \<Longrightarrow> hex_digit a = hex_digit b \<longleftrightarrow> a = b"
proof -
  assume "a < 16" "b < 16"
  moreover have "distinct ''0123456789ABCDEF''"
    by simp
  ultimately show ?thesis
    unfolding hex_digit_def by (subst nth_eq_iff_index_eq) simp_all
qed

lemma escape_char_append:
  assumes "escape_char c @ r = escape_char d @ s"
  shows "c = d \<and> r = s"
proof -
  have p: "\<not> unreserved CHR ''%''"
    by (simp add: unreserved_def)
  have small: "of_char x div 16 < (16 :: nat)" for x
    using nat_of_char_less_256 [of x] by (simp add: less_mult_imp_div_less)
  show ?thesis
  proof (cases "unreserved c \<or> unreserved d")
    case True
    with assms p show ?thesis
      by (auto simp: escape_char_def Let_def split: if_splits)
  next
    case False
    with assms have "of_char c div 16 = (of_char d div 16 :: nat)" "of_char c mod 16 = (of_char d mod 16 :: nat)" "r = s"
      by (auto simp: escape_char_def Let_def hex_digit_inj small)
    moreover from this have "of_char c = (of_char d :: nat)"
      by (metis div_mult_mod_eq)
    ultimately show ?thesis
      by simp
  qed
qed

lemma escape_string_inj: "escape_string a = escape_string b \<Longrightarrow> a = b"
proof (induction a arbitrary: b)
  case Nil
  then show ?case
    by (cases b) (auto simp: escape_string_def escape_char_def Let_def split: if_splits)
next
  case (Cons c a)
  then obtain d b' where b: "b = d # b'"
    by (cases b) (auto simp: escape_string_def escape_char_def Let_def split: if_splits)
  with Cons.prems have "escape_char c @ escape_string a = escape_char d @ escape_string b'"
    by (simp add: escape_string_def)
  from escape_char_append [OF this] Cons.IH b show ?case
    by simp
qed

lemma activation_uri_inj: "vo_activation_uri (volume_new a) = vo_activation_uri (volume_new b) \<longleftrightarrow> a = b"
  by (auto simp: volume_new_def dest: escape_string_inj)

section \<open>The monitor's invariant\<close>

definition monitor_ok :: "'v variant_lib \<Rightarrow> 'v remote_monitor \<Rightarrow> bool" where
  "monitor_ok V m \<longleftrightarrow>
     distinct (rm_known m) \<and> distinct (map fst (rm_volumes m)) \<and>
     (\<forall>u. map_of (rm_volumes m) u = (if u \<in> set (rm_known m) then Some (volume_new u) else None)) \<and>
     follow (rm_signals m) Map.empty = Some (view V (set (rm_known m)))"

lemma new_monitor_ok: "monitor_ok V remote_volume_monitor"
  by (simp add: monitor_ok_def remote_volume_monitor_def view_def fun_eq_iff)

lemma volume_new_id: "vo_id (volume_new u) = ''proton-'' @ u"
  by (simp add: volume_new_def)

text \<open>The two transitions: a new account becomes known, a known one is forgotten.\<close>

lemma learn_ok:
  assumes "monitor_ok V m" "u \<notin> set (rm_known m)"
  shows "monitor_ok V (on_account_added V u (m\<lparr>rm_known := rm_known m @ [u]\<rparr>))"
proof -
  have f: "follow (rm_signals m @ [added V u]) Map.empty = Some (view V (insert u (set (rm_known m))))"
    using assms by (simp add: monitor_ok_def follow_append follow_added)
  have "distinct (map fst (AList.update u (volume_new u) (rm_volumes m)))"
    using assms(1) by (simp add: monitor_ok_def distinct_update)
  with assms f show ?thesis
    by (auto simp: monitor_ok_def on_account_added_def Let_def volume_new_id added_def volume_of_def
        update_conv' simp del: append.simps)
qed

lemma forget_ok:
  assumes "monitor_ok V m" "u \<in> set (rm_known m)"
  shows "monitor_ok V (on_account_removed V u (m\<lparr>rm_known := removeAll u (rm_known m)\<rparr>))"
proof -
  have f: "follow (rm_signals m @ [removed V u]) Map.empty = Some (view V (set (rm_known m) - {u}))"
    using assms by (simp add: monitor_ok_def follow_append follow_removed)
  have "distinct (map fst (AList.delete u (rm_volumes m)))"
    using assms(1) by (simp add: monitor_ok_def distinct_delete)
  with assms f show ?thesis
    by (auto simp: monitor_ok_def on_account_removed_def volume_new_id removed_def volume_of_def
        delete_conv' distinct_removeAll simp del: append.simps)
qed

lemma learn_effect:
  "rm_known (on_account_added V u (m\<lparr>rm_known := k\<rparr>)) = k"
  "rm_signals (on_account_added V u (m\<lparr>rm_known := k\<rparr>)) = rm_signals m @ [added V u]"
  by (simp_all add: on_account_added_def Let_def volume_new_id added_def volume_of_def)

lemma forget_effect:
  assumes "monitor_ok V m" "u \<in> set (rm_known m)"
  shows "rm_known (on_account_removed V u (m\<lparr>rm_known := k\<rparr>)) = k"
    and "rm_signals (on_account_removed V u (m\<lparr>rm_known := k\<rparr>)) = rm_signals m @ [removed V u]"
  using assms by (simp_all add: monitor_ok_def on_account_removed_def volume_new_id removed_def volume_of_def)

section \<open>What a search reports\<close>

lemma reload_added_effect:
  assumes "monitor_ok V m" "distinct current"
  shows "monitor_ok V (reload_added V current m) \<and>
    rm_known (reload_added V current m) = rm_known m @ filter (\<lambda>u. u \<notin> set (rm_known m)) current \<and>
    rm_signals (reload_added V current m) =
      rm_signals m @ map (added V) (filter (\<lambda>u. u \<notin> set (rm_known m)) current)"
  using assms
proof (induction current arbitrary: m)
  case Nil
  then show ?case
    by (simp add: reload_added_def)
next
  case (Cons u current)
  show ?case
  proof (cases "u \<in> set (rm_known m)")
    case True
    with Cons show ?thesis
      by (simp add: reload_added_def)
  next
    case False
    let ?m = "on_account_added V u (m\<lparr>rm_known := rm_known m @ [u]\<rparr>)"
    have step: "reload_added V (u # current) m = reload_added V current ?m"
      using False by (simp add: reload_added_def)
    have "filter (\<lambda>x. x \<notin> set (rm_known m @ [u])) current = filter (\<lambda>x. x \<notin> set (rm_known m)) current"
      using Cons.prems(2) by (intro filter_cong) auto
    with Cons.IH [OF learn_ok [OF Cons.prems(1) False]] Cons.prems(2) False show ?thesis
      by (simp add: step learn_effect)
  qed
qed

lemma reload_removed_effect:
  assumes "monitor_ok V m" "distinct gone" "set gone \<subseteq> set (rm_known m)"
  shows "monitor_ok V (reload_removed V gone m) \<and>
    set (rm_known (reload_removed V gone m)) = set (rm_known m) - set gone \<and>
    rm_signals (reload_removed V gone m) = rm_signals m @ map (removed V) gone"
  using assms
proof (induction gone arbitrary: m)
  case Nil
  then show ?case
    by (simp add: reload_removed_def)
next
  case (Cons u gone)
  let ?m = "on_account_removed V u (m\<lparr>rm_known := removeAll u (rm_known m)\<rparr>)"
  have u: "u \<in> set (rm_known m)"
    using Cons.prems(3) by simp
  have step: "reload_removed V (u # gone) m = reload_removed V gone ?m"
    by (simp add: reload_removed_def)
  have "set gone \<subseteq> set (rm_known ?m)"
    using Cons.prems(2,3) by (auto simp: forget_effect [OF Cons.prems(1) u])
  from Cons.IH [OF forget_ok [OF Cons.prems(1) u] _ this] Cons.prems(2) show ?case
    by (auto simp: step forget_effect [OF Cons.prems(1) u])
qed

definition accounts :: "item list \<Rightarrow> string set" where
  "accounts items = {u. \<exists>it\<in>set items. it ''username'' = Some u}"

lemma current_accounts_foldl:
  "distinct cur \<Longrightarrow>
   distinct (foldl (\<lambda>current item_attrs.
              case item_attrs ''username'' of
                None \<Rightarrow> current
              | Some username \<Rightarrow> if username \<in> set current then current else current @ [username]) cur items) \<and>
   set (foldl (\<lambda>current item_attrs.
              case item_attrs ''username'' of
                None \<Rightarrow> current
              | Some username \<Rightarrow> if username \<in> set current then current else current @ [username]) cur items) =
     set cur \<union> accounts (items :: item list)"
proof (induction items arbitrary: cur)
  case (Cons it items)
  show ?case
  proof (cases "it ''username''")
    case None
    with Cons show ?thesis
      by (simp add: accounts_def)
  next
    case (Some u)
    with Cons.IH [of "if u \<in> set cur then cur else cur @ [u]"] Cons.prems show ?thesis
      by (auto simp: accounts_def)
  qed
qed (simp add: accounts_def)

lemma current_accounts_set: "distinct (current_accounts items)" "set (current_accounts items) = accounts items"
  using current_accounts_foldl [of "[]" items] by (simp_all add: current_accounts_def)

text \<open>Iterating a table visits every key once.\<close>

definition order_ok :: "(string list \<Rightarrow> string list) \<Rightarrow> bool" where
  "order_ok order \<longleftrightarrow> (\<forall>ks. distinct ks \<longrightarrow> distinct (order ks) \<and> set (order ks) = set ks)"

lemma order_okD: "order_ok order \<Longrightarrow> distinct ks \<Longrightarrow> distinct (order ks) \<and> set (order ks) = set ks"
  by (simp add: order_ok_def)

lemma reload_effect:
  assumes "monitor_ok V m" "order_ok order"
  shows "monitor_ok V (reload V order items m) \<and> set (rm_known (reload V order items m)) = accounts items \<and>
    (\<exists>new gone. distinct new \<and> set new = accounts items - set (rm_known m) \<and>
       distinct gone \<and> set gone = set (rm_known m) - accounts items \<and>
       rm_signals (reload V order items m) = rm_signals m @ map (added V) new @ map (removed V) gone)"
proof -
  let ?cur = "order (current_accounts items)"
  have cur: "distinct ?cur" "set ?cur = accounts items"
    using order_okD [OF assms(2)] current_accounts_set by auto
  let ?m = "reload_added V ?cur m"
  let ?new = "filter (\<lambda>u. u \<notin> set (rm_known m)) ?cur"
  from reload_added_effect [OF assms(1) cur(1)]
  have a: "monitor_ok V ?m" "rm_known ?m = rm_known m @ ?new" "rm_signals ?m = rm_signals m @ map (added V) ?new"
    by auto
  let ?gone = "filter (\<lambda>u. u \<notin> accounts items) (order (rm_known ?m))"
  have known: "distinct (order (rm_known ?m))" "set (order (rm_known ?m)) = set (rm_known m) \<union> accounts items"
    using order_okD [OF assms(2), of "rm_known ?m"] a(1,2) cur(2) by (auto simp: monitor_ok_def)
  then have gone: "distinct ?gone" "set ?gone = set (rm_known m) - accounts items"
    by auto
  have sub: "set ?gone \<subseteq> set (rm_known ?m)"
    using a(2) gone(2) by auto
  have r: "reload V order items m = reload_removed V ?gone ?m"
    by (simp add: reload_def Let_def current_accounts_set)
  have "distinct ?new" "set ?new = accounts items - set (rm_known m)"
    using cur by auto
  moreover have "set (rm_known m @ ?new) - set ?gone = accounts items"
    using cur(2) gone(2) by auto
  ultimately show ?thesis
    using reload_removed_effect [OF a(1) gone(1) sub] gone unfolding r a(2,3) by force
qed

section \<open>Runs\<close>

text \<open>What a step does to the monitor: nothing, one of the announcements, or a reload.\<close>

lemma vm_step_monitor:
  assumes "vm_step V order found e d d'"
  shows "((e \<in> {Keyring_changed, Internal} \<or> (\<exists>name. e = Service_signal name)) \<and> vm_monitor d' = vm_monitor d) \<or>
    (\<exists>u. e = Announced_added u \<and> vm_monitor d' = on_dbus_account_added V u (vm_monitor d)) \<or>
    (\<exists>u. e = Announced_removed u \<and> vm_monitor d' = on_dbus_account_removed V u (vm_monitor d)) \<or>
    (\<exists>items. e = Reloaded \<and> vm_monitor d' = reload V order items (vm_monitor d) \<and>
       (Answered items \<in> set (vm_reloads d) \<or> vm_phase d = Loading (Answered items)))"
  using assms by (rule vm_stepE) (auto simp: on_bus_acquired_def on_service_dbus_signal_def)

lemma announced_added_ok: "monitor_ok V m \<Longrightarrow> monitor_ok V (on_dbus_account_added V u m)"
  by (simp add: on_dbus_account_added_def learn_ok)

lemma announced_removed_ok: "monitor_ok V m \<Longrightarrow> monitor_ok V (on_dbus_account_removed V u m)"
  by (simp add: on_dbus_account_removed_def forget_ok)

lemma vm_step_ok:
  assumes "vm_step V order found e d d'" "order_ok order" "monitor_ok V (vm_monitor d)"
  shows "monitor_ok V (vm_monitor d')"
  using vm_step_monitor [OF assms(1)] assms(2,3)
  by (auto simp: announced_added_ok announced_removed_ok reload_effect)

lemma vm_run_ok:
  assumes "vm_run V order found d0 es d" "order_ok order" "monitor_ok V (vm_monitor d0)"
  shows "monitor_ok V (vm_monitor d)"
  using assms by (induction rule: vm_run.induct) (auto intro: vm_step_ok)

lemma vm_main_ok: "monitor_ok V (vm_monitor (vm_main k))"
  by (simp add: vm_main_def new_monitor_ok)

lemmas reached_ok = vm_run_ok [OF _ _ vm_main_ok]

text \<open>The answer to \<open>List\<close>.\<close>

lemma map_filter_known:
  assumes "\<forall>u\<in>set us. f u = Some (g u)"
  shows "List.map_filter f us = map g us"
  using assms by (induction us) (simp_all add: map_filter_simps)

lemma list_volumes_known:
  assumes "monitor_ok V m" "order_ok order"
  shows "\<exists>us. distinct us \<and> set us = set (rm_known m) \<and> list_volumes V order m = map (volume_of V) us"
proof -
  let ?ks = "map fst (rm_volumes m)"
  have dom: "set ?ks = set (rm_known m)"
    using assms(1) dom_map_of_conv_image_fst [of "rm_volumes m"]
    by (auto simp: monitor_ok_def dom_def split: if_splits)
  have o: "distinct (order ?ks)" "set (order ?ks) = set (rm_known m)"
    using order_okD [OF assms(2), of ?ks] assms(1) dom by (auto simp: monitor_ok_def)
  have "List.map_filter (map_of (rm_volumes m)) (order ?ks) = map volume_new (order ?ks)"
    using assms(1) o(2) by (intro map_filter_known) (simp add: monitor_ok_def)
  with o show ?thesis
    by (intro exI [of _ "order ?ks"]) (simp add: list_volumes_def volume_of_def)
qed

lemma view_someE:
  assumes "view V us i = Some x"
  obtains u where "u \<in> us" "i = ''proton-'' @ u" "x = volume_of V u"
  using assms by (auto simp: view_def split: if_splits)

lemma ran_view: "ran (view V us) = volume_of V ` us"
proof (intro equalityI subsetI)
  fix x assume "x \<in> ran (view V us)"
  then show "x \<in> volume_of V ` us"
    by (auto simp: ran_def elim: view_someE)
next
  fix x assume "x \<in> volume_of V ` us"
  then show "x \<in> ran (view V us)"
    by (auto intro: ranI view_some)
qed

lemma dom_view: "dom (view V us) = (\<lambda>u. ''proton-'' @ u) ` us"
  by (force simp: dom_def view_def image_iff)

section \<open>Agreement with the keyring\<close>

text \<open>
  A finished or waiting search is fresh if it answers for the present keyring. While the keyring
  stays and the announcements tell what is in it, freshness stays, and the known accounts are those
  of the keyring from the first reload on.
\<close>

definition searches_fresh :: "('k \<Rightarrow> item list) \<Rightarrow> ('k, 'v) vm_daemon \<Rightarrow> bool" where
  "searches_fresh found d \<longleftrightarrow>
     (\<forall>items. Answered items \<in> set (vm_reloads d) \<or> vm_phase d = Loading (Answered items) \<longrightarrow>
        items = found (vm_keyring d))"

fun truthful :: "string set \<Rightarrow> vm_event \<Rightarrow> bool" where
  "truthful us Keyring_changed = False"
| "truthful us (Announced_added u) = (u \<in> us)"
| "truthful us (Announced_removed u) = (u \<notin> us)"
| "truthful us _ = True"

lemma vm_step_fresh:
  assumes "vm_step V order found e d d'" "e \<noteq> Keyring_changed" "searches_fresh found d"
  shows "searches_fresh found d' \<and> vm_keyring d' = vm_keyring d"
  using assms
  by (auto elim!: vm_stepE simp: searches_fresh_def on_bus_acquired_def on_service_dbus_signal_def
      split: if_splits)

lemma announced_added_known: "set (rm_known (on_dbus_account_added V u m)) = insert u (set (rm_known m))"
  by (auto simp: on_dbus_account_added_def learn_effect)

lemma announced_removed_known:
  "monitor_ok V m \<Longrightarrow> set (rm_known (on_dbus_account_removed V u m)) = set (rm_known m) - {u}"
  by (auto simp: on_dbus_account_removed_def forget_effect)

definition settled :: "('k \<Rightarrow> item list) \<Rightarrow> ('k, 'v) vm_daemon \<Rightarrow> bool" where
  "settled found d \<longleftrightarrow> set (rm_known (vm_monitor d)) = accounts (found (vm_keyring d))"

lemma vm_step_settled:
  assumes "vm_step V order found e d d'" "order_ok order" "monitor_ok V (vm_monitor d)" "searches_fresh found d"
    and "truthful (accounts (found (vm_keyring d))) e" "settled found d \<or> e = Reloaded"
  shows "settled found d'"
proof -
  have e: "e \<noteq> Keyring_changed"
    using assms(5) by (cases e) simp_all
  have k: "vm_keyring d' = vm_keyring d"
    using vm_step_fresh [OF assms(1) e assms(4)] by simp
  consider "vm_monitor d' = vm_monitor d" "e \<noteq> Reloaded"
    | u where "e = Announced_added u" "vm_monitor d' = on_dbus_account_added V u (vm_monitor d)"
    | u where "e = Announced_removed u" "vm_monitor d' = on_dbus_account_removed V u (vm_monitor d)"
    | items where "vm_monitor d' = reload V order items (vm_monitor d)"
        "Answered items \<in> set (vm_reloads d) \<or> vm_phase d = Loading (Answered items)"
    using vm_step_monitor [OF assms(1)] by auto
  then show ?thesis
  proof cases
    case 4
    with assms(2,3,4) k show ?thesis
      by (auto simp: settled_def searches_fresh_def reload_effect)
  qed (use assms(3,5,6) k in \<open>auto simp: settled_def announced_added_known announced_removed_known\<close>)
qed

lemma vm_run_settles:
  assumes "vm_run V order found d es d'" "order_ok order" "monitor_ok V (vm_monitor d)" "searches_fresh found d"
    and "\<forall>e\<in>set es. truthful (accounts (found (vm_keyring d))) e"
  shows "monitor_ok V (vm_monitor d') \<and> searches_fresh found d' \<and> vm_keyring d' = vm_keyring d \<and>
    (Reloaded \<in> set es \<longrightarrow> settled found d')"
  using assms
proof (induction rule: vm_run.induct)
  case (vm_more es d' e d'')
  then have IH: "monitor_ok V (vm_monitor d')" "searches_fresh found d'" "vm_keyring d' = vm_keyring d"
    "Reloaded \<in> set es \<longrightarrow> settled found d'"
    by auto
  have t: "truthful (accounts (found (vm_keyring d'))) e"
    using vm_more.prems(4) IH(3) by simp
  then have e: "e \<noteq> Keyring_changed"
    by (cases e) simp_all
  have "Reloaded \<in> set (es @ [e]) \<longrightarrow> settled found d''"
    using vm_step_settled [OF vm_more.hyps(2) vm_more.prems(1) IH(1,2) t] IH(4) by auto
  with vm_step_ok [OF vm_more.hyps(2) vm_more.prems(1) IH(1)] vm_step_fresh [OF vm_more.hyps(2) e IH(2)] IH(3)
  show ?case
    by simp
qed simp

section \<open>Properties\<close>

text \<open>
  C30. In every reachable state of the daemon a client of the bus that has followed its signals has met
  no volume added twice and none removed that was not there, and has exactly the volumes that \<open>List\<close>
  returns: one for each known account, under the id \<open>proton-\<close> with the user name.
\<close>

theorem clients_mirror_volumes:
  assumes "order_ok order" "vm_run V order found (vm_main k) es d"
  shows "\<exists>c. follow (rm_signals (vm_monitor d)) Map.empty = Some c \<and>
    dom c = (\<lambda>u. ''proton-'' @ u) ` set (rm_known (vm_monitor d)) \<and>
    ran c = set (list_volumes V order (vm_monitor d)) \<and>
    length (list_volumes V order (vm_monitor d)) = card (set (rm_known (vm_monitor d)))"
proof -
  have ok: "monitor_ok V (vm_monitor d)"
    by (rule reached_ok [OF assms(2,1)])
  obtain us where us: "distinct us" "set us = set (rm_known (vm_monitor d))"
    "list_volumes V order (vm_monitor d) = map (volume_of V) us"
    using list_volumes_known [OF ok assms(1)] by blast
  from ok have "follow (rm_signals (vm_monitor d)) Map.empty = Some (view V (set (rm_known (vm_monitor d))))"
    by (simp add: monitor_ok_def)
  then show ?thesis
    using us distinct_card [OF us(1)]
    by (intro exI [of _ "view V (set (rm_known (vm_monitor d)))"])
       (simp add: dom_view ran_view del: append.simps)
qed

text \<open>
  A keyring is a list of user names here, and a search finds an item for each; variants are strings.
\<close>

definition sample_variants :: "string variant_lib" where
  "sample_variants = \<lparr>variant_string = (\<lambda>s. s), variant_boolean = (\<lambda>b. if b then ''true'' else ''false''),
     icon_serialize = (\<lambda>s. None)\<rparr>"

definition sample_found :: "string list \<Rightarrow> item list" where
  "sample_found us = map (\<lambda>u. [''username'' \<mapsto> u, ''field'' \<mapsto> ''uid'']) us"

lemma sample_order_ok: "order_ok (\<lambda>ks. ks)"
  by (simp add: order_ok_def)

definition armed_with :: "'v remote_monitor \<Rightarrow> search list \<Rightarrow> 'k \<Rightarrow> ('k, 'v) vm_daemon" where
  "armed_with m rs k = \<lparr>vm_monitor = m, vm_keyring = k, vm_phase = Armed, vm_reloads = rs, vm_running = True\<rparr>"

text \<open>The daemon's start, with a keyring that does not change.\<close>

lemma start_run:
  fixes V :: "'v variant_lib" and k :: 'k
  shows "vm_run V order found (vm_main k) [Internal, Internal, Internal, Reloaded, Internal]
     (armed_with (reload V order (found k) remote_volume_monitor) [] k)"
proof -
  let ?d1 = "(vm_main k :: ('k, 'v) vm_daemon)\<lparr>vm_phase := Opening\<rparr>"
  let ?d2 = "?d1\<lparr>vm_phase := Loading Searching\<rparr>"
  let ?d3 = "?d2\<lparr>vm_phase := Loading (Answered (found k))\<rparr>"
  let ?d4 = "?d3\<lparr>vm_monitor := reload V order (found k) (vm_monitor ?d3), vm_phase := Getting_bus\<rparr>"
  let ?d5 = "?d4\<lparr>vm_phase := Armed\<rparr>"
  have 1: "vm_step V order found Internal (vm_main k) ?d1"
    using vm_step.bus [of "vm_main k" V order found True] by (simp add: vm_main_def on_bus_acquired_def)
  have 2: "vm_step V order found Internal ?d1 ?d2"
    by (rule vm_step.opened) (simp_all add: vm_main_def)
  have 3: "vm_step V order found Internal ?d2 ?d3"
    using vm_step.first_answer [of ?d2 V order found] by (simp add: vm_main_def)
  have 4: "vm_step V order found Reloaded ?d3 ?d4"
    by (rule vm_step.loaded) (simp_all add: vm_main_def)
  have 5: "vm_step V order found Internal ?d4 ?d5"
    by (rule vm_step.armed) (simp_all add: vm_main_def)
  from vm_run.vm_more [OF vm_run.vm_more [OF vm_run.vm_more [OF vm_run.vm_more [OF vm_run.vm_more [OF vm_run.vm_start 1] 2] 3] 4] 5]
  have "vm_run V order found (vm_main k) [Internal, Internal, Internal, Reloaded, Internal] ?d5"
    by simp
  then show ?thesis
    by (simp add: vm_main_def armed_with_def)
qed

theorem clients_mirror_volumes_witness:
  "\<exists>c. follow (rm_signals (reload sample_variants (\<lambda>ks. ks) (sample_found [''a@b'']) remote_volume_monitor)) Map.empty = Some c \<and>
     ran c = {volume_of sample_variants ''a@b''}"
proof -
  let ?m = "reload sample_variants (\<lambda>ks. ks) (sample_found [''a@b'']) remote_volume_monitor"
  have l: "list_volumes sample_variants (\<lambda>ks. ks) ?m = [volume_of sample_variants ''a@b'']"
    by (simp add: reload_def current_accounts_def sample_found_def reload_added_def reload_removed_def
        remote_volume_monitor_def on_account_added_def list_volumes_def volume_of_def map_filter_simps Let_def)
  from clients_mirror_volumes [OF sample_order_ok start_run [of sample_variants "\<lambda>ks. ks" sample_found "[''a@b'']"]] l
  show ?thesis
    by (auto simp: armed_with_def)
qed

text \<open>
  When a search is used, the volumes become those of its answer, whatever was known before: each
  new account is announced once, then each account that is gone is, and nothing else is sent.
\<close>

theorem reload_reports_difference:
  assumes "order_ok order" "vm_run V order found (vm_main k) es d"
  shows "\<exists>new gone. distinct new \<and> set new = accounts items - set (rm_known (vm_monitor d)) \<and>
    distinct gone \<and> set gone = set (rm_known (vm_monitor d)) - accounts items \<and>
    rm_signals (reload V order items (vm_monitor d)) =
      rm_signals (vm_monitor d) @ map (added V) new @ map (removed V) gone \<and>
    set (rm_known (reload V order items (vm_monitor d))) = accounts items"
proof -
  from reload_effect [OF reached_ok [OF assms(2,1)] assms(1), where items = items]
  obtain new gone where "distinct new" "set new = accounts items - set (rm_known (vm_monitor d))"
    "distinct gone" "set gone = set (rm_known (vm_monitor d)) - accounts items"
    "rm_signals (reload V order items (vm_monitor d)) =
      rm_signals (vm_monitor d) @ map (added V) new @ map (removed V) gone"
    "set (rm_known (reload V order items (vm_monitor d))) = accounts items"
    by (elim exE conjE)
  then show ?thesis
    by (intro exI [of _ new] exI [of _ gone]) simp
qed

theorem reload_reports_difference_witness:
  "\<exists>m. rm_known m = [''a''] \<and>
     rm_signals (reload sample_variants (\<lambda>ks. ks) (sample_found [''b'']) m) =
       rm_signals m @ [added sample_variants ''b'', removed sample_variants ''a'']"
proof -
  let ?m = "reload sample_variants (\<lambda>ks. ks) (sample_found [''a'']) remote_volume_monitor"
  have k: "rm_known ?m = [''a'']"
    by (simp add: reload_def current_accounts_def sample_found_def reload_added_def reload_removed_def
        remote_volume_monitor_def on_account_added_def Let_def)
  have acc: "accounts (sample_found [''b'']) = {''b''}"
    by (auto simp: accounts_def sample_found_def)
  from reload_reports_difference [OF sample_order_ok start_run [of sample_variants "\<lambda>ks. ks" sample_found "[''a'']"],
      of "sample_found [''b'']"]
  obtain new gone where r: "distinct new" "set new = {''b''}" "distinct gone" "set gone = {''a''}"
    "rm_signals (reload sample_variants (\<lambda>ks. ks) (sample_found [''b'']) ?m) =
       rm_signals ?m @ map (added sample_variants) new @ map (removed sample_variants) gone"
    by (auto simp: armed_with_def k acc)
  have single: "xs = [x]" if "distinct xs" "set xs = {x}" for xs and x :: string
    using that by (cases xs) (auto dest: subset_singletonD)
  from r k show ?thesis
    by (intro exI [of _ ?m]) (simp add: single [OF r(1,2)] single [OF r(3,4)])
qed

text \<open>
  C31. Once every search in flight answers for the present keyring, the first one used makes the known
  accounts those of the keyring, and they stay so while the keyring does and the announcements are
  true. A signal of the keyring service starts one more search if it says that a collection was created,
  deleted or changed, and none otherwise; with armed listeners each of these three signals is handled, and when its
  search has been answered and used, the known accounts are those of the keyring.
\<close>

theorem accounts_follow_keyring:
  assumes "order_ok order" "vm_run V order found (vm_main k) es0 d" "searches_fresh found d"
  shows "(\<forall>es d'. vm_run V order found d es d' \<longrightarrow> Reloaded \<in> set es \<longrightarrow>
      (\<forall>e\<in>set es. truthful (accounts (found (vm_keyring d))) e) \<longrightarrow>
      set (rm_known (vm_monitor d')) = accounts (found (vm_keyring d))) \<and>
    (\<forall>name d'. vm_step V order found (Service_signal name) d d' \<longrightarrow>
      vm_reloads d' = vm_reloads d @
        (if name \<in> {''CollectionCreated'', ''CollectionDeleted'', ''CollectionChanged''} then [Searching] else [])) \<and>
    (vm_running d \<and> vm_phase d \<in> {Getting_bus, Armed} \<longrightarrow>
      (\<forall>name \<in> {''CollectionCreated'', ''CollectionDeleted'', ''CollectionChanged''}. \<exists>d1 d2 d3.
         vm_step V order found (Service_signal name) d d1 \<and> vm_reloads d1 = vm_reloads d @ [Searching] \<and>
         vm_step V order found Internal d1 d2 \<and> vm_reloads d2 = vm_reloads d @ [Answered (found (vm_keyring d))] \<and>
         vm_step V order found Reloaded d2 d3 \<and> vm_reloads d3 = vm_reloads d \<and>
         set (rm_known (vm_monitor d3)) = accounts (found (vm_keyring d))))"
proof (intro conjI)
  have ok: "monitor_ok V (vm_monitor d)"
    by (rule reached_ok [OF assms(2,1)])
  have settles: "set (rm_known (vm_monitor d')) = accounts (found (vm_keyring d))"
    if "vm_run V order found d es d'" "Reloaded \<in> set es" "\<forall>e\<in>set es. truthful (accounts (found (vm_keyring d))) e" for es d'
    using vm_run_settles [OF that(1) assms(1) ok assms(3) that(3)] that(2) by (simp add: settled_def)
  then show "\<forall>es d'. vm_run V order found d es d' \<longrightarrow> Reloaded \<in> set es \<longrightarrow>
      (\<forall>e\<in>set es. truthful (accounts (found (vm_keyring d))) e) \<longrightarrow>
      set (rm_known (vm_monitor d')) = accounts (found (vm_keyring d))"
    by blast
  show "\<forall>name d'. vm_step V order found (Service_signal name) d d' \<longrightarrow>
      vm_reloads d' = vm_reloads d @
        (if name \<in> {''CollectionCreated'', ''CollectionDeleted'', ''CollectionChanged''} then [Searching] else [])"
    by (auto elim!: service_signalE simp: on_service_dbus_signal_def)
  show "vm_running d \<and> vm_phase d \<in> {Getting_bus, Armed} \<longrightarrow>
      (\<forall>name \<in> {''CollectionCreated'', ''CollectionDeleted'', ''CollectionChanged''}. \<exists>d1 d2 d3.
         vm_step V order found (Service_signal name) d d1 \<and> vm_reloads d1 = vm_reloads d @ [Searching] \<and>
         vm_step V order found Internal d1 d2 \<and> vm_reloads d2 = vm_reloads d @ [Answered (found (vm_keyring d))] \<and>
         vm_step V order found Reloaded d2 d3 \<and> vm_reloads d3 = vm_reloads d \<and>
         set (rm_known (vm_monitor d3)) = accounts (found (vm_keyring d)))"
  proof (intro impI ballI)
    fix name
    assume armed: "vm_running d \<and> vm_phase d \<in> {Getting_bus, Armed}"
      and name: "name \<in> {''CollectionCreated'', ''CollectionDeleted'', ''CollectionChanged''}"
    let ?d1 = "d\<lparr>vm_reloads := vm_reloads d @ [Searching]\<rparr>"
    let ?d2 = "?d1\<lparr>vm_reloads := vm_reloads d @ [Answered (found (vm_keyring d))]\<rparr>"
    let ?d3 = "?d2\<lparr>vm_monitor := reload V order (found (vm_keyring d)) (vm_monitor d), vm_reloads := vm_reloads d\<rparr>"
    have 1: "vm_step V order found (Service_signal name) d ?d1"
      using vm_step.service_signal [of d V order found name] armed name by (auto simp: on_service_dbus_signal_def)
    have 2: "vm_step V order found Internal ?d1 ?d2"
      using vm_step.answer [of ?d1 "vm_reloads d" "[]" V order found] by simp
    have 3: "vm_step V order found Reloaded ?d2 ?d3"
      using vm_step.resumed [of ?d2 "vm_reloads d" "found (vm_keyring d)" "[]" V order found] armed by simp
    from settles [OF vm_run.vm_more [OF vm_run.vm_more [OF vm_run.vm_more [OF vm_run.vm_start 1] 2] 3]]
    have "set (rm_known (vm_monitor ?d3)) = accounts (found (vm_keyring d))"
      by simp
    moreover have "vm_reloads ?d1 = vm_reloads d @ [Searching]" "vm_reloads ?d2 = vm_reloads d @ [Answered (found (vm_keyring d))]"
        "vm_reloads ?d3 = vm_reloads d"
      by simp_all
    ultimately show "\<exists>d1 d2 d3.
         vm_step V order found (Service_signal name) d d1 \<and> vm_reloads d1 = vm_reloads d @ [Searching] \<and>
         vm_step V order found Internal d1 d2 \<and> vm_reloads d2 = vm_reloads d @ [Answered (found (vm_keyring d))] \<and>
         vm_step V order found Reloaded d2 d3 \<and> vm_reloads d3 = vm_reloads d \<and>
         set (rm_known (vm_monitor d3)) = accounts (found (vm_keyring d))"
      using 1 2 3 by blast
  qed
qed

theorem accounts_follow_keyring_witness:
  "\<exists>d1 d2 d3.
     vm_step sample_variants (\<lambda>ks. ks) sample_found (Service_signal ''CollectionDeleted'')
      (armed_with (reload sample_variants (\<lambda>ks. ks) (sample_found [''a@b'']) remote_volume_monitor) [] [''a@b'']) d1 \<and>
     vm_step sample_variants (\<lambda>ks. ks) sample_found Internal d1 d2 \<and>
     vm_step sample_variants (\<lambda>ks. ks) sample_found Reloaded d2 d3 \<and> set (rm_known (vm_monitor d3)) = {''a@b''}"
proof -
  have acc: "accounts (sample_found [''a@b'']) = {''a@b''}"
    by (auto simp: accounts_def sample_found_def)
  let ?d = "armed_with (reload sample_variants (\<lambda>ks. ks) (sample_found [''a@b'']) remote_volume_monitor) [] [''a@b'']"
  have "searches_fresh sample_found ?d"
    by (simp add: searches_fresh_def armed_with_def)
  note follows = conjunct2 [OF conjunct2 [OF accounts_follow_keyring [OF sample_order_ok start_run this]]]
  have armed: "vm_running ?d \<and> vm_phase ?d \<in> {Getting_bus, Armed}" "vm_keyring ?d = [''a@b'']"
    by (simp_all add: armed_with_def)
  have "''CollectionDeleted'' \<in> {''CollectionCreated'', ''CollectionDeleted'', ''CollectionChanged''}"
    by simp
  from bspec [OF mp [OF follows armed(1)] this] show ?thesis
    unfolding armed(2) acc by (elim exE conjE, intro exI conjI)
qed

text \<open>
  An account announced while the answer of an older search waits is added, then removed again when
  that answer is used, although the keyring holds it.
\<close>

lemma stale_search_removes_announced:
  assumes "order_ok order" "vm_run V order found (vm_main k) es d"
    and "u \<notin> accounts items" "u \<notin> set (rm_known (vm_monitor d))"
  shows "\<exists>new gone. u \<in> set gone \<and>
    rm_signals (reload V order items (on_dbus_account_added V u (vm_monitor d))) =
      rm_signals (vm_monitor d) @ added V u # map (added V) new @ map (removed V) gone"
proof -
  have ok: "monitor_ok V (vm_monitor d)"
    by (rule reached_ok [OF assms(2,1)])
  let ?m = "on_dbus_account_added V u (vm_monitor d)"
  from reload_effect [OF announced_added_ok [OF ok, of u] assms(1), where items = items]
  obtain new gone where g: "set gone = set (rm_known ?m) - accounts items"
    and r: "rm_signals (reload V order items ?m) = rm_signals ?m @ map (added V) new @ map (removed V) gone"
    by (elim exE conjE)
  have "u \<in> set gone"
    using assms(3) by (simp add: g announced_added_known)
  moreover have "rm_signals ?m = rm_signals (vm_monitor d) @ [added V u]"
    using assms(4) by (simp add: on_dbus_account_added_def learn_effect)
  ultimately show ?thesis
    using r by (intro exI [of _ new] exI [of _ gone]) simp
qed

end
