(* ===== verification/Setup_Captcha.thy ===== *)
theory Setup_Captcha
  imports Prelude Complex_Main
begin

text \<open>
  The arithmetic of the setup assistant's CAPTCHA client, \<open>src/proton-drive-setup\<close>: the run-length
  code of the mouse trajectory and the proof of work. zlib, base64 and SHA-256 are parameters. Shown:
  the code can be read back, and the answers are the least numbers with enough leading zeros, where
  there are any.
\<close>

section \<open>Run-length code\<close>

text \<open>The loop of \<open>_compress_array\<close> over \<open>arr[1:]\<close>: \<open>result\<close>, \<open>rep\<close>, \<open>last\<close> and \<open>lits\<close>.\<close>

type_synonym rle_state = "int list \<times> int \<times> int \<times> int list"

fun compress_step :: "rle_state \<Rightarrow> int \<Rightarrow> rle_state" where
  "compress_step (result, rep, lst, lits) v =
     (if v = lst then
        (if 1 < length lits then
           (let lits = butlast lits in (result @ (- int (length lits)) # lits, rep + 1, lst, []))
         else (result, rep + 1, lst, lits))
      else if 1 < rep then (result @ [rep, lst], 1, v, [v])
      else (result, rep, v, lits @ [v]))"

definition compress_array :: "int list \<Rightarrow> int list" where
  "compress_array arr =
     (case arr of
        [] \<Rightarrow> [0]
      | x # xs \<Rightarrow>
          (case foldl compress_step ([], 1, x, [x]) xs of
             (result, rep, lst, lits) \<Rightarrow>
               (if 1 < length lits then result @ (- int (length lits)) # lits
                else if 1 \<le> rep then result @ [rep, lst]
                else result) @ [0]))"

text \<open>The reader: a positive count repeats a value, a negative one precedes literals, zero ends.\<close>

definition after :: "int list \<Rightarrow> (int list \<times> int list) option \<Rightarrow> (int list \<times> int list) option" where
  "after xs r = (case r of None \<Rightarrow> None | Some (ys, rest) \<Rightarrow> Some (xs @ ys, rest))"

lemma after_simps [simp]:
  "after xs None = None"
  "after xs (Some (ys, rest)) = Some (xs @ ys, rest)"
  "after [] r = r"
  "after xs (after ys r) = after (xs @ ys) r"
  by (auto simp: after_def split: option.splits)

function expand :: "int list \<Rightarrow> (int list \<times> int list) option" where
  "expand [] = None"
| "expand (n # r) =
     (if n = 0 then Some ([], r)
      else if 0 < n then
        (case r of
           [] \<Rightarrow> None
         | v # r' \<Rightarrow> after (replicate (nat n) v) (expand r'))
      else if nat (- n) \<le> length r then
        after (take (nat (- n)) r) (expand (drop (nat (- n)) r))
      else None)"
  by pat_completeness auto
termination by (relation "measure length") auto

declare expand.simps(2) [simp del]

definition encodes :: "int list \<Rightarrow> int list \<Rightarrow> bool" where
  "encodes code xs \<longleftrightarrow> (\<forall>rest. expand (code @ rest) = after xs (expand rest))"

lemma encodes_nil [simp]: "encodes [] []"
  by (simp add: encodes_def)

lemma encodes_append: "encodes a xs \<Longrightarrow> encodes b ys \<Longrightarrow> encodes (a @ b) (xs @ ys)"
  by (simp add: encodes_def)

lemma encodes_run: "0 < n \<Longrightarrow> encodes [n, v] (replicate (nat n) v)"
  by (simp add: encodes_def expand.simps(2))

lemma encodes_literals: "lits \<noteq> [] \<Longrightarrow> encodes (- int (length lits) # lits) lits"
  by (simp add: encodes_def expand.simps(2))

text \<open>
  The invariant: the emitted code stands for a prefix, and what is pending is a run of at least two
  equal values, or literals that end with the last value.
\<close>

fun rle_inv :: "int list \<Rightarrow> rle_state \<Rightarrow> bool" where
  "rle_inv seen (result, rep, lst, lits) \<longleftrightarrow>
     (\<exists>xs. encodes result xs \<and>
        (rep = 1 \<and> lits \<noteq> [] \<and> last lits = lst \<and> seen = xs @ lits \<or>
         2 \<le> rep \<and> length lits \<le> 1 \<and> seen = xs @ replicate (nat rep) lst))"

lemma replicate_nat_Suc: "2 \<le> rep \<Longrightarrow> replicate (nat (rep + 1)) x = replicate (nat rep) x @ [x]"
  by (simp add: nat_add_distrib replicate_append_same)

lemma compress_step_inv:
  assumes "rle_inv seen s"
  shows "rle_inv (seen @ [v]) (compress_step s v)"
proof -
  obtain result rep lst lits where s: "s = (result, rep, lst, lits)"
    by (cases s) auto
  from assms obtain xs where xs: "encodes result xs"
    and pending: "rep = 1 \<and> lits \<noteq> [] \<and> last lits = lst \<and> seen = xs @ lits \<or>
      2 \<le> rep \<and> length lits \<le> 1 \<and> seen = xs @ replicate (nat rep) lst"
    by (auto simp: s)
  from pending show ?thesis
  proof (elim disjE conjE)
    assume p: "rep = 1" "lits \<noteq> []" "last lits = lst" "seen = xs @ lits"
    then have l: "lits = butlast lits @ [lst]"
      by (metis append_butlast_last_id)
    have two: "replicate (nat 2) lst = [lst, lst]"
      by (simp add: numeral_2_eq_2)
    show ?thesis
    proof (cases "v = lst \<and> 1 < length lits")
      case True
      then have "butlast lits \<noteq> []"
        by (cases lits) (auto split: if_splits)
      from encodes_append [OF xs encodes_literals [OF this]] True p l two show ?thesis
        by (auto simp: s Let_def intro!: exI [of _ "xs @ butlast lits"])
    next
      case False
      show ?thesis
      proof (cases "v = lst")
        case True
        with False p(2) have "lits = [lst]"
          using l by (cases lits) (auto split: if_splits)
        with True xs p two show ?thesis
          by (auto simp: s intro!: exI [of _ xs])
      next
        case diff: False
        with xs p show ?thesis
          by (auto simp: s intro!: exI [of _ xs])
      qed
    qed
  next
    assume p: "2 \<le> rep" "length lits \<le> 1" "seen = xs @ replicate (nat rep) lst"
    show ?thesis
    proof (cases "v = lst")
      case True
      with xs p show ?thesis
        by (simp add: s replicate_nat_Suc [OF p(1), symmetric] exI [of _ xs])
    next
      case False
      have "encodes (result @ [rep, lst]) (xs @ replicate (nat rep) lst)"
        using p(1) by (intro encodes_append xs encodes_run) simp
      with False p show ?thesis
        by (auto simp: s intro!: exI [of _ "xs @ replicate (nat rep) lst"])
    qed
  qed
qed

lemma compress_loop_inv: "rle_inv seen s \<Longrightarrow> rle_inv (seen @ vs) (foldl compress_step s vs)"
proof (induction vs arbitrary: seen s)
  case (Cons v vs)
  from Cons.IH [OF compress_step_inv [OF Cons.prems, of v]] show ?case
    by simp
qed simp

lemma expand_compress: "expand (compress_array arr @ rest) = Some (arr, rest)"
proof (cases arr)
  case Nil
  then show ?thesis
    by (simp add: compress_array_def expand.simps(2))
next
  case (Cons x xs)
  obtain result rep lst lits where f: "foldl compress_step ([], 1, x, [x]) xs = (result, rep, lst, lits)"
    by (metis prod_cases4)
  have "rle_inv [x] ([], 1, x, [x])"
    by (auto intro!: exI [of _ "[]"])
  from compress_loop_inv [OF this, of xs] f obtain ys where ys: "encodes result ys"
    and pending: "rep = 1 \<and> lits \<noteq> [] \<and> last lits = lst \<and> arr = ys @ lits \<or>
      2 \<le> rep \<and> length lits \<le> 1 \<and> arr = ys @ replicate (nat rep) lst"
    by (auto simp: Cons)
  let ?code = "if 1 < length lits then result @ (- int (length lits)) # lits
    else if 1 \<le> rep then result @ [rep, lst] else result"
  have "encodes ?code arr"
  proof (cases "1 < length lits")
    case True
    with pending encodes_append [OF ys encodes_literals [of lits]] show ?thesis
      by auto
  next
    case False
    have "arr = ys @ replicate (nat rep) lst" "1 \<le> rep"
      using pending False by (cases lits; auto)+
    with False encodes_append [OF ys encodes_run [of rep lst]] show ?thesis
      by simp
  qed
  then show ?thesis
    by (simp add: compress_array_def Cons f encodes_def expand.simps(2))
qed

section \<open>The client data\<close>

text \<open>
  \<open>struct.pack\<close> with little-endian 16-bit integers raises an error for a value out of range;
  \<open>int (t)\<close> truncates towards zero.
\<close>

definition pack_h :: "int list \<Rightarrow> byte list option" where
  "pack_h vs =
     (if \<forall>v\<in>set vs. -32768 \<le> v \<and> v \<le> 32767
      then Some (concat (map (\<lambda>v. [word_of_int v, word_of_int (v div 256)]) vs)) else None)"

lemma pack_h_None: "pack_h vs = None \<longleftrightarrow> (\<exists>v\<in>set vs. v < -32768 \<or> 32767 < v)"
  by (auto simp: pack_h_def not_le)

definition truncate :: "rat \<Rightarrow> int" where
  "truncate t = (if 0 \<le> t then \<lfloor>t\<rfloor> else \<lceil>t\<rceil>)"

definition encode_client_data ::
  "(byte list \<Rightarrow> byte list) \<Rightarrow> (byte list \<Rightarrow> string) \<Rightarrow> int list \<Rightarrow> int list \<Rightarrow> int list \<Rightarrow> rat list \<Rightarrow> string option" where
  "encode_client_data zlib_compress b64encode xs ys buttons timestamps =
     (let ts_int = map truncate timestamps;
          combined = compress_array xs @ compress_array ys @ compress_array buttons @ compress_array ts_int in
      do { raw \<leftarrow> pack_h combined;
           Some (let compressed = zlib_compress raw;
                     compressed = (if 1 < length compressed
                                   then compressed[0 := xor (compressed ! 0) 150, 1 := xor (compressed ! 1) 181]
                                   else compressed)
                 in b64encode compressed) })"

text \<open>The reader of the client data.\<close>

fun unpack_h :: "byte list \<Rightarrow> int list option" where
  "unpack_h [] = Some []"
| "unpack_h [b] = None"
| "unpack_h (lo # hi # bs) = map_option ((#) (uint lo + 256 * sint hi)) (unpack_h bs)"

definition read_client_data ::
  "(byte list \<Rightarrow> byte list option) \<Rightarrow> (string \<Rightarrow> byte list option) \<Rightarrow> string \<Rightarrow>
    (int list \<times> int list \<times> int list \<times> int list) option" where
  "read_client_data zlib_decompress b64decode s = do {
     compressed \<leftarrow> b64decode s;
     raw \<leftarrow> zlib_decompress
       (if 1 < length compressed
        then compressed[0 := xor (compressed ! 0) 150, 1 := xor (compressed ! 1) 181] else compressed);
     vs \<leftarrow> unpack_h raw;
     (xs, vs) \<leftarrow> expand vs;
     (ys, vs) \<leftarrow> expand vs;
     (buttons, vs) \<leftarrow> expand vs;
     (ts, vs) \<leftarrow> expand vs;
     if vs = [] then Some (xs, ys, buttons, ts) else None
   }"

lemma unpack_value: "-32768 \<le> v \<Longrightarrow> v \<le> 32767 \<Longrightarrow> uint (word_of_int v :: byte) + 256 * sint (word_of_int (v div 256) :: byte) = v"
proof -
  assume v: "-32768 \<le> v" "v \<le> 32767"
  have "sint (word_of_int (v div 256) :: byte) = v div 256"
    using v by (simp add: sint_sbintrunc' signed_take_bit_int_eq_self)
  moreover have "uint (word_of_int v :: byte) = v mod 256"
    by (simp add: uint_word_of_int)
  ultimately show ?thesis
    by simp
qed

lemma unpack_pack: "pack_h vs = Some bs \<Longrightarrow> unpack_h bs = Some vs"
proof (induction vs arbitrary: bs)
  case (Cons v vs)
  then have "pack_h vs = Some (concat (map (\<lambda>v. [word_of_int v, word_of_int (v div 256)]) vs))"
    by (auto simp: pack_h_def split: if_splits)
  with Cons show ?case
    by (auto simp: pack_h_def unpack_value split: if_splits)
qed (simp add: pack_h_def)

section \<open>Proof of work\<close>

text \<open>
  \<open>int (h, 16)\<close>; an empty string is a \<open>ValueError\<close>. Upper case and separators do not occur in a
  digest and are refused here.
\<close>

definition hex_value :: "char \<Rightarrow> nat option" where
  "hex_value c =
     (let n = of_char c :: nat in
      if 48 \<le> n \<and> n \<le> 57 then Some (n - 48)
      else if 97 \<le> n \<and> n \<le> 102 then Some (n - 87) else None)"

fun hex_number :: "nat \<Rightarrow> string \<Rightarrow> nat option" where
  "hex_number acc [] = Some acc"
| "hex_number acc (c # cs) = Option.bind (hex_value c) (\<lambda>d. hex_number (16 * acc + d) cs)"

definition int_16 :: "string \<Rightarrow> nat option" where
  "int_16 h = (if h = [] then None else hex_number 0 h)"

text \<open>
  The search for one challenge: \<open>Some (Inr a)\<close> the answer, \<open>Some (Inl ())\<close> an exception, \<open>None\<close> if it
  never ends. \<open>hexdigest\<close> is SHA-256 of a text, in hexadecimal.
\<close>

partial_function (option) pow_search ::
  "(string \<Rightarrow> string) \<Rightarrow> string \<Rightarrow> nat \<Rightarrow> nat \<Rightarrow> nat \<Rightarrow> (unit + nat) option" where
  "pow_search hexdigest challenge g threshold a =
     (case int_16 (take g (hexdigest (decimal a @ challenge))) of
        None \<Rightarrow> Some (Inl ())
      | Some v \<Rightarrow> if v < threshold then Some (Inr a) else pow_search hexdigest challenge g threshold (a + 1))"

fun captcha_solve_pow :: "(string \<Rightarrow> string) \<Rightarrow> string list \<Rightarrow> nat \<Rightarrow> (unit + nat list) option" where
  "captcha_solve_pow hexdigest [] n_zeros = Some (Inr [])"
| "captcha_solve_pow hexdigest (challenge # challenges) n_zeros =
     (let g = (n_zeros + 3) div 4; threshold = 2 ^ (4 * g - n_zeros) in
      do { r \<leftarrow> pow_search hexdigest challenge g threshold 0;
           case r of
             Inl e \<Rightarrow> Some (Inl e)
           | Inr a \<Rightarrow> do { rs \<leftarrow> captcha_solve_pow hexdigest challenges n_zeros;
                          Some (map_sum id ((#) a) rs) } })"

text \<open>A digest as a number, and what the server checks: its leading bits are zero.\<close>

definition digest_ok :: "(string \<Rightarrow> string) \<Rightarrow> bool" where
  "digest_ok hexdigest \<longleftrightarrow> (\<forall>s. length (hexdigest s) = 64 \<and> (\<forall>c\<in>set (hexdigest s). hex_value c \<noteq> None))"

definition digest_number :: "(string \<Rightarrow> string) \<Rightarrow> string \<Rightarrow> nat" where
  "digest_number hexdigest s = the (hex_number 0 (hexdigest s))"

definition solves :: "(string \<Rightarrow> string) \<Rightarrow> string \<Rightarrow> nat \<Rightarrow> nat \<Rightarrow> bool" where
  "solves hexdigest challenge n_zeros a \<longleftrightarrow>
     digest_number hexdigest (decimal a @ challenge) < 2 ^ (256 - n_zeros)"

lemma hex_value_less: "hex_value c = Some d \<Longrightarrow> d < 16"
  by (auto simp: hex_value_def Let_def split: if_splits)

lemma hex_number_total:
  "\<forall>c\<in>set cs. hex_value c \<noteq> None \<Longrightarrow>
     \<exists>v. hex_number acc cs = Some (acc * 16 ^ length cs + v) \<and> v < 16 ^ length cs"
proof (induction cs arbitrary: acc)
  case (Cons c cs)
  then obtain d where d: "hex_value c = Some d"
    by auto
  from Cons.IH [of "16 * acc + d"] Cons.prems obtain v where
    v: "hex_number (16 * acc + d) cs = Some ((16 * acc + d) * 16 ^ length cs + v)" "v < 16 ^ length cs"
    by auto
  have "d * 16 ^ length cs + v < 16 * 16 ^ length cs"
  proof -
    have "d * 16 ^ length cs + v < (d + 1) * 16 ^ length cs"
      using v(2) by simp
    also have "\<dots> \<le> 16 * 16 ^ length cs"
      using hex_value_less [OF d] by (intro mult_right_mono) auto
    finally show ?thesis .
  qed
  with d v show ?case
    by (intro exI [of _ "d * 16 ^ length cs + v"]) (simp add: algebra_simps)
qed simp

lemma hex_number_append: "hex_number acc (xs @ ys) = Option.bind (hex_number acc xs) (\<lambda>v. hex_number v ys)"
  by (induction xs arbitrary: acc) (auto split: bind_split)

lemma digest_prefix:
  assumes "digest_ok hexdigest" "0 < n" "n \<le> 256"
  defines "g \<equiv> (n + 3) div 4"
  shows "\<exists>v. int_16 (take g (hexdigest (decimal a @ challenge))) = Some v \<and>
    (v < 2 ^ (4 * g - n) \<longleftrightarrow> solves hexdigest challenge n a)"
proof -
  let ?h = "hexdigest (decimal a @ challenge)"
  have h: "length ?h = 64" "\<forall>c\<in>set ?h. hex_value c \<noteq> None"
    using assms(1) by (auto simp: digest_ok_def)
  have g: "1 \<le> g" "g \<le> 64" "n \<le> 4 * g"
    using assms(2,3) by (auto simp: g_def)
  have parts: "\<forall>c\<in>set (take g ?h). hex_value c \<noteq> None" "\<forall>c\<in>set (drop g ?h). hex_value c \<noteq> None"
    using h(2) by (auto dest: in_set_takeD in_set_dropD)
  obtain v where v: "hex_number 0 (take g ?h) = Some v"
    using hex_number_total [OF parts(1), of 0] by auto
  obtain r where r: "hex_number v (drop g ?h) = Some (v * 16 ^ (64 - g) + r)" "r < 16 ^ (64 - g)"
    using hex_number_total [OF parts(2), of v] h(1) by auto
  have "hex_number 0 ?h = Some (v * 16 ^ (64 - g) + r)"
    using hex_number_append [of 0 "take g ?h" "drop g ?h"] v r(1) by simp
  then have d: "digest_number hexdigest (decimal a @ challenge) = v * 16 ^ (64 - g) + r"
    by (simp add: digest_number_def)
  have "(2 :: nat) ^ (256 - n) = 2 ^ (4 * g - n) * 16 ^ (64 - g)"
  proof -
    have "256 - n = (4 * g - n) + 4 * (64 - g)"
      using g by auto
    then show ?thesis
      by (simp add: power_add power_mult)
  qed
  moreover have "v * 16 ^ (64 - g) + r < k * 16 ^ (64 - g) \<longleftrightarrow> v < k" for k
  proof
    assume "v < k"
    then have "(v + 1) * 16 ^ (64 - g) \<le> k * 16 ^ (64 - g)"
      by (intro mult_right_mono) auto
    with r(2) show "v * 16 ^ (64 - g) + r < k * 16 ^ (64 - g)"
      by simp
  next
    assume a: "v * 16 ^ (64 - g) + r < k * 16 ^ (64 - g)"
    show "v < k"
    proof (rule ccontr)
      assume "\<not> v < k"
      then have "k * 16 ^ (64 - g) \<le> v * 16 ^ (64 - g)"
        by (intro mult_right_mono) auto
      with a show False
        by simp
    qed
  qed
  ultimately have "v < 2 ^ (4 * g - n) \<longleftrightarrow> solves hexdigest challenge n a"
    by (simp add: solves_def d)
  moreover have "take g ?h \<noteq> []"
    using g(1) h(1) by auto
  ultimately show ?thesis
    using v by (auto simp: int_16_def)
qed

text \<open>One search: from any number on it returns the least solution, if there is one.\<close>

lemma pow_search_step:
  assumes "digest_ok hexdigest" "0 < n" "n \<le> 256"
  shows "pow_search hexdigest challenge ((n + 3) div 4) (2 ^ (4 * ((n + 3) div 4) - n)) a =
    (if solves hexdigest challenge n a then Some (Inr a)
     else pow_search hexdigest challenge ((n + 3) div 4) (2 ^ (4 * ((n + 3) div 4) - n)) (a + 1))"
  using digest_prefix [OF assms, of a challenge] by (subst pow_search.simps) auto

lemma pow_search_found:
  assumes "digest_ok hexdigest" "0 < n" "n \<le> 256"
    and "solves hexdigest challenge n b" "a \<le> b" "\<forall>c. a \<le> c \<longrightarrow> c < b \<longrightarrow> \<not> solves hexdigest challenge n c"
  shows "pow_search hexdigest challenge ((n + 3) div 4) (2 ^ (4 * ((n + 3) div 4) - n)) a = Some (Inr b)"
  using assms(5,6)
proof (induction "b - a" arbitrary: a)
  case 0
  with assms(4) show ?case
    by (simp add: pow_search_step [OF assms(1-3), of challenge a])
next
  case (Suc k)
  then have "\<not> solves hexdigest challenge n a"
    by auto
  moreover have "pow_search hexdigest challenge ((n + 3) div 4) (2 ^ (4 * ((n + 3) div 4) - n)) (a + 1) = Some (Inr b)"
    using Suc by (intro Suc.hyps(1)) auto
  ultimately show ?case
    by (simp add: pow_search_step [OF assms(1-3), of challenge a])
qed

lemma pow_search_answer:
  assumes "pow_search hexdigest challenge g threshold a = Some r"
  shows "(r = Inl () \<and> (\<exists>b. int_16 (take g (hexdigest (decimal b @ challenge))) = None)) \<or>
    (\<exists>b v. r = Inr b \<and> int_16 (take g (hexdigest (decimal b @ challenge))) = Some v \<and> v < threshold)"
proof (rule pow_search.raw_induct [OF _ assms, where P = "\<lambda>hexdigest challenge g threshold a r.
    (r = Inl () \<and> (\<exists>b. int_16 (take g (hexdigest (decimal b @ challenge))) = None)) \<or>
    (\<exists>b v. r = Inr b \<and> int_16 (take g (hexdigest (decimal b @ challenge))) = Some v \<and> v < threshold)"],
    goal_cases)
  case (1 search hexdigest challenge g threshold a r)
  then show ?case
    by (cases "int_16 (take g (hexdigest (decimal a @ challenge)))") (auto split: if_splits)
qed

lemma pow_search_least:
  assumes "digest_ok hexdigest" "0 < n" "n \<le> 256"
  shows "pow_search hexdigest challenge ((n + 3) div 4) (2 ^ (4 * ((n + 3) div 4) - n)) 0 =
    (if \<exists>a. solves hexdigest challenge n a then Some (Inr (LEAST a. solves hexdigest challenge n a)) else None)"
proof (cases "\<exists>a. solves hexdigest challenge n a")
  case True
  then have "solves hexdigest challenge n (LEAST a. solves hexdigest challenge n a)"
    by (rule LeastI_ex)
  from pow_search_found [OF assms this, of 0] not_less_Least
  have "pow_search hexdigest challenge ((n + 3) div 4) (2 ^ (4 * ((n + 3) div 4) - n)) 0 =
      Some (Inr (LEAST a. solves hexdigest challenge n a))"
    by blast
  with True show ?thesis
    by simp
next
  case False
  have "pow_search hexdigest challenge ((n + 3) div 4) (2 ^ (4 * ((n + 3) div 4) - n)) 0 \<noteq> Some r" for r
  proof
    assume s: "pow_search hexdigest challenge ((n + 3) div 4) (2 ^ (4 * ((n + 3) div 4) - n)) 0 = Some r"
    show False
    proof (cases r)
      case (Inl e)
      with pow_search_answer [OF s] obtain b where "int_16 (take ((n + 3) div 4) (hexdigest (decimal b @ challenge))) = None"
        by auto
      with digest_prefix [OF assms, of b challenge] show False
        by simp
    next
      case (Inr b)
      with pow_search_answer [OF s] digest_prefix [OF assms, of b challenge] False show False
        by auto
    qed
  qed
  with False show ?thesis
    by (metis not_None_eq)
qed

lemma solve_pow_least:
  assumes "digest_ok hexdigest" "0 < n" "n \<le> 256"
  shows "captcha_solve_pow hexdigest challenges n =
    (if \<forall>challenge\<in>set challenges. \<exists>a. solves hexdigest challenge n a
     then Some (Inr (map (\<lambda>challenge. LEAST a. solves hexdigest challenge n a) challenges)) else None)"
  by (induction challenges) (auto simp: pow_search_least [OF assms] Let_def)

lemma expand_values: "expand code = Some (xs, rest) \<Longrightarrow> set xs \<subseteq> set code"
proof (induction code arbitrary: xs rule: expand.induct)
  case (2 n r)
  show ?case
  proof (cases "n = 0 \<or> n < 0")
    case True
    with 2(2,3) show ?thesis
      by (fastforce simp: expand.simps(2) after_def split: if_splits option.splits
          dest: in_set_takeD in_set_dropD)
  next
    case False
    then obtain v r' ys where r: "r = v # r'" "expand r' = Some (ys, rest)" "xs = replicate (nat n) v @ ys"
      using 2(3) by (auto simp: expand.simps(2) after_def split: list.splits option.splits)
    with 2(1) [OF _ _ r(1) r(2)] False show ?thesis
      by auto
  qed
qed simp

lemma compress_values: "set arr \<subseteq> set (compress_array arr)"
  using expand_compress [of arr "[]"] expand_values by fastforce

section \<open>Properties\<close>

text \<open>
  C32. The client data are read back: where encoding succeeds, undoing base64, the changed header, zlib,
  the packing and the run-length code gives the four arrays, the times truncated; it fails exactly
  if a number to pack needs more than 16 bits, and so it does if the drag took 32.768 seconds.
\<close>

theorem client_data_read_back:
  assumes "\<And>bs. zlib_decompress (zlib_compress bs) = Some bs" "\<And>bs. b64decode (b64encode bs) = Some bs"
  shows "(case encode_client_data zlib_compress b64encode xs ys buttons timestamps of
      Some s \<Rightarrow> read_client_data zlib_decompress b64decode s = Some (xs, ys, buttons, map truncate timestamps)
    | None \<Rightarrow> \<exists>v\<in>set (compress_array xs @ compress_array ys @ compress_array buttons @
                       compress_array (map truncate timestamps)). v < -32768 \<or> 32767 < v) \<and>
    (\<forall>t\<in>set timestamps. 32768 \<le> t \<longrightarrow> encode_client_data zlib_compress b64encode xs ys buttons timestamps = None)"
proof -
  let ?vs = "compress_array xs @ compress_array ys @ compress_array buttons @ compress_array (map truncate timestamps)"
  let ?flip = "\<lambda>bs :: byte list. if 1 < length bs then bs[0 := xor (bs ! 0) 150, 1 := xor (bs ! 1) 181] else bs"
  have flip: "?flip (?flip bs) = bs" for bs
    by (cases bs; cases "tl bs") (auto simp: xor.assoc)
  have enc: "encode_client_data zlib_compress b64encode xs ys buttons timestamps =
      map_option (\<lambda>raw. b64encode (?flip (zlib_compress raw))) (pack_h ?vs)"
    by (simp add: encode_client_data_def Let_def map_option_case split: option.splits)
  have long: "pack_h ?vs = None" if t: "t \<in> set timestamps" "32768 \<le> t" for t
  proof -
    have "truncate t \<in> set ?vs"
      using t(1) compress_values [of "map truncate timestamps"] by auto
    moreover have "32767 < truncate t"
      using t(2) by (simp add: truncate_def le_floor_iff less_le_trans [of _ 32768])
    ultimately show ?thesis
      by (intro iffD2 [OF pack_h_None]) blast
  qed
  show ?thesis
  proof (cases "pack_h ?vs")
    case None
    then have "\<exists>v\<in>set ?vs. v < -32768 \<or> 32767 < v"
      by (rule iffD1 [OF pack_h_None])
    with None show ?thesis
      by (simp only: enc option.map option.case) simp
  next
    case (Some raw)
    have "read_client_data zlib_decompress b64decode (b64encode (?flip (zlib_compress raw))) =
        Some (xs, ys, buttons, map truncate timestamps)"
      unfolding read_client_data_def assms(2) bind.bind_lunit flip assms(1) unpack_pack [OF Some]
      using expand_compress [of "map truncate timestamps" "[]"] by (simp add: expand_compress)
    with Some long show ?thesis
      by (auto simp: enc)
  qed
qed

text \<open>No compression, and bytes as characters.\<close>

definition chars_of :: "byte list \<Rightarrow> string" where
  "chars_of = map (\<lambda>b. char_of (unat b))"

definition bytes_of :: "string \<Rightarrow> byte list" where
  "bytes_of = map (\<lambda>c. word_of_nat (of_char c))"

theorem client_data_read_back_witness:
  "(\<exists>s. encode_client_data id chars_of [5, 6, 6] [7] [1] [0, 3 / 2] = Some s \<and>
      read_client_data Some (\<lambda>s. Some (bytes_of s)) s = Some ([5, 6, 6], [7], [1], [0, 1])) \<and>
   encode_client_data id chars_of [] [] [] [40000] = None"
proof -
  have laws: "Some (id bs) = Some bs" "Some (bytes_of (chars_of bs)) = Some bs" for bs :: "byte list"
    by (simp_all add: bytes_of_def chars_of_def comp_def byte_mod)
  have long: "encode_client_data id chars_of [] [] [] [40000] = None"
    using client_data_read_back [where zlib_compress = id and zlib_decompress = Some and b64encode = chars_of
        and b64decode = "\<lambda>s. Some (bytes_of s)" and xs = "[]" and ys = "[]" and buttons = "[]" and timestamps = "[40000]", OF laws]
    by simp
  have t: "truncate 0 = 0" "truncate (3 / 2) = 1"
    using floor_divide_of_int_eq [where ?'a = rat, of 3 2] by (simp_all add: truncate_def)
  have "encode_client_data id chars_of [5, 6, 6] [7] [1] [0, 3 / 2] \<noteq> None"
    by (simp add: encode_client_data_def t compress_array_def pack_h_def)
  with client_data_read_back [where zlib_compress = id and zlib_decompress = Some and b64encode = chars_of
      and b64decode = "\<lambda>s. Some (bytes_of s)" and xs = "[5, 6, 6]" and ys = "[7]" and buttons = "[1]"
      and timestamps = "[0, 3 / 2]", OF laws] long t
  show ?thesis
    by (auto split: option.splits)
qed

text \<open>
  C40. The proof of work returns, for every challenge, the least number whose digest with the challenge
  starts with the required zero bits, and does not return if a challenge has none; zero required
  bits raise an exception.
\<close>

theorem pow_answers_least:
  assumes "digest_ok hexdigest" "n \<le> 256"
  shows "captcha_solve_pow hexdigest challenges n =
    (if challenges = [] then Some (Inr [])
     else if n = 0 then Some (Inl ())
     else if \<forall>challenge\<in>set challenges. \<exists>a. solves hexdigest challenge n a
     then Some (Inr (map (\<lambda>challenge. LEAST a. solves hexdigest challenge n a) challenges)) else None)"
proof (cases "n = 0")
  case True
  then show ?thesis
    by (cases challenges) (simp_all add: pow_search.simps int_16_def)
next
  case False
  with solve_pow_least [OF assms(1) _ assms(2), of challenges] show ?thesis
    by auto
qed

text \<open>A digest of zeros and one of the greatest digits.\<close>

lemma hex_number_zeros: "hex_number acc (replicate k (CHR ''0'')) = Some (acc * 16 ^ k)"
  by (induction k arbitrary: acc) (simp_all add: hex_value_def)

lemma hex_number_fs: "hex_number acc (replicate k (CHR ''f'')) = Some ((acc + 1) * 16 ^ k - 1)"
proof (induction k arbitrary: acc)
  case (Suc k)
  have "(16 * acc + 15 + 1) * 16 ^ k = (acc + 1) * 16 ^ Suc k"
    by (simp add: algebra_simps)
  with Suc.IH [of "16 * acc + 15"] show ?case
    by (simp add: hex_value_def del: power_Suc)
qed simp

theorem pow_answers_least_witness:
  "captcha_solve_pow (\<lambda>s. replicate 64 (if s = ''2x'' then CHR ''0'' else CHR ''f'')) [''x''] 13 = Some (Inr [2])"
proof -
  let ?h = "\<lambda>s. replicate 64 (if s = ''2x'' then CHR ''0'' else CHR ''f'')"
  have ok: "digest_ok ?h"
    by (auto simp: digest_ok_def hex_value_def)
  have d: "hex_number 0 (replicate 64 (CHR ''0'')) = Some 0"
    by (simp only: hex_number_zeros mult_zero_left)
  have f: "hex_number 0 (replicate 64 (CHR ''f'')) = Some (16 ^ 64 - 1)"
    by (simp only: hex_number_fs add_0 mult_1)
  have s: "solves ?h ''x'' 13 a \<longleftrightarrow> decimal a = ''2''" for a
    by (cases "decimal a = ''2''") (simp_all only: solves_def digest_number_def, simp_all add: d f)
  have digit: "decimal 0 = ''0''" "decimal 1 = ''1''" "decimal 2 = ''2''"
    by (code_simp)+
  have l: "(LEAST a. solves ?h ''x'' 13 a) = 2"
  proof (rule Least_equality)
    show "solves ?h ''x'' 13 2"
      by (simp add: s digit)
  next
    fix a
    assume "solves ?h ''x'' 13 a"
    then show "2 \<le> a"
      by (cases "a = 0 \<or> a = 1") (auto simp: s digit digit(2) [unfolded One_nat_def])
  qed
  have "\<exists>a. solves ?h ''x'' 13 a"
    by (rule exI [of _ 2]) (simp add: s digit)
  with pow_answers_least [OF ok, of 13 "[''x'']"] l show ?thesis
    by simp
qed

end
