(* ===== verification/Setup_Assistant.thy ===== *)
theory Setup_Assistant
  imports Mount Volume_Monitor Setup_Captcha Helper_Server
begin

text \<open>
  The account flow of the setup assistant, \<open>src/proton-drive-setup\<close> (Python): starting a helper of its
  own, the call \<open>Auth\<close> or \<open>AuthWithHV\<close>, the human verification, storing the credentials and the
  signal to the volume monitor. The window's handlers run in the main loop, the \<open>_thread\<close> methods in
  threads of their own, whose results are queued for the loop; a thread is one step here. Python's
  exceptions are the left side of a sum, with their text. Shown: what the assistant stores is what a
  mount then reads, and the volume shown leads to it.
\<close>

section \<open>The system\<close>

record 'w setup_sys =
  os_access_x :: "string \<Rightarrow> 'w \<Rightarrow> bool"
  shutil_which :: "string \<Rightarrow> 'w \<Rightarrow> string option"
  mktemp :: "'w \<Rightarrow> string \<times> 'w"
  popen :: "string list \<Rightarrow> 'w \<Rightarrow> (string + nat) \<times> 'w"
  terminate :: "nat \<Rightarrow> 'w \<Rightarrow> 'w"
  path_exists :: "string \<Rightarrow> 'w \<Rightarrow> bool"
  path_unlink :: "string \<Rightarrow> 'w \<Rightarrow> 'w"
  sleep_100ms :: "'w \<Rightarrow> 'w"
  run_check :: "string list \<Rightarrow> string \<Rightarrow> 'w \<Rightarrow> (string + unit) \<times> 'w"
  emit_signal :: "string \<Rightarrow> string \<Rightarrow> 'w \<Rightarrow> (string + unit) \<times> 'w"
  sock_connect :: "string option \<Rightarrow> 'w \<Rightarrow> (string + nat) \<times> 'w"
  sock_sendall :: "nat \<Rightarrow> string \<Rightarrow> 'w \<Rightarrow> (string + unit) \<times> 'w"
  sock_recv :: "nat \<Rightarrow> 'w \<Rightarrow> (string + string) \<times> 'w"
  sock_close :: "nat \<Rightarrow> 'w \<Rightarrow> 'w"
  json_dumps :: "json \<Rightarrow> string"
  json_loads :: "string \<Rightarrow> string + json"

text \<open>\<open>here\<close> is the directory of the script.\<close>

definition find_helper :: "'w setup_sys \<Rightarrow> string \<Rightarrow> 'w \<Rightarrow> string option" where
  "find_helper Y here w =
     (case List.find (\<lambda>p. os_access_x Y p w)
        [here @ ''/helper/proton-drive-helper'', ''/usr/local/libexec/proton-drive-helper'',
         ''/usr/libexec/proton-drive-helper''] of
        Some p \<Rightarrow> Some p
      | None \<Rightarrow> shutil_which Y ''proton-drive-helper'' w)"

text \<open>
  One request on a connection of its own. The reply is collected until it ends with a newline or the
  connection closes; a helper that sends neither keeps the thread forever (\<open>None\<close>).
\<close>

partial_function (option) recv_reply ::
  "'w setup_sys \<Rightarrow> nat \<Rightarrow> string \<Rightarrow> 'w \<Rightarrow> ((string + string) \<times> 'w) option" where
  "recv_reply Y s dat w =
     (if dat \<noteq> [] \<and> last dat = CHR 0x0A then Some (Inr dat, w)
      else (case sock_recv Y s w of
              (Inl e, w) \<Rightarrow> Some (Inl e, w)
            | (Inr chunk, w) \<Rightarrow> if chunk = [] then Some (Inr dat, w) else recv_reply Y s (dat @ chunk) w))"

definition rpc_call ::
  "'w setup_sys \<Rightarrow> string option \<Rightarrow> string \<Rightarrow> (string \<times> json) list \<Rightarrow> 'w \<Rightarrow> ((string + json) \<times> 'w) option" where
  "rpc_call Y sock_path meth params w =
     (case sock_connect Y sock_path w of
        (Inl e, w) \<Rightarrow> Some (Inl e, w)
      | (Inr s, w) \<Rightarrow>
          (case sock_sendall Y s (json_dumps Y (JObject [(''id'', JInt 1), (''method'', JString meth),
                                    (''params'', JObject params)]) @ [CHR 0x0A]) w of
             (Inl e, w) \<Rightarrow> Some (Inl e, w)
           | (Inr _, w) \<Rightarrow>
               do { (r, w) \<leftarrow> recv_reply Y s [] w;
                    case r of
                      Inl e \<Rightarrow> Some (Inl e, w)
                    | Inr dat \<Rightarrow> Some (json_loads Y dat, sock_close Y s w) }))"

definition secret_store ::
  "'w setup_sys \<Rightarrow> string \<Rightarrow> string \<Rightarrow> string \<Rightarrow> string \<Rightarrow> 'w \<Rightarrow> (string + unit) \<times> 'w" where
  "secret_store Y label username field v w =
     run_check Y [''secret-tool'', ''store'', ''--label'', label,
                  ''schema'', ''org.gnome.proton.drive'',
                  ''username'', username, ''field'', field] v w"

text \<open>A failed signal is only printed.\<close>

definition emit_account_signal :: "'w setup_sys \<Rightarrow> string \<Rightarrow> string \<Rightarrow> 'w \<Rightarrow> 'w" where
  "emit_account_signal Y signal_name username w = snd (emit_signal Y signal_name username w)"

section \<open>The window\<close>

datatype page = Login | Spinner

text \<open>
  The fields of \<open>SetupWindow\<close> that carry state, the message shown, the threads to run, the callbacks
  queued by \<open>GLib.idle_add\<close>, and the final text. \<open>sw_log\<close> records the helpers started and terminated.
\<close>

datatype thread = Auth_thread | Auth_hv_thread string string

datatype idle = Show_err string | Show_hv string | Store_and_finish json | Show_spinner

datatype setup_action = Helper_started nat | Helper_terminated nat | Announced string

record setup_window =
  sw_proc :: "nat option"
  sw_sock :: "string option"
  sw_username :: string
  sw_password :: string
  sw_captcha_win :: bool
  sw_page :: page
  sw_error :: "string option"
  sw_spinning :: bool
  sw_code_dialog :: "string option"
  sw_threads :: "thread list"
  sw_idle :: "idle list"
  sw_info :: "string option"
  sw_open :: bool
  sw_log :: "setup_action list"

definition setup_window_new :: setup_window where
  "setup_window_new = \<lparr>sw_proc = None, sw_sock = None, sw_username = [], sw_password = [], sw_captcha_win = False,
     sw_page = Login, sw_error = None, sw_spinning = False, sw_code_dialog = None, sw_threads = [], sw_idle = [],
     sw_info = None, sw_open = True, sw_log = []\<rparr>"

definition cleanup :: "'w setup_sys \<Rightarrow> setup_window \<Rightarrow> 'w \<Rightarrow> setup_window \<times> 'w" where
  "cleanup Y s w =
     (let s = s\<lparr>sw_captcha_win := False\<rparr>;
          (s, w) = (case sw_proc s of
                      None \<Rightarrow> (s, w)
                    | Some p \<Rightarrow> (s\<lparr>sw_proc := None, sw_log := sw_log s @ [Helper_terminated p]\<rparr>, terminate Y p w)) in
      case sw_sock s of
        None \<Rightarrow> (s, w)
      | Some path \<Rightarrow>
          if path \<noteq> [] \<and> path_exists Y path w then (s\<lparr>sw_sock := None\<rparr>, path_unlink Y path w) else (s, w))"

definition show_err :: "'w setup_sys \<Rightarrow> string \<Rightarrow> setup_window \<Rightarrow> 'w \<Rightarrow> setup_window \<times> 'w" where
  "show_err Y msg s w =
     (case cleanup Y s w of
        (s, w) \<Rightarrow> (s\<lparr>sw_spinning := False, sw_error := Some msg, sw_page := Login\<rparr>, w))"

text \<open>\<open>str.strip\<close>, on the characters of ASCII.\<close>

definition py_isspace :: "char \<Rightarrow> bool" where
  "py_isspace c = (let n = of_char c :: nat in 9 \<le> n \<and> n \<le> 13 \<or> 28 \<le> n \<and> n \<le> 32)"

definition py_strip :: "string \<Rightarrow> string" where
  "py_strip s = rev (dropWhile py_isspace (rev (dropWhile py_isspace s)))"

definition on_sign_in :: "'w setup_sys \<Rightarrow> string \<Rightarrow> string \<Rightarrow> setup_window \<Rightarrow> 'w \<Rightarrow> setup_window \<times> 'w" where
  "on_sign_in Y email password s w =
     (let username = py_strip email in
      if username = [] \<or> password = [] then show_err Y ''Email and password are required.'' s w
      else (s\<lparr>sw_username := username, sw_password := password, sw_error := None, sw_spinning := True,
              sw_page := Spinner, sw_threads := sw_threads s @ [Auth_thread]\<rparr>, w))"

definition show_hv :: "string \<Rightarrow> setup_window \<Rightarrow> setup_window" where
  "show_hv hv_token s = s\<lparr>sw_spinning := False, sw_page := Login, sw_code_dialog := Some hv_token\<rparr>"

definition on_verify :: "string \<Rightarrow> setup_window \<Rightarrow> setup_window" where
  "on_verify entry s =
     (let code = py_strip entry in
      if code = [] then s
      else s\<lparr>sw_code_dialog := None, sw_idle := sw_idle s @ [Show_spinner],
             sw_threads := sw_threads s @ [Auth_hv_thread code ''email'']\<rparr>)"

definition build_hv_token :: "string \<Rightarrow> string \<Rightarrow> string \<Rightarrow> string" where
  "build_hv_token captcha_token sub_token proved_token = captcha_token @ '':'' @ sub_token @ proved_token"

section \<open>Replies\<close>

text \<open>\<open>d.get (k)\<close> and \<open>d.get (k) or default\<close> of a dict; on another value \<open>get\<close> is an exception.\<close>

fun py_get :: "json \<Rightarrow> string \<Rightarrow> string + json option" where
  "py_get (JObject ms) k = Inr (json_field ms k)"
| "py_get _ k = Inl ''no attribute get''"

fun truthy :: "json \<Rightarrow> bool" where
  "truthy JNull = False"
| "truthy (JBool b) = b"
| "truthy (JInt i) = (i \<noteq> 0)"
| "truthy (JNumber s) = True"
| "truthy (JString s) = (s \<noteq> [])"
| "truthy (JArray xs) = (xs \<noteq> [])"
| "truthy (JObject ms) = (ms \<noteq> [])"

fun py_text :: "json option \<Rightarrow> string \<Rightarrow> string" where
  "py_text (Some (JString s)) d = s"
| "py_text _ d = d"

text \<open>
  What a reply means to the assistant; a reply with neither error nor result is a \<open>KeyError\<close>, whose text
  is the key in quotes. The texts of other exceptions (for a reply that is not an object, say) stand for
  Python's, and a token or message that is not a string for the empty string; the helper sends no such
  reply (\<open>responses_typed\<close> in \<open>Reply_Types\<close>).
\<close>

definition key_error :: "string \<Rightarrow> string" where
  "key_error k = CHR 0x27 # k @ [CHR 0x27]"

definition handle_auth_resp :: "json \<Rightarrow> string + idle" where
  "handle_auth_resp resp =
     (case resp of
        JObject ms \<Rightarrow>
          (case json_field ms ''error'' of
             Some e \<Rightarrow>
               (case py_get e ''code'' of
                  Inl x \<Rightarrow> Inl x
                | Inr code \<Rightarrow>
                    if code = Some (JInt (- 32004)) then
                      (let details = (case py_get e ''details'' of Inr (Some d) \<Rightarrow> if truthy d then d else JObject []
                                      | _ \<Rightarrow> JObject []) in
                       map_sum id (\<lambda>t. Show_hv (py_text t '''')) (py_get details ''token''))
                    else map_sum id (\<lambda>m. Show_err (py_text m ''Authentication failed.'')) (py_get e ''message''))
           | None \<Rightarrow>
               (case json_field ms ''result'' of
                  None \<Rightarrow> Inl (key_error ''result'')
                | Some result \<Rightarrow> Inr (Store_and_finish result)))
      | _ \<Rightarrow> Inl ''unsupported reply'')"

definition queue :: "idle \<Rightarrow> setup_window \<Rightarrow> setup_window" where
  "queue i s = s\<lparr>sw_idle := sw_idle s @ [i]\<rparr>"

text \<open>Waiting for the socket: at most 50 looks, a tenth of a second apart.\<close>

fun await_socket :: "'w setup_sys \<Rightarrow> nat \<Rightarrow> string \<Rightarrow> 'w \<Rightarrow> bool \<times> 'w" where
  "await_socket Y 0 path w = (False, w)"
| "await_socket Y (Suc n) path w =
     (if path_exists Y path w then (True, w) else await_socket Y n path (sleep_100ms Y w))"

definition finish_auth :: "(string + json) \<Rightarrow> setup_window \<Rightarrow> setup_window" where
  "finish_auth r s =
     (case r of
        Inl e \<Rightarrow> queue (Show_err e) s
      | Inr resp \<Rightarrow>
          (case handle_auth_resp resp of
             Inl e \<Rightarrow> queue (Show_err e) s
           | Inr i \<Rightarrow> queue i s))"

definition auth_thread :: "'w setup_sys \<Rightarrow> string \<Rightarrow> setup_window \<Rightarrow> 'w \<Rightarrow> (setup_window \<times> 'w) option" where
  "auth_thread Y here s w =
     (case find_helper Y here w of
        None \<Rightarrow> Some (queue (Show_err (''proton-drive-helper not found.'' @ [CHR 0x0A] @
                                ''Build it: cd helper && go build -o proton-drive-helper .'')) s, w)
      | Some helper \<Rightarrow>
          (case mktemp Y w of (path, w) \<Rightarrow>
            (let s = s\<lparr>sw_sock := Some path\<rparr> in
             case popen Y [helper, ''--socket'', path] w of
               (Inl e, w) \<Rightarrow> Some (queue (Show_err e) s, w)
             | (Inr p, w) \<Rightarrow>
                 (let s = s\<lparr>sw_proc := Some p, sw_log := sw_log s @ [Helper_started p]\<rparr> in
                  case await_socket Y 50 path w of
                    (False, w) \<Rightarrow> Some (queue (Show_err ''Helper failed to start.'') s, w)
                  | (True, w) \<Rightarrow>
                      do { (r, w) \<leftarrow> rpc_call Y (sw_sock s) ''Auth''
                             [(''username'', JString (sw_username s)), (''password'', JString (sw_password s))] w;
                           Some (finish_auth r s, w) }))))"

definition auth_hv_thread ::
  "'w setup_sys \<Rightarrow> string \<Rightarrow> string \<Rightarrow> setup_window \<Rightarrow> 'w \<Rightarrow> (setup_window \<times> 'w) option" where
  "auth_hv_thread Y hv_token hv_type s w =
     do { (r, w) \<leftarrow> rpc_call Y (sw_sock s) ''AuthWithHV''
            [(''username'', JString (sw_username s)), (''password'', JString (sw_password s)),
             (''hv_token'', JString hv_token), (''type'', JString hv_type)] w;
          Some (finish_auth r s, w) }"

section \<open>Storing the credentials\<close>

text \<open>\<open>result[field]\<close> as a string to store; a missing member or another value is an exception.\<close>

definition py_item :: "json \<Rightarrow> string \<Rightarrow> string + string" where
  "py_item result k =
     (case result of
        JObject ms \<Rightarrow>
          (case json_field ms k of
             Some (JString v) \<Rightarrow> Inr v
           | Some _ \<Rightarrow> Inl ''not a string''
           | None \<Rightarrow> Inl (key_error k))
      | _ \<Rightarrow> Inl ''not an object'')"

definition store_item ::
  "'w setup_sys \<Rightarrow> string \<Rightarrow> string \<Rightarrow> string \<Rightarrow> json \<Rightarrow> 'w \<Rightarrow> (string + unit) \<times> 'w" where
  "store_item Y label u field result w =
     (case py_item result field of
        Inl e \<Rightarrow> (Inl e, w)
      | Inr v \<Rightarrow> secret_store Y (label @ '' ('' @ u @ '')'') u field v w)"

text \<open>\<open>urllib.parse.quote (u, safe="")\<close> keeps the characters that \<open>g_uri_escape_string\<close> keeps.\<close>

definition success_text :: "string \<Rightarrow> string" where
  "success_text u =
     (let nl = [CHR 0x0A] in
      ''Signed in as '' @ u @ ''.'' @ nl @ nl @
      ''Proton Drive will appear in Nautilus after the next mount.'' @ nl @ nl @
      ''To mount now:'' @ nl @ ''  gio mount \"proton://'' @ escape_string u @ ''/\"'')"

definition store_and_finish :: "'w setup_sys \<Rightarrow> json \<Rightarrow> setup_window \<Rightarrow> 'w \<Rightarrow> setup_window \<times> 'w" where
  "store_and_finish Y result s w =
     (let u = sw_username s;
          failed = (\<lambda>e w. show_err Y (''Failed to store credentials: '' @ e) s w) in
      case store_item Y ''Proton Drive session UID'' u ''uid'' result w of
        (Inl e, w) \<Rightarrow> failed e w
      | (Inr _, w) \<Rightarrow>
          (case store_item Y ''Proton Drive refresh token'' u ''refresh_token'' result w of
             (Inl e, w) \<Rightarrow> failed e w
           | (Inr _, w) \<Rightarrow>
               (case store_item Y ''Proton Drive key passphrase'' u ''salted_passphrase'' result w of
                  (Inl e, w) \<Rightarrow> failed e w
                | (Inr _, w) \<Rightarrow>
                    (let w = emit_account_signal Y ''AccountAdded'' u w;
                         s = s\<lparr>sw_log := sw_log s @ [Announced u]\<rparr> in
                     case cleanup Y s w of
                       (s, w) \<Rightarrow> (s\<lparr>sw_info := Some (success_text u), sw_open := False\<rparr>, w)))))"

definition run_idle :: "'w setup_sys \<Rightarrow> idle \<Rightarrow> setup_window \<Rightarrow> 'w \<Rightarrow> setup_window \<times> 'w" where
  "run_idle Y i s w =
     (case i of
        Show_err msg \<Rightarrow> show_err Y msg s w
      | Show_hv hv_token \<Rightarrow> (show_hv hv_token s, w)
      | Store_and_finish result \<Rightarrow> store_and_finish Y result s w
      | Show_spinner \<Rightarrow> (s\<lparr>sw_spinning := True, sw_page := Spinner\<rparr>, w))"

section \<open>The keyring between assistant and mount\<close>

text \<open>
  What both rely on: \<open>secret-tool store\<close> replaces the secret under the attributes given, or fails and
  changes nothing; \<open>lookup\<close> prints the secret and changes none; neither do the other operations. The
  attributes besides user name and field are the same in both programs.
\<close>

definition store_argv :: "string \<Rightarrow> string \<Rightarrow> string \<Rightarrow> string list" where
  "store_argv label u field =
     [''secret-tool'', ''store'', ''--label'', label, ''schema'', ''org.gnome.proton.drive'',
      ''username'', u, ''field'', field]"

definition keyring_ok ::
  "('w \<Rightarrow> string \<times> string \<rightharpoonup> string) \<Rightarrow> 'w setup_sys \<Rightarrow> 'w system \<Rightarrow> bool" where
  "keyring_ok secret Y Z \<longleftrightarrow>
     (\<forall>label u f v w. case run_check Y (store_argv label u f) v w of
        (Inl e, w') \<Rightarrow> secret w' = secret w
      | (Inr _, w') \<Rightarrow> secret w' = (secret w)((u, f) \<mapsto> v)) \<and>
     (\<forall>u f w. case g_spawn_sync Z (lookup_argv u f) w of
        (err, out, w') \<Rightarrow> err = None \<and> out = Some (case secret w (u, f) of None \<Rightarrow> [] | Some v \<Rightarrow> v) \<and>
                          secret w' = secret w) \<and>
     (\<forall>n u w. secret (snd (emit_signal Y n u w)) = secret w) \<and>
     (\<forall>p w. secret (terminate Y p w) = secret w) \<and>
     (\<forall>p w. secret (path_unlink Y p w) = secret w)"

lemma lookup_field_secret:
  assumes "keyring_ok secret Y Z"
  shows "\<exists>w'. lookup_field Z u f w = (Inr (Some (g_strchomp (case secret w (u, f) of None \<Rightarrow> [] | Some v \<Rightarrow> v))), w') \<and>
    secret w' = secret w"
proof -
  obtain err out w' where r: "g_spawn_sync Z (lookup_argv u f) w = (err, out, w')"
    by (cases "g_spawn_sync Z (lookup_argv u f) w")
  note laws = assms [unfolded keyring_ok_def]
  from r laws [THEN conjunct2, THEN conjunct1, rule_format, where u = u and f = f and w = w] show ?thesis
    by (auto simp: lookup_field_def lookup_argv_def Let_def)
qed

text \<open>What the mount reads of a keyring.\<close>

definition read_secret :: "('w \<Rightarrow> string \<times> string \<rightharpoonup> string) \<Rightarrow> 'w \<Rightarrow> string \<Rightarrow> string \<Rightarrow> string" where
  "read_secret secret w u f = g_strchomp (case secret w (u, f) of None \<Rightarrow> [] | Some v \<Rightarrow> v)"

lemma lookup_credentials_secret:
  assumes "keyring_ok secret Y Z"
  shows "fst (lookup_credentials Z u w) =
    Inr (Some (read_secret secret w u ''uid''), Some (read_secret secret w u ''refresh_token''),
         Some (read_secret secret w u ''salted_passphrase''))"
proof -
  obtain w1 where 1: "lookup_field Z u ''uid'' w = (Inr (Some (read_secret secret w u ''uid'')), w1)" "secret w1 = secret w"
    using lookup_field_secret [OF assms, of u "''uid''" w] by (auto simp: read_secret_def)
  obtain w2 where 2: "lookup_field Z u ''refresh_token'' w1 = (Inr (Some (read_secret secret w u ''refresh_token'')), w2)"
      "secret w2 = secret w"
    using lookup_field_secret [OF assms, of u "''refresh_token''" w1] 1 by (auto simp: read_secret_def)
  obtain w3 where "lookup_field Z u ''salted_passphrase'' w2 = (Inr (Some (read_secret secret w u ''salted_passphrase'')), w3)"
    using lookup_field_secret [OF assms, of u "''salted_passphrase''" w2] 2 by (auto simp: read_secret_def)
  with 1 2 show ?thesis
    by (simp add: lookup_credentials_def)
qed

lemma secret_store_secret:
  assumes "keyring_ok secret Y Z" "secret_store Y label u f v w = (r, w')"
  shows "secret w' = (case r of Inl e \<Rightarrow> secret w | Inr _ \<Rightarrow> (secret w)((u, f) \<mapsto> v))"
proof -
  note laws = assms(1) [unfolded keyring_ok_def]
  from assms(2) laws [THEN conjunct1, rule_format, where label = label and u = u and f = f and v = v and w = w] show ?thesis
    by (auto simp: secret_store_def store_argv_def split: sum.splits)
qed

lemma cleanup_secret:
  assumes "keyring_ok secret Y Z"
  shows "secret (snd (cleanup Y s w)) = secret w"
  using assms by (simp add: cleanup_def keyring_ok_def Let_def split: option.splits)

lemma cleanup_window:
  "sw_proc (fst (cleanup Y s w)) = None"
  "sw_log (fst (cleanup Y s w)) = sw_log s @ (case sw_proc s of None \<Rightarrow> [] | Some p \<Rightarrow> [Helper_terminated p])"
  "sw_open (fst (cleanup Y s w)) = sw_open s"
  by (simp_all add: cleanup_def Let_def split: option.splits)

section \<open>Lemmas on the flow\<close>

lemma store_item_Inr:
  "json_field rs f = Some (JString v) \<Longrightarrow>
     store_item Y label u f (JObject rs) w = secret_store Y (label @ '' ('' @ u @ '')'') u f v w"
  by (simp add: store_item_def py_item_def)

lemma show_err_secret:
  assumes "keyring_ok secret Y Z" "show_err Y msg s w = (s', w')"
  shows "secret w' = secret w" "sw_error s' = Some msg" "sw_open s' = sw_open s"
    "sw_log s' = sw_log s @ (case sw_proc s of None \<Rightarrow> [] | Some p \<Rightarrow> [Helper_terminated p])"
  using cleanup_secret [OF assms(1), of s w] cleanup_window [of Y s w] assms(2)
  by (cases "cleanup Y s w"; auto simp: show_err_def)+

text \<open>A thread that gets as far as the reply.\<close>

lemma auth_thread_answered:
  assumes "find_helper Y here w = Some helper" "mktemp Y w = (path, w1)"
    and "popen Y [helper, ''--socket'', path] w1 = (Inr p, w2)" "await_socket Y 50 path w2 = (True, w3)"
    and "rpc_call Y (Some path) ''Auth''
           [(''username'', JString (sw_username s)), (''password'', JString (sw_password s))] w3 = Some (r, w4)"
  shows "auth_thread Y here s w =
    Some (finish_auth r (s\<lparr>sw_sock := Some path, sw_proc := Some p, sw_log := sw_log s @ [Helper_started p]\<rparr>), w4)"
  using assms by (simp add: auth_thread_def Let_def)

text \<open>
  A second sign-in while a helper is held, as is possible during the verification, drops the only
  reference to it: it is never terminated.
\<close>

lemma second_sign_in_leaks_helper:
  assumes "find_helper Y here w = Some helper" "mktemp Y w = (path, w1)"
    and "popen Y [helper, ''--socket'', path] w1 = (Inr p, w2)" "await_socket Y 50 path w2 = (True, w3)"
    and "rpc_call Y (Some path) ''Auth''
           [(''username'', JString (sw_username s)), (''password'', JString (sw_password s))] w3 = Some (r, w4)"
  shows "\<exists>s'. auth_thread Y here s w = Some (s', w4) \<and> sw_proc s' = Some p \<and>
    sw_log (fst (cleanup Y s' w4)) = sw_log s @ [Helper_started p, Helper_terminated p]"
  unfolding auth_thread_answered [OF assms]
  by (auto simp: finish_auth_def queue_def cleanup_window split: sum.splits)

lemma success_text_uri:
  "\<exists>before after. success_text u = before @ vo_activation_uri (volume_new u) @ after"
proof -
  let ?nl = "[CHR 0x0A]"
  have "success_text u = (''Signed in as '' @ u @ ''.'' @ ?nl @ ?nl @
      ''Proton Drive will appear in Nautilus after the next mount.'' @ ?nl @ ?nl @
      ''To mount now:'' @ ?nl @ ''  gio mount \"'') @ vo_activation_uri (volume_new u) @ ''\"''"
    by (simp add: success_text_def volume_new_def Let_def)
  then show ?thesis
    by blast
qed

lemma announced_volume:
  assumes "monitor_ok V m"
  shows "map_of (rm_volumes (on_dbus_account_added V u m)) u = Some (volume_new u)"
  using announced_added_ok [OF assms, of u] announced_added_known [of V u m] by (simp add: monitor_ok_def)

text \<open>From the sign-in to the keyring, given the reply.\<close>

lemma sign_in_stores:
  assumes "keyring_ok secret Y Z" "py_strip email = u" "u \<noteq> []" "password \<noteq> []"
    and "find_helper Y here w = Some helper" "mktemp Y w = (path, w1)"
    and "popen Y [helper, ''--socket'', path] w1 = (Inr p, w2)" "await_socket Y 50 path w2 = (True, w3)"
    and "rpc_call Y (Some path) ''Auth'' [(''username'', JString u), (''password'', JString password)] w3 =
           Some (Inr (JObject ms), w4)"
    and "json_field ms ''error'' = None" "json_field ms ''result'' = Some (JObject rs)"
    and "json_field rs ''uid'' = Some (JString uid)" "json_field rs ''refresh_token'' = Some (JString token)"
    and "json_field rs ''salted_passphrase'' = Some (JString salted)"
    and "\<And>label f v w. \<exists>w'. secret_store Y label u f v w = (Inr (), w')"
    and "monitor_ok V m"
  shows "\<exists>s1 s2 w5.
    auth_thread Y here (fst (on_sign_in Y email password setup_window_new w)) w = Some (s1, w4) \<and>
    sw_idle s1 = [Store_and_finish (JObject rs)] \<and> run_idle Y (Store_and_finish (JObject rs)) s1 w4 = (s2, w5) \<and>
    \<not> sw_open s2 \<and> sw_log s2 = [Helper_started p, Announced u, Helper_terminated p] \<and>
    fst (lookup_credentials Z u w5) =
      Inr (Some (g_strchomp uid), Some (g_strchomp token), Some (g_strchomp salted)) \<and>
    (\<exists>vol before after. map_of (rm_volumes (on_dbus_account_added V u m)) u = Some vol \<and>
       sw_info s2 = Some (before @ vo_activation_uri vol @ after))"
proof -
  let ?s = "fst (on_sign_in Y email password setup_window_new w)"
  let ?begun = "?s\<lparr>sw_sock := Some path, sw_proc := Some p, sw_log := [Helper_started p]\<rparr>"
  let ?asked = "queue (Store_and_finish (JObject rs)) ?begun"
  have s: "sw_username ?s = u" "sw_password ?s = password" "sw_log ?s = []" "sw_idle ?s = []"
    by (simp_all add: on_sign_in_def Let_def setup_window_new_def assms(2-4))
  have "handle_auth_resp (JObject ms) = Inr (Store_and_finish (JObject rs))"
    using assms(10,11) by (simp add: handle_auth_resp_def)
  with auth_thread_answered [OF assms(5-8), of ?s] assms(9) s
  have thread: "auth_thread Y here ?s w = Some (?asked, w4)"
    by (simp add: finish_auth_def)
  have u: "sw_username ?asked = u"
    using s(1) by (simp add: queue_def)
  let ?label = "\<lambda>l. l @ '' ('' @ u @ '')''"
  obtain v1 where v1: "secret_store Y (?label ''Proton Drive session UID'') u ''uid'' uid w4 = (Inr (), v1)"
    using assms(15) by blast
  obtain v2 where v2: "secret_store Y (?label ''Proton Drive refresh token'') u ''refresh_token'' token v1 = (Inr (), v2)"
    using assms(15) by blast
  obtain v3 where v3: "secret_store Y (?label ''Proton Drive key passphrase'') u ''salted_passphrase'' salted v2 = (Inr (), v3)"
    using assms(15) by blast
  have sec: "secret v3 = (secret w4)((u, ''uid'') \<mapsto> uid, (u, ''refresh_token'') \<mapsto> token, (u, ''salted_passphrase'') \<mapsto> salted)"
    using secret_store_secret [OF assms(1) v1] secret_store_secret [OF assms(1) v2] secret_store_secret [OF assms(1) v3]
    by simp
  let ?v4 = "emit_account_signal Y ''AccountAdded'' u v3"
  let ?told = "?asked\<lparr>sw_log := sw_log ?asked @ [Announced u]\<rparr>"
  obtain s3 w5 where c: "cleanup Y ?told ?v4 = (s3, w5)"
    by (cases "cleanup Y ?told ?v4")
  have fin: "store_and_finish Y (JObject rs) ?asked w4 = (s3\<lparr>sw_info := Some (success_text u), sw_open := False\<rparr>, w5)"
    using c by (simp add: store_and_finish_def u Let_def store_item_Inr [OF assms(12)] store_item_Inr [OF assms(13)]
        store_item_Inr [OF assms(14)] v1 [simplified] v2 [simplified] v3 [simplified])
  have "secret ?v4 = secret v3"
    using assms(1) by (simp add: keyring_ok_def emit_account_signal_def)
  with cleanup_secret [OF assms(1), of ?told ?v4] c sec
  have "secret w5 = (secret w4)((u, ''uid'') \<mapsto> uid, (u, ''refresh_token'') \<mapsto> token, (u, ''salted_passphrase'') \<mapsto> salted)"
    by simp
  then have creds: "fst (lookup_credentials Z u w5) =
      Inr (Some (g_strchomp uid), Some (g_strchomp token), Some (g_strchomp salted))"
    by (simp add: lookup_credentials_secret [OF assms(1)] read_secret_def)
  have log: "sw_log s3 = [Helper_started p, Announced u, Helper_terminated p]"
    using cleanup_window(2) [of Y ?told ?v4] c by (simp add: queue_def)
  have vol: "\<exists>vol before after. map_of (rm_volumes (on_dbus_account_added V u m)) u = Some vol \<and>
      success_text u = before @ vo_activation_uri vol @ after"
    using announced_volume [OF assms(16), of u] success_text_uri [of u] by blast
  have idle: "sw_idle ?asked = [Store_and_finish (JObject rs)]"
    using s(4) by (simp add: queue_def)
  have run: "run_idle Y (Store_and_finish (JObject rs)) ?asked w4 = (s3\<lparr>sw_info := Some (success_text u), sw_open := False\<rparr>, w5)"
    using fin by (simp add: run_idle_def)
  show ?thesis
    by (rule exI [of _ ?asked], rule exI [of _ "s3\<lparr>sw_info := Some (success_text u), sw_open := False\<rparr>"],
        rule exI [of _ w5])
       (use vol in \<open>simp add: thread idle run creds log\<close>)
qed

section \<open>Properties\<close>

text \<open>
  A sign-in that the helper accepts ends with a closed window, a terminated helper and one
  announcement; a mount of the account then reads exactly the credentials of the reply, but for
  trailing white space; and the volume the announcement makes has the URI the final text tells to
  mount.
\<close>

theorem sign_in_reaches_mount:
  assumes "keyring_ok secret Y Z" "py_strip email = u" "u \<noteq> []" "password \<noteq> []"
    and "find_helper Y here w = Some helper" "mktemp Y w = (path, w1)"
    and "popen Y [helper, ''--socket'', path] w1 = (Inr p, w2)" "await_socket Y 50 path w2 = (True, w3)"
    and "rpc_call Y (Some path) ''Auth'' [(''username'', JString u), (''password'', JString password)] w3 =
           Some (Inr (JObject ms), w4)"
    and "json_field ms ''error'' = None" "json_field ms ''result'' = Some (JObject rs)"
    and "json_field rs ''uid'' = Some (JString uid)" "json_field rs ''refresh_token'' = Some (JString token)"
    and "json_field rs ''salted_passphrase'' = Some (JString salted)"
    and "\<And>label f v w. \<exists>w'. secret_store Y label u f v w = (Inr (), w')"
    and "monitor_ok V m"
  shows "\<exists>s1 s2 w5.
    auth_thread Y here (fst (on_sign_in Y email password setup_window_new w)) w = Some (s1, w4) \<and>
    sw_idle s1 = [Store_and_finish (JObject rs)] \<and> run_idle Y (Store_and_finish (JObject rs)) s1 w4 = (s2, w5) \<and>
    \<not> sw_open s2 \<and> sw_log s2 = [Helper_started p, Announced u, Helper_terminated p] \<and>
    fst (lookup_credentials Z u w5) =
      Inr (Some (g_strchomp uid), Some (g_strchomp token), Some (g_strchomp salted)) \<and>
    (\<exists>vol before after. map_of (rm_volumes (on_dbus_account_added V u m)) u = Some vol \<and>
       sw_info s2 = Some (before @ vo_activation_uri vol @ after))"
  by (rule sign_in_stores [OF assms])

text \<open>
  A keyring as a map, with \<open>secret-tool\<close> reading and writing it by its arguments; the helper is found
  in the script's directory and answers at once.
\<close>

definition sample_reply :: json where
  "sample_reply = JObject [(''id'', JInt 1),
     (''result'', JObject [(''uid'', JString ''u1''), (''refresh_token'', JString ''t1''),
                           (''salted_passphrase'', JString ''czE='')])]"

definition sample_setup :: "(string \<times> string \<rightharpoonup> string) setup_sys" where
  "sample_setup =
     \<lparr>os_access_x = (\<lambda>p w. True), shutil_which = (\<lambda>p w. None), mktemp = (\<lambda>w. (''/tmp/s.sock'', w)),
      popen = (\<lambda>argv w. (Inr 7, w)), terminate = (\<lambda>p w. w), path_exists = (\<lambda>p w. True),
      path_unlink = (\<lambda>p w. w), sleep_100ms = (\<lambda>w. w),
      run_check = (\<lambda>argv v w. (Inr (), w((argv ! 7, argv ! 9) \<mapsto> v))),
      emit_signal = (\<lambda>n u w. (Inl ''no bus'', w)), sock_connect = (\<lambda>p w. (Inr 3, w)),
      sock_sendall = (\<lambda>s d w. (Inr (), w)), sock_recv = (\<lambda>s w. (Inr [CHR 0x0A], w)), sock_close = (\<lambda>s w. w),
      json_dumps = (\<lambda>j. []), json_loads = (\<lambda>d. Inr sample_reply)\<rparr>"

definition sample_keyring_system :: "(string \<times> string \<rightharpoonup> string) system" where
  "sample_keyring_system =
     \<lparr>getuid = (\<lambda>w. 0), g_file_test_exists = (\<lambda>p w. True), g_file_test_is_executable = (\<lambda>p w. True),
      g_find_program_in_path = (\<lambda>p w. None), g_usleep = (\<lambda>n w. w), os_unlink = (\<lambda>p w. w),
      g_spawn_async = (\<lambda>argv w. (None, w)),
      g_spawn_sync = (\<lambda>argv w. (None, Some (case w (argv ! 5, argv ! 7) of None \<Rightarrow> [] | Some v \<Rightarrow> v), w)),
      g_subprocess_newv = (\<lambda>argv w. (Ok 1, w)), g_subprocess_communicate_utf8 = (\<lambda>p s w. (None, w)),
      g_timeout_add_seconds = (\<lambda>n w. (1, w))\<rparr>"

lemma sample_keyring_ok: "keyring_ok (\<lambda>w. w) sample_setup sample_keyring_system"
  by (simp add: keyring_ok_def sample_setup_def sample_keyring_system_def store_argv_def lookup_argv_def)

lemma sample_rpc_call: "rpc_call sample_setup (Some path) meth params w = Some (Inr sample_reply, w)"
  by (simp add: rpc_call_def sample_setup_def recv_reply.simps)

theorem sign_in_reaches_mount_witness:
  "\<exists>s1 s2 w5. auth_thread sample_setup ''/opt''
       (fst (on_sign_in sample_setup ''a@b '' ''secret'' setup_window_new Map.empty)) Map.empty = Some (s1, Map.empty) \<and>
     run_idle sample_setup (hd (sw_idle s1)) s1 Map.empty = (s2, w5) \<and>
     sw_log s2 = [Helper_started 7, Announced ''a@b'', Helper_terminated 7] \<and>
     fst (lookup_credentials sample_keyring_system ''a@b'' w5) = Inr (Some ''u1'', Some ''t1'', Some ''czE='')"
proof -
  have strip: "py_strip ''a@b '' = ''a@b''"
    by (simp add: py_strip_def py_isspace_def)
  have fields: "find_helper sample_setup ''/opt'' w = Some ''/opt/helper/proton-drive-helper''"
    "mktemp sample_setup w = (''/tmp/s.sock'', w)" "popen sample_setup argv w = (Inr 7, w)"
    "await_socket sample_setup 50 path w = (True, w)" for w argv path
    by (simp_all add: find_helper_def sample_setup_def eval_nat_numeral)
  have rpc: "rpc_call sample_setup (Some ''/tmp/s.sock'') ''Auth''
      [(''username'', JString ''a@b''), (''password'', JString ''secret'')] w = Some (Inr sample_reply, w)" for w
    by (rule sample_rpc_call)
  have store: "\<exists>w'. secret_store sample_setup label u f v w = (Inr (), w')" for label u f v w
    by (simp add: secret_store_def sample_setup_def)
  have chomp: "g_strchomp ''u1'' = ''u1''" "g_strchomp ''t1'' = ''t1''" "g_strchomp ''czE='' = ''czE=''"
    by (simp_all add: g_strchomp_def g_ascii_isspace_def)
  from sign_in_reaches_mount [OF sample_keyring_ok strip _ _ fields(1,2) fields(3) fields(4) rpc [unfolded sample_reply_def]
      _ _ _ _ _ store new_monitor_ok [of sample_variants], where w = Map.empty and token = "''t1''" and uid = "''u1''" and salted = "''czE=''"
      and rs = "[(''uid'', JString ''u1''), (''refresh_token'', JString ''t1''), (''salted_passphrase'', JString ''czE='')]"]
  obtain s1 s2 w5 where "auth_thread sample_setup ''/opt''
       (fst (on_sign_in sample_setup ''a@b '' ''secret'' setup_window_new Map.empty)) Map.empty = Some (s1, Map.empty)"
    "sw_idle s1 = [Store_and_finish (JObject [(''uid'', JString ''u1''), (''refresh_token'', JString ''t1''), (''salted_passphrase'', JString ''czE='')])]"
    "run_idle sample_setup (Store_and_finish (JObject [(''uid'', JString ''u1''), (''refresh_token'', JString ''t1''), (''salted_passphrase'', JString ''czE='')])) s1 Map.empty = (s2, w5)"
    "sw_log s2 = [Helper_started 7, Announced ''a@b'', Helper_terminated 7]"
    "fst (lookup_credentials sample_keyring_system ''a@b'' w5) = Inr (Some ''u1'', Some ''t1'', Some ''czE='')"
    by (auto simp: json_field_def chomp)
  then show ?thesis
    by auto
qed

text \<open>
  C39. When the uid was stored and the refresh token is not, the assistant shows the error and announces
  nothing, but the keyring has the new uid with the old refresh token and passphrase, and so has the
  next mount.
\<close>

theorem failed_store_mixes_credentials:
  assumes "keyring_ok secret Y Z" "json_field rs ''uid'' = Some (JString uid)"
    and "json_field rs ''refresh_token'' = Some (JString token)"
    and "secret_store Y (''Proton Drive session UID'' @ '' ('' @ sw_username s @ '')'') (sw_username s) ''uid'' uid w = (Inr (), w1)"
    and "secret_store Y (''Proton Drive refresh token'' @ '' ('' @ sw_username s @ '')'') (sw_username s) ''refresh_token'' token w1 = (Inl e, w2)"
  shows "\<exists>s' w'. store_and_finish Y (JObject rs) s w = (s', w') \<and>
    sw_error s' = Some (''Failed to store credentials: '' @ e) \<and> sw_open s' = sw_open s \<and>
    (\<forall>u. Announced u \<in> set (sw_log s') \<longrightarrow> Announced u \<in> set (sw_log s)) \<and>
    fst (lookup_credentials Z (sw_username s) w') =
      Inr (Some (g_strchomp uid), Some (read_secret secret w (sw_username s) ''refresh_token''),
           Some (read_secret secret w (sw_username s) ''salted_passphrase''))"
proof -
  obtain s' w' where err: "show_err Y (''Failed to store credentials: '' @ e) s w2 = (s', w')"
    by (cases "show_err Y (''Failed to store credentials: '' @ e) s w2")
  have "store_and_finish Y (JObject rs) s w = (s', w')"
    using err by (simp add: store_and_finish_def Let_def store_item_Inr [OF assms(2)] store_item_Inr [OF assms(3)]
        assms(4) [simplified] assms(5) [simplified])
  moreover have "secret w' = (secret w)((sw_username s, ''uid'') \<mapsto> uid)"
    using secret_store_secret [OF assms(1,4)] secret_store_secret [OF assms(1,5)] show_err_secret(1) [OF assms(1) err] by simp
  ultimately show ?thesis
    using show_err_secret(2-4) [OF assms(1) err]
    by (auto simp: lookup_credentials_secret [OF assms(1)] read_secret_def split: option.splits)
qed

text \<open>The second store fails: \<open>secret-tool\<close> refuses refresh tokens.\<close>

definition sample_refusing :: "(string \<times> string \<rightharpoonup> string) setup_sys" where
  "sample_refusing = sample_setup\<lparr>run_check := (\<lambda>argv v w.
     if argv ! 9 = ''refresh_token'' then (Inl ''exit status 1'', w) else (Inr (), w((argv ! 7, argv ! 9) \<mapsto> v)))\<rparr>"

theorem failed_store_mixes_credentials_witness:
  "\<exists>s' w'. store_and_finish sample_refusing
      (JObject [(''uid'', JString ''u2''), (''refresh_token'', JString ''t2''), (''salted_passphrase'', JString ''czI='')])
      (setup_window_new\<lparr>sw_username := ''a''\<rparr>) [(''a'', ''uid'') \<mapsto> ''u1'', (''a'', ''refresh_token'') \<mapsto> ''t1''] = (s', w') \<and>
    sw_error s' = Some ''Failed to store credentials: exit status 1'' \<and>
    fst (lookup_credentials sample_keyring_system ''a'' w') = Inr (Some ''u2'', Some ''t1'', Some [])"
proof -
  have ok: "keyring_ok (\<lambda>w. w) sample_refusing sample_keyring_system"
    by (simp add: keyring_ok_def sample_refusing_def sample_setup_def sample_keyring_system_def store_argv_def lookup_argv_def)
  have chomp: "g_strchomp ''u2'' = ''u2''" "g_strchomp ''t1'' = ''t1''" "g_strchomp [] = []"
    by (simp_all add: g_strchomp_def g_ascii_isspace_def)
  from failed_store_mixes_credentials [OF ok, where s = "setup_window_new\<lparr>sw_username := ''a''\<rparr>"
      and w = "[(''a'', ''uid'') \<mapsto> ''u1'', (''a'', ''refresh_token'') \<mapsto> ''t1'']" and uid = "''u2''" and token = "''t2''"
      and rs = "[(''uid'', JString ''u2''), (''refresh_token'', JString ''t2''), (''salted_passphrase'', JString ''czI='')]"
      and ?w1.0 = "[(''a'', ''uid'') \<mapsto> ''u2'', (''a'', ''refresh_token'') \<mapsto> ''t1'']"
      and ?w2.0 = "[(''a'', ''uid'') \<mapsto> ''u2'', (''a'', ''refresh_token'') \<mapsto> ''t1'']" and e = "''exit status 1''"]
  show ?thesis
    by (auto simp: json_field_def secret_store_def sample_refusing_def read_secret_def chomp fun_upd_twist)
qed

end
