(* ===== verification/Server_Loop.thy ===== *)
theory Server_Loop
  imports Helper_Server "HOL-Library.Sublist"
begin

text \<open>
  \<open>rpc/server.go\<close> with its goroutines: \<open>Serve\<close> accepts connections and starts \<open>handleConn\<close> for each,
  which is a scanner goroutine, offering one request at a time on an unbuffered channel, and a loop
  that takes them, runs the handlers and writes the responses. The steps of all connections and of
  the clients interleave freely; one handler is one step. Shown: each connection has its requests
  answered in order, whatever the others do, and where one connection is used alone the goroutines
  do together what the sequential \<open>handleConn\<close> of \<open>Helper_Server\<close> computes.
\<close>

section \<open>Scanning to the end of the stream\<close>

text \<open>The scanner once more: where the peer has closed, the rest of the input is a last line.\<close>

datatype scan_event = Line string string | Wait | Stop

definition scan_next :: "bool \<Rightarrow> string \<Rightarrow> scan_event" where
  "scan_next eof inb =
     (case scan_line inb of
        Scan_token line rest \<Rightarrow> Line line rest
      | Scan_too_long \<Rightarrow> Stop
      | Scan_more \<Rightarrow> if \<not> eof then Wait else if inb = [] then Stop else Line inb [])"

definition parse_request :: "go_json \<Rightarrow> string \<Rightarrow> request option" where
  "parse_request G line = Option.bind (json_Unmarshal G (drop_cr line)) unmarshal_Request"

text \<open>The reference: the well-formed requests of a stream, in order.\<close>

lemma scan_next_shorter: "scan_next eof inb = Line line rest \<Longrightarrow> length rest < length inb"
  by (auto simp: scan_next_def scan_line_def Let_def split: scan.splits if_splits)

function requests_of :: "go_json \<Rightarrow> bool \<Rightarrow> string \<Rightarrow> request list" where
  "requests_of G eof inb =
     (case scan_next eof inb of
        Line line rest \<Rightarrow>
          (case parse_request G line of None \<Rightarrow> [] | Some req \<Rightarrow> [req]) @ requests_of G eof rest
      | _ \<Rightarrow> [])"
  by pat_completeness auto
termination
  by (relation "measure (\<lambda>(G, eof, inb). length inb)") (auto dest: scan_next_shorter)

declare requests_of.simps [simp del]

section \<open>One connection\<close>

datatype scanner = Scanning | Offering request | Scan_done

datatype conn_loop = Ready | Serving request | Returned | Broken

text \<open>
  What the client has sent, how much of it the scanner has consumed, whether the client has closed,
  the two goroutines and the responses written.
\<close>

record connection =
  cn_sent :: string
  cn_read :: nat
  cn_eof :: bool
  cn_scanner :: scanner
  cn_loop :: conn_loop
  cn_out :: "response list"

definition new_connection :: connection where
  "new_connection = \<lparr>cn_sent = [], cn_read = 0, cn_eof = False, cn_scanner = Scanning, cn_loop = Ready, cn_out = []\<rparr>"

definition unread :: "connection \<Rightarrow> string" where
  "unread cn = drop (cn_read cn) (cn_sent cn)"

text \<open>A line scanned: a malformed request is logged and skipped.\<close>

definition scanned :: "go_json \<Rightarrow> string \<Rightarrow> string \<Rightarrow> connection \<Rightarrow> connection" where
  "scanned G line rest cn =
     cn\<lparr>cn_read := length (cn_sent cn) - length rest,
        cn_scanner := (case parse_request G line of None \<Rightarrow> Scanning | Some req \<Rightarrow> Offering req)\<rparr>"

text \<open>
  The steps of the goroutines between handlers. The end of the scan closes the channel, which ends
  the loop; a loop that returned has closed the connection, which ends a scan.
\<close>

inductive conn_step :: "go_json \<Rightarrow> connection \<Rightarrow> connection \<Rightarrow> bool" for G where
  scan: "cn_scanner cn = Scanning \<Longrightarrow> scan_next (cn_eof cn) (unread cn) = Line line rest \<Longrightarrow>
     conn_step G cn (scanned G line rest cn)"
| scan_end: "cn_scanner cn = Scanning \<Longrightarrow>
     scan_next (cn_eof cn) (unread cn) = Stop \<or> cn_loop cn \<in> {Returned, Broken} \<Longrightarrow>
     conn_step G cn (cn\<lparr>cn_scanner := Scan_done\<rparr>)"
| take: "cn_scanner cn = Offering req \<Longrightarrow> cn_loop cn = Ready \<Longrightarrow>
     conn_step G cn (cn\<lparr>cn_scanner := Scanning, cn_loop := Serving req\<rparr>)"
| finish: "cn_scanner cn = Scan_done \<Longrightarrow> cn_loop cn = Ready \<Longrightarrow> conn_step G cn (cn\<lparr>cn_loop := Returned\<rparr>)"

text \<open>The client sends or closes.\<close>

inductive client_step :: "connection \<Rightarrow> connection \<Rightarrow> bool" where
  send: "\<not> cn_eof cn \<Longrightarrow> client_step cn (cn\<lparr>cn_sent := cn_sent cn @ bs\<rparr>)"
| hang_up: "client_step cn (cn\<lparr>cn_eof := True\<rparr>)"

section \<open>The server\<close>

text \<open>
  The state of the handlers is shared. The log is not in the code: it records the requests that
  handlers were run for, with their connections.
\<close>

record 'h server =
  sv_serving :: bool
  sv_conns :: "nat \<rightharpoonup> connection"
  sv_state :: 'h
  sv_log :: "(nat \<times> request) list"

definition Serve :: "'h \<Rightarrow> 'h server" where
  "Serve st = \<lparr>sv_serving = True, sv_conns = Map.empty, sv_state = st, sv_log = []\<rparr>"

definition put_conn :: "nat \<Rightarrow> connection \<Rightarrow> 'h server \<Rightarrow> 'h server" where
  "put_conn c cn sv = sv\<lparr>sv_conns := (sv_conns sv)(c \<mapsto> cn)\<rparr>"

text \<open>
  An error of \<open>Accept\<close> ends \<open>Serve\<close> and with it the process. The response of a handler is written, or
  cannot be, which ends the loop and closes the connection.
\<close>

inductive server_step :: "go_json \<Rightarrow> 'h handlers \<Rightarrow> 'h server \<Rightarrow> 'h server \<Rightarrow> bool" for G s where
  accept: "sv_serving sv \<Longrightarrow> sv_conns sv c = None \<Longrightarrow> server_step G s sv (put_conn c new_connection sv)"
| accept_fails: "sv_serving sv \<Longrightarrow> server_step G s sv (sv\<lparr>sv_serving := False\<rparr>)"
| client: "sv_serving sv \<Longrightarrow> sv_conns sv c = Some cn \<Longrightarrow> client_step cn cn' \<Longrightarrow> server_step G s sv (put_conn c cn' sv)"
| conn: "sv_serving sv \<Longrightarrow> sv_conns sv c = Some cn \<Longrightarrow> conn_step G cn cn' \<Longrightarrow> server_step G s sv (put_conn c cn' sv)"
| answer: "sv_serving sv \<Longrightarrow> sv_conns sv c = Some cn \<Longrightarrow> cn_loop cn = Serving req \<Longrightarrow>
     dispatch s req (sv_state sv) = (resp, st) \<Longrightarrow>
     server_step G s sv (put_conn c (cn\<lparr>cn_loop := Ready, cn_out := cn_out cn @ [resp]\<rparr>)
       (sv\<lparr>sv_state := st, sv_log := sv_log sv @ [(c, req)]\<rparr>))"
| answer_lost: "sv_serving sv \<Longrightarrow> sv_conns sv c = Some cn \<Longrightarrow> cn_loop cn = Serving req \<Longrightarrow>
     dispatch s req (sv_state sv) = (resp, st) \<Longrightarrow>
     server_step G s sv (put_conn c (cn\<lparr>cn_loop := Broken\<rparr>)
       (sv\<lparr>sv_state := st, sv_log := sv_log sv @ [(c, req)]\<rparr>))"

inductive serves :: "go_json \<Rightarrow> 'h handlers \<Rightarrow> 'h \<Rightarrow> 'h server \<Rightarrow> bool" for G s st where
  start: "serves G s st (Serve st)"
| step: "serves G s st sv \<Longrightarrow> server_step G s sv sv' \<Longrightarrow> serves G s st sv'"

text \<open>The handlers run one after the other.\<close>

fun run_handlers :: "'h handlers \<Rightarrow> (nat \<times> request) list \<Rightarrow> 'h \<Rightarrow> (nat \<times> response) list \<times> 'h" where
  "run_handlers s [] st = ([], st)"
| "run_handlers s ((c, req) # log) st =
     (case dispatch s req st of (resp, st) \<Rightarrow> (case run_handlers s log st of (out, st) \<Rightarrow> ((c, resp) # out, st)))"

definition of_conn :: "nat \<Rightarrow> (nat \<times> 'a) list \<Rightarrow> 'a list" where
  "of_conn c log = map snd (filter (\<lambda>x. fst x = c) log)"

text \<open>Nothing is left to do for the requests received so far.\<close>

definition conn_quiet :: "connection \<Rightarrow> bool" where
  "conn_quiet cn \<longleftrightarrow>
     (case cn_loop cn of
        Ready \<Rightarrow> cn_scanner cn = Scanning \<and> scan_next (cn_eof cn) (unread cn) = Wait
      | Returned \<Rightarrow> True
      | _ \<Rightarrow> False)"

section \<open>Lemmas on the scanner\<close>

lemma line_split:
  assumes "length (takeWhile P inb) < length inb"
  shows "inb = takeWhile P inb @ inb ! length (takeWhile P inb) # drop (Suc (length (takeWhile P inb))) inb"
    "\<not> P (inb ! length (takeWhile P inb))"
  using assms nth_length_takeWhile [OF assms] id_take_nth_drop [OF assms]
  by (simp_all flip: takeWhile_eq_take)

lemma scan_line_token:
  assumes "scan_line inb = Scan_token l r"
  shows "inb = l @ CHR 0x0A # r" "CHR 0x0A \<notin> set l" "length l < max_token_size"
proof -
  let ?l = "takeWhile (\<lambda>c. c \<noteq> CHR 0x0A) inb"
  from assms have l: "l = ?l" "r = drop (length ?l + 1) inb" "length ?l < length inb" "length ?l < max_token_size"
    unfolding scan_line_def Let_def by (auto split: if_splits)
  with line_split [OF l(3)] show "inb = l @ CHR 0x0A # r" "CHR 0x0A \<notin> set l" "length l < max_token_size"
    by (auto dest: set_takeWhileD)
qed

lemma scan_next_append:
  assumes "scan_next e inb = Line line rest" "e \<Longrightarrow> zs = [] \<and> e'"
  shows "scan_next e' (inb @ zs) = Line line (rest @ zs)"
proof (cases "scan_line inb")
  case (Scan_token l r)
  note t = scan_line_token [OF Scan_token]
  from t(1) scan_line_append [OF t(2,3), of "r @ zs"] have "scan_line (inb @ zs) = Scan_token l (r @ zs)"
    by simp
  with Scan_token assms(1) show ?thesis
    by (simp add: scan_next_def)
qed (use assms in \<open>auto simp: scan_next_def split: if_splits\<close>)

lemma scan_next_suffix:
  assumes "scan_next e inb = Line line rest"
  shows "\<exists>n. rest = drop n inb"
proof (cases "scan_line inb")
  case (Scan_token l r)
  from scan_line_token(1) [OF Scan_token] have "r = drop (length l + 1) inb"
    by simp
  with Scan_token assms show ?thesis
    by (auto simp: scan_next_def)
next
  case Scan_more
  with assms have "rest = drop (length inb) inb"
    by (auto simp: scan_next_def split: if_splits)
  then show ?thesis ..
qed (use assms in \<open>simp add: scan_next_def\<close>)

lemma requests_of_line:
  "scan_next e inb = Line line rest \<Longrightarrow>
     requests_of G e inb = (case parse_request G line of None \<Rightarrow> [] | Some req \<Rightarrow> [req]) @ requests_of G e rest"
  by (subst requests_of.simps) simp

lemma requests_of_none: "scan_next e inb = Wait \<or> scan_next e inb = Stop \<Longrightarrow> requests_of G e inb = []"
  by (subst requests_of.simps) auto

lemma run_handlers_append:
  "run_handlers s (log @ [(c, req)]) st =
     (case run_handlers s log st of (out, st) \<Rightarrow>
        (case dispatch s req st of (resp, st) \<Rightarrow> (out @ [(c, resp)], st)))"
  by (induction log arbitrary: st) (auto split: prod.split)

lemma run_handlers_conns: "map fst (fst (run_handlers s log st)) = map fst log"
  by (induction s log st rule: run_handlers.induct) (auto split: prod.split)

lemma of_conn_append [simp]:
  "of_conn c (log @ [(c', x)]) = of_conn c log @ (if c' = c then [x] else [])"
  by (simp add: of_conn_def)

section \<open>The invariant\<close>

text \<open>The requests on their way in a connection, between scanner and handler.\<close>

definition in_flight :: "connection \<Rightarrow> request list" where
  "in_flight cn =
     (case cn_loop cn of Serving req \<Rightarrow> [req] | _ \<Rightarrow> []) @ (case cn_scanner cn of Offering req \<Rightarrow> [req] | _ \<Rightarrow> [])"

text \<open>Whatever else the client sends, the requests served, those in flight and those unread are all.\<close>

definition accounted :: "go_json \<Rightarrow> request list \<Rightarrow> connection \<Rightarrow> bool" where
  "accounted G served cn \<longleftrightarrow>
     cn_read cn \<le> length (cn_sent cn) \<and>
     (\<forall>zs e. (cn_eof cn \<longrightarrow> zs = [] \<and> e) \<longrightarrow>
        requests_of G e (cn_sent cn @ zs) = served @ in_flight cn @ requests_of G e (unread cn @ zs))"

text \<open>The responses written are those of the handlers, the last one possibly missing.\<close>

definition conn_ok :: "go_json \<Rightarrow> request list \<Rightarrow> response list \<Rightarrow> connection \<Rightarrow> bool" where
  "conn_ok G served resps cn \<longleftrightarrow>
     accounted G served cn \<and> (if cn_loop cn = Broken then \<exists>resp. resps = cn_out cn @ [resp] else cn_out cn = resps) \<and>
     (cn_loop cn = Returned \<longrightarrow> cn_scanner cn = Scan_done) \<and>
     (cn_scanner cn = Scan_done \<longrightarrow> scan_next (cn_eof cn) (unread cn) = Stop \<or> cn_loop cn = Broken)"

definition server_ok :: "go_json \<Rightarrow> 'h handlers \<Rightarrow> 'h \<Rightarrow> 'h server \<Rightarrow> bool" where
  "server_ok G s st sv \<longleftrightarrow>
     snd (run_handlers s (sv_log sv) st) = sv_state sv \<and>
     (\<forall>c. case sv_conns sv c of
        None \<Rightarrow> of_conn c (sv_log sv) = []
      | Some cn \<Rightarrow> conn_ok G (of_conn c (sv_log sv)) (of_conn c (fst (run_handlers s (sv_log sv) st))) cn)"

lemma of_conn_run_empty: "of_conn c log = [] \<Longrightarrow> of_conn c (fst (run_handlers s log st)) = []"
  by (induction s log st rule: run_handlers.induct) (auto simp: of_conn_def split: prod.splits if_splits)

lemma drop_length_minus: "drop (length xs - (length xs - k)) xs = drop k xs"
  by (cases "k \<le> length xs") auto

lemma conn_ok_new: "conn_ok G [] [] new_connection"
  by (simp add: conn_ok_def accounted_def new_connection_def in_flight_def unread_def)

lemma conn_step_ok:
  assumes "conn_step G cn cn'" "conn_ok G served resps cn"
  shows "conn_ok G served resps cn'"
  using assms
proof cases
  case (scan line rest)
  obtain n where n: "rest = drop n (unread cn)"
    using scan_next_suffix [OF scan(3)] ..
  then have "rest = drop (n + cn_read cn) (cn_sent cn)"
    by (simp add: unread_def)
  then have u: "unread cn' = rest" "cn_read cn' \<le> length (cn_sent cn')"
    by (simp_all add: scan(1) scanned_def unread_def drop_length_minus)
  have "requests_of G e (unread cn @ zs) =
      (case parse_request G line of None \<Rightarrow> [] | Some req \<Rightarrow> [req]) @ requests_of G e (rest @ zs)"
    if "cn_eof cn \<longrightarrow> zs = [] \<and> e" for zs e
    using that by (intro requests_of_line scan_next_append [OF scan(3)]) auto
  with assms(2) u scan(2) have "accounted G served cn'"
    by (auto simp: conn_ok_def accounted_def scan(1) scanned_def in_flight_def split: option.split)
  with assms(2) scan(2) show ?thesis
    by (auto simp: conn_ok_def scan(1) scanned_def split: option.splits)
qed (auto simp: conn_ok_def accounted_def in_flight_def unread_def)

lemma scan_stop_append:
  assumes "scan_next False inb = Stop"
  shows "scan_next e (inb @ zs) = Stop"
proof -
  let ?l = "takeWhile (\<lambda>c. c \<noteq> CHR 0x0A) inb"
  from assms have "scan_line inb = Scan_too_long"
    by (auto simp: scan_next_def split: scan.splits)
  then have "max_token_size \<le> length ?l"
    by (auto simp: scan_line_def Let_def split: if_splits)
  moreover have "CHR 0x0A \<notin> set ?l"
    by (auto dest: set_takeWhileD)
  ultimately have "scan_line (?l @ dropWhile (\<lambda>c. c \<noteq> CHR 0x0A) inb @ zs) = Scan_too_long"
    by (rule scan_line_long [rotated])
  then show ?thesis
    by (simp add: scan_next_def flip: append_assoc)
qed

lemma client_step_ok:
  assumes "client_step cn cn'" "conn_ok G served resps cn"
  shows "conn_ok G served resps cn'"
  using assms
proof cases
  case (send bs)
  have "accounted G served cn'"
    unfolding accounted_def
  proof (intro conjI allI impI)
    show "cn_read cn' \<le> length (cn_sent cn')"
      using assms(2) by (simp add: send(1) conn_ok_def accounted_def)
    fix zs e
    have "unread cn' = unread cn @ bs"
      using assms(2) by (simp add: send(1) conn_ok_def accounted_def unread_def)
    moreover have "requests_of G e (cn_sent cn @ bs @ zs) = served @ in_flight cn @ requests_of G e (unread cn @ bs @ zs)"
      using assms(2) send(2) unfolding conn_ok_def accounted_def by blast
    ultimately show "requests_of G e (cn_sent cn' @ zs) = served @ in_flight cn' @ requests_of G e (unread cn' @ zs)"
      by (simp add: send(1) in_flight_def)
  qed
  with assms(2) send(2) scan_stop_append show ?thesis
    by (auto simp: conn_ok_def send(1) unread_def accounted_def)
next
  case hang_up
  have "scan_next (cn_eof cn) (unread cn) = Stop \<Longrightarrow> scan_next True (unread cn) = Stop"
    using scan_stop_append [of "unread cn" True "[]"] by (cases "cn_eof cn") auto
  moreover have "accounted G served cn'"
  proof -
    from assms(2) have "cn_read cn \<le> length (cn_sent cn)"
      "requests_of G True (cn_sent cn @ []) = served @ in_flight cn @ requests_of G True (unread cn @ [])"
      unfolding conn_ok_def accounted_def by blast+
    then show ?thesis
      by (simp add: accounted_def hang_up in_flight_def unread_def)
  qed
  ultimately show ?thesis
    using assms(2) by (auto simp: conn_ok_def hang_up unread_def)
qed

text \<open>A handler has run: its request is served, its response written or lost.\<close>

lemma answer_ok:
  assumes "conn_ok G served resps cn" "cn_loop cn = Serving req"
  shows "conn_ok G (served @ [req]) (resps @ [resp]) (cn\<lparr>cn_loop := Ready, cn_out := cn_out cn @ [resp]\<rparr>)"
    "conn_ok G (served @ [req]) (resps @ [resp]) (cn\<lparr>cn_loop := Broken\<rparr>)"
  using assms by (auto simp: conn_ok_def accounted_def in_flight_def unread_def)

lemma put_conn_sel [simp]:
  "sv_log (put_conn c cn sv) = sv_log sv" "sv_state (put_conn c cn sv) = sv_state sv"
  "sv_conns (put_conn c cn sv) = (sv_conns sv)(c \<mapsto> cn)" "sv_serving (put_conn c cn sv) = sv_serving sv"
  by (simp_all add: put_conn_def)

lemma server_ok_conn:
  "server_ok G s st sv \<Longrightarrow> sv_conns sv c = Some cn \<Longrightarrow>
     conn_ok G (of_conn c (sv_log sv)) (of_conn c (fst (run_handlers s (sv_log sv) st))) cn"
  unfolding server_ok_def by (auto dest: spec [where x = c])

text \<open>Another connection changes, the log does not.\<close>

lemma put_conn_ok:
  assumes "server_ok G s st sv"
    and "conn_ok G (of_conn c (sv_log sv)) (of_conn c (fst (run_handlers s (sv_log sv) st))) cn"
  shows "server_ok G s st (put_conn c cn sv)"
  using assms by (auto simp: server_ok_def cong: option.case_cong)

lemma log_ok:
  assumes "server_ok G s st sv" "dispatch s req (sv_state sv) = (resp, st')"
    and "\<And>served resps. conn_ok G served resps cn \<Longrightarrow> conn_ok G (served @ [req]) (resps @ [resp]) cn'"
    and "sv_conns sv c = Some cn"
  shows "server_ok G s st (put_conn c cn' (sv\<lparr>sv_state := st', sv_log := sv_log sv @ [(c, req)]\<rparr>))"
proof -
  have r: "run_handlers s (sv_log sv @ [(c, req)]) st = (fst (run_handlers s (sv_log sv) st) @ [(c, resp)], st')"
    using assms(1,2) by (cases "run_handlers s (sv_log sv) st") (simp add: run_handlers_append server_ok_def)
  with assms(1) assms(3) [OF server_ok_conn [OF assms(1,4)]] show ?thesis
    by (auto simp: server_ok_def cong: option.case_cong)
qed

lemma server_step_ok: "server_step G s sv sv' \<Longrightarrow> server_ok G s st sv \<Longrightarrow> server_ok G s st sv'"
proof (induction rule: server_step.induct)
  case (accept sv c)
  moreover from this have "of_conn c (sv_log sv) = []"
    by (auto simp: server_ok_def dest: spec [where x = c])
  ultimately show ?case
    by (auto intro: put_conn_ok simp: of_conn_run_empty conn_ok_new)
next
  case (client sv c cn cn')
  then show ?case
    by (blast intro: put_conn_ok client_step_ok server_ok_conn)
next
  case (conn sv c cn cn')
  then show ?case
    by (blast intro: put_conn_ok conn_step_ok server_ok_conn)
next
  case (answer sv c cn req resp st')
  then show ?case
    by (intro log_ok [where cn = cn]) (auto intro: answer_ok)
next
  case (answer_lost sv c cn req resp st')
  then show ?case
    by (intro log_ok [where cn = cn]) (auto intro: answer_ok)
qed (simp add: server_ok_def cong: option.case_cong)

lemma serves_ok: "serves G s st sv \<Longrightarrow> server_ok G s st sv"
proof (induction rule: serves.induct)
  case start
  show ?case
    by (simp add: server_ok_def Serve_def of_conn_def)
qed (rule server_step_ok)

section \<open>Alone on one connection\<close>

text \<open>\<open>handleConn\<close> on a stream answers its requests in order.\<close>

definition response_line :: "go_json \<Rightarrow> response \<Rightarrow> string" where
  "response_line G resp = json_Marshal G (marshal_Response resp)"

lemma handleConn_requests:
  "handleConn G s inb st =
     (case run_handlers s (map (Pair c) (requests_of G False inb)) st of
        (resps, st') \<Rightarrow>
          (map (response_line G \<circ> snd) resps, fst (snd (handleConn G s inb st)), fst (snd (snd (handleConn G s inb st))), st'))"
proof (induction G s inb st rule: handleConn.induct)
  case (1 G s inb st)
  show ?case
  proof (cases "scan_line inb")
    case Scan_more
    then show ?thesis
      by (simp add: handleConn.simps [of G s inb] requests_of_none scan_next_def)
  next
    case Scan_too_long
    then show ?thesis
      by (simp add: handleConn.simps [of G s inb] requests_of_none scan_next_def)
  next
    case (Scan_token line rest)
    obtain out st1 where l: "serve_line G s line st = (out, st1)"
      by fastforce
    obtain outs left alive st2 where h: "handleConn G s rest st1 = (outs, left, alive, st2)"
      by (cases "handleConn G s rest st1")
    note IH = 1 [OF Scan_token l [symmetric], unfolded h]
    from Scan_token have n: "scan_next False inb = Line line rest"
      by (simp add: scan_next_def)
    show ?thesis
      using IH l
      by (auto simp: handleConn.simps [of G s inb] Scan_token l h requests_of_line [OF n] parse_request_def serve_line_def
          response_line_def split: option.splits prod.splits)
  qed
qed

lemma of_conn_alone: "\<forall>(c', x)\<in>set log. c' = c \<Longrightarrow> log = map (Pair c) (of_conn c log)"
  by (induction log) (auto simp: of_conn_def)

lemma conn_quiet_served:
  assumes "conn_ok G served resps cn" "conn_quiet cn"
  shows "served = requests_of G (cn_eof cn) (cn_sent cn)" "cn_out cn = resps"
proof -
  have "in_flight cn = []" "requests_of G (cn_eof cn) (unread cn) = []" "cn_loop cn \<noteq> Broken"
    using assms by (auto simp: conn_quiet_def conn_ok_def in_flight_def intro!: requests_of_none split: conn_loop.splits)
  moreover have "requests_of G (cn_eof cn) (cn_sent cn @ []) = served @ in_flight cn @ requests_of G (cn_eof cn) (unread cn @ [])"
    using assms(1) unfolding conn_ok_def accounted_def by blast
  ultimately show "served = requests_of G (cn_eof cn) (cn_sent cn)" "cn_out cn = resps"
    using assms(1) by (simp_all add: conn_ok_def)
qed

text \<open>A connection that is neither quiet nor broken has a step of its own to take.\<close>

lemma not_quiet_steps:
  assumes "sv_serving sv" "sv_conns sv c = Some cn" "\<not> conn_quiet cn" "cn_loop cn \<noteq> Broken"
  shows "\<exists>cn' sv'. server_step G s sv sv' \<and> sv_conns sv' = (sv_conns sv)(c \<mapsto> cn') \<and>
    (conn_step G cn cn' \<or> (\<exists>req. cn_loop cn = Serving req \<and> cn_loop cn' = Ready))"
proof (cases "cn_loop cn")
  case (Serving req)
  obtain resp st where d: "dispatch s req (sv_state sv) = (resp, st)"
    by fastforce
  from server_step.answer [OF assms(1,2) Serving d] Serving show ?thesis
    by force
next
  case Ready
  have "\<exists>cn'. conn_step G cn cn'"
  proof (cases "cn_scanner cn")
    case Scanning
    with Ready assms(3) have "scan_next (cn_eof cn) (unread cn) \<noteq> Wait"
      by (simp add: conn_quiet_def)
    with Scanning show ?thesis
      by (cases "scan_next (cn_eof cn) (unread cn)") (blast intro: conn_step.intros)+
  qed (use Ready in \<open>blast intro: conn_step.intros\<close>)+
  then obtain cn' where "conn_step G cn cn'" ..
  with server_step.conn [OF assms(1,2) this, where s = s] show ?thesis
    by force
qed (use assms in \<open>simp_all add: conn_quiet_def\<close>)

text \<open>One request from the client to the response, on a connection that was quiet.\<close>

definition answered :: "string \<Rightarrow> response \<Rightarrow> connection \<Rightarrow> connection" where
  "answered line resp cn =
     cn\<lparr>cn_sent := cn_sent cn @ line @ [CHR 0x0A], cn_read := length (cn_sent cn @ line @ [CHR 0x0A]),
        cn_out := cn_out cn @ [resp]\<rparr>"

definition awaiting_request :: "connection \<Rightarrow> bool" where
  "awaiting_request cn \<longleftrightarrow>
     cn_scanner cn = Scanning \<and> cn_loop cn = Ready \<and> \<not> cn_eof cn \<and> cn_read cn = length (cn_sent cn)"

lemma answered_awaiting: "awaiting_request cn \<Longrightarrow> awaiting_request (answered line resp cn)"
  by (simp add: awaiting_request_def answered_def)

lemma awaiting_quiet: "awaiting_request cn \<Longrightarrow> conn_quiet cn"
  by (simp add: awaiting_request_def conn_quiet_def unread_def scan_next_def scan_line_def max_token_size_def)

lemma new_awaiting: "awaiting_request new_connection"
  by (simp add: awaiting_request_def new_connection_def)

lemma put_conn_twice: "put_conn c cn' (put_conn c cn sv) = put_conn c cn' sv"
  "put_conn c cn' ((put_conn c cn sv)\<lparr>sv_state := st, sv_log := log\<rparr>) = put_conn c cn' (sv\<lparr>sv_state := st, sv_log := log\<rparr>)"
  by (simp_all add: put_conn_def)

lemma serve_request:
  assumes "serves G s st sv" "sv_serving sv" "sv_conns sv c = Some cn" "awaiting_request cn"
    and "CHR 0x0A \<notin> set line" "length line < max_token_size" "parse_request G line = Some req"
    and "dispatch s req (sv_state sv) = (resp, st')"
  shows "serves G s st (put_conn c (answered line resp cn) (sv\<lparr>sv_state := st', sv_log := sv_log sv @ [(c, req)]\<rparr>))"
proof -
  note cn = assms(4) [unfolded awaiting_request_def]
  let ?cn1 = "cn\<lparr>cn_sent := cn_sent cn @ line @ [CHR 0x0A]\<rparr>"
  let ?cn2 = "scanned G line [] ?cn1"
  let ?cn3 = "?cn2\<lparr>cn_scanner := Scanning, cn_loop := Serving req\<rparr>"
  have "client_step cn ?cn1"
    using cn by (intro client_step.send) simp
  with assms(1-3) have 1: "serves G s st (put_conn c ?cn1 sv)"
    by (blast intro: serves.step server_step.client)
  have "scan_next (cn_eof ?cn1) (unread ?cn1) = Line line []"
    using cn assms(5,6) scan_line_append [of line "[]"] by (simp add: scan_next_def unread_def)
  with cn have "conn_step G ?cn1 ?cn2"
    by (intro conn_step.scan) simp_all
  then have 2: "serves G s st (put_conn c ?cn2 sv)"
    using serves.step [OF 1 server_step.conn [where c = c and cn = ?cn1 and cn' = ?cn2]] assms(2)
    by (simp add: put_conn_twice)
  have "conn_step G ?cn2 ?cn3"
    using cn assms(7) by (intro conn_step.take) (simp_all add: scanned_def)
  then have 3: "serves G s st (put_conn c ?cn3 sv)"
    using serves.step [OF 2 server_step.conn [where c = c and cn = ?cn2 and cn' = ?cn3]] assms(2)
    by (simp add: put_conn_twice)
  have "server_step G s (put_conn c ?cn3 sv) (put_conn c (?cn3\<lparr>cn_loop := Ready, cn_out := cn_out ?cn3 @ [resp]\<rparr>)
      ((put_conn c ?cn3 sv)\<lparr>sv_state := st', sv_log := sv_log (put_conn c ?cn3 sv) @ [(c, req)]\<rparr>))"
    using assms(2,8) by (intro server_step.answer) simp_all
  moreover have "?cn3\<lparr>cn_loop := Ready, cn_out := cn_out ?cn3 @ [resp]\<rparr> = answered line resp cn"
    using cn assms(7) by (simp add: scanned_def answered_def)
  ultimately show ?thesis
    using serves.step [OF 3] by (simp add: put_conn_twice)
qed

section \<open>Samples for the witnesses\<close>

text \<open>A server that counts its requests, and a format with two requests.\<close>

definition tiny_go :: go_json where
  "tiny_go =
     \<lparr>json_Unmarshal = (\<lambda>l. if l = ''a'' then Some (JObject [(''id'', JInt 1), (''method'', JString ''Count'')])
                       else if l = ''b'' then Some (JObject [(''id'', JInt 2), (''method'', JString ''Count'')]) else None),
      json_Marshal = (\<lambda>j. ''r''), base64_StdEncoding = (\<lambda>bs. [])\<rparr>"

definition counter :: "int handlers" where
  "counter = Register NewServer ''Count'' (\<lambda>p n. (Inr (Some (JInt (word_of_int n))), n + 1))"

definition counted :: "uint64 \<Rightarrow> int \<Rightarrow> response" where
  "counted i n = \<lparr>resp_ID = i, resp_Result = Some (JInt (word_of_int n)), resp_Error = None\<rparr>"

definition count_request :: "uint64 \<Rightarrow> request" where
  "count_request i = \<lparr>req_ID = i, req_Method = ''Count'', req_Params = None\<rparr>"

lemma tiny_parse: "parse_request tiny_go ''a'' = Some (count_request 1)" "parse_request tiny_go ''b'' = Some (count_request 2)"
  by (simp_all add: parse_request_def tiny_go_def drop_cr_def field_defs count_request_def)

lemma dispatch_counter: "dispatch counter (count_request i) n = (counted i n, n + 1)"
  by (simp add: dispatch_def counter_def Register_def count_request_def counted_def)

lemma tiny_lines: "CHR 0x0A \<notin> set ''a''" "CHR 0x0A \<notin> set ''b''" "length ''a'' < max_token_size" "length ''b'' < max_token_size"
  by (simp_all add: max_token_size_def)

text \<open>One client has been served, then another.\<close>

definition one_served :: "int server" where
  "one_served = put_conn 5 (answered ''a'' (counted 1 0) new_connection)
     ((Serve 0)\<lparr>sv_state := 1, sv_log := [(5, count_request 1)]\<rparr>)"

definition two_served :: "int server" where
  "two_served = put_conn 6 (answered ''b'' (counted 2 1) new_connection)
     (one_served\<lparr>sv_state := 2, sv_log := [(5, count_request 1), (6, count_request 2)]\<rparr>)"

lemma one_served_run: "serves tiny_go counter 0 one_served"
proof -
  have "serves tiny_go counter 0 (put_conn 5 new_connection (Serve 0))"
    by (rule serves.step [OF serves.start server_step.accept]) (simp_all add: Serve_def)
  from serve_request [OF this _ _ new_awaiting tiny_lines(1,3) tiny_parse(1) dispatch_counter, of 5] show ?thesis
    by (simp add: Serve_def one_served_def put_conn_def)
qed

lemma two_served_run: "serves tiny_go counter 0 two_served"
proof -
  have "serves tiny_go counter 0 (put_conn 6 new_connection one_served)"
    by (rule serves.step [OF one_served_run server_step.accept]) (simp_all add: one_served_def Serve_def)
  from serve_request [OF this _ _ new_awaiting tiny_lines(2,4) tiny_parse(2) dispatch_counter, of 6] show ?thesis
    by (simp add: Serve_def one_served_def two_served_def put_conn_def)
qed

text \<open>
  A scanner that holds a request when the loop has given up waits forever: its goroutine is never ended
  and its context never cancelled.
\<close>

lemma offering_stuck: "cn_loop cn = Broken \<Longrightarrow> cn_scanner cn = Offering req \<Longrightarrow> \<not> conn_step G cn cn'"
  by (auto elim: conn_step.cases)

section \<open>Properties\<close>

text \<open>
  C11. However the goroutines of all connections and their clients interleave, every connection has its own
  requests answered, in their order and with nothing from another connection: the handlers ran for a
  prefix of the well-formed requests that the client has sent, what is written are their responses
  (but for a last one that could not be written), and the state is what one run of the handlers in
  the order of the log leaves. Where nothing is left to do on a connection that was not broken, every
  request has been answered.
\<close>

theorem connections_served_in_order:
  assumes "serves G s st sv" "sv_conns sv c = Some cn"
    and "run_handlers s (sv_log sv) st = (resps, st')"
  shows "sv_state sv = st' \<and>
    prefix (of_conn c (sv_log sv)) (requests_of G (cn_eof cn) (cn_sent cn)) \<and>
    (cn_out cn = of_conn c resps \<or> cn_loop cn = Broken \<and> (\<exists>resp. of_conn c resps = cn_out cn @ [resp])) \<and>
    (conn_quiet cn \<longrightarrow> of_conn c (sv_log sv) = requests_of G (cn_eof cn) (cn_sent cn) \<and> cn_out cn = of_conn c resps)"
proof -
  note ok = serves_ok [OF assms(1)]
  note conn = server_ok_conn [OF ok assms(2), unfolded assms(3) fst_conv]
  have "requests_of G (cn_eof cn) (cn_sent cn @ []) =
      of_conn c (sv_log sv) @ in_flight cn @ requests_of G (cn_eof cn) (unread cn @ [])"
    using conn unfolding conn_ok_def accounted_def by blast
  then have "prefix (of_conn c (sv_log sv)) (requests_of G (cn_eof cn) (cn_sent cn))"
    by (simp add: prefix_def)
  with ok assms(3) conn conn_quiet_served [OF conn] show ?thesis
    by (auto simp: server_ok_def conn_ok_def split: if_splits)
qed

theorem connections_served_in_order_witness:
  "serves tiny_go counter 0 two_served \<and>
   (\<exists>cn. sv_conns two_served 6 = Some cn \<and> requests_of tiny_go (cn_eof cn) (cn_sent cn) = [count_request 2] \<and>
      cn_out cn = [counted 2 1])"
proof -
  let ?cn = "answered ''b'' (counted 2 1) new_connection"
  have cn: "sv_conns two_served 6 = Some ?cn"
    by (simp add: two_served_def)
  have log: "sv_log two_served = [(5, count_request 1), (6, count_request 2)]"
    by (simp add: two_served_def)
  have r: "run_handlers counter (sv_log two_served) 0 = ([(5, counted 1 0), (6, counted 2 1)], 2)"
    by (simp add: log dispatch_counter)
  from connections_served_in_order [OF two_served_run cn r] awaiting_quiet [OF answered_awaiting [OF new_awaiting]]
  show ?thesis
    using two_served_run cn by (auto simp: log of_conn_def)
qed

text \<open>
  C12. A client that has the helper to itself is served by the goroutines as by the sequential
  \<open>handleConn\<close> of \<open>Helper_Server\<close>, on which the model of the link rests: once nothing is left to do on a
  connection that is open and the only one on which requests were served, the lines written and the
  state of the handlers are those that \<open>handleConn\<close> computes from the bytes received.
\<close>

theorem goroutines_refine_handleConn:
  assumes "serves G s st sv" "sv_conns sv c = Some cn" "conn_quiet cn" "\<not> cn_eof cn"
    and "\<forall>(c', req)\<in>set (sv_log sv). c' = c"
  shows "\<exists>rest alive. handleConn G s (cn_sent cn) st = (map (response_line G) (cn_out cn), rest, alive, sv_state sv)"
proof -
  obtain resps st' where r: "run_handlers s (sv_log sv) st = (resps, st')"
    by fastforce
  note ok = serves_ok [OF assms(1)]
  note conn = server_ok_conn [OF ok assms(2), unfolded r fst_conv]
  note q = conn_quiet_served [OF conn assms(3)]
  have "map fst resps = map fst (sv_log sv)"
    using run_handlers_conns [of s "sv_log sv" st] r by simp
  then have "\<forall>x\<in>set resps. fst x = c"
    using assms(5) by (metis (mono_tags, lifting) case_prod_unfold image_iff list.set_map)
  then have "of_conn c resps = map snd resps"
    by (simp add: of_conn_def filter_True)
  have "sv_log sv = map (Pair c) (requests_of G False (cn_sent cn))"
    using of_conn_alone [OF assms(5)] q(1) assms(4) by simp
  moreover have "sv_state sv = st'"
    using ok r by (simp add: server_ok_def)
  ultimately have "handleConn G s (cn_sent cn) st =
      (map (response_line G) (cn_out cn), fst (snd (handleConn G s (cn_sent cn) st)),
       fst (snd (snd (handleConn G s (cn_sent cn) st))), sv_state sv)"
    using handleConn_requests [of G s "cn_sent cn" st c] r q(2) \<open>of_conn c resps = map snd resps\<close>
    by simp
  then show ?thesis
    by blast
qed

theorem goroutines_refine_handleConn_witness:
  "\<exists>rest alive. handleConn tiny_go counter (''a'' @ [CHR 0x0A]) 0 = ([''r''], rest, alive, 1)"
proof -
  let ?cn = "answered ''a'' (counted 1 0) new_connection"
  have "sv_conns one_served 5 = Some ?cn" "sv_log one_served = [(5, count_request 1)]" "sv_state one_served = 1"
    by (simp_all add: one_served_def)
  moreover have "\<not> cn_eof ?cn" "cn_sent ?cn = ''a'' @ [CHR 0x0A]" "map (response_line tiny_go) (cn_out ?cn) = [''r'']"
    by (simp_all add: answered_def new_connection_def response_line_def tiny_go_def)
  ultimately show ?thesis
    using goroutines_refine_handleConn [OF one_served_run, of 5 ?cn] awaiting_quiet [OF answered_awaiting [OF new_awaiting]]
    by simp
qed

end
