(* ===== verification/Helper_Start.thy ===== *)
theory Helper_Start
  imports Session_Life Server_Loop
begin

text \<open>
  The life of the helper's process: its command line and the listening socket (\<open>main.go\<close>), and the end
  of a session (\<open>Session.Close\<close>, the poller's \<open>Stop\<close>). Shown: a mount for an account whose helper does
  not run starts one, which listens where the mount then connects, and ends with a session on the drive.
\<close>

section \<open>The command line\<close>

text \<open>
  Go's \<open>flag\<close> with the one flag \<open>socket\<close>: \<open>-socket\<close> or \<open>--socket\<close>, its value after \<open>=\<close> or in the next argument; the
  first argument that is no flag, or \<open>--\<close>, ends the flags, and the rest is not looked at.
\<close>

datatype flags = Flags string | Flag_help | Flag_error

fun flag_parse :: "string \<Rightarrow> string list \<Rightarrow> flags" where
  "flag_parse socket [] = Flags socket"
| "flag_parse socket (s # args) =
     (if length s < 2 \<or> hd s \<noteq> CHR ''-'' \<or> s = ''--'' then Flags socket
      else
        (let arg = (if s ! 1 = CHR ''-'' then drop 2 s else drop 1 s);
             name = takeWhile (\<lambda>c. c \<noteq> CHR ''='') arg in
         if hd arg \<in> {CHR ''-'', CHR ''=''} then Flag_error
         else if name \<in> {''help'', ''h''} then Flag_help
         else if name \<noteq> ''socket'' then Flag_error
         else if length name < length arg then flag_parse (drop (length name + 1) arg) args
         else (case args of [] \<Rightarrow> Flag_error | v # args \<Rightarrow> flag_parse v args)))"

text \<open>\<open>os.Remove\<close>, whose error is ignored, and \<open>net.Listen\<close>, which tells whether it succeeded.\<close>

record 'w listen_sys =
  os_Remove :: "string \<Rightarrow> 'w \<Rightarrow> 'w"
  net_Listen :: "string \<Rightarrow> 'w \<Rightarrow> bool \<times> 'w"

text \<open>
  The arguments without the program's name. \<open>Inl\<close> of the exit status, or \<open>Inr\<close> of the path at which
  \<open>Serve\<close> accepts connections from then on.
\<close>

definition helper_main :: "'w listen_sys \<Rightarrow> string list \<Rightarrow> 'w \<Rightarrow> (nat + string) \<times> 'w" where
  "helper_main F args w =
     (case flag_parse [] args of
        Flag_help \<Rightarrow> (Inl 0, w)
      | Flag_error \<Rightarrow> (Inl 2, w)
      | Flags socket \<Rightarrow>
          if socket = [] then (Inl 1, w)
          else (case net_Listen F socket (os_Remove F socket w) of
                  (False, w) \<Rightarrow> (Inl 1, w)
                | (True, w) \<Rightarrow> (Inr socket, w)))"

text \<open>\<open>var session\<close>: there is none at the start.\<close>

definition initial_helper :: "'w \<Rightarrow> disk \<Rightarrow> ('w, 'k) helper" where
  "initial_helper w d = \<lparr>h_session = None, h_anchor = None, h_world = w, h_disk = d\<rparr>"

section \<open>The end of a session\<close>

text \<open>
  \<open>Stop\<close> cancels the poller's goroutine and waits for it; a poller that was never started has closed
  \<open>done\<close> already. \<open>Close\<close> then logs the client out. No code calls it: a session that is replaced by
  another log-in is left with its poller running.
\<close>

definition Stop :: "('w, 'k) helper \<Rightarrow> ('w, 'k) helper" where
  "Stop h = h\<lparr>h_anchor := None\<rparr>"

definition Close :: "('w, 'k) proton_mgr \<Rightarrow> auth \<Rightarrow> ('w, 'k) helper \<Rightarrow> drive_error option \<times> ('w, 'k) helper" where
  "Close M client h =
     (let h = (case h_session h of None \<Rightarrow> h | Some p \<Rightarrow> Stop h) in
      case AuthDelete M client (fst (world_of h)) of (err, w) \<Rightarrow> (err, set_world w h))"

lemma stopped_tick: "helper_tick L (Stop h) = Some (Stop h)"
  by (simp add: helper_tick_def Stop_def split: option.split)

text \<open>What was queued can still be fetched after the poller has stopped.\<close>

lemma stopped_drain:
  "h_session h = Some p \<Longrightarrow>
     fst (handle_GetEvents raw (Stop h)) = Inr (Some (marshal_GetEventsResult (map event_of (fst (Drain p)))))"
  by (simp add: handle_GetEvents_def requireSession_def Stop_def split: prod.split)

section \<open>Starting a helper\<close>

lemma flag_parse_socket: "flag_parse s0 [''--socket'', path] = Flags path"
  by simp

lemma helper_main_socket:
  "path \<noteq> [] \<Longrightarrow> net_Listen F path (os_Remove F path w) = (True, w') \<Longrightarrow>
     helper_main F [''--socket'', path] w = (Inr path, w')"
  by (simp add: helper_main_def flag_parse_socket del: flag_parse.simps)

text \<open>What a process made of the world once it has got through \<open>main\<close>, or has exited.\<close>

definition process_effect :: "'h net listen_sys \<Rightarrow> 'h \<Rightarrow> string list \<Rightarrow> 'h net \<Rightarrow> 'h net" where
  "process_effect F st args w =
     (case helper_main F args w of (Inl code, w) \<Rightarrow> w | (Inr path, w) \<Rightarrow> w\<lparr>net_helper := st\<rparr>)"

text \<open>
  The process runs beside the mount: the spawn succeeds, and after \<open>n\<close> pauses of the mount the process
  has got through \<open>main\<close>; before, the socket file is not there.
\<close>

definition spawns ::
  "'h net system \<Rightarrow> 'h net listen_sys \<Rightarrow> 'h \<Rightarrow> string list \<Rightarrow> string \<Rightarrow> nat \<Rightarrow> 'h net \<Rightarrow> bool" where
  "spawns Y F st argv path n w \<longleftrightarrow>
     (\<exists>w1. g_spawn_async Y argv w = (None, w1) \<and>
        (\<forall>j<n. \<not> g_file_test_exists Y path ((g_usleep Y 50000 ^^ j) w1)) \<and>
        (g_usleep Y 50000 ^^ n) w1 = process_effect F st (tl argv) w)"

text \<open>Where a stale file has been removed, listening succeeds, and makes the socket file.\<close>

definition can_listen :: "'h net system \<Rightarrow> 'h net listen_sys \<Rightarrow> string \<Rightarrow> bool" where
  "can_listen Y F path \<longleftrightarrow>
     (\<forall>w. \<exists>w'. net_Listen F path (os_Remove F path w) = (True, w') \<and> net_listening w' path \<and>
        (\<forall>st. g_file_test_exists Y path (w'\<lparr>net_helper := st\<rparr>)))"

lemma wait_for_socket_found:
  assumes "n < 100" "\<forall>j<n. \<not> g_file_test_exists Y path ((g_usleep Y 50000 ^^ j) w)"
    and "g_file_test_exists Y path ((g_usleep Y 50000 ^^ n) w)"
  shows "wait_for_socket Y path 5000 w = Some (True, (g_usleep Y 50000 ^^ n) w)"
proof -
  let ?ex = "\<lambda>j. g_file_test_exists Y path ((g_usleep Y 50000 ^^ j) w)"
  have "wait_for_socket Y path (of_nat 5000) w = Some (polls Y path ((5000 + 49) div 50) w)"
    using wait_loop_polls [of 5000 0 "(5000 + 49) div 50" Y path w] by (simp add: wait_for_socket_def)
  moreover have "polls Y path 100 w = (True, (g_usleep Y 50000 ^^ n) w)"
    using polls_cases [of 100 Y path w]
  proof (elim disjE exE conjE)
    fix k
    assume "\<forall>j<k. \<not> ?ex j" "?ex k" "polls Y path 100 w = (True, (g_usleep Y 50000 ^^ k) w)"
    moreover from this assms(2,3) have "k = n"
      using less_linear by blast
    ultimately show ?thesis
      by simp
  qed (use assms in blast)
  ultimately show ?thesis
    by simp
qed

lemma start_helper_connects:
  assumes "find_helper_binary Y libexecdir w = Some exe" "path \<noteq> []" "n < 100"
    and "spawns Y F st [exe, ''--socket'', path] path n (os_unlink Y path w)" "can_listen Y F path"
  shows "\<exists>rpc w2 c. start_helper (net_ops G s) Y libexecdir path w =
      Some ([Unlinked path, Spawned [exe, ''--socket'', path]], Inr (Ok rpc), w2) \<and>
    connected rpc c w2 \<and> rpc_next_id rpc = 1 \<and> net_helper w2 = st \<and> net_listening w2 path"
proof -
  let ?argv = "[exe, ''--socket'', path]"
  let ?w0 = "os_unlink Y path w"
  obtain w1 where w1: "g_spawn_async Y ?argv ?w0 = (None, w1)"
      "\<forall>j<n. \<not> g_file_test_exists Y path ((g_usleep Y 50000 ^^ j) w1)"
      "(g_usleep Y 50000 ^^ n) w1 = process_effect F st (tl ?argv) ?w0"
    using assms(4) unfolding spawns_def by blast
  obtain wl where wl: "net_Listen F path (os_Remove F path ?w0) = (True, wl)" "net_listening wl path"
      "\<And>st. g_file_test_exists Y path (wl\<lparr>net_helper := st\<rparr>)"
    using assms(5) unfolding can_listen_def by blast
  have eff: "process_effect F st (tl ?argv) ?w0 = wl\<lparr>net_helper := st\<rparr>"
    by (simp add: process_effect_def helper_main_socket [OF assms(2) wl(1)])
  note wait = wait_for_socket_found [OF assms(3) w1(2), unfolded w1(3) eff, OF wl(3)]
  obtain first w2 where first: "proton_rpc_new (net_ops G s) path (wl\<lparr>net_helper := st\<rparr>) = (first, w2)"
    by fastforce
  have "net_listening (wl\<lparr>net_helper := st\<rparr>) path"
    using wl(2) by simp
  from new_connected [OF this first] obtain rpc where rpc: "first = Ok rpc" "connected rpc (net_next wl) w2"
      "rpc_next_id rpc = 1" "net_helper w2 = st"
    by auto
  moreover have "net_listening w2 path"
    using first wl(2) by (auto simp: proton_rpc_new_def net_connect_def split: prod.splits ret.splits if_splits)
  ultimately show ?thesis
    using assms(1) w1(1) wait first by (auto simp: start_helper_def Let_def)
qed

text \<open>The other programs that a mount runs do not touch the link.\<close>

definition leaves_link :: "'w system \<Rightarrow> bool" where
  "leaves_link Y \<longleftrightarrow>
     (\<forall>argv w. \<exists>proc. g_subprocess_newv Y argv w = (Ok proc, w)) \<and>
     (\<forall>proc t w. snd (g_subprocess_communicate_utf8 Y proc t w) = w) \<and>
     (\<forall>s w. snd (g_timeout_add_seconds Y s w) = w)"

lemma store_tokens_leaves:
  assumes "leaves_link Y"
  shows "store_tokens Y account (Some u) (Some t) w = Some ([Stored ''uid'' u, Stored ''refresh_token'' t], w)"
proof -
  have "secret_tool_store Y account field secret w = Some w" for field secret
  proof -
    obtain proc where "g_subprocess_newv Y [''secret-tool'', ''store'', ''--label'',
        ''Proton Drive '' @ field @ '' ('' @ account @ '')'', ''schema'', ''org.gnome.proton.drive'',
        ''username'', account, ''field'', field] w = (Ok proc, w)"
      using assms unfolding leaves_link_def by blast
    moreover have "snd (g_subprocess_communicate_utf8 Y proc secret w) = w"
      using assms unfolding leaves_link_def by blast
    ultimately show ?thesis
      by (simp add: secret_tool_store_def Let_def)
  qed
  then show ?thesis
    by (simp add: store_tokens_def)
qed

section \<open>Samples for the witnesses\<close>

text \<open>A system in which nobody listens until a helper is spawned.\<close>

definition cold_net :: "(int, unit) helper net" where
  "cold_net = (helper_net fresh_helper)\<lparr>net_listening := (\<lambda>_. False)\<rparr>"

definition cold_listen :: "(int, unit) helper net listen_sys" where
  "cold_listen =
     \<lparr>os_Remove = (\<lambda>p w. w\<lparr>net_listening := (net_listening w)(p := False)\<rparr>),
      net_Listen = (\<lambda>p w. (\<not> net_listening w p, w\<lparr>net_listening := (net_listening w)(p := True)\<rparr>))\<rparr>"

definition cold_system :: "(int, unit) helper net system" where
  "cold_system = helper_system
     \<lparr>g_file_test_exists := (\<lambda>p w. net_listening w p),
      g_spawn_async := (\<lambda>argv w. (None, process_effect cold_listen (initial_helper 0 (s_disk sample_session)) (tl argv) w))\<rparr>"

section \<open>Properties\<close>

text \<open>
  C4. From nothing to a mounted drive: where no helper answers, the mount starts one with the account's
  socket path, which parses its command line, listens there within five seconds and has no session;
  the mount connects to it, resumes the session with the credentials of the keyring, stores the
  rotated tokens and succeeds. Afterwards the backend's client is connected to the helper, whose
  session agrees with the drive, so that the properties on reading and listing hold of them.
\<close>

theorem cold_mount:
  fixes w :: "('w, 'k) helper net"
  assumes "json_access_ok J" "json_text_ok J" "wire_ok J (hl_json L) (helper_handlers L crash)"
    and "path = socket_path_of (getuid Y w) acc" "acc \<noteq> []" "\<not> net_listening w path"
    and "find_helper_binary Y libexecdir w = Some exe" "n < 100" "can_listen Y F path" "leaves_link Y"
    and "spawns Y F (initial_helper w0 d) [exe, ''--socket'', path] path n (os_unlink Y path w)"
    and "\<And>field w. g_spawn_sync Y (lookup_argv acc field) w = (None, Some (cred field), w)"
    and "uid = g_strchomp (cred ''uid'')" "token = g_strchomp (cred ''refresh_token'')"
    and "sp = g_base64_decode J (Some (g_strchomp (cred ''salted_passphrase'')))"
    and "sendable J 1 ''ResumeSession'' (resume_params J uid token sp)"
    and "base64_DecodeString L (g_base64_encode J sp) = Some sp"
    and "NewClientWithRefresh (hl_mgr L) uid token w0 = (Inr c, w1)"
    and "unlockWithSaltedPassphrase (hl_mgr L) c (Some sp) w1 = (Inr (kr, email), w2)"
    and "findMainShare (hl_mgr L) c w2 = (Inr (shareID, volumeID, rootID), w3)"
    and "serves_drive (hl_api L) D" "dr_shareID D = shareID" "dr_rootID D = rootID" "dr_addrKR D = kr"
    and "cache_faithful (hl_sort L) contents (newSession (hl_mgr L) shareID volumeID rootID uid email kr w3 d)"
    and "au_UID c \<noteq> []" "au_AccessToken c \<noteq> []"
  shows "\<exists>i rpc conn self' h' w'. do_mount (net_ops (hl_json L) (helper_handlers L crash)) J Y libexecdir self (Some acc) h w =
      Some ([Unlinked path, Spawned [exe, ''--socket'', path], Stored ''uid'' (au_UID c),
             Stored ''refresh_token'' (au_RefreshToken c), Described acc (''Proton Drive ('' @ acc @ '')''),
             Job_done Job_succeeded, Timer_started i], self', h', w') \<and>
    be_rpc self' = Some rpc \<and> connected rpc conn w' \<and> drive_session L D contents (net_helper w')"
proof -
  let ?S = "net_ops (hl_json L) (helper_handlers L crash)"
  have "path \<noteq> []"
    by (simp add: assms(4) socket_path_of_def)
  from start_helper_connects [OF assms(7) this assms(8,11,9), of "hl_json L" "helper_handlers L crash"]
  obtain rpc w4 conn where start: "start_helper ?S Y libexecdir path w =
      Some ([Unlinked path, Spawned [exe, ''--socket'', path]], Inr (Ok rpc), w4)"
    and rpc: "connected rpc conn w4" "rpc_next_id rpc = 1" "net_helper w4 = initial_helper w0 d"
    by blast
  have ready: "link_ready J (hl_json L) (helper_handlers L crash) rpc conn None w4 ''ResumeSession'' (resume_params J uid token sp)"
    by (rule connected_ready [OF assms(1-3) rpc(1,2) assms(16)])
  have "world_of (net_helper w4) = (w0, d)"
    by (simp add: rpc(3) world_of_def initial_helper_def)
  from resume_through [OF ready assms(17) this assms(18-27)] obtain h1 where
    resumed: "proton_rpc_resume_session ?S J rpc uid token sp w4 =
        Some (Ok (Some (au_UID c), Some (au_RefreshToken c)), after_call rpc, w4\<lparr>net_helper := h1\<rparr>)"
      "drive_session L D contents h1"
    by blast
  let ?w5 = "w4\<lparr>net_helper := h1\<rparr>"
  obtain i where i: "g_timeout_add_seconds Y 5 ?w5 = (i, ?w5)"
    using assms(10) by (metis leaves_link_def prod.collapse)
  have refused: "proton_rpc_new ?S path w = (Fail (Some (Io_error (G_IO_ERROR_NUMBER 39) ''Could not connect'')), w)"
    using assms(6) by (simp add: proton_rpc_new_def net_connect_def)
  have "resume_stored ?S J Y acc rpc w4 =
      Some ([Stored ''uid'' (au_UID c), Stored ''refresh_token'' (au_RefreshToken c)], Job_succeeded, after_call rpc, ?w5)"
    using lookup_credentials_Some [OF assms(12), of w4] resumed(1) store_tokens_leaves [OF assms(10)]
    by (simp add: resume_stored_def assms(13-15))
  then have "do_mount ?S J Y libexecdir self (Some acc) h w =
      Some ([Unlinked path, Spawned [exe, ''--socket'', path], Stored ''uid'' (au_UID c),
             Stored ''refresh_token'' (au_RefreshToken c), Described acc (''Proton Drive ('' @ acc @ '')''),
             Job_done Job_succeeded, Timer_started i],
        self\<lparr>be_rpc := Some (after_call rpc), be_poll_id := i\<rparr>, h\<lparr>gh_sources := i # gh_sources h\<rparr>, ?w5)"
    using assms(5) by (simp add: do_mount_def Let_def refused start i flip: assms(4))
  moreover have "connected (after_call rpc) conn ?w5"
    using rpc(1) by (simp add: after_call_connected)
  ultimately show ?thesis
    using resumed(2) by (simp del: append.simps) blast
qed

theorem cold_mount_witness:
  "\<exists>i rpc conn self' h' w'. do_mount (net_ops sample_go (helper_handlers sample_lib no_crash)) sample_json cold_system
      ''/usr/libexec'' g_vfs_backend_proton_init (Some ''me'') empty_heap cold_net =
     Some ([Unlinked ''/run/user/0/proton-drive-me.sock'',
            Spawned [''/usr/libexec/proton-drive-helper'', ''--socket'', ''/run/user/0/proton-drive-me.sock''],
            Stored ''uid'' ''uid'', Stored ''refresh_token'' ''r2'', Described ''me'' ''Proton Drive (me)'',
            Job_done Job_succeeded, Timer_started i], self', h', w') \<and>
   be_rpc self' = Some rpc \<and> connected rpc conn w' \<and> drive_session sample_lib file_drive sample_contents (net_helper w')"
proof -
  let ?path = "''/run/user/0/proton-drive-me.sock''"
  let ?c = "\<lparr>au_UID = ''uid'', au_AccessToken = ''at'', au_RefreshToken = ''r2''\<rparr>"
  let ?sp = "g_base64_decode sample_json (Some (g_strchomp (''salted_passphrase'' @ [CHR 0x0A])))"
  have L: "hl_json sample_lib = sample_go" "hl_api sample_lib = file_api" "hl_mgr sample_lib = sample_mgr"
      "hl_sort sample_lib = sort_key cf_mtime"
    by (simp_all add: sample_lib_def)
  have path: "?path = socket_path_of (getuid cold_system cold_net) ''me''"
  proof -
    have "decimal 0 = ''0''"
      by code_simp
    then show ?thesis
      by (simp add: socket_path_of_def cold_system_def helper_system_def)
  qed
  have closed: "\<not> net_listening cold_net ?path" and nonempty: "''me'' \<noteq> []"
    by (simp_all add: cold_net_def)
  have exe: "find_helper_binary cold_system ''/usr/libexec'' cold_net = Some ''/usr/libexec/proton-drive-helper''"
    by (simp add: find_helper_binary_def cold_system_def helper_system_def)
  have listen: "can_listen cold_system cold_listen p" for p
    by (simp add: can_listen_def cold_system_def helper_system_def cold_listen_def)
  have leaves: "leaves_link cold_system"
    by (simp add: leaves_link_def cold_system_def helper_system_def)
  have spawn: "spawns cold_system cold_listen (initial_helper 0 (s_disk sample_session)) argv p 0 w" for argv p w
    by (simp add: spawns_def cold_system_def helper_system_def)
  have lookup: "g_spawn_sync cold_system (lookup_argv ''me'' field) w = (None, Some (field @ [CHR 0x0A]), w)" for field w
    by (simp add: cold_system_def helper_system_def lookup_argv_def)
  have refresh: "NewClientWithRefresh (hl_mgr sample_lib) (g_strchomp (''uid'' @ [CHR 0x0A]))
      (g_strchomp (''refresh_token'' @ [CHR 0x0A])) 0 = (Inr ?c, 0)"
    unfolding L chomp_newline sample_chomp by (simp add: sample_mgr_def)
  have share: "unlockWithSaltedPassphrase (hl_mgr sample_lib) ?c (Some ?sp) 0 = (Inr ((), ''me@x''), 0)"
    "findMainShare (hl_mgr sample_lib) ?c 0 = (Inr (''share'', ''vol'', ''root''), 0)"
    unfolding L by (simp_all add: sample_mgr_def unlockWithSaltedPassphrase_def findMainShare_def)
  have "serves_drive (hl_api sample_lib) file_drive" "wire_ok sample_json (hl_json sample_lib) (helper_handlers sample_lib no_crash)"
    unfolding L by (rule file_serves, rule sample_wire_ok)
  moreover have "dr_shareID file_drive = ''share''" "dr_rootID file_drive = ''root''" "dr_addrKR file_drive = ()"
    by (simp_all add: file_drive_def sample_drive_def)
  ultimately show ?thesis
    using cold_mount [OF sample_access_ok sample_text_ok _ path nonempty closed exe _ listen leaves spawn lookup
        refl refl refl sample_resume_sendable sample_base64_bytes refresh share, of no_crash file_drive
        sample_contents g_vfs_backend_proton_init empty_heap] fresh_cache_faithful
    unfolding L by simp
qed

end
