(* ===== verification/Account_Setup.thy ===== *)
theory Account_Setup
  imports Setup_Assistant Helper_Start
begin

text \<open>
  The setup assistant over the helper: the Python program starts a helper of its own, and its calls go
  through the same server and handlers as those of the backend. Its JSON and its sockets are related
  to Go's by laws; a reply may arrive in any pieces. Shown: what becomes of every outcome of a log-in,
  and that a mount of the account resumes with the credentials of the session that was opened.
\<close>

section \<open>The link of the assistant\<close>

text \<open>Python and Go read each other's documents; \<open>writable\<close> are those that are valid text.\<close>

definition py_json_ok :: "'w setup_sys \<Rightarrow> go_json \<Rightarrow> (json \<Rightarrow> bool) \<Rightarrow> bool" where
  "py_json_ok Y G writable \<longleftrightarrow>
     (\<forall>j. writable j \<longrightarrow>
        json_Unmarshal G (json_dumps Y j) = Some j \<and> CHR 0x0A \<notin> set (json_dumps Y j) \<and> CHR 0x0D \<notin> set (json_dumps Y j) \<and>
        json_loads Y (json_Marshal G j @ [CHR 0x0A]) = Inr j \<and> CHR 0x0A \<notin> set (json_Marshal G j))"

text \<open>Calls of \<open>recv\<close> that together return \<open>bs\<close>, in pieces that are not empty.\<close>

inductive delivers :: "'w setup_sys \<Rightarrow> nat \<Rightarrow> string \<Rightarrow> 'w \<Rightarrow> 'w \<Rightarrow> bool" for Y c where
  all: "delivers Y c [] w w"
| piece: "sock_recv Y c w = (Inr chunk, w1) \<Longrightarrow> chunk \<noteq> [] \<Longrightarrow> delivers Y c bs w1 w2 \<Longrightarrow>
     delivers Y c (chunk @ bs) w w2"

text \<open>The operations of the sockets are those of the link, which is the part \<open>net_of\<close> of the world.\<close>

definition python_link ::
  "go_json \<Rightarrow> 'h handlers \<Rightarrow> 'w setup_sys \<Rightarrow> ('w \<Rightarrow> 'h net) \<Rightarrow> bool" where
  "python_link G s Y net_of \<longleftrightarrow>
     (\<forall>path w c n. net_connect path (net_of w) = (Ok c, n) \<longrightarrow>
        (\<exists>w'. sock_connect Y (Some path) w = (Inr c, w') \<and> net_of w' = n)) \<and>
     (\<forall>c bytes w n. net_write G s c bytes (net_of w) = (Ok (), n) \<longrightarrow>
        (\<exists>w'. sock_sendall Y c bytes w = (Inr (), w') \<and> net_of w' = n)) \<and>
     (\<forall>c w l n. net_read c None (net_of w) = Some (Ok l, n) \<longrightarrow>
        (\<exists>w'. delivers Y c (l @ [CHR 0x0A]) w w' \<and> net_of w' = n)) \<and>
     (\<forall>c w. net_of (sock_close Y c w) = net_close c (net_of w))"

lemma python_linkD:
  assumes "python_link G s Y net_of"
  shows "net_connect path (net_of w) = (Ok c, n) \<Longrightarrow> \<exists>w'. sock_connect Y (Some path) w = (Inr c, w') \<and> net_of w' = n"
    and "net_write G s c bytes (net_of w) = (Ok (), n) \<Longrightarrow> \<exists>w'. sock_sendall Y c bytes w = (Inr (), w') \<and> net_of w' = n"
    and "net_read c None (net_of w) = Some (Ok l, n) \<Longrightarrow> \<exists>w'. delivers Y c (l @ [CHR 0x0A]) w w' \<and> net_of w' = n"
    and "net_of (sock_close Y c w) = net_close c (net_of w)"
  using assms unfolding python_link_def by blast+

text \<open>However the reply is cut up, it is collected up to its newline.\<close>

lemma recv_reply_delivers:
  assumes "delivers Y c bs w w'" "bs \<noteq> []" "pre @ bs = l @ [CHR 0x0A]" "CHR 0x0A \<notin> set l"
  shows "recv_reply Y c pre w = Some (Inr (l @ [CHR 0x0A]), w')"
  using assms
proof (induction arbitrary: pre)
  case (piece w chunk w1 bs w2)
  have "\<not> (pre \<noteq> [] \<and> last pre = CHR 0x0A)"
  proof
    assume pre: "pre \<noteq> [] \<and> last pre = CHR 0x0A"
    from piece.prems(2) piece.hyps(2) have "set pre \<subseteq> set l"
      by (auto simp: append_eq_append_conv2 append_eq_Cons_conv)
    with pre piece.prems(3) show False
      using last_in_set by fastforce
  qed
  moreover have "recv_reply Y c (pre @ chunk) w1 = Some (Inr (l @ [CHR 0x0A]), w2)"
  proof (cases "bs = []")
    case True
    with piece.hyps(3) have "w1 = w2"
      by (auto elim: delivers.cases)
    with True piece.prems(2) show ?thesis
      by (simp add: recv_reply.simps)
  next
    case False
    with piece.IH [of "pre @ chunk"] piece.prems show ?thesis
      by simp
  qed
  ultimately show ?case
    using piece.hyps(1,2) by (subst recv_reply.simps) auto
qed simp

definition auth_request :: "string \<Rightarrow> (string \<times> json) list \<Rightarrow> json" where
  "auth_request meth params = JObject [(''id'', JInt 1), (''method'', JString meth), (''params'', JObject params)]"

text \<open>A call of the assistant is a dispatch of the helper.\<close>

lemma rpc_call_dispatch:
  assumes "python_link G s Y net_of" "py_json_ok Y G writable" "net_listening (net_of w) path"
    and "writable (auth_request meth params)" "length (json_dumps Y (auth_request meth params)) < max_token_size"
    and "dispatch s \<lparr>req_ID = 1, req_Method = meth, req_Params = Some (JObject params)\<rparr> (net_helper (net_of w)) = (resp, st)"
    and "writable (marshal_Response resp)"
  shows "\<exists>w'. rpc_call Y (Some path) meth params w = Some (Inr (marshal_Response resp), w') \<and> net_helper (net_of w') = st"
proof -
  note link = python_linkD [OF assms(1)]
  let ?doc = "auth_request meth params"
  let ?line = "json_dumps Y ?doc"
  let ?reply = "json_Marshal G (marshal_Response resp)"
  have doc: "json_Unmarshal G ?line = Some ?doc" "CHR 0x0A \<notin> set ?line" "CHR 0x0D \<notin> set ?line"
    and reply: "json_loads Y (?reply @ [CHR 0x0A]) = Inr (marshal_Response resp)" "CHR 0x0A \<notin> set ?reply"
    using assms(2,4,7) unfolding py_json_ok_def by blast+
  obtain c n1 where n1: "net_connect path (net_of w) = (Ok c, n1)" "net_conns n1 c = fresh_conn" "net_helper n1 = net_helper (net_of w)"
    using assms(3) by (auto simp: net_connect_def)
  from link(1) [OF n1(1)] obtain w1 where w1: "sock_connect Y (Some path) w = (Inr c, w1)" "net_of w1 = n1"
    by blast
  have "unmarshal_Request ?doc = Some \<lparr>req_ID = 1, req_Method = meth, req_Params = Some (JObject params)\<rparr>"
    by (simp add: auth_request_def field_defs)
  then have served: "serve_line G s ?line (net_helper n1) = ([?reply], st)"
    using assms(6) n1(3) doc by (simp add: serve_line_def drop_cr_id)
  let ?n2 = "set_conn c \<lparr>cs_inbuf = [], cs_outbuf = [?reply], cs_open = True\<rparr> (n1\<lparr>net_helper := st\<rparr>)"
  have "net_write G s c (?line @ [CHR 0x0A]) n1 = (Ok (), ?n2)"
    using n1(2) handleConn_line [OF doc(2) assms(5), of G s "net_helper n1"] served
    by (simp add: net_write_def fresh_conn_def)
  with link(2) [of c "?line @ [CHR 0x0A]" w1] w1(2) obtain w2 where
    w2: "sock_sendall Y c (?line @ [CHR 0x0A]) w1 = (Inr (), w2)" "net_of w2 = ?n2"
    by blast
  have "net_read c None (net_of w2) = Some (Ok ?reply, set_conn c fresh_conn (n1\<lparr>net_helper := st\<rparr>))"
    by (simp add: w2(2) net_read_def fresh_conn_def)
  from link(3) [OF this] obtain w3 where w3: "delivers Y c (?reply @ [CHR 0x0A]) w2 w3"
      "net_of w3 = set_conn c fresh_conn (n1\<lparr>net_helper := st\<rparr>)"
    by blast
  have "recv_reply Y c [] w2 = Some (Inr (?reply @ [CHR 0x0A]), w3)"
    by (rule recv_reply_delivers [OF w3(1)]) (simp_all add: reply(2))
  with w1(1) w2(1) reply(1) have "rpc_call Y (Some path) meth params w = Some (Inr (marshal_Response resp), sock_close Y c w3)"
    by (simp add: rpc_call_def auth_request_def)
  moreover have "net_helper (net_of (sock_close Y c w3)) = st"
    by (simp add: link(4) w3(2) net_close_def)
  ultimately show ?thesis
    by blast
qed

section \<open>Logging in\<close>

lemma unmarshal_auth:
  "unmarshal_params L auth_param (Some (JObject [(''username'', JString u), (''password'', JString password)])) = Inr (u, password)"
  by (simp add: unmarshal_params_def auth_param_def field_defs)

definition login_params :: "string \<Rightarrow> string \<Rightarrow> (string \<times> json) list" where
  "login_params u password = [(''username'', JString u), (''password'', JString password)]"

text \<open>What the helper answers to \<open>Auth\<close>, and what the assistant does next.\<close>

definition login_reply :: "('w, 'k, 'n, 'm) helper_lib \<Rightarrow> login_error + 's \<times> SessionCredentials \<Rightarrow> go_error + json option" where
  "login_reply L r =
     (case r of
        Inl (HVRequiredError tok methods) \<Rightarrow>
          Inl (Rpc_err \<lparr>re_Code = ErrHVRequired, re_Message = ''human verification required'',
            re_Details = Some (JObject [(''token'', JString tok), (''methods'', marshal_strings methods)])\<rparr>)
      | Inl (Login_error err) \<Rightarrow> Inl (rpc_error_of ErrAuthFailed (Error err))
      | Inr (s, creds) \<Rightarrow> Inr (Some (marshal_AuthResult (hl_json L) (auth_result_of creds))))"

definition login_next :: "('w, 'k, 'n, 'm) helper_lib \<Rightarrow> login_error + 's \<times> SessionCredentials \<Rightarrow> idle" where
  "login_next L r =
     (case r of
        Inl (HVRequiredError tok methods) \<Rightarrow> Show_hv tok
      | Inl (Login_error err) \<Rightarrow> Show_err (Error err)
      | Inr (s, creds) \<Rightarrow> Store_and_finish (marshal_AuthResult (hl_json L) (auth_result_of creds)))"

lemma handle_Auth_reply:
  assumes "world_of h = (w0, d)" "NewSession (hl_mgr L) u password d w0 = Some (r, w1)" "h_session h = None"
  shows "\<exists>h'. handle_Auth L (Some (JObject (login_params u password))) h = Some (login_reply L r, h') \<and>
    (h_session h' = None \<longleftrightarrow> isl r)"
proof (cases r)
  case (Inl e)
  with assms show ?thesis
    by (cases e) (simp_all add: handle_Auth_def login_params_def unmarshal_auth login_reply_def set_world_def)
next
  case (Inr x)
  obtain s creds where x: "x = (s, creds)"
    by (cases x)
  obtain anchor p where "StartPoller (hl_api L) (hl_mgr L) s = (anchor, p)"
    by fastforce
  with Inr x assms show ?thesis
    by (simp add: handle_Auth_def login_params_def unmarshal_auth login_reply_def adopt_session_def)
qed

text \<open>What the assistant reads of an error of the helper.\<close>

lemma py_get_error:
  "py_get (marshal_RPCError e) ''code'' = Inr (Some (JInt (re_Code e)))"
  "py_get (marshal_RPCError e) ''message'' = Inr (Some (JString (re_Message e)))"
  "py_get (marshal_RPCError e) ''details'' = Inr (re_Details e)"
  by (cases "re_Details e"; simp add: marshal_RPCError_def field_defs)+

lemma handle_auth_resp_error:
  "handle_auth_resp (marshal_Response \<lparr>resp_ID = i, resp_Result = None, resp_Error = Some e\<rparr>) =
     (if re_Code e = ErrHVRequired
      then (let details = (case re_Details e of Some d \<Rightarrow> if truthy d then d else JObject [] | None \<Rightarrow> JObject []) in
            map_sum id (\<lambda>t. Show_hv (py_text t [])) (py_get details ''token''))
      else Inr (Show_err (re_Message e)))"
  by (simp add: handle_auth_resp_def marshal_Response_def field_defs py_get_error ErrHVRequired_def
      del: py_get.simps cong: option.case_cong)

lemma handle_auth_resp_result:
  "handle_auth_resp (marshal_Response \<lparr>resp_ID = i, resp_Result = Some x, resp_Error = None\<rparr>) = Inr (Store_and_finish x)"
  by (simp add: handle_auth_resp_def marshal_Response_def field_defs)

lemma login_reply_next:
  assumes "resp = (case login_reply L r of
      Inl (Rpc_err e) \<Rightarrow> \<lparr>resp_ID = 1, resp_Result = None, resp_Error = Some e\<rparr>
    | Inl (Plain_err msg) \<Rightarrow> \<lparr>resp_ID = 1, resp_Result = None,
        resp_Error = Some \<lparr>re_Code = ErrInternal, re_Message = msg, re_Details = None\<rparr>\<rparr>
    | Inr result \<Rightarrow> \<lparr>resp_ID = 1, resp_Result = result, resp_Error = None\<rparr>)"
  shows "handle_auth_resp (marshal_Response resp) = Inr (login_next L r)"
proof (cases r)
  case (Inl e)
  then show ?thesis
    unfolding assms
    by (cases e) (simp_all add: login_reply_def login_next_def rpc_error_of_def handle_auth_resp_error field_defs Err_defs)
next
  case (Inr x)
  then show ?thesis
    unfolding assms
    by (cases x) (simp add: login_reply_def login_next_def handle_auth_resp_result)
qed

text \<open>The helper that the assistant starts: it has got through \<open>main\<close> when the socket appears.\<close>

definition starts_helper ::
  "('w \<Rightarrow> 'h net) \<Rightarrow> 'h net listen_sys \<Rightarrow> 'h \<Rightarrow> string \<Rightarrow> 'w \<Rightarrow> 'w \<Rightarrow> bool" where
  "starts_helper net_of F st path w w' \<longleftrightarrow>
     path \<noteq> [] \<and> net_of w' = process_effect F st [''--socket'', path] (net_of w) \<and>
     (\<exists>n. net_Listen F path (os_Remove F path (net_of w)) = (True, n) \<and> net_listening n path)"

lemma starts_helper_net:
  assumes "starts_helper net_of F st path w w'"
  shows "net_listening (net_of w') path" "net_helper (net_of w') = st"
  using assms by (auto simp: starts_helper_def process_effect_def helper_main_socket)

text \<open>The call of the thread, up to what is queued for the main loop.\<close>

lemma auth_call:
  fixes L :: "('w, 'k, 'n, 'm) helper_lib"
  assumes "python_link (hl_json L) (helper_handlers L crash) Y net_of" "py_json_ok Y (hl_json L) writable"
    and "\<And>req st. writable (marshal_Response (fst (dispatch (helper_handlers L crash) req st)))"
    and "writable (auth_request ''Auth'' (login_params u password))"
    and "length (json_dumps Y (auth_request ''Auth'' (login_params u password))) < max_token_size"
    and "starts_helper net_of F (initial_helper w0 d) path w2 w3"
    and "NewSession (hl_mgr L) u password d w0 = Some (r, wr)"
  shows "\<exists>resp w4. rpc_call Y (Some path) ''Auth'' (login_params u password) w3 = Some (Inr (marshal_Response resp), w4) \<and>
    handle_auth_resp (marshal_Response resp) = Inr (login_next L r) \<and>
    (\<forall>s creds. r = Inr (s, creds) \<longrightarrow>
       resp = \<lparr>resp_ID = 1, resp_Result = Some (marshal_AuthResult (hl_json L) (auth_result_of creds)), resp_Error = None\<rparr>) \<and>
    (h_session (net_helper (net_of w4)) = None \<longleftrightarrow> isl r)"
proof -
  note helper = starts_helper_net [OF assms(6)]
  have h: "world_of (initial_helper w0 d) = (w0, d)" "h_session (initial_helper w0 d :: ('w, 'k) helper) = None"
    by (simp_all add: world_of_def initial_helper_def)
  from handle_Auth_reply [OF h(1) assms(7) h(2)] obtain h' where
    auth: "handle_Auth L (Some (JObject (login_params u password))) (initial_helper w0 d) = Some (login_reply L r, h')"
      "h_session h' = None \<longleftrightarrow> isl r"
    by (elim exE conjE) (rule that)
  let ?req = "\<lparr>req_ID = 1, req_Method = ''Auth'', req_Params = Some (JObject (login_params u password))\<rparr>"
  obtain resp st where resp: "dispatch (helper_handlers L crash) ?req (net_helper (net_of w3)) = (resp, st)"
    by fastforce
  have lookup: "helper_handlers L crash ''Auth'' = Some (or_crash crash (handle_Auth L))"
    by (simp add: helper_handlers_def Register_def NewServer_def)
  have r: "st = h'" "resp = (case login_reply L r of
      Inl (Rpc_err e) \<Rightarrow> \<lparr>resp_ID = 1, resp_Result = None, resp_Error = Some e\<rparr>
    | Inl (Plain_err msg) \<Rightarrow> \<lparr>resp_ID = 1, resp_Result = None,
        resp_Error = Some \<lparr>re_Code = ErrInternal, re_Message = msg, re_Details = None\<rparr>\<rparr>
    | Inr result \<Rightarrow> \<lparr>resp_ID = 1, resp_Result = result, resp_Error = None\<rparr>)"
    using resp by (auto simp: dispatch_def lookup or_crash_def helper(2) auth(1) split: sum.splits go_error.splits)
  have "writable (marshal_Response resp)"
    using assms(3) [of ?req "net_helper (net_of w3)"] resp by simp
  from rpc_call_dispatch [OF assms(1,2) helper(1) assms(4,5) resp this] obtain w4 where
    "rpc_call Y (Some path) ''Auth'' (login_params u password) w3 = Some (Inr (marshal_Response resp), w4)"
    "net_helper (net_of w4) = st"
    by blast
  with r(1) auth(2) login_reply_next [OF r(2)] r(2) show ?thesis
    by (auto simp: login_reply_def)
qed

section \<open>Samples for the witnesses\<close>

text \<open>The world is the link and a keyring; the helper of the assistant needs a pause to start.\<close>

definition linked_setup ::
  "(int, unit, string, string) helper_lib \<Rightarrow> ((int, unit) helper net \<times> (string \<times> string \<rightharpoonup> string)) setup_sys" where
  "linked_setup L =
     \<lparr>os_access_x = (\<lambda>p w. True), shutil_which = (\<lambda>p w. None), mktemp = (\<lambda>w. (''/tmp/s.sock'', w)),
      popen = (\<lambda>argv w. (Inr 7, w)),
      terminate = (\<lambda>p w. w), path_exists = (\<lambda>p (n, k). net_listening n p), path_unlink = (\<lambda>p w. w),
      sleep_100ms = (\<lambda>(n, k). (process_effect cold_listen (initial_helper 0 (s_disk sample_session)) [''--socket'', ''/tmp/s.sock''] n, k)),
      run_check = (\<lambda>argv v (n, k). (Inr (), n, k((argv ! 7, argv ! 9) \<mapsto> v))),
      emit_signal = (\<lambda>sig u w. (Inl ''no bus'', w)),
      sock_connect = (\<lambda>p (n, k). case net_connect (the p) n of (Ok c, n) \<Rightarrow> (Inr c, n, k) | (Fail e, n) \<Rightarrow> (Inl ''refused'', n, k)),
      sock_sendall = (\<lambda>c b (n, k). case net_write (hl_json L) (helper_handlers L no_crash) c b n of
        (Ok u, n) \<Rightarrow> (Inr (), n, k) | (Fail e, n) \<Rightarrow> (Inl ''broken pipe'', n, k)),
      sock_recv = (\<lambda>c (n, k). case net_read c None n of
        Some (Ok l, n) \<Rightarrow> (Inr (l @ [CHR 0x0A]), n, k) | _ \<Rightarrow> (Inr [], n, k)),
      sock_close = (\<lambda>c (n, k). (net_close c n, k)),
      json_dumps = json_generator_to_data sample_json,
      json_loads = (\<lambda>d. case parse_line (butlast d) of None \<Rightarrow> Inl ''JSONDecodeError'' | Some j \<Rightarrow> Inr j)\<rparr>"

definition linked_keyring :: "((int, unit) helper net \<times> (string \<times> string \<rightharpoonup> string)) system" where
  "linked_keyring =
     \<lparr>getuid = (\<lambda>w. 0), g_file_test_exists = (\<lambda>p w. True), g_file_test_is_executable = (\<lambda>p w. True),
      g_find_program_in_path = (\<lambda>p w. None), g_usleep = (\<lambda>n w. w), os_unlink = (\<lambda>p w. w),
      g_spawn_async = (\<lambda>argv w. (None, w)),
      g_spawn_sync = (\<lambda>argv w. (None, Some (case snd w (argv ! 5, argv ! 7) of None \<Rightarrow> [] | Some v \<Rightarrow> v), w)),
      g_subprocess_newv = (\<lambda>argv w. (Ok 1, w)), g_subprocess_communicate_utf8 = (\<lambda>p s w. (None, w)),
      g_timeout_add_seconds = (\<lambda>n w. (1, w))\<rparr>"

text \<open>An account that can be logged in to.\<close>

definition login_lib :: "(int, unit, string, string) helper_lib" where
  "login_lib = sample_lib\<lparr>hl_mgr := sample_mgr
     \<lparr>NewClientWithLogin := (\<lambda>u p hv w. (Inr \<lparr>au_UID = ''u1'', au_AccessToken = ''at'', au_RefreshToken = ''t1''\<rparr>, w)),
      GetSalts := (\<lambda>c w. (Inr (\<lambda>p k. Inr [120]), w))\<rparr>\<rparr>"

lemma linked_keyring_ok: "keyring_ok snd (linked_setup L) linked_keyring"
  by (simp add: keyring_ok_def linked_setup_def linked_keyring_def store_argv_def lookup_argv_def split: prod.split)

lemma linked_python: "python_link (hl_json L) (helper_handlers L no_crash) (linked_setup L) fst"
proof -
  have "delivers (linked_setup L) c (l @ [CHR 0x0A]) w (n, snd w)" if "net_read c None (fst w) = Some (Ok l, n)" for c w l n
  proof -
    have "sock_recv (linked_setup L) c w = (Inr (l @ [CHR 0x0A]), n, snd w)"
      using that by (cases w) (simp add: linked_setup_def)
    from delivers.piece [OF this _ delivers.all] show ?thesis
      by simp
  qed
  moreover have "sock_connect (linked_setup L) (Some path) w = (Inr c, n, snd w)" if "net_connect path (fst w) = (Ok c, n)" for path c w n
    using that by (cases w) (simp add: linked_setup_def)
  moreover have "sock_sendall (linked_setup L) c b w = (Inr (), n, snd w)"
    if "net_write (hl_json L) (helper_handlers L no_crash) c b (fst w) = (Ok (), n)" for c b w n
    using that by (cases w) (simp add: linked_setup_def)
  moreover have "fst (sock_close (linked_setup L) c w) = net_close c (fst w)" for c w
    by (cases w) (simp add: linked_setup_def)
  ultimately show ?thesis
    unfolding python_link_def by (intro conjI allI impI) (rule exI, rule conjI, assumption, simp; fail | simp)+
qed

lemma linked_json: "hl_json L = sample_go \<Longrightarrow> py_json_ok (linked_setup L) (hl_json L) (\<lambda>_. True)"
  by (simp add: py_json_ok_def linked_setup_def sample_go_def sample_json_def enc_chars parse_line_enc)

lemma linked_helper:
  "find_helper (linked_setup L) ''/opt'' w = Some ''/opt/helper/proton-drive-helper''"
  "mktemp (linked_setup L) w = (''/tmp/s.sock'', w)"
  by (simp_all add: find_helper_def linked_setup_def)

text \<open>The world when the helper listens.\<close>

definition linked_world :: "(int, unit) helper net \<times> (string \<times> string \<rightharpoonup> string)" where
  "linked_world = (process_effect cold_listen (initial_helper 0 (s_disk sample_session)) [''--socket'', ''/tmp/s.sock''] cold_net, Map.empty)"

lemma cold_effect:
  "process_effect cold_listen (initial_helper 0 d) [''--socket'', ''/tmp/s.sock''] cold_net =
     cold_net\<lparr>net_listening := (\<lambda>_. False)(''/tmp/s.sock'' := True), net_helper := initial_helper 0 d\<rparr>"
  by (simp add: process_effect_def helper_main_def cold_listen_def cold_net_def)

lemma linked_spawn:
  "popen (linked_setup L) argv w = (Inr 7, w)"
  "await_socket (linked_setup L) 50 ''/tmp/s.sock'' (cold_net, Map.empty) = (True, linked_world)"
  "starts_helper fst cold_listen (initial_helper 0 (s_disk sample_session)) ''/tmp/s.sock'' (cold_net, Map.empty) linked_world"
proof -
  show "popen (linked_setup L) argv w = (Inr 7, w)"
    by (simp add: linked_setup_def)
  have "\<not> path_exists (linked_setup L) ''/tmp/s.sock'' (cold_net, Map.empty)"
    by (simp add: linked_setup_def cold_net_def)
  moreover have "sleep_100ms (linked_setup L) (cold_net, Map.empty) = linked_world"
    by (simp add: linked_setup_def linked_world_def)
  moreover have "path_exists (linked_setup L) ''/tmp/s.sock'' linked_world"
    by (simp add: linked_setup_def linked_world_def cold_effect)
  ultimately show "await_socket (linked_setup L) 50 ''/tmp/s.sock'' (cold_net, Map.empty) = (True, linked_world)"
    by (simp add: eval_nat_numeral)
  show "starts_helper fst cold_listen (initial_helper 0 (s_disk sample_session)) ''/tmp/s.sock'' (cold_net, Map.empty) linked_world"
    by (simp add: starts_helper_def linked_world_def cold_listen_def cold_net_def)
qed

lemma linked_request:
  "length (json_dumps (linked_setup L) (auth_request ''Auth'' (login_params ''a@b'' ''secret''))) < max_token_size"
  by (simp add: linked_setup_def sample_json_def auth_request_def login_params_def enc_str_def esc_def enc_word_def max_token_size_def)

section \<open>Properties\<close>

text \<open>
  C19. Whatever becomes of a log-in reaches the user: the assistant's thread starts a helper, whose
  \<open>NewSession\<close> is run with the address (stripped of white space) and the password. A session makes the
  thread queue the storing of exactly its credentials; a demand for a human verification queues the
  dialog with its token; any other error queues its text. The helper has a session in the first case
  only, and it is held for the calls that follow.
\<close>

theorem login_outcomes:
  fixes L :: "('w, 'k, 'n, 'm) helper_lib"
  assumes "python_link (hl_json L) (helper_handlers L crash) Y net_of" "py_json_ok Y (hl_json L) writable"
    and "\<And>req st. writable (marshal_Response (fst (dispatch (helper_handlers L crash) req st)))"
    and "writable (auth_request ''Auth'' (login_params u password))"
    and "length (json_dumps Y (auth_request ''Auth'' (login_params u password))) < max_token_size"
    and "py_strip email = u" "u \<noteq> []" "password \<noteq> []"
    and "find_helper Y here w = Some helper" "mktemp Y w = (path, w1)"
    and "popen Y [helper, ''--socket'', path] w1 = (Inr p, w2)" "await_socket Y 50 path w2 = (True, w3)"
    and "starts_helper net_of F (initial_helper w0 d) path w2 w3"
    and "NewSession (hl_mgr L) u password d w0 = Some (r, wr)"
  shows "\<exists>s1 w4. auth_thread Y here (fst (on_sign_in Y email password setup_window_new w)) w = Some (s1, w4) \<and>
    sw_idle s1 =
      [case r of
         Inl (HVRequiredError tok methods) \<Rightarrow> Show_hv tok
       | Inl (Login_error err) \<Rightarrow> Show_err (Error err)
       | Inr (s, creds) \<Rightarrow> Store_and_finish (marshal_AuthResult (hl_json L) (auth_result_of creds))] \<and>
    sw_proc s1 = Some p \<and> (h_session (net_helper (net_of w4)) = None \<longleftrightarrow> isl r)"
proof -
  let ?s = "fst (on_sign_in Y email password setup_window_new w)"
  have s: "sw_username ?s = u" "sw_password ?s = password" "sw_idle ?s = []"
    by (simp_all add: on_sign_in_def Let_def setup_window_new_def assms(6-8))
  from auth_call [OF assms(1-5,13,14)] obtain resp w4 where
    call: "rpc_call Y (Some path) ''Auth'' [(''username'', JString u), (''password'', JString password)] w3 =
        Some (Inr (marshal_Response resp), w4)"
      "handle_auth_resp (marshal_Response resp) = Inr (login_next L r)"
      "h_session (net_helper (net_of w4)) = None \<longleftrightarrow> isl r"
    unfolding login_params_def by (elim exE conjE) (rule that)
  from auth_thread_answered [OF assms(9-12), of ?s] call(1) s(1,2) show ?thesis
    using call(2,3) s(3) by (auto simp: finish_auth_def queue_def login_next_def)
qed

theorem login_outcomes_witness:
  "\<exists>s1 w4. auth_thread (linked_setup sample_lib) ''/opt''
       (fst (on_sign_in (linked_setup sample_lib) ''a@b '' ''secret'' setup_window_new (cold_net, Map.empty))) (cold_net, Map.empty) =
       Some (s1, w4) \<and>
     sw_idle s1 = [Show_err (Error DeadlineExceeded)] \<and> sw_proc s1 = Some 7 \<and> h_session (net_helper (fst w4)) = None"
proof -
  have strip: "py_strip ''a@b '' = ''a@b''"
    by (simp add: py_strip_def py_isspace_def)
  have J: "hl_json sample_lib = sample_go"
    by (simp add: sample_lib_def)
  have new: "NewSession (hl_mgr sample_lib) ''a@b'' ''secret'' (s_disk sample_session) 0 = Some (Inl (Login_error DeadlineExceeded), 0)"
    by (simp add: NewSession_def sample_lib_def sample_mgr_def)
  from login_outcomes [OF linked_python linked_json [OF J] _ _ linked_request strip _ _ linked_helper(1,2) linked_spawn new]
  show ?thesis
    by simp
qed

text \<open>
  C18. From the password to the next mount: where Proton lets the user in, the assistant stores the
  credentials of the session that the helper opened, ends the helper and announces the account; a
  mount reads back exactly the uid, the refresh token and (through base64) the salted passphrase of
  that session, which is what it resumes with, so the password itself is stored nowhere.
\<close>

theorem login_to_mount:
  fixes L :: "('w, 'k, 'n, 'm) helper_lib"
  assumes "python_link (hl_json L) (helper_handlers L crash) Y net_of" "py_json_ok Y (hl_json L) writable"
    and "\<And>req st. writable (marshal_Response (fst (dispatch (helper_handlers L crash) req st)))"
    and "writable (auth_request ''Auth'' (login_params u password))"
    and "length (json_dumps Y (auth_request ''Auth'' (login_params u password))) < max_token_size"
    and "py_strip email = u" "u \<noteq> []" "password \<noteq> []"
    and "find_helper Y here w = Some helper" "mktemp Y w = (path, w1)"
    and "popen Y [helper, ''--socket'', path] w1 = (Inr p, w2)" "await_socket Y 50 path w2 = (True, w3)"
    and "starts_helper net_of F (initial_helper w0 d) path w2 w3"
    and "NewSession (hl_mgr L) u password d w0 = Some (Inr (sess, creds), wr)" "sc_SaltedPassphrase creds = Some sp"
    and "keyring_ok secret Y Z" "\<And>label f v w. \<exists>w'. secret_store Y label u f v w = (Inr (), w')"
    and "g_strchomp (sc_UID creds) = sc_UID creds" "g_strchomp (sc_RefreshToken creds) = sc_RefreshToken creds"
    and "g_strchomp (base64_StdEncoding (hl_json L) sp) = base64_StdEncoding (hl_json L) sp"
    and "base64_wire_ok J (hl_json L)"
  shows "\<exists>s1 s2 w4 w5 salted.
    auth_thread Y here (fst (on_sign_in Y email password setup_window_new w)) w = Some (s1, w4) \<and>
    run_idle Y (hd (sw_idle s1)) s1 w4 = (s2, w5) \<and> \<not> sw_open s2 \<and>
    sw_log s2 = [Helper_started p, Announced u, Helper_terminated p] \<and>
    fst (lookup_credentials Z u w5) = Inr (Some (sc_UID creds), Some (sc_RefreshToken creds), Some salted) \<and>
    g_base64_decode J (Some salted) = sp"
proof -
  let ?salted = "base64_StdEncoding (hl_json L) sp"
  let ?rs = "[(''uid'', JString (sc_UID creds)), (''refresh_token'', JString (sc_RefreshToken creds)),
              (''salted_passphrase'', JString ?salted)]"
  have result: "marshal_AuthResult (hl_json L) (auth_result_of creds) = JObject ?rs"
    by (simp add: marshal_AuthResult_def auth_result_of_def marshal_bytes_def assms(15))
  from auth_call [OF assms(1-5,13,14)] obtain resp w4 where
    call: "rpc_call Y (Some path) ''Auth'' (login_params u password) w3 = Some (Inr (marshal_Response resp), w4)"
      "resp = \<lparr>resp_ID = 1, resp_Result = Some (marshal_AuthResult (hl_json L) (auth_result_of creds)), resp_Error = None\<rparr>"
    by auto
  have doc: "marshal_Response resp = JObject [(''id'', JInt 1), (''result'', JObject ?rs)]"
    by (simp add: call(2) result marshal_Response_def)
  note rpc = call(1) [unfolded doc login_params_def]
  have fields: "json_field [(''id'', JInt 1), (''result'', JObject ?rs)] ''error'' = None"
    "json_field [(''id'', JInt 1), (''result'', JObject ?rs)] ''result'' = Some (JObject ?rs)"
    "json_field ?rs ''uid'' = Some (JString (sc_UID creds))" "json_field ?rs ''refresh_token'' = Some (JString (sc_RefreshToken creds))"
    "json_field ?rs ''salted_passphrase'' = Some (JString ?salted)"
    by (simp_all add: field_defs)
  have "g_base64_decode J (Some ?salted) = sp"
    using assms(21) by (simp add: base64_wire_ok_def)
  moreover from sign_in_stores [OF assms(16,6-12) rpc fields assms(17) new_monitor_ok [of sample_variants]]
  obtain s1 s2 w5 where done_all:
    "auth_thread Y here (fst (on_sign_in Y email password setup_window_new w)) w = Some (s1, w4)"
    "sw_idle s1 = [Store_and_finish (JObject ?rs)]" "run_idle Y (Store_and_finish (JObject ?rs)) s1 w4 = (s2, w5)"
    "\<not> sw_open s2" "sw_log s2 = [Helper_started p, Announced u, Helper_terminated p]"
    "fst (lookup_credentials Z u w5) =
       Inr (Some (g_strchomp (sc_UID creds)), Some (g_strchomp (sc_RefreshToken creds)), Some (g_strchomp ?salted))"
    by blast
  moreover have "run_idle Y (hd (sw_idle s1)) s1 w4 = (s2, w5)"
    by (simp only: done_all(2,3) list.sel)
  ultimately show ?thesis
    unfolding assms(18-20) by blast
qed

theorem login_to_mount_witness:
  "\<exists>s1 s2 w4 w5 salted. auth_thread (linked_setup login_lib) ''/opt''
       (fst (on_sign_in (linked_setup login_lib) ''a@b '' ''secret'' setup_window_new (cold_net, Map.empty))) (cold_net, Map.empty) =
       Some (s1, w4) \<and>
     run_idle (linked_setup login_lib) (hd (sw_idle s1)) s1 w4 = (s2, w5) \<and> \<not> sw_open s2 \<and>
     fst (lookup_credentials linked_keyring ''a@b'' w5) = Inr (Some ''u1'', Some ''t1'', Some salted)"
proof -
  let ?creds = "\<lparr>sc_UID = ''u1'', sc_RefreshToken = ''t1'', sc_SaltedPassphrase = Some [120 :: byte]\<rparr>"
  have strip: "py_strip ''a@b '' = ''a@b''"
    by (simp add: py_strip_def py_isspace_def)
  have J: "hl_json login_lib = sample_go"
    by (simp add: login_lib_def sample_lib_def)
  have new: "\<exists>sess. NewSession (hl_mgr login_lib) ''a@b'' ''secret'' (s_disk sample_session) 0 = Some (Inr (sess, ?creds), 0)"
    by (simp add: NewSession_def login_def unlockPrimaryAddress_def unlockWithSaltedPassphrase_def enter_share_def
        findMainShare_def with_login_error_def login_lib_def sample_lib_def sample_mgr_def)
  then obtain sess where new: "NewSession (hl_mgr login_lib) ''a@b'' ''secret'' (s_disk sample_session) 0 = Some (Inr (sess, ?creds), 0)" ..
  have store: "\<exists>w'. secret_store (linked_setup login_lib) label u f v w = (Inr (), w')" for label u f v w
    by (simp add: secret_store_def linked_setup_def split: prod.split)
  have chomp: "g_strchomp (sc_UID ?creds) = sc_UID ?creds" "g_strchomp (sc_RefreshToken ?creds) = sc_RefreshToken ?creds"
    by (simp_all add: g_strchomp_def g_ascii_isspace_def)
  have base64: "g_strchomp (base64_StdEncoding (hl_json login_lib) [120]) = base64_StdEncoding (hl_json login_lib) [120]"
    "base64_wire_ok sample_json (hl_json login_lib)"
  proof -
    have "char_of (120 :: nat) = CHR ''x''"
      by code_simp
    then show "g_strchomp (base64_StdEncoding (hl_json login_lib) [120]) = base64_StdEncoding (hl_json login_lib) [120]"
      by (simp add: J sample_go_def g_strchomp_def g_ascii_isspace_def)
    show "base64_wire_ok sample_json (hl_json login_lib)"
      unfolding J by (rule sample_base64_wire_ok)
  qed
  from login_to_mount [OF linked_python linked_json [OF J] _ _ linked_request strip _ _ linked_helper(1,2) linked_spawn new
      _ linked_keyring_ok store chomp base64]
  show ?thesis
    by fastforce
qed

end
