(* ===== verification/Spec2Isabelle.thy ===== *)
theory Spec2Isabelle
  imports Rpc_Threads Daemon_Main Drive_Changes Reply_Types Account_Setup
begin

text \<open>
  A verification library for gnome-proton-drive: a GVfs backend in C (\<open>src/backend\<close>) that shows a
  Proton Drive account as a file system, and its helper process in Go (\<open>src/helper\<close>), which talks
  to the Proton servers. The two exchange JSON documents, one per line, over a Unix socket. Beside
  them stand a volume monitor in Vala (\<open>src/volume-monitor\<close>) and a setup assistant in Python
  (\<open>src/proton-drive-setup\<close>).

  \<^bold>\<open>The program.\<close> GVfs starts the daemon \<open>gvfsd-proton\<close> (\<open>daemon-main.c\<close>), which owns a bus name and
  mounts the backend (\<open>gvfsbackendproton.c\<close>). A mount connects to the helper of the account, or
  spawns one, resumes the session with the credentials of the keyring and stores the rotated
  tokens. From then on GVfs runs jobs (query, enumerate, open, read, mkdir, monitor) in several
  threads, each of which makes a blocking call through one shared client (\<open>proton-rpc.c\<close>); a timer
  polls the helper for remote changes and notifies the monitors. The helper (\<open>main.go\<close>) serves each
  request from one session (\<open>session.go\<close>) with a metadata cache (\<open>metacache.go\<close>), a cache of decrypted
  blocks on disk (\<open>blockcache.go\<close>) and thumbnails (\<open>thumbnail.go\<close>); its poller (\<open>events.go\<close>) drops what
  changed remotely from these caches and queues it for the backend. The setup assistant logs in
  through a helper of its own and stores the credentials; the volume monitor shows each account of the
  keyring as a volume, whose URI starts a mount.

  \<^bold>\<open>The theories\<close>, in the order of their imports.

  \<^item> \<open>Prelude\<close>: integer types, \<open>GError\<close> and the "NULL plus error" return convention (\<open>ret\<close>), the
    outcome type (\<open>None\<close>, written \<open>stuck\<close>, is what C leaves undefined: a NULL or dangling pointer, an
    access out of bounds, a wait without end), C strings, decimal numerals.
  \<^item> \<open>Json_Glib\<close>: JSON documents, and JSON-GLib as the parameter \<open>json_lib\<close> with its documented laws.
  \<^item> \<open>Proton_Rpc\<close>: every function of \<open>proton-rpc.c\<close> but the destructors of plain data. \<open>struct
    _ProtonRpc\<close> is the record \<open>proton_rpc\<close>; GIO's sockets are the parameter \<open>socket_ops\<close>; a function
    \<open>f (rpc, ..., &error)\<close> is a function of the record and the world \<open>'w\<close> into an outcome. The locale
    \<open>rpc_transport\<close> states what the client needs of a connection; inside it the client's invariant
    and the pairing of replies with requests are proved.
  \<^item> \<open>Helper_Server\<close>: \<open>rpc/server.go\<close> and the request and response types of \<open>rpc/types.go\<close>, with the
    64 KiB line limit of Go's scanner; the handlers are a parameter.
  \<^item> \<open>Sample_Libs\<close>: a JSON text format that satisfies the laws of the two JSON parameters, for the
    witnesses.
  \<^item> \<open>Rpc_Link\<close>: client and server connected, as an instance of \<open>socket_ops\<close>; \<open>rpc_transport\<close> is
    interpreted here. A call equals the helper's dispatch; cancellation and its two outcomes.
  \<^item> \<open>Helper_Types\<close>: the result types of \<open>rpc/types.go\<close> as Go marshals them and what the client reads.
  \<^item> \<open>Link_Failures\<close>: the client's structure over all runs; requests that are too long; closed
    connections.
  \<^item> \<open>Rpc_Threads\<close>: the client shared by threads, its calls cut into steps that interleave with each
    other and with the environment; \<open>rpc_transport_env\<close> extends \<open>rpc_transport\<close> by a law on the
    environment, and is interpreted on the link.
  \<^item> \<open>Monitors\<close>: the monitor table with its weak pointers, path matching, the poll callback, creation
    and finalisation of the backend object (\<open>gvfsbackendproton.c\<close>).
  \<^item> \<open>Backend_Ops\<close>: \<open>fill_file_info\<close> and the file jobs. The locale \<open>read_source\<close> is the contract between
    a reader issuing read jobs and \<open>do_read\<close>; its interpretation rests on the link.
  \<^item> \<open>Mount\<close>: \<open>do_mount\<close> with its helpers; the operating system is the parameter \<open>system\<close>, and a mount
    returns the list of its visible actions.
  \<^item> \<open>Daemon_Main\<close>: set-up of the process, command line, callbacks and exit status of the daemon.
  \<^item> \<open>Go_Path\<close>: the functions of Go's \<open>path\<close> and \<open>strings\<close> that the helper uses; absolute paths as lists
    of names.
  \<^item> \<open>Proton_Api\<close>: links, errors (\<open>errors.go\<close>) and the API client as the parameter \<open>proton_api\<close>.
  \<^item> \<open>Meta_Cache\<close>: the metadata cache; the locale \<open>ttl_cache\<close> is the contract of a cache with a time to
    live, interpreted for both of its maps.
  \<^item> \<open>Block_Cache\<close>: the block cache over a model of the disk whose system calls may fail; the locale
    \<open>forgetful_cache\<close> states that a cache may forget but not lie.
  \<^item> \<open>Drive_Session\<close>: path resolution, listing and metadata. \<open>coherent\<close>: everything cached agrees with the
    drive; \<open>walk\<close>: the reference without caches.
  \<^item> \<open>Range_Reads\<close>: reading a range through the block cache, online and offline.
  \<^item> \<open>Event_Poller\<close>: the queue, the anchor on disk, the handling of every event type, one poll.
  \<^item> \<open>Session_Start\<close>: log-in, resumption, the construction of a session.
  \<^item> \<open>Thumbnails\<close>, \<open>Make_Dir\<close>: the thumbnail cache; folder creation with its cryptography as a parameter.
  \<^item> \<open>Helper_Main\<close>: the thirteen handlers and the poller's tick over the record \<open>helper\<close>.
  \<^item> \<open>End_To_End\<close>: backend and helper together, for reading and listing.
  \<^item> \<open>Session_Life\<close>: resumption from the mount to the session, and the way of a deletion from the API's
    events to the monitors.
  \<^item> \<open>Helper_Runs\<close>: histories of requests and ticks (\<open>helper_run\<close>) and their invariant \<open>helper_good\<close>.
  \<^item> \<open>Drive_Changes\<close>: a drive that changes between the polls. \<open>tracked\<close>: the events that the session can
    place; \<open>told\<close>: what a poll must learn for the session to agree with the new drive.
  \<^item> \<open>Reply_Types\<close>: the result types of \<open>rpc/types.go\<close> as descriptions of JSON, and for each method its
    result type and error codes (\<open>helper_interface\<close>).
  \<^item> \<open>Server_Loop\<close>: \<open>Serve\<close> and \<open>handleConn\<close> with their goroutines as a step relation over all connections;
    \<open>requests_of\<close> and \<open>run_handlers\<close> are the reference without goroutines.
  \<^item> \<open>Helper_Start\<close>: the helper's command line and listening socket, \<open>Session.Close\<close> and the poller's \<open>Stop\<close>;
    a mount that starts its helper.
  \<^item> \<open>Volume_Monitor\<close>: the account watcher and the remote volume monitor as a labelled step relation.
  \<^item> \<open>Setup_Captcha\<close>, \<open>Setup_Assistant\<close>: the trajectory code and the proof of work; the sign-in.
  \<^item> \<open>Account_Setup\<close>: the assistant's calls served by the handlers of \<open>Helper_Main\<close>, with replies that arrive in
    any pieces.

  \<^bold>\<open>What is shown.\<close> Refinement: a remote call is a local dispatch; the goroutines of a connection do
  what the sequential loop computes; a mount that finds no helper starts one and ends with a session on
  the drive; a log-in through the assistant stores the credentials that a mount reads; through both programs read jobs
  report the bytes of the file on the drive and enumerations its children, from every state that a
  history of requests can lead to, and also after the drive has changed and the poller has been told. Types: every
  response is of its method's type. Safety: no reply is taken for another's, also between threads and between
  connections, buffers are not overrun, weak pointers do not
  dangle, the mount specification is not used after its release, every mount job is completed once.
  Invariants: cached lookups agree with an uncached walk, a hit is fresh, a changed link with a known path is
  dropped from every cache, clients of the volume monitor mirror its volumes. Function:
  what each job and each handler reports, which watchers are told of a deletion, what a folder's update
  queues. Bounds: the event queue (64, newest kept), the block cache (within its size after a write
  unless nothing can be removed; a pass aims at 90 per cent). Round trips: a stored block, a folder's
  keys, client data, credentials. Termination: the wait for the socket (5000 ms, at most 100 polls; the
  32-bit counter does not wrap below 2^32 - 50); the proof of work, exactly where there is an answer.
  Errors: by code, and offline from the caches.

  Known defects are theorems as well: the client lost after a failed reconnection, connections closed by
  the helper that are never replaced, jobs failed from a NULL error, missing credentials that are not
  noticed, a refresh token lost by a failed resumption, a poll that ends the helper where there is no block
  cache, truncated blocks and thumbnails served, entries of a deleted path still found, a folder that
  cannot be created where its parent was not listed, credentials mixed by a failed store, a listed folder
  whose renaming is never reported, a goroutine that waits for ever after a failed write, an error of the
  API that is looked for under two types of which it has one (\<open>api_errors_disjoint\<close>).

  \<^bold>\<open>Bounds.\<close> Request ids are 64-bit; Go reads them as unsigned, JSON-GLib writes them as signed, so
  the properties on served calls ask for an id below 2^63, and JSON integers beyond 64 signed bits are not expressible. Buffers of a read are below 2^63 bytes; the
  end-to-end property on reads asks for jobs of at most 499 blocks of 4 MiB, since the helper fetches one
  page of 500. A tick in a history of \<open>Helper_Runs\<close> brings no change of a link (\<open>quiet\<close>), for the drive
  there does not change; a tick of \<open>Drive_Changes\<close> brings one event, or a refresh, on a drive where a link has
  one place and the cached paths are clean (a request for \<open>/a/\<close> is cached under this name, and no event of
  \<open>/a\<close> drops it). No other fuel or bound is used; \<open>handleConn\<close> terminates on the length of its
  input, and the loops that may run forever (\<open>wait_loop\<close>, \<open>recv_reply\<close>, \<open>pow_search\<close>) are partial functions
  in \<open>option\<close>, whose results are proved where a property uses them.

  \<^bold>\<open>What is not modelled.\<close> Jobs and mounts are sequential programs over the client's threads
  (\<open>Rpc_Threads\<close>), and the model has no unsynchronised access to the monitor table. In the
  helper one handler or one tick of the poller is one step: the goroutines of the connections interleave
  between handlers (\<open>Server_Loop\<close>), while the code locks neither the session's maps nor the variable that
  holds the session. A session that is replaced is dropped with its poller, which in the code keeps running. The
  contexts that cancel a handler when its connection closes. A thread of the assistant is one step.
  The client's refreshing of its token during a
  request (between requests it is a step of \<open>Helper_Runs\<close>). Callbacks of the daemon that GLib dispatches after the
  one that quits the main loop, in the same iteration. Directories and failing \<open>stat\<close> calls in the walk over
  the block cache. The texts of Python's exceptions but for \<open>KeyError\<close>.
  Several events in one poll of a changing drive, links moved between folders, and folders deleted with their
  contents, whose cached entries stay until they are out of date. Reference counts other than those of
  monitors, destructors of plain data, logging, class registration (\<open>class_init\<close>). Of the assistant: its
  widgets, the CAPTCHA's HTTP requests and images, the sending of codes. The D-Bus methods of the volume
  monitor that only acknowledge. GVfs (whose headers are copied into \<open>backend/gvfs-headers\<close>), GLib, GIO,
  JSON-GLib, libsecret, the Go and Python standard libraries and the Proton client beyond what is named
  as a parameter; TLS and the cryptography. The tests of the client. \<open>WriteParams\<close>, which belongs to no method.
\<close>

end
